(* ===== verification/Prelude.thy ===== *)
theory Prelude
  imports Complex_Main "HOL-Library.Word" "HOL-Library.AList" "HOL-Library.Monad_Syntax"
    "HOL-Library.List_Lexorder" "HOL-Library.Product_Lexorder" "HOL-Library.Char_ord" "HOL-Library.Multiset"
begin

text \<open>
  Shared vocabulary of the development: bytes as 8-bit words, the part of Python's \<open>str\<close>
  and \<open>bytes\<close> interface the program uses, dictionaries as association lists kept in
  insertion order (\<open>AList.update\<close> and \<open>AList.delete\<close> of the library are exactly
  \<open>d[k] = v\<close> and \<open>d.pop(k, None)\<close>), and the list lemmas several components share.

  Strings are lists of HOL characters (code points 0 to 255). Everything the program decodes from
  the air is ASCII, so the characters above 127 only stand for "not ASCII": \<open>replacement\<close>
  (code 255) is Python's U+FFFD. Clock readings (\<open>time.time()\<close>) are rationals.
\<close>

unbundle bit_operations_syntax

section \<open>Types\<close>

type_synonym byte = "8 word"
type_synonym bytes = "byte list"
type_synonym callsign = string
type_synonym timestamp = rat
type_synonym ('k, 'v) dict = "('k \<times> 'v) list"

named_theorems codec_simps \<open>evaluation rules of the byte codecs\<close>
named_theorems text_simps \<open>evaluation rules of the string functions\<close>

section \<open>Characters and strings\<close>

definition code :: "char \<Rightarrow> nat" where
  "code c = of_char c"

definition replacement :: char where
  "replacement = CHR 0xFF"

definition is_digit :: "char \<Rightarrow> bool" where
  "is_digit c \<longleftrightarrow> 48 \<le> code c \<and> code c \<le> 57"

definition is_upper :: "char \<Rightarrow> bool" where
  "is_upper c \<longleftrightarrow> 65 \<le> code c \<and> code c \<le> 90"

definition is_lower :: "char \<Rightarrow> bool" where
  "is_lower c \<longleftrightarrow> 97 \<le> code c \<and> code c \<le> 122"

definition is_space :: "char \<Rightarrow> bool" where
  "is_space c \<longleftrightarrow> (9 \<le> code c \<and> code c \<le> 13) \<or> (28 \<le> code c \<and> code c \<le> 32)
     \<or> code c = 133 \<or> code c = 160"

definition is_ascii :: "char \<Rightarrow> bool" where
  "is_ascii c \<longleftrightarrow> code c < 128"

definition is_call_char :: "char \<Rightarrow> bool" where
  "is_call_char c \<longleftrightarrow> is_upper c \<or> is_digit c"

definition up :: "char \<Rightarrow> char" where
  "up c = (if is_lower c then char_of (code c - 32) else c)"

definition low :: "char \<Rightarrow> char" where
  "low c = (if is_upper c then char_of (code c + 32) else c)"

definition upper :: "string \<Rightarrow> string" where
  "upper s = map up s"

definition lower :: "string \<Rightarrow> string" where
  "lower s = map low s"

definition lstrip :: "string \<Rightarrow> string" where
  "lstrip s = dropWhile is_space s"

definition rstrip :: "string \<Rightarrow> string" where
  "rstrip s = rev (dropWhile is_space (rev s))"

definition strip :: "string \<Rightarrow> string" where
  "strip s = rstrip (lstrip s)"

definition ljust :: "nat \<Rightarrow> string \<Rightarrow> string" where
  "ljust n s = s @ replicate (n - length s) CHR 0x20"

text \<open>\<open>s.split(c, 1)\<close>, \<open>s.rsplit(c, 1)\<close> and \<open>s.partition(c)\<close> for a one-character separator.\<close>

definition split1 :: "char \<Rightarrow> string \<Rightarrow> string \<times> string option" where
  "split1 c s = (takeWhile (\<lambda>x. x \<noteq> c) s,
     (case dropWhile (\<lambda>x. x \<noteq> c) s of [] \<Rightarrow> None | _ # t \<Rightarrow> Some t))"

definition rsplit1 :: "char \<Rightarrow> string \<Rightarrow> string \<times> string option" where
  "rsplit1 c s = (case dropWhile (\<lambda>x. x \<noteq> c) (rev s) of
       [] \<Rightarrow> (s, None)
     | _ # t \<Rightarrow> (rev t, Some (rev (takeWhile (\<lambda>x. x \<noteq> c) (rev s)))))"

text \<open>\<open>str(n)\<close> for a natural number.\<close>

fun nat_str :: "nat \<Rightarrow> string" where
  "nat_str n = (if n < 10 then [char_of (48 + n)] else nat_str (n div 10) @ [char_of (48 + n mod 10)])"

declare nat_str.simps [simp del]

text \<open>
  \<open>int(s)\<close>: surrounding white space, one sign, digits with single underscores between them;
  \<open>None\<close> is the ValueError.
\<close>

fun int_digits :: "nat \<Rightarrow> string \<Rightarrow> nat option" where
  "int_digits acc [] = Some acc"
| "int_digits acc (c # cs) =
     (if is_digit c then int_digits (10 * acc + (code c - 48)) cs
      else if c = CHR 0x5F then
        (case cs of [] \<Rightarrow> None
         | d # ds \<Rightarrow> if is_digit d then int_digits (10 * acc + (code d - 48)) ds else None)
      else None)"

definition int_unsigned :: "string \<Rightarrow> nat option" where
  "int_unsigned s = (case s of [] \<Rightarrow> None | c # cs \<Rightarrow>
     if is_digit c then int_digits (code c - 48) cs else None)"

definition py_int :: "string \<Rightarrow> int option" where
  "py_int s = (case strip s of
       [] \<Rightarrow> None
     | c # cs \<Rightarrow>
         if c = CHR 0x2D then map_option (\<lambda>n. - int n) (int_unsigned cs)
         else if c = CHR 0x2B then map_option int (int_unsigned cs)
         else map_option int (int_unsigned (c # cs)))"

text \<open>\<open>s.split(c)\<close> for a one-character separator.\<close>

fun split_on :: "char \<Rightarrow> string \<Rightarrow> string list" where
  "split_on c [] = [[]]"
| "split_on c (x # xs) = (case split_on c xs of
       [] \<Rightarrow> [[x]]
     | w # ws \<Rightarrow> if x = c then [] # w # ws else (x # w) # ws)"

section \<open>Bytes and text\<close>

text \<open>\<open>chr\<close> of a byte and \<open>ord\<close> of a character, at the byte width.\<close>

definition chr_of :: "byte \<Rightarrow> char" where
  "chr_of b = char_of (unat b)"

definition ord_of :: "char \<Rightarrow> byte" where
  "ord_of c = word_of_nat (code c)"

text \<open>\<open>data.decode("ascii", errors="replace")\<close> and \<open>s.encode("ascii", errors="replace")\<close>.\<close>

definition decode_ascii :: "bytes \<Rightarrow> string" where
  "decode_ascii bs = map (\<lambda>b. if b < 128 then chr_of b else replacement) bs"

definition encode_ascii :: "string \<Rightarrow> bytes" where
  "encode_ascii s = map (\<lambda>c. if is_ascii c then ord_of c else 0x3F) s"

text \<open>\<open>data.decode("latin-1")\<close>.\<close>

definition decode_latin1 :: "bytes \<Rightarrow> string" where
  "decode_latin1 bs = map chr_of bs"

text \<open>The low byte of a Python integer, \<open>n & 0xFF\<close>.\<close>

definition low_byte :: "int \<Rightarrow> byte" where
  "low_byte n = word_of_int n"

text \<open>\<open>int(x)\<close> of a float: towards zero.\<close>

definition trunc :: "rat \<Rightarrow> int" where
  "trunc x = (if x < 0 then - \<lfloor>- x\<rfloor> else \<lfloor>x\<rfloor>)"

lemma trunc_of_int [simp]: "trunc (of_int n) = n"
proof -
  have "\<lfloor>- (of_int n :: rat)\<rfloor> = - n" by (metis floor_of_int of_int_minus)
  then show ?thesis by (simp add: trunc_def)
qed

section \<open>Lemmas on characters\<close>

lemma code_char_of [simp]: "code (char_of (n :: nat)) = n mod 256"
  by (simp add: code_def)

lemma char_of_code [simp]: "char_of (code c) = c"
  by (simp add: code_def)

lemma code_less [simp]: "code c < 256"
  using nat_of_char_less_256 by (simp add: code_def)

lemma code_inject [simp]: "code c = code d \<longleftrightarrow> c = d"
  by (simp add: code_def)

lemmas char_class_defs = is_digit_def is_upper_def is_lower_def is_space_def is_ascii_def
  is_call_char_def

lemma call_char_ascii [simp, intro]: "is_call_char c \<Longrightarrow> is_ascii c"
  by (auto simp: char_class_defs)

lemma call_char_not_space [simp, intro]: "is_call_char c \<Longrightarrow> \<not> is_space c"
  by (auto simp: char_class_defs)

lemma digit_call_char [simp, intro]: "is_digit c \<Longrightarrow> is_call_char c"
  by (auto simp: char_class_defs)

lemma upper_call_char [simp, intro]: "is_upper c \<Longrightarrow> is_call_char c"
  by (auto simp: char_class_defs)

lemma digit_not_space [simp]: "is_digit c \<Longrightarrow> \<not> is_space c"
  by (auto simp: char_class_defs)

lemma digit_ascii [simp]: "is_digit c \<Longrightarrow> is_ascii c"
  by (auto simp: char_class_defs)

lemma code_dash [simp]: "code CHR 0x2D = 45"
  by (simp add: code_def)

lemma code_blank [simp]: "code CHR 0x20 = 32"
  by (simp add: code_def)

lemma dash_not_call_char [simp]: "\<not> is_call_char CHR 0x2D"
  by (simp add: char_class_defs)

lemma dash_not_space [simp]: "\<not> is_space CHR 0x2D"
  by (simp add: char_class_defs)

lemma blank_space [simp]: "is_space CHR 0x20"
  by (simp add: char_class_defs)

lemma code_up: "code (up c) = (if is_lower c then code c - 32 else code c)"
proof -
  have "(code c - 32) mod 256 = code c - 32"
    by (rule mod_less) (use code_less [of c] in linarith)
  then show ?thesis by (simp add: up_def)
qed

lemma up_up [simp]: "up (up c) = up c"
  by (auto simp: up_def is_lower_def)

lemma up_call_char [simp]: "is_call_char c \<Longrightarrow> up c = c"
  by (auto simp: up_def char_class_defs)

lemma up_dash [simp]: "up CHR 0x2D = CHR 0x2D"
  by (simp add: up_def is_lower_def)

lemma up_blank [simp]: "up CHR 0x20 = CHR 0x20"
  by (simp add: up_def is_lower_def)

lemma is_space_up [simp]: "is_space (up c) = is_space c"
  by (auto simp: is_space_def code_up is_lower_def)

lemma ascii_up [simp]: "is_ascii (up c) = is_ascii c"
  by (auto simp: is_ascii_def code_up is_lower_def)

section \<open>Lemmas on strings\<close>

lemma upper_Nil [simp]: "upper [] = []"
  by (simp add: upper_def)

lemma upper_Cons [simp]: "upper (c # s) = up c # upper s"
  by (simp add: upper_def)

lemma upper_append [simp]: "upper (s @ t) = upper s @ upper t"
  by (simp add: upper_def)

lemma length_upper [simp]: "length (upper s) = length s"
  by (simp add: upper_def)

lemma upper_upper [simp]: "upper (upper s) = upper s"
  by (simp add: upper_def)

lemma upper_eq_Nil [simp]: "upper s = [] \<longleftrightarrow> s = []"
  by (simp add: upper_def)

lemma take_upper: "take n (upper s) = upper (take n s)"
  by (simp add: upper_def take_map)

lemma upper_call_chars [simp]: "list_all is_call_char s \<Longrightarrow> upper s = s"
  by (induction s) auto

lemma strip_no_space: "list_all (\<lambda>c. \<not> is_space c) s \<Longrightarrow> strip s = s"
proof -
  assume s: "list_all (\<lambda>c. \<not> is_space c) s"
  have "dropWhile is_space t = t" if "list_all (\<lambda>c. \<not> is_space c) t" for t
    using that by (cases t) auto
  from this [of s] this [of "rev s"] s show ?thesis
    by (simp add: strip_def lstrip_def rstrip_def list_all_iff)
qed

lemma rstrip_append_blanks:
  "rstrip (s @ replicate n CHR 0x20) = rstrip s"
proof -
  have "dropWhile is_space (replicate n CHR 0x20 @ t) = dropWhile is_space t" for t
    by (induction n) auto
  then show ?thesis by (simp add: rstrip_def)
qed

lemma rstrip_id: "s = [] \<or> \<not> is_space (last s) \<Longrightarrow> rstrip s = s"
  by (cases s rule: rev_cases) (auto simp: rstrip_def)

lemma strip_strip [simp]: "strip (strip s) = strip s"
proof -
  have rs: "rstrip t = [] \<or> \<not> is_space (last (rstrip t))" for t
  proof (cases "dropWhile is_space (rev t)")
    case Nil
    then show ?thesis by (simp add: rstrip_def)
  next
    case (Cons c cs)
    then have "\<not> is_space c" using hd_dropWhile [of is_space "rev t"] by simp
    with Cons show ?thesis by (simp add: rstrip_def)
  qed
  have pre: "\<exists>u. t = rstrip t @ u" for t
    unfolding rstrip_def
    by (metis rev_append rev_rev_ident takeWhile_dropWhile_id)
  have ls: "lstrip t = [] \<or> \<not> is_space (hd (lstrip t))" for t
    using hd_dropWhile [of is_space t] by (auto simp: lstrip_def)
  have hd_strip: "strip s = [] \<or> \<not> is_space (hd (strip s))"
  proof (cases "strip s = []")
    case False
    obtain u where "lstrip s = strip s @ u" using pre [of "lstrip s"] by (auto simp: strip_def)
    with False ls [of s] show ?thesis by (cases "strip s") auto
  qed simp
  then have "lstrip (strip s) = strip s"
    by (cases "strip s") (auto simp: lstrip_def)
  moreover have "rstrip (strip s) = strip s"
    using rs [of "lstrip s"] by (intro rstrip_id) (simp add: strip_def)
  ultimately show ?thesis by (simp add: strip_def)
qed

lemma length_ljust: "length (ljust n s) = max n (length s)"
  by (simp add: ljust_def)

lemma takeWhile_all: "list_all P s \<Longrightarrow> takeWhile P (s @ t) = s @ takeWhile P t"
  by (induction s) auto

lemma dropWhile_all: "list_all P s \<Longrightarrow> dropWhile P (s @ t) = dropWhile P t"
  by (induction s) auto

lemma split1_none: "c \<notin> set s \<Longrightarrow> split1 c s = (s, None)"
proof -
  assume c: "c \<notin> set s"
  then have "list_all (\<lambda>x. x \<noteq> c) s" by (auto simp: list_all_iff)
  from takeWhile_all [OF this, of "[]"] dropWhile_all [OF this, of "[]"]
  show ?thesis by (simp add: split1_def del: takeWhile_eq_all_conv dropWhile_eq_Nil_conv)
qed

lemma split1_at: "c \<notin> set s \<Longrightarrow> split1 c (s @ c # t) = (s, Some t)"
proof -
  assume c: "c \<notin> set s"
  then have "list_all (\<lambda>x. x \<noteq> c) s" by (auto simp: list_all_iff)
  from takeWhile_all [OF this, of "c # t"] dropWhile_all [OF this, of "c # t"]
  show ?thesis by (simp add: split1_def)
qed

lemma rsplit1_none: "c \<notin> set s \<Longrightarrow> rsplit1 c s = (s, None)"
proof -
  assume c: "c \<notin> set s"
  then have "list_all (\<lambda>x. x \<noteq> c) (rev s)" by (auto simp: list_all_iff)
  from dropWhile_all [OF this, of "[]"] show ?thesis
    by (simp add: rsplit1_def del: dropWhile_eq_Nil_conv)
qed

lemma rsplit1_at: "c \<notin> set t \<Longrightarrow> rsplit1 c (s @ c # t) = (s, Some t)"
proof -
  assume c: "c \<notin> set t"
  then have "list_all (\<lambda>x. x \<noteq> c) (rev t)" by (auto simp: list_all_iff)
  from takeWhile_all [OF this, of "c # rev s"] dropWhile_all [OF this, of "c # rev s"]
  show ?thesis by (simp add: rsplit1_def)
qed

section \<open>Decimal numbers\<close>

lemma nat_str_digits: "list_all is_digit (nat_str n)"
proof (induction n rule: nat_str.induct)
  case (1 n)
  then show ?case
    by (subst nat_str.simps) (cases "n < 10"; auto simp: is_digit_def [of "char_of _"])
qed

lemma nat_str_not_Nil [simp]: "nat_str n \<noteq> []"
  by (subst nat_str.simps) simp

lemma int_digits_append:
  "list_all is_digit s \<Longrightarrow> int_digits acc (s @ t) = Option.bind (int_digits acc s) (\<lambda>a. int_digits a t)"
  by (induction s arbitrary: acc) auto

lemma int_digits_nat_str:
  "int_digits acc (nat_str n) = Some (acc * 10 ^ length (nat_str n) + n)"
proof (induction n arbitrary: acc rule: nat_str.induct)
  case (1 n)
  show ?case
  proof (cases "n < 10")
    case True
    then show ?thesis by (subst (1 2) nat_str.simps) (simp add: is_digit_def)
  next
    case False
    have step: "nat_str n = nat_str (n div 10) @ [char_of (48 + n mod 10)]"
      using False by (subst nat_str.simps) simp
    have "int_digits acc (nat_str n) = int_digits (acc * 10 ^ length (nat_str (n div 10)) + n div 10)
        [char_of (48 + n mod 10)]"
      by (simp add: step int_digits_append nat_str_digits "1.IH" [OF False])
    also have "\<dots> = Some (10 * (acc * 10 ^ length (nat_str (n div 10)) + n div 10) + n mod 10)"
      by (simp add: is_digit_def)
    finally show ?thesis by (simp add: step algebra_simps)
  qed
qed

lemma int_unsigned_nat_str: "int_unsigned (nat_str n) = Some n"
proof (cases "nat_str n")
  case (Cons c cs)
  have "is_digit c" using nat_str_digits [of n] Cons by simp
  then show ?thesis
    using int_digits_nat_str [of 0 n] Cons by (simp add: int_unsigned_def)
qed simp

lemma py_int_nat_str [simp]: "py_int (nat_str n) = Some (int n)"
proof (cases "nat_str n")
  case (Cons c cs)
  have d: "list_all is_digit (nat_str n)" by (rule nat_str_digits)
  then have "strip (nat_str n) = nat_str n"
    by (intro strip_no_space) (auto simp: list_all_iff char_class_defs)
  moreover have "c \<noteq> CHR 0x2D" "c \<noteq> CHR 0x2B"
    using d Cons by (auto simp: is_digit_def code_def)
  ultimately show ?thesis
    using Cons int_unsigned_nat_str [of n] by (simp add: py_int_def)
qed simp

lemma dash_notin_nat_str [simp]: "CHR 0x2D \<notin> set (nat_str n)"
  using nat_str_digits [of n] by (auto simp: list_all_iff is_digit_def)

lemma nat_str_short: "n < 100 \<Longrightarrow> length (nat_str n) \<le> 2"
  by (subst nat_str.simps, subst nat_str.simps) auto

lemma upper_nat_str [simp]: "upper (nat_str n) = nat_str n"
  using nat_str_digits [of n] by (intro upper_call_chars) (auto simp: list_all_iff)

section \<open>Lemmas on dictionaries\<close>

lemma fst_set_update [simp]: "fst ` set (AList.update k v d) = insert k (fst ` set d)"
  by (simp add: dom_update)

lemma fst_set_delete [simp]: "fst ` set (AList.delete k d) = fst ` set d - {k}"
proof -
  have "set (map fst (AList.delete k d)) = set (removeAll k (map fst d))" by (simp only: delete_keys)
  then show ?thesis by simp
qed

lemma map_of_None_iff: "map_of d k = None \<longleftrightarrow> k \<notin> fst ` set d"
  by (rule map_of_eq_None_iff)

lemma distinct_keys_update [simp]:
  "distinct (map fst d) \<Longrightarrow> distinct (map fst (AList.update k v d))"
  by (rule distinct_update)

lemma distinct_keys_delete [simp]:
  "distinct (map fst d) \<Longrightarrow> distinct (map fst (AList.delete k d))"
  by (rule distinct_delete)

lemma map_of_update [simp]: "map_of (AList.update k v d) = (map_of d)(k \<mapsto> v)"
  by (rule update_conv')

lemma map_of_delete [simp]: "map_of (AList.delete k d) = (map_of d)(k := None)"
  by (rule delete_conv')

section \<open>Lemmas on bytes\<close>

lemma chr_ord [simp]: "chr_of (ord_of c) = c"
proof -
  have "unat (ord_of c) = code c mod 256"
    by (simp add: ord_of_def unat_of_nat)
  then show ?thesis by (simp add: chr_of_def)
qed

lemma ord_chr [simp]: "ord_of (chr_of b) = b"
proof -
  have "unat b < 256" using unsigned_less [of b, where ?'a = nat] by simp
  then show ?thesis by (simp add: chr_of_def ord_of_def)
qed

lemma unat_ord_of: "unat (ord_of c) = code c"
  by (simp add: ord_of_def unat_of_nat)

lemma ord_of_ascii: "is_ascii c \<longleftrightarrow> ord_of c < 128"
  by (simp add: is_ascii_def word_less_nat_alt unat_ord_of)

lemma decode_encode_ascii: "list_all is_ascii s \<Longrightarrow> decode_ascii (encode_ascii s) = s"
  by (induction s) (auto simp: decode_ascii_def encode_ascii_def ord_of_ascii)

lemma length_encode_ascii [simp]: "length (encode_ascii s) = length s"
  by (simp add: encode_ascii_def)

lemma length_decode_ascii [simp]: "length (decode_ascii s) = length s"
  by (simp add: decode_ascii_def)

lemma low_byte_unat: "0 \<le> n \<Longrightarrow> n < 256 \<Longrightarrow> int (unat (low_byte n)) = n"
  by (simp add: low_byte_def unsigned_of_int take_bit_int_eq_self)

lemma uint_low_byte: "uint (low_byte n) = n mod 256"
  by (simp add: low_byte_def take_bit_eq_mod uint_word_of_int)

lemma all_bytes:
  assumes "list_all P (map word_of_nat [0..<256])" shows "P (w :: byte)"
proof -
  have "unat w < 256" using unsigned_less [of w, where ?'a = nat] by simp
  then have "unat w \<in> set [0..<256]" by simp
  then have "word_of_nat (unat w) \<in> (set (map word_of_nat [0..<256]) :: byte set)"
    by (simp only: set_map) (rule imageI)
  with assms show ?thesis by (auto simp: list_all_iff)
qed

lemma code_chr_of [simp]: "code (chr_of b) = unat b"
  using unsigned_less [of b, where ?'a = nat] by (simp add: chr_of_def)

lemma ord_of_eq_iff [simp]: "ord_of c = ord_of d \<longleftrightarrow> c = d"
  by (metis chr_ord)

section \<open>Joining and splitting\<close>

text \<open>\<open>sep.join(xs)\<close>.\<close>

fun join :: "string \<Rightarrow> string list \<Rightarrow> string" where
  "join sep [] = []"
| "join sep [x] = x"
| "join sep (x # y # zs) = x @ sep @ join sep (y # zs)"

lemma split_on_last: "c \<notin> set x \<Longrightarrow> split_on c x = [x]"
  by (induction x) auto

lemma split_on_not_Nil [simp]: "split_on c s \<noteq> []"
  by (cases s) (auto split: list.splits)

lemma split_on_append: "c \<notin> set x \<Longrightarrow> split_on c (x @ c # s) = x # split_on c s"
proof (induction x)
  case (Cons a x)
  then show ?case by auto
qed (cases "split_on c s"; simp)

lemma split_on_join:
  "list_all (\<lambda>x. c \<notin> set x) xs \<Longrightarrow> xs \<noteq> [] \<Longrightarrow> split_on c (join [c] xs) = xs"
  by (induction "[c]" xs rule: join.induct) (auto simp: split_on_last split_on_append)

end
