(* ===== verification/Interfaces.thy ===== *)
theory Interfaces
  imports Prelude
begin

text \<open>
  The contracts the components are written against, as locales. Each is interpreted on the
  model's own definitions in the theory of the component that provides it:
  \<^item> \<open>fixed_codec\<close>: an encoder of fixed-width records and its decoder. It gives the round trip of
    a whole list of records laid end to end (\<open>chunks\<close> is the decoder's slicing loop);
  \<^item> \<open>transition\<close>: a state, the operations on it as events, and an invariant every operation keeps.
    It gives the invariant of every run of operations;
  \<^item> \<open>bounded_transition\<close>: a transition system with a measured quantity the invariant bounds.
\<close>

section \<open>Fixed-width records\<close>

text \<open>The slices \<open>data[0:n], data[n:2n], \<dots>\<close> that fit completely into \<open>data\<close>.\<close>

function chunks :: "nat \<Rightarrow> 'a list \<Rightarrow> 'a list list" where
  "chunks n xs = (if 0 < n \<and> n \<le> length xs then take n xs # chunks n (drop n xs) else [])"
  by pat_completeness auto
termination
  by (relation "measure (\<lambda>(n, xs). length xs)") auto

declare chunks.simps [simp del]

lemma chunks_short [simp]: "length xs < n \<Longrightarrow> chunks n xs = []"
  by (subst chunks.simps) simp

lemma chunks_append: "0 < n \<Longrightarrow> length x = n \<Longrightarrow> chunks n (x @ xs) = x # chunks n xs"
  by (subst chunks.simps) simp

lemma chunks_length: "x \<in> set (chunks n xs) \<Longrightarrow> length x = n"
  by (induction n xs rule: chunks.induct) (subst (asm) chunks.simps, auto split: if_splits)

text \<open>\<open>for x in xs: out += enc(x)\<close>; the first encoding error ends the loop.\<close>

fun enc_all :: "('a \<Rightarrow> bytes option) \<Rightarrow> 'a list \<Rightarrow> bytes option" where
  "enc_all enc [] = Some []"
| "enc_all enc (x # xs) = do { b \<leftarrow> enc x; bs \<leftarrow> enc_all enc xs; Some (b @ bs) }"

locale fixed_codec =
  fixes enc :: "'a \<Rightarrow> bytes option"
    and dec :: "bytes \<Rightarrow> 'a option"
    and ok :: "'a \<Rightarrow> bool"
    and width :: nat
  assumes width_pos: "0 < width"
    and round_trip: "ok x \<Longrightarrow> \<exists>bs. enc x = Some bs \<and> length bs = width \<and> dec bs = Some x"
begin

lemma enc_inj:
  assumes "ok x" and "ok y" and "enc x = enc y"
  shows "x = y"
  using round_trip [OF assms(1)] round_trip [OF assms(2)] assms(3) by auto

lemma encE:
  assumes "ok x"
  obtains bs where "enc x = Some bs" and "length bs = width" and "dec bs = Some x"
  using round_trip [OF assms] by blast

lemma list_round_trip:
  assumes "list_all ok xs" and "length junk < width"
  shows "\<exists>bs. enc_all enc xs = Some bs \<and> length bs = width * length xs
    \<and> map dec (chunks width (bs @ junk)) = map Some xs"
  using assms(1)
proof (induction xs)
  case Nil
  with assms(2) show ?case by simp
next
  case (Cons x xs)
  from Cons obtain bs where bs: "enc_all enc xs = Some bs" "length bs = width * length xs"
      "map dec (chunks width (bs @ junk)) = map Some xs"
    by auto
  from Cons.prems have "ok x" by simp
  then obtain b where "enc x = Some b" "length b = width" "dec b = Some x" by (rule encE)
  with bs show ?case by (auto simp: chunks_append width_pos)
qed

end

section \<open>Fragments\<close>

text \<open>\<open>[xs[i:i + n] for i in range(0, len(xs), n)]\<close>.\<close>

function fragments :: "nat \<Rightarrow> 'a list \<Rightarrow> 'a list list" where
  "fragments n xs = (if xs = [] \<or> n = 0 then [] else take n xs # fragments n (drop n xs))"
  by pat_completeness auto
termination
  by (relation "measure (\<lambda>(n, xs). length xs)") auto

declare fragments.simps [simp del]

lemma concat_fragments: "0 < n \<Longrightarrow> concat (fragments n xs) = xs"
proof (induction n xs rule: fragments.induct)
  case (1 n xs)
  then show ?case by (subst fragments.simps) (cases "xs = []"; simp)
qed

lemma fragments_length: "f \<in> set (fragments n xs) \<Longrightarrow> f \<noteq> [] \<and> length f \<le> n"
proof (induction n xs rule: fragments.induct)
  case (1 n xs)
  show ?case
  proof (cases "xs = [] \<or> n = 0")
    case True
    then show ?thesis using "1.prems" by (subst (asm) fragments.simps) auto
  next
    case False
    then show ?thesis using "1.prems" "1.IH" [OF False] by (subst (asm) fragments.simps) auto
  qed
qed

section \<open>Transition systems\<close>

fun run :: "('s \<Rightarrow> 'e \<Rightarrow> 's) \<Rightarrow> 's \<Rightarrow> 'e list \<Rightarrow> 's" where
  "run step s [] = s"
| "run step s (e # es) = run step (step s e) es"

lemma run_append: "run step s (es @ fs) = run step (run step s es) fs"
  by (induction es arbitrary: s) auto

locale transition =
  fixes step :: "'s \<Rightarrow> 'e \<Rightarrow> 's"
    and inv :: "'s \<Rightarrow> bool"
  assumes inv_step: "inv s \<Longrightarrow> inv (step s e)"
begin

lemma inv_run: "inv s \<Longrightarrow> inv (run step s es)"
  by (induction es arbitrary: s) (auto intro: inv_step)

lemma inv_prefix: "inv s \<Longrightarrow> es = fs @ gs \<Longrightarrow> inv (run step s fs)"
  by (simp add: inv_run)

end

locale bounded_transition = transition +
  fixes quantity :: "'s \<Rightarrow> nat" and limit :: "'s \<Rightarrow> nat"
  assumes within: "inv s \<Longrightarrow> quantity s \<le> limit s"
    and limit_step: "limit (step s e) = limit s"
begin

lemma limit_run [simp]: "limit (run step s es) = limit s"
  by (induction es arbitrary: s) (auto simp: limit_step)

lemma run_within: "inv s \<Longrightarrow> quantity (run step s es) \<le> limit s"
  using within [OF inv_run] by fastforce

end

section \<open>Incremental parsers\<close>

text \<open>
  A parser that takes the complete items off the front of a buffer and keeps the rest, called
  again each time a read delivers another piece.
\<close>

fun feed_all :: "('a list \<Rightarrow> 'b list \<times> 'a list) \<Rightarrow> 'a list \<Rightarrow> 'a list list \<Rightarrow> 'b list \<times> 'a list" where
  "feed_all feed buf [] = ([], buf)"
| "feed_all feed buf (c # cs) =
     (let (items, rest) = feed (buf @ c); (more, rest') = feed_all feed rest cs in (items @ more, rest'))"

locale incremental =
  fixes feed :: "'a list \<Rightarrow> 'b list \<times> 'a list"
  assumes feed_append: "feed (a @ b) = (fst (feed a) @ fst (feed (snd (feed a) @ b)), snd (feed (snd (feed a) @ b)))"
    and feed_Nil: "feed [] = ([], [])"
begin

lemma feed_rest: "feed (snd (feed a)) = ([], snd (feed a))"
  using feed_append [of a "[]"] by (simp add: prod_eq_iff)

lemma feed_all_concat:
  assumes "feed buf = ([], buf)"
  shows "feed_all feed buf cs = feed (buf @ concat cs)"
  using assms
proof (induction cs arbitrary: buf)
  case (Cons c cs)
  have "feed_all feed (snd (feed (buf @ c))) cs = feed (snd (feed (buf @ c)) @ concat cs)"
    by (rule Cons.IH) (rule feed_rest)
  then show ?case
    using feed_append [of "buf @ c" "concat cs"] by (simp add: case_prod_beta)
qed simp

lemma feed_all_batch: "feed_all feed [] cs = feed (concat cs)"
  using feed_all_concat [OF feed_Nil] by simp

lemma same_stream: "concat cs = concat ds \<Longrightarrow> feed_all feed [] cs = feed_all feed [] ds"
  by (simp add: feed_all_batch)

end

section \<open>Registries\<close>

text \<open>
  A registry of pairs kept in some concrete state: what adding and removing a pair do to the set of
  pairs registered. A client that only adds and removes sees the set semantics, whatever the state.
\<close>

datatype 'p registry_op = Register 'p | Unregister 'p

locale registry =
  fixes add :: "'p \<Rightarrow> 's \<Rightarrow> 's"
    and remove :: "'p \<Rightarrow> 's \<Rightarrow> 's"
    and entries :: "'s \<Rightarrow> 'p set"
    and ok :: "'s \<Rightarrow> bool"
  assumes ok_add: "ok s \<Longrightarrow> ok (add p s)"
    and ok_remove: "ok s \<Longrightarrow> ok (remove p s)"
    and entries_add: "ok s \<Longrightarrow> entries (add p s) = insert p (entries s)"
    and entries_remove: "ok s \<Longrightarrow> entries (remove p s) = entries s - {p}"
begin

definition apply_op :: "'s \<Rightarrow> 'p registry_op \<Rightarrow> 's" where
  "apply_op s e = (case e of Register p \<Rightarrow> add p s | Unregister p \<Rightarrow> remove p s)"

lemma ok_run: "ok s \<Longrightarrow> ok (run apply_op s es)"
  by (induction es arbitrary: s) (auto simp: apply_op_def ok_add ok_remove split: registry_op.splits)

lemma entries_run:
  "ok s \<Longrightarrow> entries (run apply_op s es) =
     run (\<lambda>P e. case e of Register p \<Rightarrow> insert p P | Unregister p \<Rightarrow> P - {p}) (entries s) es"
  by (induction es arbitrary: s)
    (auto simp: apply_op_def ok_add ok_remove entries_add entries_remove split: registry_op.splits)

lemma last_op_decides:
  assumes "ok s"
  shows "p \<in> entries (run apply_op s (es @ [Register p]))"
    and "p \<notin> entries (run apply_op s (es @ [Unregister p]))"
  using assms by (simp_all add: run_append apply_op_def entries_add entries_remove ok_run)

end

end
