(* ===== verification/Address.thy ===== *)
theory Address
  imports Interfaces
begin

text \<open>
  \<open>bbs/ax25/address.py\<close>: AX.25 address strings. A ValueError is \<open>None\<close>.
\<close>

text \<open>The groups of \<open>_CALLSIGN_RE = ^([A-Z0-9]{1,6})(?:-(\d{1,2}))?$\<close>.\<close>

definition match_callsign :: "string \<Rightarrow> (string \<times> string option) option" where
  "match_callsign s =
     (let call = takeWhile is_call_char s; rest = dropWhile is_call_char s in
      if 1 \<le> length call \<and> length call \<le> 6 then
        (case rest of
           [] \<Rightarrow> Some (call, None)
         | c # ds \<Rightarrow>
             if c = CHR 0x2D \<and> 1 \<le> length ds \<and> length ds \<le> 2 \<and> list_all is_digit ds
             then Some (call, Some ds) else None)
      else None)"

definition parse :: "string \<Rightarrow> (callsign \<times> int) option" where
  "parse addr = do {
     (call, g2) \<leftarrow> match_callsign (upper (strip addr));
     ssid \<leftarrow> (case g2 of Some ds \<Rightarrow> py_int ds | None \<Rightarrow> Some 0);
     if 15 < ssid then None else Some (call, ssid)
   }"

definition format_addr :: "callsign \<Rightarrow> int \<Rightarrow> string option" where
  "format_addr callsign ssid =
     (let call = strip (upper callsign) in
      if ssid < 0 \<or> 15 < ssid then None
      else Some (if ssid \<noteq> 0 then call @ CHR 0x2D # nat_str (nat ssid) else call))"

definition callsign_only :: "string \<Rightarrow> callsign option" where
  "callsign_only addr = map_option fst (parse addr)"

text \<open>A canonical address: what \<open>format_addr\<close> gives back after \<open>parse\<close>.\<close>

definition valid_call :: "callsign \<Rightarrow> bool" where
  "valid_call c \<longleftrightarrow> 1 \<le> length c \<and> length c \<le> 6 \<and> list_all is_call_char c"

definition canonical :: "string \<Rightarrow> bool" where
  "canonical s \<longleftrightarrow> (case parse s of None \<Rightarrow> False | Some (c, n) \<Rightarrow> format_addr c n = Some s)"

section \<open>Lemmas\<close>

lemma valid_call_facts:
  assumes "valid_call c"
  shows "upper c = c" and "strip c = c" and "CHR 0x2D \<notin> set c" and "strip (upper c) = c"
    and "list_all is_ascii c"
proof -
  from assms have cs: "list_all is_call_char c" by (simp add: valid_call_def)
  then show u: "upper c = c" by simp
  from cs have ns: "list_all (\<lambda>x. \<not> is_space x) c" 
    by (rule list.pred_mono_strong) simp
  then show s: "strip c = c" by (rule strip_no_space)
  from cs show "CHR 0x2D \<notin> set c" by (auto simp: list_all_iff)
  from cs show "list_all is_ascii c" by (auto simp: list_all_iff)
  from u s show "strip (upper c) = c" by simp
qed

lemma format_addr_valid:
  assumes "valid_call c" and "0 \<le> n" and "n \<le> 15"
  shows "format_addr c n = Some (if n = 0 then c else c @ CHR 0x2D # nat_str (nat n))"
  using assms by (simp add: format_addr_def valid_call_facts Let_def)

lemma match_callsign_valid:
  assumes "valid_call c"
  shows "match_callsign c = Some (c, None)"
    and "1 \<le> length ds \<Longrightarrow> length ds \<le> 2 \<Longrightarrow> list_all is_digit ds \<Longrightarrow>
      match_callsign (c @ CHR 0x2D # ds) = Some (c, Some ds)"
proof -
  from assms have cs: "list_all is_call_char c" by (simp add: valid_call_def)
  have tw: "takeWhile is_call_char c = c" "dropWhile is_call_char c = []"
    using cs by (auto simp: list_all_iff)
  show "match_callsign c = Some (c, None)"
    using assms by (simp add: match_callsign_def tw valid_call_def)
  show "match_callsign (c @ CHR 0x2D # ds) = Some (c, Some ds)"
    if "1 \<le> length ds" "length ds \<le> 2" "list_all is_digit ds"
    using assms that takeWhile_all [OF cs, of "CHR 0x2D # ds"] dropWhile_all [OF cs, of "CHR 0x2D # ds"]
    by (simp add: match_callsign_def valid_call_def)
qed

lemma match_callsign_Some:
  assumes "match_callsign s = Some (c, g)"
  shows "valid_call c"
    and "case g of None \<Rightarrow> s = c | Some ds \<Rightarrow> s = c @ CHR 0x2D # ds \<and> ds \<noteq> [] \<and> length ds \<le> 2 \<and> list_all is_digit ds"
proof -
  have all: "list_all is_call_char (takeWhile is_call_char s)"
    by (auto simp: list_all_iff dest: set_takeWhileD)
  have split: "s = takeWhile is_call_char s @ dropWhile is_call_char s" by simp
  from assms all show "valid_call c"
    by (auto simp: match_callsign_def valid_call_def Let_def split: if_splits list.splits)
  from assms show "case g of None \<Rightarrow> s = c | Some ds \<Rightarrow> s = c @ CHR 0x2D # ds \<and> ds \<noteq> [] \<and> length ds \<le> 2 \<and> list_all is_digit ds"
    using split by (auto simp: match_callsign_def Let_def simp del: takeWhile_dropWhile_id
        split: if_splits list.splits)
qed

lemma parse_format_valid:
  assumes "valid_call c" and "0 \<le> n" and "n \<le> 15"
  shows "Option.bind (format_addr c n) parse = Some (c, n)"
proof (cases "n = 0")
  case True
  with assms show ?thesis
    by (simp add: format_addr_valid parse_def valid_call_facts match_callsign_valid)
next
  case False
  define ds where "ds = nat_str (nat n)"
  have ds: "list_all is_digit ds" "ds \<noteq> []" "length ds \<le> 2"
    using assms nat_str_digits nat_str_short [of "nat n"] by (auto simp: ds_def)
  have "strip (c @ CHR 0x2D # ds) = c @ CHR 0x2D # ds"
    using assms(1) ds(1) by (intro strip_no_space) (force simp: list_all_iff valid_call_def)
  moreover have "upper (c @ CHR 0x2D # ds) = c @ CHR 0x2D # ds"
    using assms(1) by (simp add: valid_call_facts ds_def)
  ultimately show ?thesis
    using assms False ds match_callsign_valid(2) [OF assms(1), of ds]
    by (simp add: format_addr_valid parse_def ds_def [symmetric]) (simp add: ds_def Suc_le_eq)
qed

lemma parse_Some:
  assumes "parse s = Some (c, n)"
  shows "valid_call c" and "0 \<le> n" and "n \<le> 15"
proof -
  from assms obtain g where g: "match_callsign (upper (strip s)) = Some (c, g)"
    by (auto simp: parse_def split: Option.bind_splits if_splits)
  then show "valid_call c" by (rule match_callsign_Some)
  from assms show "n \<le> 15" by (auto simp: parse_def split: Option.bind_splits if_splits)
  show "0 \<le> n"
  proof (cases g)
    case None
    with assms g show ?thesis by (simp add: parse_def split: if_splits)
  next
    case (Some ds)
    from match_callsign_Some(2) [OF g] Some have ds: "list_all is_digit ds" "ds \<noteq> []" by auto
    then have "strip ds = ds"
      by (intro strip_no_space) (force simp: list_all_iff)
    with ds have "\<exists>m. py_int ds = map_option int m"
      by (cases ds) (auto simp: py_int_def char_class_defs code_def)
    with assms g Some show ?thesis
      by (auto simp: parse_def split: Option.bind_splits if_splits)
  qed
qed

lemma canonicalE:
  assumes "canonical s"
  obtains c n where "valid_call c" and "0 \<le> n" and "n \<le> 15" and "format_addr c n = Some s"
proof -
  from assms obtain c n where "parse s = Some (c, n)" "format_addr c n = Some s"
    by (auto simp: canonical_def split: option.splits)
  then show ?thesis using parse_Some [of s c n] that by blast
qed

lemma canonicalI:
  assumes "valid_call c" and "0 \<le> n" and "n \<le> 15" and "format_addr c n = Some s"
  shows "canonical s"
  using parse_format_valid [OF assms(1-3)] assms(4) by (simp add: canonical_def)

lemma parse_idem:
  assumes "parse s = Some (c, n)"
  shows "\<exists>t. format_addr c n = Some t \<and> parse t = Some (c, n) \<and> canonical t"
proof -
  note v = parse_Some [OF assms]
  from v obtain t where t: "format_addr c n = Some t" by (simp add: format_addr_valid)
  with parse_format_valid [OF v] have "parse t = Some (c, n)" by simp
  moreover from canonicalI [OF v t] have "canonical t" .
  ultimately show ?thesis using t by blast
qed

end
