(* ===== verification/Netrom_Frame.thy ===== *)
theory Netrom_Frame
  imports Address
begin

text \<open>
  \<open>bbs/ax25/netrom_frame.py\<close>: the NET/ROM codecs. \<open>None\<close> in the outer option is a Python
  exception: the ValueError of \<open>int()\<close> in the encoders, the IndexError of \<open>data[i]\<close> in the
  decoders. A decoder's own \<open>return None\<close> is the inner option.

  First the wire form of a callsign, then NODES broadcasts, the 20-byte L3 header, the full
  frames with their per-opcode tails, and the classifier of AGWPE's first data frame.
\<close>

definition pid_netrom :: byte where
  "pid_netrom = 0xCF"

definition alias_len :: nat where
  "alias_len = 6"

definition addr_wire_len :: nat where
  "addr_wire_len = 7"

definition node_entry_len :: nat where
  "node_entry_len = addr_wire_len + alias_len + addr_wire_len + 1"

lemmas netrom_lens = alias_len_def addr_wire_len_def node_entry_len_def

section \<open>Wire-format callsigns and aliases\<close>

text \<open>\<open>data[i]\<close>: IndexError past the end.\<close>

definition byte_at :: "bytes \<Rightarrow> nat \<Rightarrow> byte option" where
  "byte_at data i = (if i < length data then Some (data ! i) else None)"

text \<open>\<open>data[a:b]\<close>: never raises.\<close>

definition slice :: "nat \<Rightarrow> nat \<Rightarrow> 'a list \<Rightarrow> 'a list" where
  "slice a b data = take (b - a) (drop a data)"

definition wire_char :: "byte \<Rightarrow> byte" where
  "wire_char b = drop_bit 1 b AND 0x7F"

definition decode_wire_call :: "bytes \<Rightarrow> string option" where
  "decode_wire_call data = do {
     let call = map (\<lambda>b. chr_of (wire_char b))
       (filter (\<lambda>b. wire_char b \<noteq> 0 \<and> wire_char b \<noteq> 0x20) (take 6 data));
     b6 \<leftarrow> byte_at data 6;
     let ssid = drop_bit 1 b6 AND 0x0F;
     Some (if ssid \<noteq> 0 then call @ CHR 0x2D # nat_str (unat ssid) else call)
   }"

definition encode_wire_call :: "string \<Rightarrow> bytes option" where
  "encode_wire_call addr = do {
     let parts = rsplit1 CHR 0x2D (upper addr);
     let call = ljust 6 (take 6 (fst parts));
     ssid \<leftarrow> (case snd parts of
                Some p \<Rightarrow> map_option (\<lambda>n. low_byte n AND 0x0F) (py_int p)
              | None \<Rightarrow> Some 0);
     let call_bytes = map (\<lambda>c. push_bit 1 (ord_of c) AND 0xFE) call;
     let ssid_byte = push_bit 1 ssid AND 0x1E;
     Some (call_bytes @ [ssid_byte])
   }"

definition decode_alias :: "bytes \<Rightarrow> string" where
  "decode_alias data = rstrip (decode_ascii (take alias_len data))"

definition encode_alias :: "string \<Rightarrow> bytes" where
  "encode_alias alias = encode_ascii (ljust alias_len (take alias_len (upper alias)))"

section \<open>NODES broadcasts\<close>

record node_entry =
  ne_dest_call :: callsign
  ne_alias :: string
  ne_neighbor_call :: callsign
  ne_quality :: int

record nodes_frame =
  nf_source_call :: callsign
  nf_source_alias :: string
  nf_entries :: "node_entry list"

definition decode_node_entry :: "bytes \<Rightarrow> node_entry option" where
  "decode_node_entry chunk = do {
     dest_call \<leftarrow> decode_wire_call (slice 0 addr_wire_len chunk);
     let dest_alias = decode_alias (slice addr_wire_len (addr_wire_len + alias_len) chunk);
     nbr_call \<leftarrow> decode_wire_call
       (slice (addr_wire_len + alias_len) (addr_wire_len + alias_len + addr_wire_len) chunk);
     quality \<leftarrow> byte_at chunk (node_entry_len - 1);
     Some \<lparr>ne_dest_call = dest_call, ne_alias = dest_alias, ne_neighbor_call = nbr_call,
           ne_quality = uint quality\<rparr>
   }"

text \<open>The \<open>while offset + _NODE_ENTRY_LEN <= len(payload)\<close> loop.\<close>

function nodes_loop :: "bytes \<Rightarrow> nat \<Rightarrow> node_entry list \<Rightarrow> node_entry list option" where
  "nodes_loop payload offset entries =
     (if offset + node_entry_len \<le> length payload then
        case decode_node_entry (slice offset (offset + node_entry_len) payload) of
          None \<Rightarrow> None
        | Some e \<Rightarrow> nodes_loop payload (offset + node_entry_len)
            (if ne_dest_call e \<noteq> [] then entries @ [e] else entries)
      else Some entries)"
  by pat_completeness auto
termination
  by (relation "measure (\<lambda>(payload, offset, entries). length payload - offset)")
     (auto simp: netrom_lens)

declare nodes_loop.simps [simp del]

definition decode_nodes_broadcast :: "callsign \<Rightarrow> bytes \<Rightarrow> nodes_frame option option" where
  "decode_nodes_broadcast src_call payload =
     (if length payload < 1 + alias_len then Some None
      else do {
        b0 \<leftarrow> byte_at payload 0;
        if b0 \<noteq> 0xFF then Some None
        else do {
          let source_alias = decode_alias (slice 1 (1 + alias_len) payload);
          entries \<leftarrow> nodes_loop payload (1 + alias_len) [];
          Some (Some \<lparr>nf_source_call = src_call, nf_source_alias = source_alias,
                      nf_entries = entries\<rparr>)
        }
      })"

definition encode_node_entry :: "node_entry \<Rightarrow> bytes option" where
  "encode_node_entry e = do {
     d \<leftarrow> encode_wire_call (ne_dest_call e);
     n \<leftarrow> encode_wire_call (ne_neighbor_call e);
     Some (d @ encode_alias (ne_alias e) @ n @ [low_byte (ne_quality e)])
   }"

definition encode_nodes_broadcast :: "string \<Rightarrow> node_entry list \<Rightarrow> bytes option" where
  "encode_nodes_broadcast source_alias entries = do {
     body \<leftarrow> enc_all encode_node_entry entries;
     Some ([0xFF] @ encode_alias source_alias @ body)
   }"

section \<open>The L3 header\<close>

definition OPCODE_CONNECT_REQ :: int where "OPCODE_CONNECT_REQ = 1"
definition OPCODE_CONNECT_ACK :: int where "OPCODE_CONNECT_ACK = 2"
definition OPCODE_DISCONNECT_REQ :: int where "OPCODE_DISCONNECT_REQ = 3"
definition OPCODE_DISCONNECT_ACK :: int where "OPCODE_DISCONNECT_ACK = 4"
definition OPCODE_INFORMATION :: int where "OPCODE_INFORMATION = 5"
definition OPCODE_INFORMATION_ACK :: int where "OPCODE_INFORMATION_ACK = 6"

lemmas opcode_defs = OPCODE_CONNECT_REQ_def OPCODE_CONNECT_ACK_def OPCODE_DISCONNECT_REQ_def
  OPCODE_DISCONNECT_ACK_def OPCODE_INFORMATION_def OPCODE_INFORMATION_ACK_def

definition FLAG_CHOKE :: int where "FLAG_CHOKE = 0x80"
definition FLAG_NAK :: int where "FLAG_NAK = 0x40"
definition FLAG_MORE_FOLLOWS :: int where "FLAG_MORE_FOLLOWS = 0x20"

lemmas flag_defs = FLAG_CHOKE_def FLAG_NAK_def FLAG_MORE_FOLLOWS_def

definition l3_header_len :: nat where
  "l3_header_len = 20"

record l3_header =
  h_origin_call :: callsign
  h_dest_call :: callsign
  h_ttl :: int
  h_circuit_idx :: int
  h_circuit_id :: int
  h_tx_seq :: int
  h_rx_seq :: int
  h_opcode_flags :: int

definition h_opcode :: "l3_header \<Rightarrow> int" where
  "h_opcode h = h_opcode_flags h AND 0x07"

definition h_choke :: "l3_header \<Rightarrow> bool" where
  "h_choke h \<longleftrightarrow> h_opcode_flags h AND FLAG_CHOKE \<noteq> 0"

definition h_nak :: "l3_header \<Rightarrow> bool" where
  "h_nak h \<longleftrightarrow> h_opcode_flags h AND FLAG_NAK \<noteq> 0"

definition h_more_follows :: "l3_header \<Rightarrow> bool" where
  "h_more_follows h \<longleftrightarrow> h_opcode_flags h AND FLAG_MORE_FOLLOWS \<noteq> 0"

definition h_refused :: "l3_header \<Rightarrow> bool" where
  "h_refused h \<longleftrightarrow> h_opcode h = OPCODE_CONNECT_ACK \<and> h_opcode_flags h AND FLAG_CHOKE \<noteq> 0"

definition encode_l3_header :: "l3_header \<Rightarrow> bytes option" where
  "encode_l3_header h = do {
     o1 \<leftarrow> encode_wire_call (h_origin_call h);
     d1 \<leftarrow> encode_wire_call (h_dest_call h);
     let out = o1 @ d1;
     let out = out[13 := out ! 13 OR 0x01];
     Some (out @ [low_byte (h_ttl h), low_byte (h_circuit_idx h), low_byte (h_circuit_id h),
                  low_byte (h_tx_seq h), low_byte (h_rx_seq h), low_byte (h_opcode_flags h)])
   }"

definition decode_l3_header :: "bytes \<Rightarrow> l3_header option option" where
  "decode_l3_header data =
     (if length data < l3_header_len then Some None
      else do {
        o1 \<leftarrow> decode_wire_call (slice 0 7 data);
        d1 \<leftarrow> decode_wire_call (slice 7 14 data);
        b14 \<leftarrow> byte_at data 14;
        b15 \<leftarrow> byte_at data 15;
        b16 \<leftarrow> byte_at data 16;
        b17 \<leftarrow> byte_at data 17;
        b18 \<leftarrow> byte_at data 18;
        b19 \<leftarrow> byte_at data 19;
        Some (Some \<lparr>h_origin_call = o1, h_dest_call = d1, h_ttl = uint b14,
          h_circuit_idx = uint b15, h_circuit_id = uint b16, h_tx_seq = uint b17,
          h_rx_seq = uint b18, h_opcode_flags = uint b19\<rparr>)
      })"

section \<open>Full frames\<close>

datatype l3_frame =
    ConnectRequest (frame_header: l3_header) (cr_window: int) (cr_user: callsign) (cr_origin: callsign)
  | ConnectAck (frame_header: l3_header) (ca_window: int) (ca_refused: bool)
  | Disconnect (frame_header: l3_header)
  | Information (frame_header: l3_header) (inf_bytes: bytes)
  | InformationAck (frame_header: l3_header)

definition encode_l3_frame :: "l3_header \<Rightarrow> bytes \<Rightarrow> bytes option" where
  "encode_l3_frame header payload = map_option (\<lambda>h. h @ payload) (encode_l3_header header)"

definition encode_connect_request_tail :: "int \<Rightarrow> callsign \<Rightarrow> callsign \<Rightarrow> bytes option" where
  "encode_connect_request_tail proposed_window user_call origin_node = do {
     u \<leftarrow> encode_wire_call user_call;
     n \<leftarrow> encode_wire_call origin_node;
     Some ([low_byte proposed_window] @ u @ n)
   }"

definition encode_connect_ack_tail :: "int \<Rightarrow> bytes" where
  "encode_connect_ack_tail accepted_window = [low_byte accepted_window]"

definition is_netrom_callsign_char :: "byte \<Rightarrow> bool" where
  "is_netrom_callsign_char ch \<longleftrightarrow>
     ch = 0x00 \<or> ch = 0x20 \<or> (0x30 \<le> ch \<and> ch \<le> 0x39) \<or> (0x41 \<le> ch \<and> ch \<le> 0x5A)"

definition wire_call_is_valid :: "bytes \<Rightarrow> bool" where
  "wire_call_is_valid data \<longleftrightarrow> list_all (\<lambda>b. is_netrom_callsign_char (wire_char b)) (take 6 data)"

definition decode_l3_frame :: "bytes \<Rightarrow> l3_frame option option" where
  "decode_l3_frame data = do {
     header \<leftarrow> decode_l3_header data;
     case header of
       None \<Rightarrow> Some None
     | Some h \<Rightarrow>
         (let rest = drop l3_header_len data; op = h_opcode h in
          if op = OPCODE_CONNECT_REQ then
            (if length rest < 1 + addr_wire_len + addr_wire_len then Some None
             else
               (let user_wire = slice 1 (1 + addr_wire_len) rest;
                    origin_wire = slice (1 + addr_wire_len) (1 + 2 * addr_wire_len) rest in
                if \<not> (wire_call_is_valid user_wire \<and> wire_call_is_valid origin_wire) then Some None
                else do {
                  w \<leftarrow> byte_at rest 0;
                  u \<leftarrow> decode_wire_call user_wire;
                  n \<leftarrow> decode_wire_call origin_wire;
                  Some (Some (ConnectRequest h (uint w) u n))
                }))
          else if op = OPCODE_CONNECT_ACK then
            (if length rest < 1 then Some None
             else do {
               w \<leftarrow> byte_at rest 0;
               Some (Some (ConnectAck h (uint w) (h_opcode_flags h AND FLAG_CHOKE \<noteq> 0)))
             })
          else if op = OPCODE_INFORMATION then Some (Some (Information h rest))
          else if op = OPCODE_INFORMATION_ACK then Some (Some (InformationAck h))
          else if op = OPCODE_DISCONNECT_REQ \<or> op = OPCODE_DISCONNECT_ACK
            then Some (Some (Disconnect h))
          else Some None)
   }"

section \<open>The classifier\<close>

definition looks_like_netrom_l3 :: "bytes \<Rightarrow> bool" where
  "looks_like_netrom_l3 data \<longleftrightarrow>
     \<not> length data < l3_header_len
     \<and> list_all (\<lambda>b. is_netrom_callsign_char (wire_char b)) (slice 0 6 data)
     \<and> data ! 6 AND 0xE1 = 0
     \<and> list_all (\<lambda>b. is_netrom_callsign_char (wire_char b)) (slice 7 13 data)
     \<and> data ! 13 AND 0xE0 = 0
     \<and> 1 \<le> data ! 14 \<and> data ! 14 \<le> 64
     \<and> data ! 19 AND 0x07 \<in> {1, 2, 3, 4, 5, 6}"

section \<open>Lemmas: wire-format callsigns\<close>

lemma wire_char_shift: "w < 128 \<longrightarrow> wire_char (push_bit 1 w AND 0xFE) = w"
  by (rule all_bytes [of "\<lambda>w. w < 128 \<longrightarrow> wire_char (push_bit 1 w AND 0xFE) = w"]) code_simp

lemma call_char_wire: "is_netrom_callsign_char w \<longleftrightarrow> w = 0 \<or> w = 0x20 \<or> is_call_char (chr_of w)"
  by (auto simp: is_netrom_callsign_char_def char_class_defs word_le_nat_alt)

definition shift_char :: "char \<Rightarrow> byte" where
  "shift_char c = push_bit 1 (ord_of c) AND 0xFE"

definition ssid_bits :: "int \<Rightarrow> byte" where
  "ssid_bits n = push_bit 1 (low_byte n AND 0x0F) AND 0x1E"

lemma wire_shift_char: "is_ascii c \<Longrightarrow> wire_char (shift_char c) = ord_of c"
  using wire_char_shift [of "ord_of c"] by (simp add: shift_char_def ord_of_ascii)

lemma ssid_bits_facts:
  assumes "0 \<le> n" and "n \<le> 15"
  shows "uint (drop_bit 1 (ssid_bits n) AND 0x0F) = n"
    and "uint (drop_bit 1 (ssid_bits n OR 0x01) AND 0x0F) = n"
    and "ssid_bits n AND 0xE1 = 0" and "(ssid_bits n OR 0x01) AND 0xE0 = 0"
proof -
  from assms have "n \<in> set [0..15]" by simp
  then have n: "n \<in> {0, 1, 2, 3, 4, 5, 6, 7, 8, 9, 10, 11, 12, 13, 14, 15}"
    by (simp add: upto.simps)
  from n show "uint (drop_bit 1 (ssid_bits n) AND 0x0F) = n"
    by (auto simp: ssid_bits_def low_byte_def)
  from n show "uint (drop_bit 1 (ssid_bits n OR 0x01) AND 0x0F) = n"
    by (auto simp: ssid_bits_def low_byte_def)
  from n show "ssid_bits n AND 0xE1 = 0"
    by (auto simp: ssid_bits_def low_byte_def)
  from n show "(ssid_bits n OR 0x01) AND 0xE0 = 0"
    by (auto simp: ssid_bits_def low_byte_def)
qed

lemma ssid_mask: "(w AND 15) * 2 AND 30 = w * 2 AND (30 :: byte)"
proof -
  have "push_bit 1 (w AND mask 4) AND push_bit 1 (mask 4) = push_bit 1 w AND push_bit 1 (mask 4)"
    by (simp only: push_bit_and [symmetric]) (simp add: ac_simps)
  then show ?thesis by (simp add: mask_eq_exp_minus_1 push_bit_eq_mult mult.commute)
qed

text \<open>The seven bytes of a canonical address.\<close>

definition wire_bytes :: "callsign \<Rightarrow> int \<Rightarrow> bytes" where
  "wire_bytes c n = map shift_char (ljust 6 c) @ [ssid_bits n]"

lemma encode_wire_call_format:
  assumes "valid_call c" and "0 \<le> n" and "n \<le> 15" and "format_addr c n = Some s"
  shows "encode_wire_call s = Some (wire_bytes c n)"
proof (cases "n = 0")
  case True
  with assms show ?thesis
    by (simp add: encode_wire_call_def format_addr_valid valid_call_facts rsplit1_none
        wire_bytes_def shift_char_def ssid_bits_def valid_call_def low_byte_def)
next
  case False
  define ds where "ds = nat_str (nat n)"
  have s: "s = c @ CHR 0x2D # ds" using assms False by (simp add: format_addr_valid ds_def)
  have "upper s = s" using assms(1) by (simp add: s valid_call_facts ds_def)
  moreover have "rsplit1 CHR 0x2D s = (c, Some ds)" by (simp add: s rsplit1_at ds_def)
  moreover have "py_int ds = Some n" using assms(2) by (simp add: ds_def)
  ultimately show ?thesis
    using assms(1)
    by (simp add: encode_wire_call_def wire_bytes_def shift_char_def ssid_bits_def valid_call_def ssid_mask)
qed

lemma length_wire_bytes [simp]: "valid_call c \<Longrightarrow> length (wire_bytes c n) = 7"
  by (simp add: wire_bytes_def length_ljust valid_call_def)

lemma ljust_ascii: "list_all is_ascii c \<Longrightarrow> list_all is_ascii (ljust n c)"
  by (auto simp: ljust_def list_all_iff is_ascii_def)

lemma decode_wire_call_chars:
  assumes "valid_call c"
  shows "map (\<lambda>b. chr_of (wire_char b))
     (filter (\<lambda>b. wire_char b \<noteq> 0 \<and> wire_char b \<noteq> 0x20) (map shift_char (ljust 6 c))) = c"
proof -
  have one: "wire_char (shift_char x) = ord_of x \<and> ord_of x \<noteq> 0 \<and> ord_of x \<noteq> 0x20"
    if "x \<in> set c" for x
  proof -
    from assms that have x: "is_call_char x" by (auto simp: valid_call_def list_all_iff)
    then have "code x \<noteq> 0" "code x \<noteq> 32" by (auto simp: char_class_defs)
    then have "ord_of x \<noteq> 0" "ord_of x \<noteq> 0x20" by (auto simp: unat_ord_of [symmetric])
    with x show ?thesis by (simp add: wire_shift_char)
  qed
  have blank: "wire_char (shift_char CHR 0x20) = 0x20"
    using wire_shift_char [of "CHR 0x20"] by (simp add: is_ascii_def ord_of_def)
  have "filter (\<lambda>b. wire_char b \<noteq> 0 \<and> wire_char b \<noteq> 0x20) (map shift_char c) = map shift_char c"
    using one by (auto intro: filter_True)
  moreover have "map (\<lambda>b. chr_of (wire_char b)) (map shift_char c) = c"
    using one by (simp add: map_idI)
  ultimately show ?thesis
    by (simp add: ljust_def filter_replicate blank)
qed

lemma decode_wire_bytes:
  assumes "valid_call c" and "0 \<le> n" and "n \<le> 15"
    and "uint (drop_bit 1 b AND 0x0F :: byte) = n"
  shows "decode_wire_call (map shift_char (ljust 6 c) @ [b]) = format_addr c n"
proof -
  have len: "length (ljust 6 c) = 6" using assms(1) by (simp add: length_ljust valid_call_def)
  have un: "unat (drop_bit 1 b AND 0x0F) = nat n" using assms(4) by (metis unat_eq_nat_uint)
  have z: "drop_bit 1 b AND 0x0F = 0 \<longleftrightarrow> n = 0" using assms(4) by (metis uint_0_iff)
  show ?thesis
    using decode_wire_call_chars [OF assms(1)]
    by (simp add: decode_wire_call_def byte_at_def len nth_append z Let_def format_addr_valid [OF assms(1-3)] un
        del: One_nat_def flip: filter_map)
qed

lemma decode_wire_call_total: "decode_wire_call data = None \<longleftrightarrow> length data < 7"
  by (auto simp: decode_wire_call_def byte_at_def Let_def)

lemma wire_call_is_valid_wire:
  assumes "valid_call c"
  shows "wire_call_is_valid (map shift_char (ljust 6 c) @ bs)"
proof -
  have len: "length (ljust 6 c) = 6" using assms by (simp add: length_ljust valid_call_def)
  have "is_netrom_callsign_char (wire_char (shift_char x))" if "x \<in> set (ljust 6 c)" for x
  proof -
    from that assms have "is_call_char x \<or> x = CHR 0x20"
      by (auto simp: ljust_def valid_call_def list_all_iff)
    then have "is_ascii x" and "is_call_char x \<or> ord_of x = 0x20"
      by (auto simp: is_ascii_def [of "CHR 0x20"] ord_of_def)
    then show ?thesis by (auto simp: wire_shift_char call_char_wire)
  qed
  then show ?thesis by (simp add: wire_call_is_valid_def len list_all_iff)
qed

text \<open>A canonical address on the wire, with or without the end-of-address bit.\<close>

lemma canonical_wireE:
  assumes "canonical s"
  obtains cs b where "encode_wire_call s = Some (cs @ [b])" and "length cs = 6"
    and "decode_wire_call (cs @ [b]) = Some s" and "decode_wire_call (cs @ [b OR 1]) = Some s"
    and "b AND 0xE1 = 0" and "(b OR 1) AND 0xE0 = 0" and "wire_call_is_valid cs"
proof -
  obtain c n where c: "valid_call c" "0 \<le> n" "n \<le> 15" "format_addr c n = Some s"
    using assms by (rule canonicalE)
  note f = ssid_bits_facts [OF c(2,3)]
  show ?thesis
  proof (rule that [of "map shift_char (ljust 6 c)" "ssid_bits n"])
    show "encode_wire_call s = Some (map shift_char (ljust 6 c) @ [ssid_bits n])"
      using encode_wire_call_format [OF c] by (simp add: wire_bytes_def)
    show "decode_wire_call (map shift_char (ljust 6 c) @ [ssid_bits n]) = Some s"
      using decode_wire_bytes [OF c(1-3) f(1)] c(4) by simp
    show "decode_wire_call (map shift_char (ljust 6 c) @ [ssid_bits n OR 1]) = Some s"
      using decode_wire_bytes [OF c(1-3) f(2)] c(4) by simp
    show "wire_call_is_valid (map shift_char (ljust 6 c))"
      using wire_call_is_valid_wire [OF c(1), of "[]"] by simp
  qed (use c(1) f in \<open>auto simp: length_ljust valid_call_def\<close>)
qed

interpretation wire: fixed_codec encode_wire_call decode_wire_call canonical 7
proof unfold_locales
  fix s assume "canonical s"
  then show "\<exists>bs. encode_wire_call s = Some bs \<and> length bs = 7 \<and> decode_wire_call bs = Some s"
    by (rule canonical_wireE) auto
qed simp

section \<open>Lemmas: NODES broadcasts\<close>

text \<open>An alias that fits its field: upper-case ASCII, at most six characters, no trailing blank.\<close>

definition alias_ok :: "string \<Rightarrow> bool" where
  "alias_ok a \<longleftrightarrow> length a \<le> alias_len \<and> list_all is_ascii a \<and> upper a = a \<and> rstrip a = a"

lemma length_encode_alias [simp]: "length (encode_alias a) = 6"
  by (simp add: encode_alias_def length_ljust alias_len_def)

lemma decode_encode_alias:
  assumes "alias_ok a" shows "decode_alias (encode_alias a) = a"
proof -
  from assms have "decode_ascii (encode_ascii (ljust 6 a)) = ljust 6 a"
    by (intro decode_encode_ascii ljust_ascii) (simp add: alias_ok_def)
  with assms show ?thesis
    by (simp add: decode_alias_def encode_alias_def alias_ok_def alias_len_def)
      (simp add: ljust_def rstrip_append_blanks)
qed

definition entry_ok :: "node_entry \<Rightarrow> bool" where
  "entry_ok e \<longleftrightarrow> canonical (ne_dest_call e) \<and> canonical (ne_neighbor_call e)
     \<and> alias_ok (ne_alias e) \<and> 0 \<le> ne_quality e \<and> ne_quality e < 256"

interpretation entry: fixed_codec encode_node_entry decode_node_entry entry_ok node_entry_len
proof unfold_locales
  show "0 < node_entry_len" by (simp add: netrom_lens)
next
  fix e assume e: "entry_ok e"
  obtain d where d: "encode_wire_call (ne_dest_call e) = Some d" "length d = 7"
      "decode_wire_call d = Some (ne_dest_call e)"
    using e by (auto simp: entry_ok_def elim: wire.encE)
  obtain n where n: "encode_wire_call (ne_neighbor_call e) = Some n" "length n = 7"
      "decode_wire_call n = Some (ne_neighbor_call e)"
    using e by (auto simp: entry_ok_def elim: wire.encE)
  from e have "uint (low_byte (ne_quality e)) = ne_quality e"
    by (simp add: entry_ok_def uint_low_byte)
  with e d n show "\<exists>bs. encode_node_entry e = Some bs \<and> length bs = node_entry_len
      \<and> decode_node_entry bs = Some e"
    by (simp add: encode_node_entry_def decode_node_entry_def netrom_lens slice_def byte_at_def
        nth_append decode_encode_alias entry_ok_def)
qed

text \<open>The cursor loop is the fold of the record decoder over the 21-byte slices of the payload.\<close>

lemma decode_node_entry_total: "length chunk = node_entry_len \<Longrightarrow> \<exists>e. decode_node_entry chunk = Some e"
  using decode_wire_call_total [of "slice 0 7 chunk"] decode_wire_call_total [of "slice 13 20 chunk"]
  by (auto simp: decode_node_entry_def netrom_lens slice_def byte_at_def)

lemma nodes_loop_chunks:
  "nodes_loop payload off acc =
     Some (acc @ filter (\<lambda>e. ne_dest_call e \<noteq> [])
       (map (\<lambda>c. the (decode_node_entry c)) (chunks node_entry_len (drop off payload))))"
proof (induction payload off acc rule: nodes_loop.induct)
  case (1 payload off acc)
  show ?case
  proof (cases "off + node_entry_len \<le> length payload")
    case True
    let ?c = "slice off (off + node_entry_len) payload"
    from True have len: "length ?c = node_entry_len" by (simp add: slice_def)
    then obtain e where e: "decode_node_entry ?c = Some e" using decode_node_entry_total by blast
    have split: "drop off payload = ?c @ drop (off + node_entry_len) payload"
      by (simp add: slice_def) (metis add.commute append_take_drop_id drop_drop)
    show ?thesis
      using True e "1.IH" [OF True e]
      by (subst nodes_loop.simps, subst split, subst chunks_append) (auto simp: len entry.width_pos)
  next
    case False
    then show ?thesis using entry.width_pos by (subst nodes_loop.simps) (simp add: chunks_short)
  qed
qed

lemma nodes_decoder_total: "\<exists>r. decode_nodes_broadcast src payload = Some r"
  by (auto simp: decode_nodes_broadcast_def byte_at_def nodes_loop_chunks Let_def)

lemma canonical_not_Nil: "canonical s \<Longrightarrow> s \<noteq> []"
  by (elim canonicalE) (auto simp: format_addr_valid valid_call_def split: if_splits)

lemma nodes_round_trip:
  assumes "alias_ok a" and "list_all entry_ok es" and "length junk < node_entry_len"
  shows "\<exists>bs. encode_nodes_broadcast a es = Some bs \<and>
    decode_nodes_broadcast src (bs @ junk)
      = Some (Some \<lparr>nf_source_call = src, nf_source_alias = a, nf_entries = es\<rparr>)"
proof -
  obtain bs where bs: "enc_all encode_node_entry es = Some bs"
      "map decode_node_entry (chunks node_entry_len (bs @ junk)) = map Some es"
    using entry.list_round_trip [OF assms(2,3)] by blast
  have "map (\<lambda>c. the (decode_node_entry c)) (chunks node_entry_len (bs @ junk)) = es"
    using arg_cong [OF bs(2), of "map the"] by (simp add: comp_def)
  moreover have "filter (\<lambda>e. ne_dest_call e \<noteq> []) es = es"
    using assms(2) canonical_not_Nil by (force simp: list_all_iff entry_ok_def intro: filter_True)
  ultimately show ?thesis
    using assms(1) bs(1) decode_encode_alias [OF assms(1)]
    by (simp add: encode_nodes_broadcast_def decode_nodes_broadcast_def byte_at_def
        nodes_loop_chunks slice_def alias_len_def)
qed

section \<open>Lemmas: the L3 header and frames\<close>

definition byte_range :: "int \<Rightarrow> bool" where
  "byte_range n \<longleftrightarrow> 0 \<le> n \<and> n < 256"

lemma byte_range_low: "byte_range n \<Longrightarrow> uint (low_byte n) = n"
  by (simp add: byte_range_def uint_low_byte)

definition header_ok :: "l3_header \<Rightarrow> bool" where
  "header_ok h \<longleftrightarrow> canonical (h_origin_call h) \<and> canonical (h_dest_call h) \<and> byte_range (h_ttl h)
     \<and> byte_range (h_circuit_idx h) \<and> byte_range (h_circuit_id h) \<and> byte_range (h_tx_seq h)
     \<and> byte_range (h_rx_seq h) \<and> byte_range (h_opcode_flags h)"

text \<open>The layout of the twenty bytes of a well-formed header.\<close>

lemma encode_l3_headerE:
  assumes "header_ok h"
  obtains oc ob dc db where
    "encode_l3_header h = Some (oc @ [ob] @ dc @ [db OR 1] @
       [low_byte (h_ttl h), low_byte (h_circuit_idx h), low_byte (h_circuit_id h),
        low_byte (h_tx_seq h), low_byte (h_rx_seq h), low_byte (h_opcode_flags h)])"
    and "length oc = 6" and "length dc = 6"
    and "decode_wire_call (oc @ [ob]) = Some (h_origin_call h)"
    and "decode_wire_call (dc @ [db OR 1]) = Some (h_dest_call h)"
    and "ob AND 0xE1 = 0" and "(db OR 1) AND 0xE0 = 0"
    and "wire_call_is_valid oc" and "wire_call_is_valid dc"
proof -
  from assms have "canonical (h_origin_call h)" "canonical (h_dest_call h)"
    by (auto simp: header_ok_def)
  then obtain oc ob dc db where
    o: "encode_wire_call (h_origin_call h) = Some (oc @ [ob])" "length oc = 6"
      "decode_wire_call (oc @ [ob]) = Some (h_origin_call h)" "ob AND 0xE1 = 0"
      "wire_call_is_valid oc" and
    d: "encode_wire_call (h_dest_call h) = Some (dc @ [db])" "length dc = 6"
      "decode_wire_call (dc @ [db OR 1]) = Some (h_dest_call h)" "(db OR 1) AND 0xE0 = 0"
      "wire_call_is_valid dc"
    by (metis canonical_wireE)
  have "encode_l3_header h = Some (oc @ [ob] @ dc @ [db OR 1] @
       [low_byte (h_ttl h), low_byte (h_circuit_idx h), low_byte (h_circuit_id h),
        low_byte (h_tx_seq h), low_byte (h_rx_seq h), low_byte (h_opcode_flags h)])"
    using o(1,2) d(1,2) by (simp add: encode_l3_header_def nth_append list_update_append Let_def)
  then show ?thesis by (rule that) (use o d in simp_all)
qed

lemma l3_header_round_trip:
  assumes "header_ok h"
  shows "\<exists>bs. encode_l3_header h = Some bs \<and> length bs = l3_header_len
    \<and> decode_l3_header (bs @ payload) = Some (Some h)"
proof -
  obtain oc ob dc db where e:
    "encode_l3_header h = Some (oc @ [ob] @ dc @ [db OR 1] @
       [low_byte (h_ttl h), low_byte (h_circuit_idx h), low_byte (h_circuit_id h),
        low_byte (h_tx_seq h), low_byte (h_rx_seq h), low_byte (h_opcode_flags h)])"
    "length oc = 6" "length dc = 6"
    "decode_wire_call (oc @ [ob]) = Some (h_origin_call h)"
    "decode_wire_call (dc @ [db OR 1]) = Some (h_dest_call h)"
    using assms by (rule encode_l3_headerE)
  have "decode_l3_header ((oc @ [ob] @ dc @ [db OR 1] @
       [low_byte (h_ttl h), low_byte (h_circuit_idx h), low_byte (h_circuit_id h),
        low_byte (h_tx_seq h), low_byte (h_rx_seq h), low_byte (h_opcode_flags h)]) @ payload)
      = Some (Some h)"
    using assms e(2-5)
    by (simp add: decode_l3_header_def l3_header_len_def slice_def byte_at_def nth_append
        header_ok_def byte_range_low)
  with e(1-3) show ?thesis by (auto simp: l3_header_len_def)
qed

text \<open>The value of the decoder on a buffer of sufficient length, as the callers use it.\<close>

definition l3_header_of :: "bytes \<Rightarrow> l3_header option" where
  "l3_header_of data = Option.bind (decode_l3_header data) (\<lambda>h. h)"

interpretation l3h: fixed_codec encode_l3_header l3_header_of header_ok l3_header_len
proof unfold_locales
  fix h assume "header_ok h"
  from l3_header_round_trip [OF this, of "[]"] show "\<exists>bs. encode_l3_header h = Some bs
      \<and> length bs = l3_header_len \<and> l3_header_of bs = Some h"
    by (auto simp: l3_header_of_def)
qed (simp add: l3_header_len_def)

lemma decode_l3_header_total: "\<exists>r. decode_l3_header data = Some r"
proof -
  have "decode_wire_call (slice a (a + 7) data) \<noteq> None" if "a + 7 \<le> length data" for a
    using that by (simp add: decode_wire_call_total slice_def)
  from this [of 0] this [of 7] show ?thesis
    by (auto simp: decode_l3_header_def l3_header_len_def byte_at_def)
qed

lemma decode_l3_header_Some_length:
  "decode_l3_header data = Some (Some h) \<Longrightarrow> l3_header_len \<le> length data"
  by (auto simp: decode_l3_header_def split: if_splits)

lemma decode_l3_frame_total: "\<exists>r. decode_l3_frame data = Some r"
proof -
  obtain h where "decode_l3_header data = Some h" using decode_l3_header_total by blast
  moreover have sl: "\<exists>s. decode_wire_call (slice a b xs) = Some s"
    if "b = a + 7" "b \<le> length xs" for a b and xs :: bytes
    using that decode_wire_call_total [of "slice a b xs"] by (simp add: slice_def)
  ultimately show ?thesis
    using sl [of 8 1 "drop l3_header_len data"] sl [of 15 8 "drop l3_header_len data"]
    by (cases h) (auto simp: decode_l3_frame_def Let_def byte_at_def addr_wire_len_def opcode_defs)
qed

lemma l3_frame_round_trip:
  assumes "header_ok h"
  shows "h_opcode h = OPCODE_INFORMATION \<Longrightarrow> \<exists>bs. encode_l3_frame h info = Some bs \<and> decode_l3_frame bs = Some (Some (Information h info))"
    and "h_opcode h = OPCODE_INFORMATION_ACK \<Longrightarrow> \<exists>bs. encode_l3_frame h [] = Some bs \<and> decode_l3_frame bs = Some (Some (InformationAck h))"
    and "h_opcode h \<in> {OPCODE_DISCONNECT_REQ, OPCODE_DISCONNECT_ACK} \<Longrightarrow> \<exists>bs. encode_l3_frame h [] = Some bs \<and> decode_l3_frame bs = Some (Some (Disconnect h))"
    and "h_opcode h = OPCODE_CONNECT_ACK \<Longrightarrow> byte_range w \<Longrightarrow> \<exists>bs. encode_l3_frame h (encode_connect_ack_tail w) = Some bs \<and>
      decode_l3_frame bs = Some (Some (ConnectAck h w (h_refused h)))"
proof -
  have *: "\<exists>bs. encode_l3_frame h p = Some (bs @ p) \<and> length bs = l3_header_len
      \<and> decode_l3_header (bs @ p) = Some (Some h)" for p
    using l3_header_round_trip [OF assms, of p] by (auto simp: encode_l3_frame_def)
  show "\<exists>bs. encode_l3_frame h info = Some bs \<and> decode_l3_frame bs = Some (Some (Information h info))"
    if "h_opcode h = OPCODE_INFORMATION"
    using *[of info] that by (auto simp: decode_l3_frame_def opcode_defs Let_def)
  show "\<exists>bs. encode_l3_frame h [] = Some bs \<and> decode_l3_frame bs = Some (Some (InformationAck h))"
    if "h_opcode h = OPCODE_INFORMATION_ACK"
    using *[of "[]"] that by (auto simp: decode_l3_frame_def opcode_defs Let_def)
  show "\<exists>bs. encode_l3_frame h [] = Some bs \<and> decode_l3_frame bs = Some (Some (Disconnect h))"
    if "h_opcode h \<in> {OPCODE_DISCONNECT_REQ, OPCODE_DISCONNECT_ACK}"
    using *[of "[]"] that by (auto simp: decode_l3_frame_def opcode_defs Let_def)
  show "\<exists>bs. encode_l3_frame h (encode_connect_ack_tail w) = Some bs \<and>
      decode_l3_frame bs = Some (Some (ConnectAck h w (h_refused h)))"
    if "h_opcode h = OPCODE_CONNECT_ACK" and "byte_range w"
    using *[of "encode_connect_ack_tail w"] that
    by (auto simp: decode_l3_frame_def opcode_defs Let_def encode_connect_ack_tail_def byte_at_def
        byte_range_low h_refused_def)
qed

lemma connect_req_round_trip:
  assumes "header_ok h" and "h_opcode h = OPCODE_CONNECT_REQ" and "byte_range w"
    and "canonical user" and "canonical origin"
  shows "\<exists>tail bs. encode_connect_request_tail w user origin = Some tail
    \<and> encode_l3_frame h tail = Some bs \<and> length bs = 35
    \<and> decode_l3_frame bs = Some (Some (ConnectRequest h w user origin))"
proof -
  obtain uc ub where u: "encode_wire_call user = Some (uc @ [ub])" "length uc = 6"
      "decode_wire_call (uc @ [ub]) = Some user" "wire_call_is_valid uc"
    using assms(4) by (rule canonical_wireE)
  obtain nc nb where n: "encode_wire_call origin = Some (nc @ [nb])" "length nc = 6"
      "decode_wire_call (nc @ [nb]) = Some origin" "wire_call_is_valid nc"
    using assms(5) by (rule canonical_wireE)
  define tail where "tail = low_byte w # uc @ [ub] @ nc @ [nb]"
  have t: "encode_connect_request_tail w user origin = Some tail"
    using u n by (simp add: encode_connect_request_tail_def tail_def)
  obtain hb where h: "encode_l3_header h = Some hb" "length hb = l3_header_len"
      "decode_l3_header (hb @ tail) = Some (Some h)"
    using l3_header_round_trip [OF assms(1)] by blast
  have v: "wire_call_is_valid (uc @ [ub])" "wire_call_is_valid (nc @ [nb])"
    using u n by (auto simp: wire_call_is_valid_def)
  have "decode_l3_frame (hb @ tail) = Some (Some (ConnectRequest h w user origin))"
    using assms(2,3) u n h v
    by (simp add: decode_l3_frame_def tail_def slice_def addr_wire_len_def byte_at_def opcode_defs
        byte_range_low Let_def)
  with t h u n show ?thesis
    by (auto simp: encode_l3_frame_def tail_def l3_header_len_def)
qed

text \<open>Every frame the node encodes with a live TTL and a known opcode is recognised.\<close>

lemma h_opcode_low_byte:
  assumes "byte_range (h_opcode_flags h)"
  shows "uint (low_byte (h_opcode_flags h) AND 0x07) = h_opcode h"
  using byte_range_low [OF assms] by (simp add: h_opcode_def uint_and)

lemma opcode_word: "1 \<le> uint w \<Longrightarrow> uint w \<le> 6 \<Longrightarrow> w \<in> {1, 2, 3, 4, 5, 6 :: byte}"
proof -
  assume "1 \<le> uint w" and "uint w \<le> 6"
  then have "uint w \<in> {1, 2, 3, 4, 5, 6}" by auto
  then have "word_of_int (uint w) \<in> (word_of_int ` {1, 2, 3, 4, 5, 6} :: byte set)" by (rule imageI)
  then show ?thesis by simp
qed

lemma classifier_complete:
  assumes "header_ok h" and "1 \<le> h_ttl h" and "h_ttl h \<le> 64"
    and "1 \<le> h_opcode h" and "h_opcode h \<le> 6"
    and "encode_l3_frame h payload = Some bs"
  shows "looks_like_netrom_l3 bs"
proof -
  obtain oc ob dc db where e:
    "encode_l3_header h = Some (oc @ [ob] @ dc @ [db OR 1] @
       [low_byte (h_ttl h), low_byte (h_circuit_idx h), low_byte (h_circuit_id h),
        low_byte (h_tx_seq h), low_byte (h_rx_seq h), low_byte (h_opcode_flags h)])"
    "length oc = 6" "length dc = 6" "ob AND 0xE1 = 0" "(db OR 1) AND 0xE0 = 0"
    "wire_call_is_valid oc" "wire_call_is_valid dc"
    using assms(1) by (rule encode_l3_headerE)
  have ttl: "1 \<le> low_byte (h_ttl h)" "low_byte (h_ttl h) \<le> 64"
    using assms(1-3) byte_range_low [of "h_ttl h"] by (auto simp: header_ok_def word_le_def)
  have op: "low_byte (h_opcode_flags h) AND 0x07 \<in> {1, 2, 3, 4, 5, 6}"
    using assms(1,4,5) h_opcode_low_byte [of h] by (intro opcode_word) (auto simp: header_ok_def)
  show ?thesis
    using assms(6) e ttl op
    by (auto simp: encode_l3_frame_def looks_like_netrom_l3_def l3_header_len_def slice_def nth_append
        wire_call_is_valid_def)
qed

text \<open>What a decoded CONNECT REQ promises of its callsigns.\<close>

lemma decode_wire_call_valid:
  assumes "wire_call_is_valid data" and "decode_wire_call data = Some s"
  shows "\<exists>c k. list_all is_call_char c \<and> length c \<le> 6 \<and> k < 16
    \<and> s = (if k = 0 then c else c @ CHR 0x2D # nat_str k)"
proof -
  define c where "c = map (\<lambda>b. chr_of (wire_char b))
       (filter (\<lambda>b. wire_char b \<noteq> 0 \<and> wire_char b \<noteq> 0x20) (take 6 data))"
  from assms(2) have len: "7 \<le> length data" using decode_wire_call_total [of data] by simp
  define k where "k = unat (drop_bit 1 (data ! 6) AND 0x0F)"
  have "list_all is_call_char c"
    using assms(1) by (auto simp: c_def wire_call_is_valid_def list_all_iff call_char_wire)
  moreover have "length c \<le> length (take 6 data)"
    unfolding c_def length_map by (rule length_filter_le)
  then have "length c \<le> 6" by simp
  moreover have "k < 16"
  proof -
    have "drop_bit 1 (data ! 6) AND 0x0F \<le> (0x0F :: byte)" by (rule word_and_le1)
    then show ?thesis by (simp add: k_def word_le_nat_alt)
  qed
  moreover have "s = (if k = 0 then c else c @ CHR 0x2D # nat_str k)"
    using assms(2) len by (auto simp: decode_wire_call_def c_def k_def byte_at_def Let_def unat_eq_0)
  ultimately show ?thesis by blast
qed

end
