(* ===== verification/Kiss_Frame.thy ===== *)
theory Kiss_Frame
  imports Netrom_Frame
begin

text \<open>
  \<open>bbs/ax25/kiss_frame.py\<close> and the frame builder of \<open>bbs/transport/kiss.py\<close>: KISS byte
  stuffing, the splitter that finds frames in a byte stream, the AX.25 address walk with its
  digipeater path, and \<open>_build_ax25_ui_frame\<close>. The index loops of the source are recursions on
  the rest of the buffer or on the offset.
\<close>

definition FEND :: byte where "FEND = 0xC0"
definition FESC :: byte where "FESC = 0xDB"
definition TFEND :: byte where "TFEND = 0xDC"
definition TFESC :: byte where "TFESC = 0xDD"
definition PID_NO_LAYER3 :: byte where "PID_NO_LAYER3 = 0xF0"

lemmas kiss_bytes = FEND_def FESC_def TFEND_def TFESC_def

record kiss_frame =
  kf_port :: int
  kf_dest_call :: callsign
  kf_src_call :: callsign
  kf_is_ui :: bool
  kf_pid :: byte
  kf_payload :: bytes
  kf_via :: "string list"

section \<open>Byte stuffing\<close>

fun kiss_unescape :: "bytes \<Rightarrow> bytes" where
  "kiss_unescape [] = []"
| "kiss_unescape (b # bs) =
     (if b = FESC then
        (case bs of
           [] \<Rightarrow> []
         | nxt # rest \<Rightarrow>
             (if nxt = TFEND then [FEND] else if nxt = TFESC then [FESC] else [])
             @ kiss_unescape rest)
      else b # kiss_unescape bs)"

fun kiss_escape :: "bytes \<Rightarrow> bytes" where
  "kiss_escape [] = []"
| "kiss_escape (b # bs) =
     (if b = FEND then [FESC, TFEND] else if b = FESC then [FESC, TFESC] else [b]) @ kiss_escape bs"

definition build_kiss_frame :: "int \<Rightarrow> bytes \<Rightarrow> bytes" where
  "build_kiss_frame port ax25_frame =
     (let command = push_bit 4 (low_byte port AND 0x0F) in
      [FEND, command] @ kiss_escape ax25_frame @ [FEND])"

section \<open>Finding frames in a stream\<close>

text \<open>\<open>buf.find(b, i)\<close>, with \<open>None\<close> for -1.\<close>

definition find_from :: "byte \<Rightarrow> nat \<Rightarrow> bytes \<Rightarrow> nat option" where
  "find_from b i buf =
     (let j = i + length (takeWhile (\<lambda>x. x \<noteq> b) (drop i buf)) in
      if j < length buf then Some j else None)"

function split_loop :: "bytes list \<Rightarrow> bytes \<Rightarrow> bytes list \<times> bytes" where
  "split_loop frames buf =
     (case find_from FEND 0 buf of
        None \<Rightarrow> (frames, buf)
      | Some start \<Rightarrow>
          (case find_from FEND (start + 1) buf of
             None \<Rightarrow> (frames, buf)
           | Some e \<Rightarrow>
               (let frame_data = slice (start + 1) e buf in
                split_loop (if frame_data \<noteq> [] then frames @ [frame_data] else frames)
                  (drop (e + 1) buf))))"
  by pat_completeness auto
termination
  by (relation "measure (\<lambda>(frames, buf). length buf)")
     (auto simp: find_from_def Let_def split: if_splits)

declare split_loop.simps [simp del]

definition split_kiss_frames :: "bytes \<Rightarrow> bytes list \<times> bytes" where
  "split_kiss_frames buf = split_loop [] buf"

section \<open>AX.25 frames\<close>

definition decode_callsign :: "bytes \<Rightarrow> (callsign \<times> int) option" where
  "decode_callsign addr_field = do {
     let callsign = strip (map (\<lambda>b. chr_of (wire_char b))
       (filter (\<lambda>b. wire_char b \<noteq> 0x20) (take 6 addr_field)));
     b6 \<leftarrow> byte_at addr_field 6;
     Some (callsign, uint (drop_bit 1 b6 AND 0x0F))
   }"

text \<open>The \<open>while offset + _ADDR_BYTES <= len(ax25)\<close> walk over the digipeaters.\<close>

function via_loop :: "bytes \<Rightarrow> nat \<Rightarrow> string list \<Rightarrow> (string list \<times> nat) option" where
  "via_loop ax25 offset via =
     (if offset + 7 \<le> length ax25 then
        do {
          let digi_field = slice offset (offset + 7) ax25;
          (digi_call, digi_ssid) \<leftarrow> decode_callsign digi_field;
          b6 \<leftarrow> byte_at digi_field 6;
          let h_bit = (b6 AND 0x80 \<noteq> 0);
          let is_last = (b6 AND 0x01 \<noteq> 0);
          via' \<leftarrow> (if digi_call \<noteq> [] then
                     map_option (\<lambda>a. via @ [a @ (if h_bit then ''*'' else [])])
                       (format_addr digi_call digi_ssid)
                   else Some via);
          if is_last then Some (via', offset + 7) else via_loop ax25 (offset + 7) via'
        }
      else Some (via, offset))"
  by pat_completeness auto
termination
  by (relation "measure (\<lambda>(ax25, offset, via). length ax25 - offset)") auto

declare via_loop.simps [simp del]

definition decode_ax25 :: "bytes \<Rightarrow> int \<Rightarrow> kiss_frame option option" where
  "decode_ax25 ax25 port =
     (if length ax25 < 15 then Some None
      else do {
        (dest_call, dest_ssid) \<leftarrow> decode_callsign (slice 0 7 ax25);
        (src_call, src_ssid) \<leftarrow> decode_callsign (slice 7 14 ax25);
        b13 \<leftarrow> byte_at ax25 13;
        (via, offset) \<leftarrow> (if b13 AND 0x01 = 0 then via_loop ax25 14 [] else Some ([], 14));
        if length ax25 \<le> offset then Some None
        else do {
          control \<leftarrow> byte_at ax25 offset;
          let is_ui = (control AND 0xEF = 0x03);
          if is_ui \<and> length ax25 < offset + 2 then Some None
          else do {
            pid \<leftarrow> (if is_ui then byte_at ax25 (offset + 1) else Some 0);
            let payload = (if is_ui then drop (offset + 2) ax25 else drop (offset + 1) ax25);
            d \<leftarrow> format_addr dest_call dest_ssid;
            s \<leftarrow> format_addr src_call src_ssid;
            Some (Some \<lparr>kf_port = port, kf_dest_call = d, kf_src_call = s, kf_is_ui = is_ui,
                        kf_pid = pid, kf_payload = payload, kf_via = via\<rparr>)
          }
        }
      })"

definition decode_ax25_frame :: "bytes \<Rightarrow> kiss_frame option option" where
  "decode_ax25_frame ax25 = decode_ax25 ax25 0"

definition decode_frame :: "bytes \<Rightarrow> kiss_frame option option" where
  "decode_frame raw =
     (if length raw < 1 then Some None
      else do {
        b0 \<leftarrow> byte_at raw 0;
        let port = drop_bit 4 b0 AND 0x0F;
        let frame_type = b0 AND 0x0F;
        if frame_type \<noteq> 0 then Some None
        else decode_ax25 (kiss_unescape (drop 1 raw)) (uint port)
      })"

section \<open>Building UI frames\<close>

definition encode_addr :: "callsign \<Rightarrow> int \<Rightarrow> bool \<Rightarrow> bool \<Rightarrow> bytes" where
  "encode_addr callsign ssid is_last high_bit =
     (let padded = take 6 (ljust 6 (upper callsign));
          encoded = map (\<lambda>c. push_bit 1 (ord_of c)) padded;
          ssid_byte = 0x60 OR push_bit 1 (low_byte ssid AND 0x0F) OR (if is_last then 0x01 else 0x00);
          ssid_byte = (if high_bit then ssid_byte OR 0x80 else ssid_byte) in
      encoded @ [ssid_byte])"

fun encode_vias :: "string list \<Rightarrow> bytes option" where
  "encode_vias [] = Some []"
| "encode_vias (v # vs) = do {
     (v_call, v_ssid) \<leftarrow> parse v;
     rest \<leftarrow> encode_vias vs;
     Some (encode_addr v_call v_ssid (vs = []) False @ rest)
   }"

definition build_ax25_ui_frame :: "string \<Rightarrow> string \<Rightarrow> bytes \<Rightarrow> string list \<Rightarrow> bytes option" where
  "build_ax25_ui_frame src dest payload vias = do {
     (dest_call, dest_ssid) \<leftarrow> parse dest;
     (src_call, src_ssid) \<leftarrow> parse src;
     digis \<leftarrow> encode_vias vias;
     let addr_field = encode_addr dest_call dest_ssid False True
       @ encode_addr src_call src_ssid (vias = []) False @ digis;
     Some (addr_field @ [0x03] @ [PID_NO_LAYER3] @ payload)
   }"

section \<open>Lemmas: byte stuffing\<close>

lemma unescape_escape [simp]: "kiss_unescape (kiss_escape bs) = bs"
  by (induction bs) (auto simp: kiss_bytes)

lemma escape_no_fend: "FEND \<notin> set (kiss_escape bs)"
  by (induction bs) (auto simp: kiss_bytes)

lemma length_escape: "length bs \<le> length (kiss_escape bs) \<and> length (kiss_escape bs) \<le> 2 * length bs"
  by (induction bs) auto

lemma length_unescape: "length (kiss_unescape bs) \<le> length bs"
  by (induction bs rule: kiss_unescape.induct) (auto split: list.splits)

section \<open>Lemmas: the splitter\<close>

lemma find_from_none: "b \<notin> set (drop i buf) \<Longrightarrow> find_from b i buf = None"
proof -
  assume "b \<notin> set (drop i buf)"
  then have "takeWhile (\<lambda>x. x \<noteq> b) (drop i buf) = drop i buf"
    by (intro takeWhile_eq_all_conv [THEN iffD2]) auto
  from arg_cong [OF this, of length]
  have "length (takeWhile (\<lambda>x. x \<noteq> b) (drop i buf)) = length buf - i" by simp
  then show ?thesis by (simp add: find_from_def Let_def)
qed

lemma find_from_at:
  assumes "length xs = i" and "b \<notin> set pre"
  shows "find_from b i (xs @ pre @ b # rest) = Some (i + length pre)"
proof -
  have "list_all (\<lambda>x. x \<noteq> b) pre" using assms(2) by (auto simp: list_all_iff)
  from takeWhile_all [OF this, of "b # rest"] show ?thesis
    using assms(1) by (simp add: find_from_def Let_def)
qed

lemma split_loop_step:
  assumes "FEND \<notin> set pre" and "FEND \<notin> set mid"
  shows "split_loop fs (pre @ FEND # mid @ FEND # rest) =
    split_loop (if mid \<noteq> [] then fs @ [mid] else fs) rest"
proof -
  let ?buf = "pre @ FEND # mid @ FEND # rest"
  have "find_from FEND 0 ?buf = Some (length pre)"
    using find_from_at [of "[]" 0 FEND pre] assms(1) by simp
  moreover have "find_from FEND (length pre + 1) ?buf = Some (length pre + 1 + length mid)"
    using find_from_at [of "pre @ [FEND]" "length pre + 1" FEND mid rest] assms(2) by simp
  moreover have "slice (length pre + 1) (length pre + 1 + length mid) ?buf = mid"
    by (simp add: slice_def)
  moreover have "drop (length pre + 1 + length mid + 1) ?buf = rest" by simp
  ultimately show ?thesis by (subst split_loop.simps) (simp add: Let_def)
qed

lemma split_loop_stop:
  assumes "FEND \<notin> set pre" and "FEND \<notin> set mid"
  shows "split_loop fs pre = (fs, pre)" and "split_loop fs (pre @ FEND # mid) = (fs, pre @ FEND # mid)"
proof -
  show "split_loop fs pre = (fs, pre)"
    using find_from_none [of FEND 0 pre] assms(1) by (subst split_loop.simps) simp
  have "find_from FEND 0 (pre @ FEND # mid) = Some (length pre)"
    using find_from_at [of "[]" 0 FEND pre] assms(1) by simp
  moreover have "find_from FEND (length pre + 1) (pre @ FEND # mid) = None"
    using assms(2) by (intro find_from_none) simp
  ultimately show "split_loop fs (pre @ FEND # mid) = (fs, pre @ FEND # mid)"
    by (subst split_loop.simps) simp
qed

lemma fend_cases [case_names none one two]:
  obtains "FEND \<notin> set buf"
  | pre mid where "buf = pre @ FEND # mid" and "FEND \<notin> set pre" and "FEND \<notin> set mid"
  | pre mid rest where "buf = pre @ FEND # mid @ FEND # rest" and "FEND \<notin> set pre" and "FEND \<notin> set mid"
  by (metis split_list_first)

lemma split_loop_acc:
  "split_loop fs buf = (fs @ fst (split_kiss_frames buf), snd (split_kiss_frames buf))"
  unfolding split_kiss_frames_def
proof (induction "length buf" arbitrary: buf fs rule: less_induct)
  case less
  show ?case
  proof (cases buf rule: fend_cases)
    case (two pre mid rest)
    then have "length rest < length buf" by simp
    from less [OF this, of "fs @ [mid]"] less [OF this, of "[mid]"] less [OF this, of fs] show ?thesis
      using two by (simp add: split_loop_step)
  qed (auto simp: split_loop_stop)
qed

lemma split_frames_step:
  assumes "FEND \<notin> set pre" and "FEND \<notin> set mid"
  shows "split_kiss_frames (pre @ FEND # mid @ FEND # rest) =
    ((if mid \<noteq> [] then [mid] else []) @ fst (split_kiss_frames rest), snd (split_kiss_frames rest))"
  using split_loop_step [OF assms, of "[]" rest] split_loop_acc [of "[mid]" rest]
  by (simp add: split_kiss_frames_def)

lemma split_frames_stop:
  assumes "FEND \<notin> set pre" and "FEND \<notin> set mid"
  shows "split_kiss_frames pre = ([], pre)"
    and "split_kiss_frames (pre @ FEND # mid) = ([], pre @ FEND # mid)"
  using assms by (simp_all add: split_kiss_frames_def split_loop_stop)

lemma split_frames_append:
  "split_kiss_frames (a @ b) =
     (fst (split_kiss_frames a) @ fst (split_kiss_frames (snd (split_kiss_frames a) @ b)),
      snd (split_kiss_frames (snd (split_kiss_frames a) @ b)))"
proof (induction "length a" arbitrary: a rule: less_induct)
  case less
  show ?case
  proof (cases a rule: fend_cases)
    case (two pre mid rest)
    then have "length rest < length a" by simp
    from less [OF this] show ?thesis
      using two by (simp add: split_frames_step)
  qed (auto simp: split_frames_stop)
qed

lemma split_frames_clean:
  assumes "r = snd (split_kiss_frames a)" shows "split_kiss_frames r = ([], r)"
  using split_frames_append [of a "[]"] assms by (simp add: prod_eq_iff)

lemma split_frames_no_fend: "f \<in> set (fst (split_kiss_frames buf)) \<Longrightarrow> f \<noteq> [] \<and> FEND \<notin> set f"
proof (induction "length buf" arbitrary: buf rule: less_induct)
  case less
  show ?case
  proof (cases buf rule: fend_cases)
    case (two pre mid rest)
    then have "length rest < length buf" by simp
    from less.hyps [OF this] less.prems show ?thesis
      using two by (auto simp: split_frames_step split: if_splits)
  qed (use less.prems in \<open>auto simp: split_frames_stop\<close>)
qed

interpretation kiss_stream: incremental split_kiss_frames
proof unfold_locales
  show "split_kiss_frames (a @ b) = (fst (split_kiss_frames a) @
      fst (split_kiss_frames (snd (split_kiss_frames a) @ b)),
      snd (split_kiss_frames (snd (split_kiss_frames a) @ b)))" for a b
    by (rule split_frames_append)
  show "split_kiss_frames [] = ([], [])" using split_frames_stop(1) [of "[]" "[]"] by simp
qed

section \<open>Lemmas: AX.25 addresses and frames\<close>

lemma push_bit_mask: "push_bit 1 w AND 0xFE = (push_bit 1 w :: byte)"
  by (rule all_bytes [of "\<lambda>w. push_bit 1 w AND 0xFE = push_bit 1 w"]) code_simp

definition addr_ssid_byte :: "int \<Rightarrow> bool \<Rightarrow> bool \<Rightarrow> byte" where
  "addr_ssid_byte ssid is_last high_bit =
     (let b = 0x60 OR push_bit 1 (low_byte ssid AND 0x0F) OR (if is_last then 0x01 else 0x00) in
      if high_bit then b OR 0x80 else b)"

lemma encode_addr_valid:
  assumes "valid_call c"
  shows "encode_addr c n l h = map shift_char (ljust 6 c) @ [addr_ssid_byte n l h]"
proof -
  have "take 6 (ljust 6 c) = ljust 6 c" using assms by (simp add: length_ljust valid_call_def)
  moreover have "push_bit 1 (ord_of x) = shift_char x" for x
    by (simp only: shift_char_def push_bit_mask)
  ultimately show ?thesis
    using assms by (simp add: encode_addr_def addr_ssid_byte_def valid_call_facts Let_def)
qed

lemma addr_ssid_facts:
  assumes "0 \<le> n" and "n \<le> 15"
  shows "uint (drop_bit 1 (addr_ssid_byte n l h) AND 0x0F) = n"
    and "addr_ssid_byte n l h AND 0x80 = 0 \<longleftrightarrow> \<not> h"
    and "addr_ssid_byte n l h AND 0x01 = 0 \<longleftrightarrow> \<not> l"
proof -
  from assms have "n \<in> set [0..15]" by simp
  then have n: "n \<in> {0, 1, 2, 3, 4, 5, 6, 7, 8, 9, 10, 11, 12, 13, 14, 15}"
    by (simp add: upto.simps)
  show "uint (drop_bit 1 (addr_ssid_byte n l h) AND 0x0F) = n"
    using n by (cases l; cases h) (auto simp: addr_ssid_byte_def low_byte_def Let_def)
  show "addr_ssid_byte n l h AND 0x80 = 0 \<longleftrightarrow> \<not> h"
    using n by (cases l; cases h) (auto simp: addr_ssid_byte_def low_byte_def Let_def)
  show "addr_ssid_byte n l h AND 0x01 = 0 \<longleftrightarrow> \<not> l"
    using n by (cases l; cases h) (auto simp: addr_ssid_byte_def low_byte_def Let_def)
qed

lemma length_encode_addr [simp]: "length (encode_addr c n l h) = 7"
  by (simp add: encode_addr_def length_ljust Let_def)

lemma decode_callsign_addr:
  assumes "valid_call c" and "0 \<le> n" and "n \<le> 15"
  shows "decode_callsign (encode_addr c n l h) = Some (c, n)"
proof -
  have one: "wire_char (shift_char x) = ord_of x \<and> ord_of x \<noteq> 0x20" if "x \<in> set c" for x
  proof -
    from assms that have x: "is_call_char x" by (auto simp: valid_call_def list_all_iff)
    then have "code x \<noteq> 32" by (auto simp: char_class_defs)
    then have "ord_of x \<noteq> 0x20" by (auto simp: unat_ord_of [symmetric])
    with x show ?thesis by (simp add: wire_shift_char)
  qed
  have blank: "wire_char (shift_char CHR 0x20) = 0x20"
    using wire_shift_char [of "CHR 0x20"] by (simp add: is_ascii_def ord_of_def)
  have len: "length (ljust 6 c) = 6" using assms by (simp add: length_ljust valid_call_def)
  have "filter (\<lambda>b. wire_char b \<noteq> 0x20) (map shift_char c) = map shift_char c"
    using one by (auto intro: filter_True)
  moreover have "map (\<lambda>b. chr_of (wire_char b)) (map shift_char c) = c"
    using one by (simp add: map_idI)
  ultimately have "map (\<lambda>b. chr_of (wire_char b))
      (filter (\<lambda>b. wire_char b \<noteq> 0x20) (map shift_char (ljust 6 c))) = c"
    by (simp add: ljust_def filter_replicate blank)
  then show ?thesis
    using assms addr_ssid_facts(1) [OF assms(2,3), of l h] len
    by (simp add: decode_callsign_def encode_addr_valid byte_at_def nth_append valid_call_facts
        del: One_nat_def)
qed

lemma last_addr_byte:
  assumes "valid_call c" and "0 \<le> n" and "n \<le> 15"
  shows "encode_addr c n l h ! 6 AND 0x80 = 0 \<longleftrightarrow> \<not> h" and "encode_addr c n l h ! 6 AND 0x01 = 0 \<longleftrightarrow> \<not> l"
proof -
  have "length (ljust 6 c) = 6" using assms by (simp add: length_ljust valid_call_def)
  then show "encode_addr c n l h ! 6 AND 0x80 = 0 \<longleftrightarrow> \<not> h" "encode_addr c n l h ! 6 AND 0x01 = 0 \<longleftrightarrow> \<not> l"
    using addr_ssid_facts [OF assms(2,3), of l h] by (simp_all add: encode_addr_valid [OF assms(1)] nth_append)
qed

lemma canonical_parseE:
  assumes "canonical s"
  obtains c n where "parse s = Some (c, n)" and "format_addr c n = Some s" and "valid_call c"
    and "0 \<le> n" and "n \<le> 15"
proof -
  from assms obtain c n where "parse s = Some (c, n)" "format_addr c n = Some s"
    by (auto simp: canonical_def split: option.splits)
  with parse_Some [of s c n] show ?thesis by (intro that) auto
qed

lemma via_loop_encode:
  assumes "list_all canonical vs" and "vs \<noteq> []" and "length pre = off"
  shows "\<exists>ds. encode_vias vs = Some ds \<and> length ds = 7 * length vs \<and>
    via_loop (pre @ ds @ rest) off acc = Some (acc @ vs, off + 7 * length vs)"
  using assms
proof (induction vs arbitrary: pre off acc)
  case (Cons v vs)
  then obtain c n where v: "parse v = Some (c, n)" "format_addr c n = Some v" "valid_call c"
      "0 \<le> n" "n \<le> 15"
    by (auto elim: canonical_parseE)
  let ?a = "encode_addr c n (vs = []) False"
  have c0: "c \<noteq> []" using v(3) by (auto simp: valid_call_def)
  have step: "via_loop (pre @ ?a @ tl) off acc =
     (if vs = [] then Some (acc @ [v], off + 7) else via_loop (pre @ ?a @ tl) (off + 7) (acc @ [v]))" for tl
    using Cons.prems(3) decode_callsign_addr [OF v(3-5)] last_addr_byte [OF v(3-5)] v(2) c0
    by (subst via_loop.simps) (simp add: slice_def byte_at_def Let_def)
  show ?case
  proof (cases "vs = []")
    case True
    with v step [of rest] show ?thesis by simp
  next
    case False
    have "length (pre @ ?a) = off + 7" using Cons.prems(3) by simp
    with Cons.IH [of "pre @ ?a" "off + 7" "acc @ [v]"] False Cons.prems(1) obtain ds where
      "encode_vias vs = Some ds" "length ds = 7 * length vs"
      "via_loop ((pre @ ?a) @ ds @ rest) (off + 7) (acc @ [v])
         = Some ((acc @ [v]) @ vs, off + 7 + 7 * length vs)"
      by auto
    with v step [of "ds @ rest"] False show ?thesis by simp
  qed
qed simp

lemma ui_frame_round_trip:
  assumes "canonical src" and "canonical dest" and "list_all canonical vias"
  shows "\<exists>f. build_ax25_ui_frame src dest payload vias = Some f \<and>
    decode_ax25 f port = Some (Some \<lparr>kf_port = port, kf_dest_call = dest, kf_src_call = src,
      kf_is_ui = True, kf_pid = PID_NO_LAYER3, kf_payload = payload, kf_via = vias\<rparr>)"
proof -
  obtain dc dn where d: "parse dest = Some (dc, dn)" "format_addr dc dn = Some dest" "valid_call dc"
      "0 \<le> dn" "dn \<le> 15"
    using assms(2) by (rule canonical_parseE)
  obtain sc sn where s: "parse src = Some (sc, sn)" "format_addr sc sn = Some src" "valid_call sc"
      "0 \<le> sn" "sn \<le> 15"
    using assms(1) by (rule canonical_parseE)
  let ?d = "encode_addr dc dn False True" and ?s = "encode_addr sc sn (vias = []) False"
  let ?tl = "[0x03, PID_NO_LAYER3] @ payload"
  obtain ds where ds: "encode_vias vias = Some ds" "length ds = 7 * length vias"
      "vias \<noteq> [] \<Longrightarrow> via_loop (?d @ ?s @ ds @ ?tl) 14 [] = Some (vias, 14 + 7 * length vias)"
  proof (cases "vias = []")
    case False
    from via_loop_encode [OF assms(3) False, of "?d @ ?s" 14 ?tl "[]"] that False show ?thesis by auto
  qed (use that in auto)
  have b13: "(?d @ ?s @ ds @ ?tl) ! 13 AND 0x01 = 0 \<longleftrightarrow> vias \<noteq> []"
    using last_addr_byte(2) [OF s(3-5), of "vias = []" False] by (simp add: nth_append)
  have dec: "decode_callsign (slice 0 7 (?d @ ?s @ ds @ ?tl)) = Some (dc, dn)"
    "decode_callsign (slice 7 14 (?d @ ?s @ ds @ ?tl)) = Some (sc, sn)"
    using decode_callsign_addr [OF d(3-5)] decode_callsign_addr [OF s(3-5)] by (simp_all add: slice_def)
  let ?f = "?d @ ?s @ ds @ ?tl"
  have ui: "?f ! (14 + 7 * length vias) = 0x03" "?f ! (15 + 7 * length vias) = PID_NO_LAYER3"
    "drop (16 + 7 * length vias) ?f = payload" "length ?f = 16 + 7 * length vias + length payload"
    using ds(2) by (simp_all add: nth_append)
  have build: "build_ax25_ui_frame src dest payload vias = Some ?f"
    using d(1) s(1) ds(1) by (simp add: build_ax25_ui_frame_def)
  have via: "(if ?f ! 13 AND 0x01 = 0 then via_loop ?f 14 [] else Some ([], 14))
      = Some (vias, 14 + 7 * length vias)"
    using ds(3) unfolding b13 by (cases "vias = []") simp_all
  have "decode_ax25 ?f port = Some (Some \<lparr>kf_port = port, kf_dest_call = dest, kf_src_call = src,
      kf_is_ui = True, kf_pid = PID_NO_LAYER3, kf_payload = payload, kf_via = vias\<rparr>)"
    unfolding decode_ax25_def dec
    by (simp add: byte_at_def via [simplified] ui [simplified] d(2) s(2))
  with build show ?thesis by blast
qed

section \<open>Lemmas: the decoder never raises\<close>

lemma ssid_range: "0 \<le> uint (drop_bit 1 b AND (0x0F :: byte)) \<and> uint (drop_bit 1 b AND (0x0F :: byte)) \<le> 15"
proof -
  have "drop_bit 1 b AND 0x0F \<le> (0x0F :: byte)" by (rule word_and_le1)
  then show ?thesis by (simp add: word_le_def)
qed

lemma decode_callsign_total:
  assumes "7 \<le> length a"
  shows "\<exists>c n. decode_callsign a = Some (c, n) \<and> 0 \<le> n \<and> n \<le> 15"
  using assms ssid_range [of "a ! 6"] by (simp add: decode_callsign_def byte_at_def)

lemma format_addr_total: "0 \<le> n \<Longrightarrow> n \<le> 15 \<Longrightarrow> \<exists>s. format_addr c n = Some s"
  by (simp add: format_addr_def Let_def)

lemma via_loop_total: "\<exists>via' off'. via_loop ax25 off via = Some (via', off') \<and> off \<le> off'"
proof (induction "length ax25 - off" arbitrary: off via rule: less_induct)
  case less
  show ?case
  proof (cases "off + 7 \<le> length ax25")
    case True
    let ?d = "slice off (off + 7) ax25"
    have len: "length ?d = 7" using True by (simp add: slice_def)
    then obtain c n where c: "decode_callsign ?d = Some (c, n)" "0 \<le> n" "n \<le> 15"
      using decode_callsign_total [of ?d] by auto
    obtain s where s: "format_addr c n = Some s" using format_addr_total c(2,3) by blast
    have "\<exists>via' off'. via_loop ax25 (off + 7) v = Some (via', off') \<and> off + 7 \<le> off'" for v
      using True by (intro less) simp
    then have ih: "\<exists>via' off'. via_loop ax25 (off + 7) v = Some (via', off') \<and> off \<le> off'" for v
      by (meson add_leD1)
    show ?thesis
      using True len c(1) s ih
      by (subst via_loop.simps) (auto simp: byte_at_def Let_def split: if_splits)
  next
    case False
    then show ?thesis by (subst via_loop.simps) simp
  qed
qed

lemma decode_ax25_total: "\<exists>r. decode_ax25 ax25 port = Some r"
proof (cases "length ax25 < 15")
  case False
  obtain dc dn where d: "decode_callsign (slice 0 7 ax25) = Some (dc, dn)" "0 \<le> dn" "dn \<le> 15"
    using decode_callsign_total [of "slice 0 7 ax25"] False by (auto simp: slice_def)
  obtain sc sn where s: "decode_callsign (slice 7 14 ax25) = Some (sc, sn)" "0 \<le> sn" "sn \<le> 15"
    using decode_callsign_total [of "slice 7 14 ax25"] False by (auto simp: slice_def)
  obtain via off where "(if ax25 ! 13 AND 1 = 0 then via_loop ax25 14 [] else Some ([], 14)) = Some (via, off)"
    using via_loop_total [of ax25 14 "[]"] by (cases "ax25 ! 13 AND 1 = 0") auto
  with False d(1) s(1) format_addr_total [OF d(2,3), of dc] format_addr_total [OF s(2,3), of sc]
  show ?thesis
    unfolding decode_ax25_def by (auto simp: byte_at_def Let_def simp del: One_nat_def)
qed (simp add: decode_ax25_def)

lemma decode_frame_total: "\<exists>r. decode_frame raw = Some r"
  using decode_ax25_total by (auto simp: decode_frame_def byte_at_def Let_def)

section \<open>Lemmas: a stream of frames\<close>

definition port_byte :: "int \<Rightarrow> byte" where
  "port_byte port = push_bit 4 (low_byte port AND 0x0F)"

lemma build_kiss_frame_port: "build_kiss_frame port f = [FEND] @ (port_byte port # kiss_escape f) @ [FEND]"
  by (simp add: build_kiss_frame_def port_byte_def Let_def)

lemma port_byte_facts:
  assumes "0 \<le> port" and "port \<le> 15" and "port \<noteq> 12"
  shows "port_byte port \<noteq> FEND" and "uint (drop_bit 4 (port_byte port) AND 0x0F) = port"
    and "port_byte port AND 0x0F = 0"
proof -
  from assms have "port \<in> set [0..15]" by simp
  then have n: "port \<in> {0, 1, 2, 3, 4, 5, 6, 7, 8, 9, 10, 11, 12, 13, 14, 15}"
    by (simp add: upto.simps)
  show "port_byte port \<noteq> FEND"
    using n assms(3) by (auto simp: port_byte_def low_byte_def kiss_bytes)
  show "uint (drop_bit 4 (port_byte port) AND 0x0F) = port"
    using n by (auto simp: port_byte_def low_byte_def)
  show "port_byte port AND 0x0F = 0"
    using n by (auto simp: port_byte_def low_byte_def)
qed

lemma decode_frame_build:
  assumes "0 \<le> port" and "port \<le> 15" and "port \<noteq> 12"
  shows "decode_frame (port_byte port # kiss_escape f) = decode_ax25 f port"
  using port_byte_facts [OF assms] by (simp add: decode_frame_def byte_at_def)

lemma split_built_stream:
  assumes "0 \<le> port" and "port \<le> 15" and "port \<noteq> 12"
  shows "split_kiss_frames (concat (map (build_kiss_frame port) fs))
    = (map (\<lambda>f. port_byte port # kiss_escape f) fs, [])"
proof (induction fs)
  case Nil
  show ?case using split_frames_stop(1) [of "[]" "[]"] by simp
next
  case (Cons f fs)
  have "FEND \<notin> set (port_byte port # kiss_escape f)"
    using port_byte_facts(1) [OF assms] escape_no_fend by auto
  from split_frames_step [OF _ this, of "[]"] Cons show ?case
    by (simp add: build_kiss_frame_port)
qed

lemma split_desync_aux:
  assumes "0 \<le> port" and "port \<le> 15" and "port \<noteq> 12" and "FEND \<notin> set m"
  shows "fst (split_kiss_frames (m @ FEND # concat (map (build_kiss_frame port) fs))) = []"
  using assms(4)
proof (induction fs arbitrary: m)
  case Nil
  then show ?case using split_frames_stop(2) [of m "[]"] by simp
next
  case (Cons f fs)
  have "FEND \<notin> set (port_byte port # kiss_escape f)"
    using port_byte_facts(1) [OF assms(1-3)] escape_no_fend by auto
  from Cons.IH [OF this] split_frames_step [OF Cons.prems, of "[]"] show ?case
    by (simp add: build_kiss_frame_port)
qed

end
