(* ===== verification/Kiss_Transport.thy ===== *)
theory Kiss_Transport
  imports Kiss_Frame
begin

text \<open>
  \<open>bbs/transport/kiss.py\<close>: the UI-frame transport. The state is the transport object: its
  per-callsign queues (\<open>_sessions\<close>), the tasks that serve them, and two logs the model adds, the
  bytes written to the TNC and the calls to the heard observer. \<open>asyncio\<close> is the order of the
  operations: a queue is the list of the chunks not yet read, \<open>None\<close> of a reader is the task
  waiting on an empty queue.
\<close>

record kiss_cfg =
  kc_local_addr :: callsign
  kc_kiss_port :: int
  kc_beacon_text :: string
  kc_beacon_dest :: string
  kc_beacon_interval :: int
  kc_beacon_path :: "string list"

record heard_call =
  hc_src :: callsign
  hc_dest :: callsign
  hc_via :: "string list"
  hc_time :: int
  hc_info :: string

record kiss_state =
  kt_sessions :: "(callsign, bytes list) dict"
  kt_session_tasks :: "callsign list"
  kt_running :: bool
  kt_raw_open :: bool
  kt_raw_out :: "bytes list"
  kt_heard :: "heard_call list"

section \<open>Set-up\<close>

text \<open>\<open>_KISSBaseTransport.__init__\<close>; the arguments are the configuration values or their defaults.\<close>

definition kiss_init ::
  "string \<Rightarrow> int \<Rightarrow> string \<Rightarrow> string \<Rightarrow> int \<Rightarrow> string \<Rightarrow> (kiss_cfg \<times> kiss_state) option" where
  "kiss_init bbs_callsign kiss_port beacon_text beacon_dest beacon_interval beacon_path = do {
     (call, ssid) \<leftarrow> parse bbs_callsign;
     local_addr \<leftarrow> format_addr call ssid;
     let dest = upper (strip beacon_dest);
     Some (\<lparr>kc_local_addr = local_addr, kc_kiss_port = kiss_port,
             kc_beacon_text = strip beacon_text,
             kc_beacon_dest = (if dest = [] then ''BEACON'' else dest),
             kc_beacon_interval = max 1 beacon_interval * 60,
             kc_beacon_path = map (\<lambda>p. upper (strip p))
               (filter (\<lambda>p. strip p \<noteq> []) (split_on CHR 0x2C beacon_path))\<rparr>,
           \<lparr>kt_sessions = [], kt_session_tasks = [], kt_running = False, kt_raw_open = False,
            kt_raw_out = [], kt_heard = []\<rparr>)
   }"

text \<open>\<open>start\<close> up to its read loop.\<close>

definition kiss_start :: "kiss_state \<Rightarrow> kiss_state" where
  "kiss_start st = st\<lparr>kt_running := True, kt_raw_open := True\<rparr>"

section \<open>Writing\<close>

definition virtual_write :: "kiss_cfg \<Rightarrow> callsign \<Rightarrow> bytes \<Rightarrow> kiss_state \<Rightarrow> kiss_state option" where
  "virtual_write cfg dest_addr data st = do {
     ax25 \<leftarrow> build_ax25_ui_frame (kc_local_addr cfg) dest_addr data [];
     Some (st\<lparr>kt_raw_out := kt_raw_out st @ [build_kiss_frame (kc_kiss_port cfg) ax25]\<rparr>)
   }"

definition send_beacon :: "kiss_cfg \<Rightarrow> kiss_state \<Rightarrow> kiss_state option" where
  "send_beacon cfg st =
     (if \<not> kt_raw_open st then Some st
      else do {
        ax25 \<leftarrow> build_ax25_ui_frame (kc_local_addr cfg) (kc_beacon_dest cfg)
          (encode_ascii (kc_beacon_text cfg)) (kc_beacon_path cfg);
        Some (st\<lparr>kt_raw_out := kt_raw_out st @ [build_kiss_frame (kc_kiss_port cfg) ax25]\<rparr>)
      })"

text \<open>One turn of \<open>_beacon_loop\<close>.\<close>

definition beacon_tick :: "kiss_cfg \<Rightarrow> kiss_state \<Rightarrow> kiss_state option" where
  "beacon_tick cfg st =
     (if \<not> kt_running st then Some st
      else if kt_sessions st \<noteq> [] then Some st
      else send_beacon cfg st)"

section \<open>Reading\<close>

definition queue_put :: "callsign \<Rightarrow> bytes \<Rightarrow> (callsign, bytes list) dict \<Rightarrow> (callsign, bytes list) dict" where
  "queue_put src payload sessions =
     AList.update src ((case map_of sessions src of None \<Rightarrow> [] | Some q \<Rightarrow> q) @ [payload]) sessions"

definition kiss_dispatch :: "kiss_cfg \<Rightarrow> bool \<Rightarrow> int \<Rightarrow> kiss_frame \<Rightarrow> kiss_state \<Rightarrow> kiss_state" where
  "kiss_dispatch cfg observed now frame st =
     (if upper (kf_dest_call frame) \<noteq> upper (kc_local_addr cfg) then
        (if observed then
           st\<lparr>kt_heard := kt_heard st @ [\<lparr>hc_src = kf_src_call frame, hc_dest = kf_dest_call frame,
               hc_via = kf_via frame, hc_time = now,
               hc_info = strip (decode_latin1 (kf_payload frame))\<rparr>]\<rparr>
         else st)
      else
        (let src = kf_src_call frame;
             st = (if map_of (kt_sessions st) src = None then
                     st\<lparr>kt_sessions := AList.update src [] (kt_sessions st),
                        kt_session_tasks := List.insert src (kt_session_tasks st)\<rparr>
                   else st) in
         st\<lparr>kt_sessions := queue_put src (kf_payload frame) (kt_sessions st)\<rparr>))"

text \<open>The \<open>finally\<close> of \<open>_run_session\<close>.\<close>

definition end_session :: "callsign \<Rightarrow> kiss_state \<Rightarrow> kiss_state" where
  "end_session src st = st\<lparr>kt_sessions := AList.delete src (kt_sessions st),
     kt_session_tasks := removeAll src (kt_session_tasks st)\<rparr>"

fun dispatch_frames :: "kiss_cfg \<Rightarrow> bool \<Rightarrow> int \<Rightarrow> bytes list \<Rightarrow> kiss_state \<Rightarrow> kiss_state option" where
  "dispatch_frames cfg observed now [] st = Some st"
| "dispatch_frames cfg observed now (raw # raws) st = do {
     decoded \<leftarrow> decode_frame raw;
     dispatch_frames cfg observed now raws
       (case decoded of None \<Rightarrow> st | Some f \<Rightarrow> kiss_dispatch cfg observed now f st)
   }"

text \<open>One turn of the read loop of \<open>start\<close>, and the loop over the chunks a connection delivers.\<close>

definition read_chunk ::
  "kiss_cfg \<Rightarrow> bool \<Rightarrow> int \<Rightarrow> bytes \<Rightarrow> bytes \<times> kiss_state \<Rightarrow> (bytes \<times> kiss_state) option" where
  "read_chunk cfg observed now chunk s =
     (let (frames, buf) = split_kiss_frames (fst s @ chunk) in
      map_option (\<lambda>st. (buf, st)) (dispatch_frames cfg observed now frames (snd s)))"

fun read_loop ::
  "kiss_cfg \<Rightarrow> bool \<Rightarrow> int \<Rightarrow> bytes list \<Rightarrow> bytes \<times> kiss_state \<Rightarrow> (bytes \<times> kiss_state) option" where
  "read_loop cfg observed now [] s = Some s"
| "read_loop cfg observed now (chunk # cs) s =
     (if \<not> kt_running (snd s) \<or> chunk = [] then Some s
      else Option.bind (read_chunk cfg observed now chunk s) (read_loop cfg observed now cs))"

definition kiss_stop :: "kiss_state \<Rightarrow> kiss_state" where
  "kiss_stop st = (let st = st\<lparr>kt_running := False\<rparr> in
     if kt_raw_open st then st\<lparr>kt_raw_open := False\<rparr> else st)"

section \<open>The queue reader\<close>

text \<open>\<open>_QueueStreamReader.read(n)\<close>: the next queued chunk, whatever \<open>n\<close> is.\<close>

definition queue_read :: "int \<Rightarrow> bytes list \<Rightarrow> (bytes \<times> bytes list) option" where
  "queue_read n q = (case q of [] \<Rightarrow> None | data # q' \<Rightarrow> Some (data, q'))"

fun queue_readline :: "bytes \<Rightarrow> bytes list \<Rightarrow> (bytes \<times> bytes list) option" where
  "queue_readline buf [] = None"
| "queue_readline buf (chunk # q) =
     (if chunk = [] then Some (buf, q)
      else if chunk = [0x0D] \<or> chunk = [0x0A] then Some (buf @ chunk, q)
      else queue_readline (buf @ chunk) q)"

datatype read_exact = ReadBytes bytes "bytes list" | IncompleteReadError bytes | Waiting

fun queue_readexactly :: "nat \<Rightarrow> bytes \<Rightarrow> bytes list \<Rightarrow> read_exact" where
  "queue_readexactly n buf q =
     (if length buf < n then
        (case q of
           [] \<Rightarrow> Waiting
         | chunk # q' \<Rightarrow> if chunk = [] then IncompleteReadError buf
             else queue_readexactly n (buf @ chunk) q')
      else ReadBytes buf q)"

declare queue_readexactly.simps [simp del]

section \<open>Lemmas: sessions\<close>

definition kiss_inv :: "kiss_state \<Rightarrow> bool" where
  "kiss_inv st \<longleftrightarrow> distinct (map fst (kt_sessions st)) \<and> distinct (kt_session_tasks st)
     \<and> set (kt_session_tasks st) = fst ` set (kt_sessions st)"

lemma keys_queue_put: "map fst (queue_put src p d) = (if src \<in> fst ` set d then map fst d else map fst d @ [src])"
  by (simp add: queue_put_def update_keys)

lemma lookup_queue_put:
  "map_of (queue_put src p d) c = (if c = src then Some ((case map_of d src of None \<Rightarrow> [] | Some q \<Rightarrow> q) @ [p])
     else map_of d c)"
  by (simp add: queue_put_def update_conv')

lemma kiss_inv_dispatch: "kiss_inv st \<Longrightarrow> kiss_inv (kiss_dispatch cfg observed now f st)"
  by (auto simp: kiss_inv_def kiss_dispatch_def Let_def queue_put_def update_keys distinct_update
      dom_map_of_conv_image_fst map_of_eq_None_iff dom_update)

lemma kiss_inv_end_session: "kiss_inv st \<Longrightarrow> kiss_inv (end_session src st)"
  by (simp add: kiss_inv_def end_session_def delete_keys fst_set_delete distinct_removeAll)

lemma dispatch_running [simp]: "kt_running (kiss_dispatch cfg observed now f st) = kt_running st"
  by (simp add: kiss_dispatch_def Let_def)

lemma dispatch_frames_total: "\<exists>st'. dispatch_frames cfg observed now raws st = Some st'
    \<and> kt_running st' = kt_running st \<and> (kiss_inv st \<longrightarrow> kiss_inv st')"
proof (induction raws arbitrary: st)
  case (Cons raw raws)
  obtain r where "decode_frame raw = Some r" using decode_frame_total by blast
  with Cons [of st] Cons [of "kiss_dispatch cfg observed now (the r) st"] show ?case
    by (cases r) (auto intro: kiss_inv_dispatch)
qed simp

lemma dispatch_frames_append:
  "dispatch_frames cfg observed now (as @ bs) st =
     Option.bind (dispatch_frames cfg observed now as st) (dispatch_frames cfg observed now bs)"
  by (induction as arbitrary: st) (auto split: Option.bind_splits)

text \<open>The read loop is the incremental splitter followed by the dispatcher.\<close>

lemma read_loop_feed:
  assumes "kt_running st" and "list_all (\<lambda>c. c \<noteq> []) cs"
  shows "read_loop cfg observed now cs (buf, st) =
    map_option (\<lambda>st'. (snd (feed_all split_kiss_frames buf cs), st'))
      (dispatch_frames cfg observed now (fst (feed_all split_kiss_frames buf cs)) st)"
  using assms
proof (induction cs arbitrary: buf st)
  case (Cons c cs)
  obtain fs r where s: "split_kiss_frames (buf @ c) = (fs, r)" by fastforce
  obtain st' where st': "dispatch_frames cfg observed now fs st = Some st'" "kt_running st' = kt_running st"
    using dispatch_frames_total by blast
  with Cons.IH [of st' r] Cons.prems s show ?case
    by (simp add: read_chunk_def case_prod_beta dispatch_frames_append)
qed simp

lemma read_loop_batch:
  assumes "kt_running st" and "list_all (\<lambda>c. c \<noteq> []) cs"
  shows "read_loop cfg observed now cs ([], st) =
    map_option (\<lambda>st'. (snd (split_kiss_frames (concat cs)), st'))
      (dispatch_frames cfg observed now (fst (split_kiss_frames (concat cs))) st)"
  using read_loop_feed [OF assms, of cfg observed now "[]"] kiss_stream.feed_all_batch [of cs] by simp

text \<open>What a peer's virtual writer puts on the air.\<close>

definition writes :: "kiss_cfg \<Rightarrow> callsign \<Rightarrow> bytes list \<Rightarrow> bytes list option" where
  "writes cfg dest datas =
     those (map (\<lambda>d. map_option (build_kiss_frame (kc_kiss_port cfg))
       (build_ax25_ui_frame (kc_local_addr cfg) dest d [])) datas)"

lemma upper_canonical: "canonical s \<Longrightarrow> upper s = s"
  by (elim canonicalE) (auto simp: format_addr_valid valid_call_facts split: if_splits)

lemma dispatch_payloads:
  assumes "canonical src" and "upper (kc_local_addr cfg) = dest" and "canonical dest" 
    and "0 \<le> port" and "port \<le> 15" and "port \<noteq> 12"
  shows "\<exists>axs st'. those (map (\<lambda>d. build_ax25_ui_frame src dest d []) datas) = Some axs
    \<and> dispatch_frames cfg observed now (map (\<lambda>f. port_byte port # kiss_escape f) axs) st = Some st'
    \<and> (datas \<noteq> [] \<longrightarrow> map_of (kt_sessions st') src =
        Some ((case map_of (kt_sessions st) src of None \<Rightarrow> [] | Some q \<Rightarrow> q) @ datas))
    \<and> (datas = [] \<longrightarrow> st' = st)"
proof (induction datas arbitrary: st)
  case (Cons d datas)
  from ui_frame_round_trip [OF assms(1,3), of "[]" d port] obtain f where
    f: "build_ax25_ui_frame src dest d [] = Some f"
      "decode_ax25 f port = Some (Some \<lparr>kf_port = port, kf_dest_call = dest, kf_src_call = src,
        kf_is_ui = True, kf_pid = PID_NO_LAYER3, kf_payload = d, kf_via = []\<rparr>)"
    by auto
  define g where "g = \<lparr>kf_port = port, kf_dest_call = dest, kf_src_call = src,
        kf_is_ui = True, kf_pid = PID_NO_LAYER3, kf_payload = d, kf_via = []\<rparr>"
  have q: "map_of (kt_sessions (kiss_dispatch cfg observed now g st)) src =
      Some ((case map_of (kt_sessions st) src of None \<Rightarrow> [] | Some q \<Rightarrow> q) @ [d])"
    using assms(2) upper_canonical [OF assms(3)]
    by (simp add: g_def kiss_dispatch_def Let_def lookup_queue_put update_conv' split: option.splits)
  from Cons [of "kiss_dispatch cfg observed now g st"] obtain axs st' where
    "those (map (\<lambda>d. build_ax25_ui_frame src dest d []) datas) = Some axs"
    "dispatch_frames cfg observed now (map (\<lambda>f. port_byte port # kiss_escape f) axs)
      (kiss_dispatch cfg observed now g st) = Some st'"
    "map_of (kt_sessions st') src =
      Some ((case map_of (kt_sessions st) src of None \<Rightarrow> [] | Some q \<Rightarrow> q) @ d # datas)"
    using q by (cases "datas = []") auto
  with f decode_frame_build [OF assms(4-6)] show ?case by (simp add: g_def [symmetric])
qed simp

lemma those_map_option:
  "those (map (\<lambda>x. map_option g (f x)) xs) = map_option (map g) (those (map f xs))"
  by (induction xs) (auto simp: option.map_comp comp_def split: option.splits)

lemma end_to_end:
  assumes "canonical (kc_local_addr peer)" and "canonical (kc_local_addr cfg)"
    and "0 \<le> kc_kiss_port peer" and "kc_kiss_port peer \<le> 15" and "kc_kiss_port peer \<noteq> 12"
    and "kt_running st" and "kt_sessions st = []" and "datas \<noteq> []"
    and "writes peer (kc_local_addr cfg) datas = Some air"
    and "list_all (\<lambda>c. c \<noteq> []) cs" and "concat cs = concat air"
  shows "\<exists>st'. read_loop cfg observed now cs ([], st) = Some ([], st')
    \<and> map_of (kt_sessions st') (kc_local_addr peer) = Some datas"
proof -
  from dispatch_payloads [OF assms(1) upper_canonical [OF assms(2)] assms(2-5), of datas observed now st]
  obtain axs st' where a: "those (map (\<lambda>d. build_ax25_ui_frame (kc_local_addr peer) (kc_local_addr cfg) d []) datas)
      = Some axs"
    "dispatch_frames cfg observed now (map (\<lambda>f. port_byte (kc_kiss_port peer) # kiss_escape f) axs) st = Some st'"
    "map_of (kt_sessions st') (kc_local_addr peer) = Some datas"
    using assms(7,8) by auto
  have air: "air = map (build_kiss_frame (kc_kiss_port peer)) axs"
    using assms(9) a(1) by (simp add: writes_def those_map_option)
  show ?thesis
    using a read_loop_batch [OF assms(6,10), of cfg observed now] split_built_stream [OF assms(3-5), of axs]
    by (simp add: assms(11) air)
qed

section \<open>Lemmas: the queue reader\<close>

lemma readexactly_spec:
  "queue_readexactly n buf q = ReadBytes out q' \<Longrightarrow>
     \<exists>taken. q = taken @ q' \<and> out = buf @ concat taken \<and> n \<le> length out"
proof (induction n buf q rule: queue_readexactly.induct)
  case (1 n buf q)
  show ?case
  proof (cases "length buf < n")
    case False
    with 1 show ?thesis by (subst (asm) queue_readexactly.simps) auto
  next
    case True
    with 1 obtain c q1 where q: "q = c # q1" "c \<noteq> []" "queue_readexactly n (buf @ c) q1 = ReadBytes out q'"
      by (subst (asm) (2) queue_readexactly.simps) (auto split: list.splits if_splits)
    from "1.IH" [OF True q(1,2) q(3)] obtain taken where
      "q1 = taken @ q'" "out = (buf @ c) @ concat taken" "n \<le> length out" by blast
    with q show ?thesis by (intro exI [of _ "c # taken"]) auto
  qed
qed

section \<open>Runs of the transport\<close>

datatype kiss_event =
    RxFrame kiss_frame
  | SessionEnds callsign
  | BeaconTimer
  | StopTransport

definition kiss_step :: "kiss_cfg \<Rightarrow> bool \<Rightarrow> int \<Rightarrow> kiss_state \<Rightarrow> kiss_event \<Rightarrow> kiss_state" where
  "kiss_step cfg observed now st e = (case e of
     RxFrame f \<Rightarrow> kiss_dispatch cfg observed now f st
   | SessionEnds src \<Rightarrow> end_session src st
   | BeaconTimer \<Rightarrow> (case beacon_tick cfg st of None \<Rightarrow> st | Some st' \<Rightarrow> st')
   | StopTransport \<Rightarrow> kiss_stop st)"

lemma kiss_inv_step: "kiss_inv st \<Longrightarrow> kiss_inv (kiss_step cfg observed now st e)"
  by (auto simp: kiss_step_def beacon_tick_def send_beacon_def kiss_stop_def Let_def
      intro: kiss_inv_dispatch kiss_inv_end_session split: kiss_event.splits option.splits
      Option.bind_splits if_splits) (auto simp: kiss_inv_def)

interpretation kiss_ts: transition "kiss_step cfg observed now" kiss_inv
  for cfg :: kiss_cfg and observed :: bool and now :: int
  by unfold_locales (rule kiss_inv_step)

end
