(* ===== verification/Codec_Properties.thy ===== *)
theory Codec_Properties
  imports Kiss_Transport
begin

text \<open>
  The properties of the wire formats and of the UI-frame transport: the path of a session's bytes
  from one station to another, the independence of the read loop from how the stream is cut, the
  round trips of every encoder with its decoder, and what the decoders do with arbitrary bytes.
  Each property with hypotheses is followed by an instance at concrete values.
\<close>

abbreviation sample_peer :: kiss_cfg where
  "sample_peer \<equiv> \<lparr>kc_local_addr = ''N0CALL-7'', kc_kiss_port = 1, kc_beacon_text = [],
     kc_beacon_dest = [], kc_beacon_interval = 60, kc_beacon_path = []\<rparr>"

abbreviation sample_bbs :: kiss_cfg where
  "sample_bbs \<equiv> \<lparr>kc_local_addr = ''KK6XYZ'', kc_kiss_port = 1, kc_beacon_text = [],
     kc_beacon_dest = [], kc_beacon_interval = 60, kc_beacon_path = []\<rparr>"

abbreviation sample_kiss :: kiss_state where
  "sample_kiss \<equiv> \<lparr>kt_sessions = [], kt_session_tasks = [], kt_running = True, kt_raw_open = True,
     kt_raw_out = [], kt_heard = []\<rparr>"

lemma sample_calls: "canonical ''N0CALL-7''" "canonical ''KK6XYZ''" "canonical ''W1AW-15''" "canonical ''K1''"
  by code_simp+

lemma writes_total:
  assumes "canonical (kc_local_addr peer)" and "canonical dest"
  shows "\<exists>air. writes peer dest datas = Some air"
proof -
  have "\<exists>f. build_ax25_ui_frame (kc_local_addr peer) dest d [] = Some f" for d
    using ui_frame_round_trip [OF assms, of "[]" d 0] by auto
  then have "\<exists>axs. those (map (\<lambda>d. build_ax25_ui_frame (kc_local_addr peer) dest d []) datas) = Some axs"
    by (induction datas) (auto, metis option.simps(5) option.simps(9))
  then show ?thesis by (auto simp: writes_def those_map_option)
qed

section \<open>The transport\<close>



text \<open>
  C26. The read loop depends only on the byte stream: two runs over the same stream, cut into
  non-empty reads in any two ways, end in the same buffer and transport state.
\<close>

theorem kiss_chunk_invariance:
  assumes "kt_running st" and "list_all (\<lambda>c. c \<noteq> []) cs" and "list_all (\<lambda>c. c \<noteq> []) ds"
    and "concat cs = concat ds"
  shows "read_loop cfg observed now cs ([], st) = read_loop cfg observed now ds ([], st)"
  using assms by (simp add: read_loop_batch)

lemma kiss_chunk_invariance_witness:
  "read_loop sample_bbs True 5 [[0xC0, 0x10], [0x41, 0xC0, 1]] ([], sample_kiss)
    = read_loop sample_bbs True 5 [[0xC0], [0x10, 0x41], [0xC0, 1]] ([], sample_kiss)"
  by (rule kiss_chunk_invariance) simp_all

text \<open>
  Along every run of the transport (frames received, sessions ending, beacons, stop) a callsign
  has at most one queue and at most one session task, and the callsigns with a task are exactly
  those with a queue: a session is never started twice and never left without its queue.
\<close>

theorem kiss_sessions_consistent:
  assumes "kiss_init call port text dest interval path = Some (cfg, st)"
  shows "kiss_inv (run (kiss_step cfg observed now) st es)"
proof -
  have "kiss_inv st" using assms by (auto simp: kiss_init_def kiss_inv_def split: Option.bind_splits)
  then show ?thesis by (rule kiss_ts.inv_run)
qed

lemma kiss_sessions_consistent_witness:
  "kiss_inv (run (kiss_step (fst (the (kiss_init ''kk6xyz'' 0 [] [] 30 []))) False 0)
     (snd (the (kiss_init ''kk6xyz'' 0 [] [] 30 []))) [SessionEnds ''A1A'', BeaconTimer, StopTransport])"
proof -
  have "kiss_init ''kk6xyz'' 0 [] [] 30 [] =
      Some (fst (the (kiss_init ''kk6xyz'' 0 [] [] 30 [])), snd (the (kiss_init ''kk6xyz'' 0 [] [] 30 [])))"
    by code_simp
  then show ?thesis by (rule kiss_sessions_consistent)
qed

section \<open>KISS framing\<close>

text \<open>
  Byte stuffing is transparent: unescaping an escaped buffer gives it back, an escaped buffer
  contains no frame delimiter, and it is at most twice as long as the original.
\<close>

theorem kiss_stuffing:
  "kiss_unescape (kiss_escape bs) = bs \<and> FEND \<notin> set (kiss_escape bs)
    \<and> length bs \<le> length (kiss_escape bs) \<and> length (kiss_escape bs) \<le> 2 * length bs"
  using length_escape escape_no_fend by simp

text \<open>
  A stray delimiter (or a frame cut off after its opening one) loses every frame that follows:
  the splitter consumes the closing FEND of each frame, so after \<open>m FEND\<close> it pairs the delimiters
  wrongly and returns none of the well-formed frames of the rest of the stream, however many.
\<close>

theorem kiss_stray_fend_desynchronises:
  assumes "0 \<le> port" and "port \<le> 15" and "port \<noteq> 12" and "FEND \<notin> set m"
  shows "fst (split_kiss_frames (m @ FEND # concat (map (build_kiss_frame port) fs))) = []"
  by (rule split_desync_aux [OF assms])

lemma kiss_stray_fend_desynchronises_witness:
  "fst (split_kiss_frames ([] @ FEND # concat (map (build_kiss_frame 0) [[1, 2], [3], [4, 5]]))) = []"
  by (rule kiss_stray_fend_desynchronises) simp_all

text \<open>A frame built for port 12 never comes out of the splitter: its command byte is a delimiter.\<close>

lemma kiss_port_12_lost: "fst (split_kiss_frames (build_kiss_frame 12 f)) = []"
proof -
  have "build_kiss_frame 12 f = [] @ FEND # [] @ FEND # (kiss_escape f @ FEND # [])"
    by (simp add: build_kiss_frame_def low_byte_def FEND_def)
  with split_frames_step [of "[]" "[]" "kiss_escape f @ FEND # []"]
    split_frames_stop(2) [OF escape_no_fend, of "[]" f]
  show ?thesis by simp
qed

section \<open>Frames\<close>

text \<open>
  C25. A UI frame built from canonical addresses and any digipeater path decodes, on every port, to
  the same source, destination, path and payload, marked UI with the no-layer-3 PID.
\<close>

theorem ui_frame_decodes_back:
  assumes "canonical src" and "canonical dest" and "list_all canonical vias"
  shows "\<exists>f. build_ax25_ui_frame src dest payload vias = Some f \<and>
    decode_ax25 f port = Some (Some \<lparr>kf_port = port, kf_dest_call = dest, kf_src_call = src,
      kf_is_ui = True, kf_pid = PID_NO_LAYER3, kf_payload = payload, kf_via = vias\<rparr>)"
  by (rule ui_frame_round_trip [OF assms])

lemma ui_frame_decodes_back_witness:
  "\<exists>f. build_ax25_ui_frame ''N0CALL-7'' ''KK6XYZ'' [0, 0xC0] [''W1AW-15'', ''K1''] = Some f \<and>
    decode_ax25 f 3 = Some (Some \<lparr>kf_port = 3, kf_dest_call = ''KK6XYZ'', kf_src_call = ''N0CALL-7'',
      kf_is_ui = True, kf_pid = PID_NO_LAYER3, kf_payload = [0, 0xC0], kf_via = [''W1AW-15'', ''K1'']\<rparr>)"
  by (rule ui_frame_decodes_back) (simp_all add: sample_calls)

text \<open>
  No input makes a decoder raise: on every byte string the AX.25, KISS, NODES, L3-header and
  L3-frame decoders return a frame or reject it; no index is out of range on any branch.
\<close>

theorem decoders_never_raise:
  "decode_frame data \<noteq> None \<and> decode_ax25_frame data \<noteq> None
    \<and> decode_nodes_broadcast src data \<noteq> None \<and> decode_l3_header data \<noteq> None
    \<and> decode_l3_frame data \<noteq> None"
  using decode_frame_total [of data] decode_ax25_total [of data 0] nodes_decoder_total [of src data]
    decode_l3_header_total [of data] decode_l3_frame_total [of data]
  by (simp add: decode_ax25_frame_def)

text \<open>
  A NODES broadcast of well-formed entries decodes to the same alias and entries in the same
  order, also when fewer than 21 bytes of padding follow it.
\<close>

theorem nodes_broadcast_decodes_back:
  assumes "alias_ok a" and "list_all entry_ok es" and "length junk < node_entry_len"
  shows "\<exists>bs. encode_nodes_broadcast a es = Some bs \<and>
    decode_nodes_broadcast src (bs @ junk)
      = Some (Some \<lparr>nf_source_call = src, nf_source_alias = a, nf_entries = es\<rparr>)"
  by (rule nodes_round_trip [OF assms])

lemma nodes_broadcast_decodes_back_witness:
  "\<exists>bs. encode_nodes_broadcast ''BBSND'' [\<lparr>ne_dest_call = ''N0CALL-7'', ne_alias = ''NOD1'',
        ne_neighbor_call = ''K1'', ne_quality = 192\<rparr>] = Some bs \<and>
    decode_nodes_broadcast ''KK6XYZ'' (bs @ [0, 0, 0])
      = Some (Some \<lparr>nf_source_call = ''KK6XYZ'', nf_source_alias = ''BBSND'',
          nf_entries = [\<lparr>ne_dest_call = ''N0CALL-7'', ne_alias = ''NOD1'',
            ne_neighbor_call = ''K1'', ne_quality = 192\<rparr>]\<rparr>)"
proof (rule nodes_broadcast_decodes_back)
  show "alias_ok ''BBSND''" by code_simp
  have "alias_ok ''NOD1''" by code_simp
  then show "list_all entry_ok [\<lparr>ne_dest_call = ''N0CALL-7'', ne_alias = ''NOD1'',
      ne_neighbor_call = ''K1'', ne_quality = 192\<rparr>]" by (simp add: entry_ok_def sample_calls)
  show "length [0, 0, 0 :: byte] < node_entry_len" by (simp add: netrom_lens)
qed

text \<open>
  C20. A CONNECT REQUEST for canonical callsigns encodes to the 35 bytes of the protocol, decodes to
  the same header, window, user and node, and is accepted by the classifier that decides whether a
  connection speaks L3 (for a TTL of 1 to 64).
\<close>

theorem connect_request_decodes_back:
  assumes "header_ok h" and "h_opcode h = OPCODE_CONNECT_REQ" and "byte_range w"
    and "canonical user" and "canonical origin" and "1 \<le> h_ttl h" and "h_ttl h \<le> 64"
  shows "\<exists>tail bs. encode_connect_request_tail w user origin = Some tail
    \<and> encode_l3_frame h tail = Some bs \<and> length bs = 35
    \<and> decode_l3_frame bs = Some (Some (ConnectRequest h w user origin))
    \<and> looks_like_netrom_l3 bs"
  using connect_req_round_trip [OF assms(1-5)] classifier_complete [OF assms(1,6,7)] assms(2)
  by (fastforce simp: opcode_defs)

lemma connect_request_decodes_back_witness:
  "\<exists>tail bs. encode_connect_request_tail 4 ''W1AW-15'' ''N0CALL-7'' = Some tail
    \<and> encode_l3_frame \<lparr>h_origin_call = ''N0CALL-7'', h_dest_call = ''KK6XYZ'', h_ttl = 25,
        h_circuit_idx = 3, h_circuit_id = 255, h_tx_seq = 0, h_rx_seq = 0, h_opcode_flags = 1\<rparr> tail = Some bs
    \<and> length bs = 35
    \<and> decode_l3_frame bs = Some (Some (ConnectRequest \<lparr>h_origin_call = ''N0CALL-7'',
        h_dest_call = ''KK6XYZ'', h_ttl = 25, h_circuit_idx = 3, h_circuit_id = 255, h_tx_seq = 0,
        h_rx_seq = 0, h_opcode_flags = 1\<rparr> 4 ''W1AW-15'' ''N0CALL-7''))
    \<and> looks_like_netrom_l3 bs"
  by (rule connect_request_decodes_back)
    (simp_all add: header_ok_def byte_range_def sample_calls h_opcode_def opcode_defs)

text \<open>
  A CONNECT REQUEST that decodes names callsigns of letters and digits only, with an SSID below
  16 shown by a suffix unless it is 0; a node can always address its answers to them.
\<close>

theorem connect_request_callsigns:
  assumes "decode_l3_frame data = Some (Some (ConnectRequest h w user origin))"
    and "s = user \<or> s = origin"
  shows "\<exists>c k. list_all is_call_char c \<and> length c \<le> 6 \<and> k < 16
      \<and> s = (if k = 0 then c else c @ CHR 0x2D # nat_str k)"
proof -
  from assms have "\<exists>d. wire_call_is_valid d \<and> decode_wire_call d = Some s"
    by (auto simp: decode_l3_frame_def Let_def split: Option.bind_splits option.splits if_splits)
  with decode_wire_call_valid show ?thesis by blast
qed

lemma connect_request_callsigns_witness:
  "\<exists>c k. list_all is_call_char c \<and> length c \<le> 6 \<and> k < 16
      \<and> ''K2-3'' = (if k = 0 then c else c @ CHR 0x2D # nat_str k)"
proof (rule connect_request_callsigns)
  show "decode_l3_frame [0x96, 0x62, 0x40, 0x40, 0x40, 0x40, 0, 0x96, 0x62, 0x40, 0x40, 0x40, 0x40, 1,
      25, 0, 0, 0, 0, 1, 4, 0x96, 0x64, 0x40, 0x40, 0x40, 0x40, 6, 0x96, 0x62, 0x40, 0x40, 0x40, 0x40, 0]
    = Some (Some (ConnectRequest \<lparr>h_origin_call = ''K1'', h_dest_call = ''K1'', h_ttl = 25,
        h_circuit_idx = 0, h_circuit_id = 0, h_tx_seq = 0, h_rx_seq = 0, h_opcode_flags = 1\<rparr>
        4 ''K2-3'' ''K1''))"
    by code_simp
qed simp

end
