(* ===== verification/Router.thy ===== *)
theory Router
  imports Netrom_Frame
begin

text \<open>
  \<open>bbs/netrom/router.py\<close>: the NET/ROM routing table. The state is the record \<open>router\<close>, field for
  field the attributes \<open>__init__\<close> sets; a mutated list or dictionary is the updated field. The
  clock (\<open>time.time()\<close>) is an argument. The SQLite file is the pair of row lists last committed.
\<close>

definition ROUTE_TTL_SECONDS :: int where "ROUTE_TTL_SECONDS = 3 * 3600"
definition MAX_ROUTES_PER_DEST :: nat where "MAX_ROUTES_PER_DEST = 3"
definition NODES_HEADER_LEN :: nat where "NODES_HEADER_LEN = 7"
definition NODES_ENTRY_LEN :: nat where "NODES_ENTRY_LEN = 21"
definition NODES_FRAME_BUDGET :: nat where "NODES_FRAME_BUDGET = 256"

definition NODES_MAX_ENTRIES_PER_FRAME :: nat where
  "NODES_MAX_ENTRIES_PER_FRAME = (NODES_FRAME_BUDGET - NODES_HEADER_LEN) div NODES_ENTRY_LEN"

definition route_quality :: "int \<Rightarrow> int \<Rightarrow> int" where
  "route_quality advertised path_quality = drop_bit 8 (advertised * path_quality + 128)"

section \<open>Routable callsigns\<close>

text \<open>\<open>_CALLSIGN_RE\<close>: one or two prefix characters, a digit, one to four letters, an optional SSID.\<close>

definition ssid_suffix :: "string \<Rightarrow> bool" where
  "ssid_suffix ds = (case ds of
       [d] \<Rightarrow> is_digit d
     | [a, d] \<Rightarrow> a = CHR 0x31 \<and> is_digit d \<and> code d \<le> 53
     | _ \<Rightarrow> False)"

definition routable_tail :: "string \<Rightarrow> bool" where
  "routable_tail s = (case s of [] \<Rightarrow> False | d # r \<Rightarrow>
     (let letters = takeWhile is_upper r; rest = dropWhile is_upper r in
      is_digit d \<and> 1 \<le> length letters \<and> length letters \<le> 4 \<and>
      (case rest of [] \<Rightarrow> True | c # ds \<Rightarrow> c = CHR 0x2D \<and> ssid_suffix ds)))"

definition is_routable_callsign :: "string \<Rightarrow> bool" where
  "is_routable_callsign call =
     (case strip (upper call) of
        [] \<Rightarrow> False
      | a # r \<Rightarrow> is_call_char a \<and>
          (routable_tail r \<or> (case r of [] \<Rightarrow> False | b # r' \<Rightarrow> is_call_char b \<and> routable_tail r')))"

section \<open>State\<close>

record route_entry =
  re_dest_call :: callsign
  re_alias :: string
  re_neighbor_call :: callsign
  re_quality :: int
  re_via_call :: callsign
  re_via_alias :: string
  re_last_seen :: timestamp
  re_obs_count :: int

definition is_direct :: "route_entry \<Rightarrow> bool" where
  "is_direct r \<longleftrightarrow> upper (re_via_call r) = upper (re_dest_call r)"

record neighbour_entry =
  nb_call :: callsign
  nb_port :: string
  nb_path_quality :: int
  nb_use_count :: int
  nb_locked :: bool
  nb_crosslink :: bool
  nb_last_heard :: timestamp

type_synonym routes = "(callsign, route_entry list) dict"

record router =
  rt_call :: callsign
  rt_alias :: string
  rt_routes :: routes
  rt_neighbours :: "(callsign, neighbour_entry) dict"
  rt_channel_quality :: int
  rt_neighbour_quality :: "(callsign, int) dict"
  rt_worst_quality :: int
  rt_max_destinations :: int
  rt_obs_initializer :: int
  rt_obs_min_to_broadcast :: int
  rt_heard_direct :: "(callsign, timestamp) dict"
  rt_crosslinks :: "callsign set"
  rt_direct_heard_ttl :: timestamp
  rt_route_ttl_seconds :: int
  rt_advertise_self_only :: bool

definition clamp :: "int \<Rightarrow> int \<Rightarrow> int \<Rightarrow> int" where
  "clamp lo hi n = max lo (min hi n)"

definition router_init :: "string \<Rightarrow> string \<Rightarrow> int \<Rightarrow> bool \<Rightarrow> timestamp \<Rightarrow> int \<Rightarrow> (string, int) dict \<Rightarrow>
    int \<Rightarrow> int \<Rightarrow> int \<Rightarrow> int \<Rightarrow> router" where
  "router_init node_call node_alias route_ttl_seconds advertise_self_only direct_heard_ttl_seconds
     channel_quality neighbour_quality worst_quality max_destinations obs_initializer
     obs_min_to_broadcast =
   \<lparr>rt_call = upper node_call, rt_alias = take 6 (upper node_alias), rt_routes = [],
    rt_neighbours = [], rt_channel_quality = clamp 0 255 channel_quality,
    rt_neighbour_quality = fold (\<lambda>(k, v). AList.update (upper k) (clamp 0 255 v)) neighbour_quality [],
    rt_worst_quality = clamp 0 255 worst_quality, rt_max_destinations = max 1 max_destinations,
    rt_obs_initializer = clamp 0 255 obs_initializer,
    rt_obs_min_to_broadcast = clamp 1 255 obs_min_to_broadcast,
    rt_heard_direct = [], rt_crosslinks = {}, rt_direct_heard_ttl = direct_heard_ttl_seconds,
    rt_route_ttl_seconds = route_ttl_seconds, rt_advertise_self_only = advertise_self_only\<rparr>"

definition note_heard_direct :: "callsign \<Rightarrow> timestamp \<Rightarrow> router \<Rightarrow> router" where
  "note_heard_direct call when rt =
     rt\<lparr>rt_heard_direct := AList.update (upper call) when (rt_heard_direct rt)\<rparr>"

section \<open>The neighbour list\<close>

text \<open>The use count of \<open>_reconcile_neighbours\<close>: the routes that forward via the neighbour.\<close>

definition all_routes :: "routes \<Rightarrow> route_entry list" where
  "all_routes routes = concat (map snd routes)"

definition use_count :: "routes \<Rightarrow> callsign \<Rightarrow> int" where
  "use_count routes c = int (length (filter (\<lambda>r. upper (re_via_call r) = c) (all_routes routes)))"

definition reconcile_neighbours :: "router \<Rightarrow> router" where
  "reconcile_neighbours rt =
     rt\<lparr>rt_neighbours :=
       filter (\<lambda>(c, nbr). \<not> (nb_use_count nbr = 0 \<and> \<not> nb_locked nbr \<and> c \<notin> rt_crosslinks rt))
         (map (\<lambda>(c, nbr). (c, nbr\<lparr>nb_use_count := use_count (rt_routes rt) c\<rparr>)) (rt_neighbours rt))\<rparr>"

definition note_crosslink :: "callsign \<Rightarrow> bool \<Rightarrow> router \<Rightarrow> router" where
  "note_crosslink call live rt =
     (let c = upper call in
      if live then rt\<lparr>rt_crosslinks := insert c (rt_crosslinks rt)\<rparr>
      else reconcile_neighbours (rt\<lparr>rt_crosslinks := rt_crosslinks rt - {c}\<rparr>))"

definition default_path_quality :: "router \<Rightarrow> callsign \<Rightarrow> int" where
  "default_path_quality rt call =
     (case map_of (rt_neighbour_quality rt) (upper call) of Some q \<Rightarrow> q | None \<Rightarrow> rt_channel_quality rt)"

definition get_or_create_neighbour :: "callsign \<Rightarrow> timestamp \<Rightarrow> router \<Rightarrow> router \<times> neighbour_entry" where
  "get_or_create_neighbour call when rt =
     (let c = upper call;
          nbr = (case map_of (rt_neighbours rt) c of
                   None \<Rightarrow> \<lparr>nb_call = c, nb_port = [], nb_path_quality = default_path_quality rt c,
                     nb_use_count = 0, nb_locked = False, nb_crosslink = False, nb_last_heard = when\<rparr>
                 | Some nbr \<Rightarrow>
                     (let nbr = nbr\<lparr>nb_last_heard := when\<rparr> in
                      if \<not> nb_locked nbr then nbr\<lparr>nb_path_quality := default_path_quality rt c\<rparr> else nbr)) in
      (rt\<lparr>rt_neighbours := AList.update c nbr (rt_neighbours rt)\<rparr>, nbr))"

section \<open>Learning routes\<close>

definition sanitize_entries :: "nodes_frame \<Rightarrow> nodes_frame" where
  "sanitize_entries frame =
     frame\<lparr>nf_entries := filter (\<lambda>e. is_routable_callsign (ne_dest_call e)) (nf_entries frame)\<rparr>"

text \<open>Replace the first alternate with the same \<open>via_call\<close>, or append.\<close>

fun replace_via :: "route_entry \<Rightarrow> route_entry list \<Rightarrow> route_entry list" where
  "replace_via entry [] = [entry]"
| "replace_via entry (r # rs) =
     (if upper (re_via_call r) = upper (re_via_call entry) then entry # rs else r # replace_via entry rs)"

definition sort_bucket :: "route_entry list \<Rightarrow> route_entry list" where
  "sort_bucket bucket = take MAX_ROUTES_PER_DEST (sort_key (\<lambda>r. - re_quality r) bucket)"

definition bucket_of :: "routes \<Rightarrow> callsign \<Rightarrow> route_entry list" where
  "bucket_of routes key = (case map_of routes key of Some b \<Rightarrow> b | None \<Rightarrow> [])"

definition upsert_route :: "route_entry \<Rightarrow> router \<Rightarrow> router" where
  "upsert_route entry rt =
     (let key = upper (re_dest_call entry); bucket = bucket_of (rt_routes rt) key in
      rt\<lparr>rt_routes := AList.update key (sort_bucket (replace_via entry bucket)) (rt_routes rt)\<rparr>)"

definition is_new_route :: "route_entry \<Rightarrow> router \<Rightarrow> bool" where
  "is_new_route entry rt \<longleftrightarrow>
     \<not> list_ex (\<lambda>r. upper (re_via_call r) = upper (re_via_call entry))
        (bucket_of (rt_routes rt) (upper (re_dest_call entry)))"

definition indirect_route :: "nodes_frame \<Rightarrow> node_entry \<Rightarrow> int \<Rightarrow> timestamp \<Rightarrow> int \<Rightarrow> route_entry" where
  "indirect_route frame entry rq now obs =
     \<lparr>re_dest_call = ne_dest_call entry, re_alias = ne_alias entry,
      re_neighbor_call = ne_neighbor_call entry, re_quality = rq,
      re_via_call = nf_source_call frame, re_via_alias = nf_source_alias frame,
      re_last_seen = now, re_obs_count = obs\<rparr>"

definition process_entry :: "nodes_frame \<Rightarrow> int \<Rightarrow> timestamp \<Rightarrow> node_entry \<Rightarrow> router \<Rightarrow> router" where
  "process_entry frame path_q now entry rt =
     (let dest_up = upper (ne_dest_call entry);
          rq = (if upper (ne_neighbor_call entry) = rt_call rt then 0
                else route_quality (ne_quality entry) path_q) in
      if rq < rt_worst_quality rt then rt
      else if map_of (rt_routes rt) dest_up = None
          \<and> rt_max_destinations rt \<le> int (length (rt_routes rt)) then rt
      else upsert_route (indirect_route frame entry rq now (rt_obs_initializer rt)) rt)"

definition source_route :: "nodes_frame \<Rightarrow> int \<Rightarrow> timestamp \<Rightarrow> int \<Rightarrow> route_entry" where
  "source_route frame path_q now obs =
     \<lparr>re_dest_call = nf_source_call frame, re_alias = nf_source_alias frame,
      re_neighbor_call = nf_source_call frame, re_quality = path_q,
      re_via_call = nf_source_call frame, re_via_alias = nf_source_alias frame,
      re_last_seen = now, re_obs_count = obs\<rparr>"

definition process_nodes :: "timestamp \<Rightarrow> nodes_frame \<Rightarrow> router \<Rightarrow> router" where
  "process_nodes now frame rt =
     (if rt_worst_quality rt = 0 then rt
      else
        (let (rt, nbr) = get_or_create_neighbour (nf_source_call frame) now rt;
             path_q = nb_path_quality nbr in
         if path_q = 0 then rt
         else
           (let rt = upsert_route (source_route frame path_q now (rt_obs_initializer rt)) rt in
            fold (process_entry frame path_q now) (nf_entries frame) rt)))"

text \<open>
  \<open>on_netrom_frame\<close> without the persistence that ends it (\<open>persist_rows\<close> below gives the rows).
  The second component is the frame handed to the nodes observer.
\<close>

definition on_netrom_frame ::
  "timestamp \<Rightarrow> callsign \<Rightarrow> callsign \<Rightarrow> bytes \<Rightarrow> router \<Rightarrow> (router \<times> nodes_frame option) option" where
  "on_netrom_frame now src_call dest_call payload rt =
     (if upper dest_call = ''NODES'' then do {
        frame \<leftarrow> decode_nodes_broadcast src_call payload;
        (case frame of
           None \<Rightarrow> Some (rt, None)
         | Some f \<Rightarrow> (let f = sanitize_entries f in Some (process_nodes now f rt, Some f)))
      }
      else Some (rt, None))"

section \<open>Maintenance\<close>

definition prune_stale_routes :: "timestamp \<Rightarrow> router \<Rightarrow> router \<times> int" where
  "prune_stale_routes now rt =
     (let cutoff = now - of_int (rt_route_ttl_seconds rt);
          kept = map (\<lambda>(k, b). (k, filter (\<lambda>r. cutoff \<le> re_last_seen r) b)) (rt_routes rt) in
      (rt\<lparr>rt_routes := filter (\<lambda>(k, b). b \<noteq> []) kept\<rparr>,
       int (length (all_routes (rt_routes rt))) - int (length (all_routes kept))))"

text \<open>The inner loop of the scan: the routes kept, with their counts decremented.\<close>

fun decay_bucket :: "route_entry list \<Rightarrow> route_entry list" where
  "decay_bucket [] = []"
| "decay_bucket (r # rs) =
     (if re_obs_count r = 0 then r # decay_bucket rs
      else (let r = r\<lparr>re_obs_count := re_obs_count r - 1\<rparr> in
            if 0 < re_obs_count r then r # decay_bucket rs else decay_bucket rs))"

definition decay_obsolescence :: "router \<Rightarrow> router \<times> int" where
  "decay_obsolescence rt =
     (if rt_obs_initializer rt = 0 then (rt, 0)
      else
        (let kept = map (\<lambda>(k, b). (k, decay_bucket b)) (rt_routes rt) in
         (reconcile_neighbours (rt\<lparr>rt_routes := filter (\<lambda>(k, b). b \<noteq> []) kept\<rparr>),
          int (length (all_routes (rt_routes rt))) - int (length (all_routes kept)))))"

section \<open>Queries\<close>

definition routing_table :: "router \<Rightarrow> route_entry list" where
  "routing_table rt =
     sort_key (\<lambda>r. (if re_alias r \<noteq> [] then upper (re_alias r) else upper (re_dest_call r),
                   upper (re_dest_call r), - re_quality r))
       (all_routes (rt_routes rt))"

definition node_count :: "router \<Rightarrow> nat" where
  "node_count rt = length (rt_routes rt)"

fun alias_search :: "string \<Rightarrow> routes \<Rightarrow> route_entry list" where
  "alias_search dest_up [] = []"
| "alias_search dest_up ((k, b) # rest) =
     (if b \<noteq> [] \<and> upper (re_alias (hd b)) = dest_up then b else alias_search dest_up rest)"

definition get_routes :: "router \<Rightarrow> string \<Rightarrow> route_entry list" where
  "get_routes rt dest =
     (let dest_up = upper dest; bucket = bucket_of (rt_routes rt) dest_up in
      if bucket \<noteq> [] then bucket else alias_search dest_up (rt_routes rt))"

definition get_route :: "router \<Rightarrow> string \<Rightarrow> route_entry option" where
  "get_route rt dest =
     (let dest_up = upper dest; bucket = bucket_of (rt_routes rt) dest_up in
      if bucket \<noteq> [] then Some (hd bucket)
      else (case alias_search dest_up (rt_routes rt) of [] \<Rightarrow> None | r # _ \<Rightarrow> Some r))"

definition is_known_node :: "router \<Rightarrow> callsign \<Rightarrow> bool" where
  "is_known_node rt call =
     (let c = upper call in
      map_of (rt_routes rt) c \<noteq> None \<or> c \<in> rt_crosslinks rt
      \<or> list_ex (\<lambda>r. upper (re_via_call r) = c) (all_routes (rt_routes rt)))"

definition has_fresh_direct_route :: "timestamp \<Rightarrow> router \<Rightarrow> callsign \<Rightarrow> bool" where
  "has_fresh_direct_route now rt call =
     (let cutoff = now - of_int (rt_route_ttl_seconds rt) in
      list_ex (\<lambda>r. is_direct r \<and> cutoff \<le> re_last_seen r) (bucket_of (rt_routes rt) (upper call)))"

definition is_direct_neighbor :: "timestamp \<Rightarrow> router \<Rightarrow> callsign \<Rightarrow> bool" where
  "is_direct_neighbor now rt call =
     (let c = upper call in
      c \<in> rt_crosslinks rt
      \<or> (case map_of (rt_neighbours rt) c of Some nbr \<Rightarrow> 0 < nb_path_quality nbr | None \<Rightarrow> False)
      \<or> (is_known_node rt c \<and>
          now - (case map_of (rt_heard_direct rt) c of Some t \<Rightarrow> t | None \<Rightarrow> 0) \<le> rt_direct_heard_ttl rt)
      \<or> has_fresh_direct_route now rt c)"

definition adjacent_neighbors :: "timestamp \<Rightarrow> router \<Rightarrow> callsign set" where
  "adjacent_neighbors now rt =
     (let candidates = set (map fst (rt_neighbours rt)) \<union> rt_crosslinks rt
          \<union> set (map (\<lambda>r. upper (re_dest_call r)) (filter is_direct (all_routes (rt_routes rt)))) in
      Set.filter (is_direct_neighbor now rt) candidates)"

definition neighbour_list :: "router \<Rightarrow> neighbour_entry list" where
  "neighbour_list rt = sort_key nb_call (map snd (rt_neighbours rt))"

definition best_neighbor_for :: "timestamp \<Rightarrow> router \<Rightarrow> string \<Rightarrow> int \<Rightarrow> callsign option" where
  "best_neighbor_for now rt dest min_quality =
     (let routes = get_routes rt dest;
          dest_call = (if routes \<noteq> [] then upper (re_dest_call (hd routes)) else upper dest) in
      if is_routable_callsign dest_call \<and> is_direct_neighbor now rt dest_call then Some dest_call
      else if routes = [] then None
      else
        (let usable = filter (\<lambda>r. min_quality \<le> re_quality r) routes in
         case usable of
           [] \<Rightarrow> None
         | u # _ \<Rightarrow>
             (let chosen = (case find (\<lambda>r. is_direct_neighbor now rt (re_via_call r)) usable of
                              Some r \<Rightarrow> r | None \<Rightarrow> u) in
              Some (upper (re_via_call chosen)))))"

section \<open>Advertising\<close>

definition advertisable :: "router \<Rightarrow> route_entry \<Rightarrow> bool" where
  "advertisable rt best \<longleftrightarrow>
     \<not> (re_obs_count best \<noteq> 0 \<and> re_obs_count best < rt_obs_min_to_broadcast rt)"

definition advert_entry :: "route_entry \<Rightarrow> node_entry" where
  "advert_entry best = \<lparr>ne_dest_call = re_dest_call best, ne_alias = re_alias best,
     ne_neighbor_call = re_via_call best, ne_quality = re_quality best\<rparr>"

definition nodes_entries :: "router \<Rightarrow> node_entry list" where
  "nodes_entries rt =
     sort_key (\<lambda>e. upper (ne_dest_call e))
       (map (\<lambda>(k, b). advert_entry (hd b))
         (filter (\<lambda>(k, b). b \<noteq> [] \<and> advertisable rt (hd b)) (rt_routes rt)))"

definition build_nodes_payload :: "router \<Rightarrow> bytes option option" where
  "build_nodes_payload rt =
     (if rt_advertise_self_only rt then map_option Some (encode_nodes_broadcast (rt_alias rt) [])
      else
        (let entries = nodes_entries rt in
         if entries = [] then Some None
         else map_option Some (encode_nodes_broadcast (rt_alias rt) entries)))"

definition build_nodes_payloads :: "router \<Rightarrow> bytes list option" where
  "build_nodes_payloads rt =
     (if rt_advertise_self_only rt then map_option (\<lambda>b. [b]) (encode_nodes_broadcast (rt_alias rt) [])
      else those (map (encode_nodes_broadcast (rt_alias rt))
        (fragments NODES_MAX_ENTRIES_PER_FRAME (nodes_entries rt))))"

section \<open>Persistence\<close>

text \<open>
  Rows of \<open>netrom_routes\<close> and \<open>netrom_neighbours\<close>. \<open>persist\<close> replaces both tables;
  \<open>seed_from_db\<close> reads back what a query returns, in the order it returns it.
\<close>

record route_row =
  rr_dest :: callsign
  rr_neighbor :: callsign
  rr_alias :: string
  rr_quality :: int
  rr_via :: callsign
  rr_via_alias :: string
  rr_last_seen :: int
  rr_obs_count :: int

record neighbour_row =
  nr_call :: callsign
  nr_port :: string
  nr_path_quality :: int
  nr_use_count :: int
  nr_locked :: int
  nr_last_heard :: int

definition best_by_key :: "route_entry list \<Rightarrow> (callsign \<times> callsign, route_entry) dict" where
  "best_by_key rs = fold (\<lambda>r best.
     (let k = (upper (re_dest_call r), upper (re_neighbor_call r)) in
      case map_of best k of
        None \<Rightarrow> AList.update k r best
      | Some r' \<Rightarrow> if re_quality r' < re_quality r then AList.update k r best else best)) rs []"

definition persist_rows :: "router \<Rightarrow> route_row list \<times> neighbour_row list" where
  "persist_rows rt =
     (map (\<lambda>(k, r). \<lparr>rr_dest = upper (re_dest_call r), rr_neighbor = upper (re_neighbor_call r),
         rr_alias = re_alias r, rr_quality = re_quality r, rr_via = upper (re_via_call r),
         rr_via_alias = re_via_alias r, rr_last_seen = trunc (re_last_seen r),
         rr_obs_count = re_obs_count r\<rparr>)
        (best_by_key (all_routes (rt_routes rt))),
      map (\<lambda>(c, n). \<lparr>nr_call = upper (nb_call n), nr_port = nb_port n,
         nr_path_quality = nb_path_quality n, nr_use_count = nb_use_count n,
         nr_locked = (if nb_locked n then 1 else 0), nr_last_heard = trunc (nb_last_heard n)\<rparr>)
        (rt_neighbours rt))"

definition seed_neighbour :: "neighbour_row \<Rightarrow> router \<Rightarrow> router" where
  "seed_neighbour row rt =
     (if \<not> is_routable_callsign (nr_call row) then rt
      else
        (let c = upper (nr_call row) in
         rt\<lparr>rt_neighbours := AList.update c
           \<lparr>nb_call = c, nb_port = nr_port row, nb_path_quality = nr_path_quality row,
            nb_use_count = nr_use_count row, nb_locked = (nr_locked row \<noteq> 0), nb_crosslink = False,
            nb_last_heard = of_int (nr_last_heard row)\<rparr> (rt_neighbours rt)\<rparr>))"

definition row_entry :: "route_row \<Rightarrow> route_entry" where
  "row_entry row =
     \<lparr>re_dest_call = rr_dest row, re_alias = rr_alias row, re_neighbor_call = rr_neighbor row,
      re_quality = rr_quality row, re_via_call = rr_via row, re_via_alias = rr_via_alias row,
      re_last_seen = of_int (rr_last_seen row), re_obs_count = rr_obs_count row\<rparr>"

definition seed_route :: "route_row \<Rightarrow> router \<times> int \<Rightarrow> router \<times> int" where
  "seed_route row s =
     (let (rt, loaded) = s in
      if \<not> is_routable_callsign (rr_dest row) then (rt, loaded)
      else
        (let entry = row_entry row; key = upper (re_dest_call entry);
             bucket = bucket_of (rt_routes rt) key in
         if list_ex (\<lambda>r. upper (re_via_call r) = upper (re_via_call entry)) bucket then (rt, loaded)
         else (rt\<lparr>rt_routes := AList.update key (sort_bucket (bucket @ [entry])) (rt_routes rt)\<rparr>,
               loaded + 1)))"

definition seed_from_db :: "neighbour_row list \<Rightarrow> route_row list \<Rightarrow> router \<Rightarrow> router \<times> int" where
  "seed_from_db nbr_rows route_rows rt = fold seed_route route_rows (fold seed_neighbour nbr_rows rt, 0)"

text \<open>The cutoff of both queries, \<open>int(time.time() - self._route_ttl_seconds)\<close>.\<close>

definition seed_cutoff :: "timestamp \<Rightarrow> router \<Rightarrow> int" where
  "seed_cutoff now rt = trunc (now - of_int (rt_route_ttl_seconds rt))"

section \<open>Lemmas: quality\<close>

lemma drop_bit_256: "drop_bit 8 n = n div (256 :: int)"
  by (simp add: drop_bit_eq_div)

lemma route_quality_bounds:
  assumes "0 \<le> a" and "a \<le> 255" and "0 \<le> p" and "p \<le> 255"
  shows "0 \<le> route_quality a p" and "route_quality a p \<le> min a p"
proof -
  from assms show "0 \<le> route_quality a p"
    by (simp add: route_quality_def drop_bit_256 pos_imp_zdiv_nonneg_iff)
  have "route_quality a p \<le> q" if "a * p \<le> 255 * q" and "0 \<le> q" for q
    using that by (simp add: route_quality_def drop_bit_256)
  moreover have "a * p \<le> 255 * a" "a * p \<le> 255 * p"
    using assms mult_left_mono [of p 255 a] mult_right_mono [of a 255 p] by (simp_all add: mult.commute)
  ultimately show "route_quality a p \<le> min a p" using assms by simp
qed

section \<open>Lemmas: the invariant\<close>

definition quality_range :: "int \<Rightarrow> bool" where
  "quality_range q \<longleftrightarrow> 0 \<le> q \<and> q \<le> 255"

definition bucket_ok :: "callsign \<Rightarrow> route_entry list \<Rightarrow> bool" where
  "bucket_ok k b \<longleftrightarrow> b \<noteq> [] \<and> length b \<le> MAX_ROUTES_PER_DEST
     \<and> sorted (map (\<lambda>r. - re_quality r) b) \<and> distinct (map (\<lambda>r. upper (re_via_call r)) b)
     \<and> (\<forall>r \<in> set b. upper (re_dest_call r) = k \<and> quality_range (re_quality r))"

definition routes_ok :: "routes \<Rightarrow> bool" where
  "routes_ok rs \<longleftrightarrow> distinct (map fst rs) \<and> (\<forall>(k, b) \<in> set rs. bucket_ok k b)"

definition neighbours_ok :: "(callsign, neighbour_entry) dict \<Rightarrow> bool" where
  "neighbours_ok ns \<longleftrightarrow> distinct (map fst ns)
     \<and> (\<forall>(c, n) \<in> set ns. nb_call n = c \<and> upper c = c \<and> quality_range (nb_path_quality n))"

definition router_inv :: "router \<Rightarrow> bool" where
  "router_inv rt \<longleftrightarrow> routes_ok (rt_routes rt) \<and> neighbours_ok (rt_neighbours rt)
     \<and> quality_range (rt_channel_quality rt)
     \<and> (\<forall>(k, q) \<in> set (rt_neighbour_quality rt). quality_range q)"

lemma sorted_neg_hd:
  assumes "sorted (map (\<lambda>r. - re_quality r) b)" and "r \<in> set b"
  shows "re_quality r \<le> re_quality (hd b)"
  using assms by (cases b) auto

lemma bucket_ok_sort:
  assumes "b \<noteq> []" and "distinct (map (\<lambda>r. upper (re_via_call r)) b)"
    and "\<forall>r \<in> set b. upper (re_dest_call r) = k \<and> quality_range (re_quality r)"
  shows "bucket_ok k (sort_bucket b)"
proof -
  let ?s = "sort_key (\<lambda>r. - re_quality r) b"
  have m: "mset (map (\<lambda>r. upper (re_via_call r)) ?s) = mset (map (\<lambda>r. upper (re_via_call r)) b)"
    by (simp only: mset_map mset_sort)
  then have "distinct (map (\<lambda>r. upper (re_via_call r)) ?s)"
    using assms(2) mset_eq_imp_distinct_iff by blast
  moreover have "?s \<noteq> []" using assms(1) by (metis length_0_conv length_sort)
  ultimately show ?thesis
    using assms(3)
    by (auto simp: bucket_ok_def sort_bucket_def MAX_ROUTES_PER_DEST_def sorted_wrt_take
        distinct_take simp flip: take_map dest!: in_set_takeD)
qed

lemma set_replace_via: "set (replace_via e b) \<subseteq> insert e (set b)" "e \<in> set (replace_via e b)"
  by (induction b) auto

lemma via_replace_via:
  "map (\<lambda>r. upper (re_via_call r)) (replace_via e b) =
     (if upper (re_via_call e) \<in> (\<lambda>r. upper (re_via_call r)) ` set b
      then map (\<lambda>r. upper (re_via_call r)) b
      else map (\<lambda>r. upper (re_via_call r)) b @ [upper (re_via_call e)])"
  by (induction b) auto

lemma bucket_of_ok: "routes_ok rs \<Longrightarrow> bucket_of rs k \<noteq> [] \<Longrightarrow> bucket_ok k (bucket_of rs k)"
  by (auto simp: bucket_of_def routes_ok_def dest!: map_of_SomeD split: option.splits)

lemma bucket_of_facts:
  assumes "routes_ok rs"
  shows "distinct (map (\<lambda>r. upper (re_via_call r)) (bucket_of rs k))"
    and "r \<in> set (bucket_of rs k) \<Longrightarrow> upper (re_dest_call r) = k \<and> quality_range (re_quality r)"
proof -
  show "distinct (map (\<lambda>r. upper (re_via_call r)) (bucket_of rs k))"
    using bucket_of_ok [OF assms, of k] by (cases "bucket_of rs k = []") (auto simp: bucket_ok_def)
  show "r \<in> set (bucket_of rs k) \<Longrightarrow> upper (re_dest_call r) = k \<and> quality_range (re_quality r)"
    using bucket_of_ok [OF assms, of k] by (cases "bucket_of rs k = []") (auto simp: bucket_ok_def)
qed

lemma set_update_dict: "x \<in> set (AList.update k v d) \<Longrightarrow> x = (k, v) \<or> x \<in> set d"
  by (induction d) (auto split: if_splits)

lemma routes_ok_update:
  assumes "routes_ok rs" and "bucket_ok k b"
  shows "routes_ok (AList.update k b rs)"
  using assms by (auto simp: routes_ok_def dest!: set_update_dict)

lemma routes_ok_upsert:
  assumes "routes_ok (rt_routes rt)" and "quality_range (re_quality e)"
  shows "routes_ok (rt_routes (upsert_route e rt))"
proof -
  let ?b = "bucket_of (rt_routes rt) (upper (re_dest_call e))"
  have "bucket_ok (upper (re_dest_call e)) (sort_bucket (replace_via e ?b))"
  proof (rule bucket_ok_sort)
    show "replace_via e ?b \<noteq> []" using set_replace_via(2) [of e ?b] by auto
    show "distinct (map (\<lambda>r. upper (re_via_call r)) (replace_via e ?b))"
      using bucket_of_facts(1) [OF assms(1)] by (auto simp: via_replace_via)
    show "\<forall>r \<in> set (replace_via e ?b). upper (re_dest_call r) = upper (re_dest_call e)
        \<and> quality_range (re_quality r)"
      using set_replace_via(1) [of e ?b] bucket_of_facts(2) [OF assms(1)] assms(2) by blast
  qed
  with assms(1) show ?thesis by (simp add: upsert_route_def Let_def routes_ok_update)
qed

lemma upsert_fields [simp]:
  "rt_neighbours (upsert_route e rt) = rt_neighbours rt"
  "rt_call (upsert_route e rt) = rt_call rt"
  "rt_worst_quality (upsert_route e rt) = rt_worst_quality rt"
  "rt_max_destinations (upsert_route e rt) = rt_max_destinations rt"
  "rt_obs_initializer (upsert_route e rt) = rt_obs_initializer rt"
  "rt_channel_quality (upsert_route e rt) = rt_channel_quality rt"
  "rt_neighbour_quality (upsert_route e rt) = rt_neighbour_quality rt"
  by (simp_all add: upsert_route_def Let_def)

lemma process_entry_fields [simp]:
  "rt_neighbours (process_entry f p now e rt) = rt_neighbours rt"
  "rt_call (process_entry f p now e rt) = rt_call rt"
  "rt_worst_quality (process_entry f p now e rt) = rt_worst_quality rt"
  "rt_max_destinations (process_entry f p now e rt) = rt_max_destinations rt"
  "rt_obs_initializer (process_entry f p now e rt) = rt_obs_initializer rt"
  "rt_channel_quality (process_entry f p now e rt) = rt_channel_quality rt"
  "rt_neighbour_quality (process_entry f p now e rt) = rt_neighbour_quality rt"
  by (simp_all add: process_entry_def Let_def)

lemma router_inv_upsert: "router_inv rt \<Longrightarrow> quality_range (re_quality e) \<Longrightarrow> router_inv (upsert_route e rt)"
  by (simp add: router_inv_def routes_ok_upsert)

lemma router_inv_process_entry:
  assumes "router_inv rt" and "quality_range (ne_quality e)" and "quality_range p"
  shows "router_inv (process_entry f p now e rt)"
  using assms route_quality_bounds [of "ne_quality e" p]
  by (auto simp: process_entry_def Let_def indirect_route_def quality_range_def intro!: router_inv_upsert)

lemma router_inv_process_entries:
  assumes "router_inv rt" and "\<forall>e \<in> set es. quality_range (ne_quality e)" and "quality_range p"
  shows "router_inv (fold (process_entry f p now) es rt)"
  using assms by (induction es arbitrary: rt) (auto intro: router_inv_process_entry)

lemma default_path_quality_range: "router_inv rt \<Longrightarrow> quality_range (default_path_quality rt c)"
  by (auto simp: default_path_quality_def router_inv_def dest!: map_of_SomeD split: option.splits)

lemma get_or_create_neighbour_inv:
  assumes "router_inv rt" and "get_or_create_neighbour c now rt = (rt', nbr)"
  shows "router_inv rt'" and "quality_range (nb_path_quality nbr)"
    and "rt_routes rt' = rt_routes rt" and "rt_worst_quality rt' = rt_worst_quality rt"
    and "rt_call rt' = rt_call rt" and "rt_max_destinations rt' = rt_max_destinations rt"
    and "rt_obs_initializer rt' = rt_obs_initializer rt"
proof -
  have d: "quality_range (default_path_quality rt (upper c))"
    using assms(1) by (rule default_path_quality_range)
  have s: "quality_range (nb_path_quality n) \<and> nb_call n = k" if "map_of (rt_neighbours rt) k = Some n" for k n
    using assms(1) that by (auto simp: router_inv_def neighbours_ok_def dest!: map_of_SomeD)
  have n: "quality_range (nb_path_quality nbr) \<and> nb_call nbr = upper c"
    using assms(2) d s [of "upper c"]
    by (auto simp: get_or_create_neighbour_def Let_def split: option.splits if_splits)
  then show "quality_range (nb_path_quality nbr)" by simp
  have rt': "rt' = rt\<lparr>rt_neighbours := AList.update (upper c) nbr (rt_neighbours rt)\<rparr>"
    using assms(2) by (auto simp: get_or_create_neighbour_def Let_def)
  with assms(1) n show "router_inv rt'"
    by (auto simp: router_inv_def neighbours_ok_def dest!: set_update_dict)
  from rt' show "rt_routes rt' = rt_routes rt" "rt_worst_quality rt' = rt_worst_quality rt"
    "rt_call rt' = rt_call rt" "rt_max_destinations rt' = rt_max_destinations rt"
    "rt_obs_initializer rt' = rt_obs_initializer rt" by simp_all
qed

definition frame_ok :: "nodes_frame \<Rightarrow> bool" where
  "frame_ok f \<longleftrightarrow> (\<forall>e \<in> set (nf_entries f). quality_range (ne_quality e))"

lemma router_inv_process_nodes:
  assumes "router_inv rt" and "frame_ok f"
  shows "router_inv (process_nodes now f rt)"
proof -
  obtain rt' nbr where g: "get_or_create_neighbour (nf_source_call f) now rt = (rt', nbr)" by fastforce
  note n = get_or_create_neighbour_inv [OF assms(1) g]
  from n(2) have "quality_range (re_quality (source_route f (nb_path_quality nbr) now (rt_obs_initializer rt')))"
    by (simp add: source_route_def)
  from router_inv_upsert [OF n(1) this] n assms g show ?thesis
    by (simp add: process_nodes_def Let_def frame_ok_def router_inv_process_entries)
qed

lemma decoded_frame_ok:
  assumes "decode_nodes_broadcast src payload = Some (Some f)" shows "frame_ok f"
proof -
  have "quality_range (ne_quality e)" if "decode_node_entry c = Some e" for c e
  proof -
    have b: "quality_range (uint b)" for b :: byte
      using uint_lt2p [of b] by (simp add: quality_range_def)
    from that show ?thesis
      by (auto simp: decode_node_entry_def intro: b split: Option.bind_splits)
  qed
  then have "quality_range (ne_quality (the (decode_node_entry c)))" if "c \<in> set (chunks node_entry_len xs)" for c xs
    using decode_node_entry_total [OF chunks_length [OF that]] by auto
  then show ?thesis
    using assms by (auto simp: decode_nodes_broadcast_def frame_ok_def nodes_loop_chunks Let_def
        split: if_splits Option.bind_splits)
qed

section \<open>Lemmas: maintenance\<close>

lemma map_vals_keys: "map fst (map (\<lambda>(k, v). (k, f k v)) d) = map fst d"
  by (induction d) auto

lemma distinct_keys_filter: "distinct (map fst d) \<Longrightarrow> distinct (map fst (filter P d))"
  by (induction d) auto

lemma distinct_keys_filter_map:
  "distinct (map fst d) \<Longrightarrow> distinct (map fst (filter P (map (\<lambda>(k, v). (k, f k v)) d)))"
  by (rule distinct_keys_filter) (simp only: map_vals_keys)

lemma router_inv_reconcile: "router_inv rt \<Longrightarrow> router_inv (reconcile_neighbours rt)"
  by (auto simp: router_inv_def reconcile_neighbours_def neighbours_ok_def intro!: distinct_keys_filter_map)

lemma bucket_ok_sublist:
  assumes "bucket_ok k b" and "b' \<noteq> []" and "length b' \<le> length b"
    and "sorted (map (\<lambda>r. - re_quality r) b')" and "distinct (map (\<lambda>r. upper (re_via_call r)) b')"
    and "\<And>r. r \<in> set b' \<Longrightarrow> \<exists>s \<in> set b. re_dest_call r = re_dest_call s \<and> re_quality r = re_quality s"
  shows "bucket_ok k b'"
  using assms by (auto simp: bucket_ok_def) metis+

lemma bucket_ok_filter:
  assumes "bucket_ok k b" and "filter P b \<noteq> []" shows "bucket_ok k (filter P b)"
  using assms by (intro bucket_ok_sublist [OF assms(1)])
    (auto simp: bucket_ok_def sorted_filter distinct_map_filter intro: le_trans)

lemma decay_bucket_map:
  "map re_quality (decay_bucket b) = map re_quality (filter (\<lambda>r. re_obs_count r = 0 \<or> 1 < re_obs_count r) b)"
  "map re_via_call (decay_bucket b) = map re_via_call (filter (\<lambda>r. re_obs_count r = 0 \<or> 1 < re_obs_count r) b)"
  "map re_dest_call (decay_bucket b) = map re_dest_call (filter (\<lambda>r. re_obs_count r = 0 \<or> 1 < re_obs_count r) b)"
  by (induction b) auto

lemma decay_bucket_eq:
  "decay_bucket b = map (\<lambda>r. if re_obs_count r = 0 then r else r\<lparr>re_obs_count := re_obs_count r - 1\<rparr>)
     (filter (\<lambda>r. re_obs_count r = 0 \<or> 1 < re_obs_count r) b)"
  by (induction b) auto

lemma bucket_ok_decay:
  assumes "bucket_ok k b" and "decay_bucket b \<noteq> []" shows "bucket_ok k (decay_bucket b)"
proof -
  let ?f = "filter (\<lambda>r. re_obs_count r = 0 \<or> 1 < re_obs_count r) b"
  have "?f \<noteq> []" using assms(2) by (auto simp: decay_bucket_eq)
  from bucket_ok_filter [OF assms(1) this] have f: "bucket_ok k ?f" .
  have q: "map (\<lambda>r. - re_quality r) (decay_bucket b) = map (\<lambda>r. - re_quality r) ?f"
    "map (\<lambda>r. upper (re_via_call r)) (decay_bucket b) = map (\<lambda>r. upper (re_via_call r)) ?f"
    by (simp_all add: decay_bucket_eq)
  show ?thesis
    using f assms(2) unfolding bucket_ok_def q by (auto simp: decay_bucket_eq)
qed

lemma routes_ok_map_filter:
  assumes "routes_ok rs" and "\<And>k b. bucket_ok k b \<Longrightarrow> f b \<noteq> [] \<Longrightarrow> bucket_ok k (f b)"
  shows "routes_ok (filter (\<lambda>(k, b). b \<noteq> []) (map (\<lambda>(k, b). (k, f b)) rs))"
  using assms by (auto simp: routes_ok_def intro!: distinct_keys_filter_map)

lemma router_inv_prune: "router_inv rt \<Longrightarrow> router_inv (fst (prune_stale_routes now rt))"
  by (simp add: router_inv_def prune_stale_routes_def Let_def routes_ok_map_filter bucket_ok_filter)

lemma router_inv_decay: "router_inv rt \<Longrightarrow> router_inv (fst (decay_obsolescence rt))"
  by (simp add: decay_obsolescence_def Let_def router_inv_reconcile)
    (auto simp: router_inv_def intro!: routes_ok_map_filter bucket_ok_decay
      router_inv_reconcile [unfolded router_inv_def])

lemma router_inv_note: "router_inv rt \<Longrightarrow> router_inv (note_heard_direct c t rt)"
    "router_inv rt \<Longrightarrow> router_inv (note_crosslink c live rt)"
  by (auto simp: note_heard_direct_def note_crosslink_def Let_def intro!: router_inv_reconcile)
    (simp_all add: router_inv_def)

section \<open>Runs of the router\<close>

datatype router_event =
    NetromFrame timestamp callsign callsign bytes
  | HeardDirect callsign timestamp
  | CrosslinkChange callsign bool
  | DecayScan
  | PruneScan timestamp

definition router_step :: "router \<Rightarrow> router_event \<Rightarrow> router" where
  "router_step rt e = (case e of
     NetromFrame now src dest payload \<Rightarrow>
       (case on_netrom_frame now src dest payload rt of Some (rt', _) \<Rightarrow> rt' | None \<Rightarrow> rt)
   | HeardDirect c t \<Rightarrow> note_heard_direct c t rt
   | CrosslinkChange c live \<Rightarrow> note_crosslink c live rt
   | DecayScan \<Rightarrow> fst (decay_obsolescence rt)
   | PruneScan now \<Rightarrow> fst (prune_stale_routes now rt))"

lemma router_inv_frame:
  assumes "router_inv rt" and "on_netrom_frame now src dest payload rt = Some (rt', obs)"
  shows "router_inv rt'"
  using assms decoded_frame_ok [of src payload]
  by (auto simp: on_netrom_frame_def sanitize_entries_def frame_ok_def Let_def
      split: if_splits Option.bind_splits option.splits intro!: router_inv_process_nodes)

lemma router_inv_step: "router_inv rt \<Longrightarrow> router_inv (router_step rt e)"
  by (auto simp: router_step_def router_inv_note router_inv_decay router_inv_prune
      split: router_event.splits option.splits prod.splits intro: router_inv_frame)

interpretation router_ts: transition router_step router_inv
  by unfold_locales (rule router_inv_step)

lemma router_inv_init: "router_inv (router_init c a ttl self dttl cq nq wq md oi ob)"
proof -
  have nq: "\<forall>(k, q) \<in> set (fold (\<lambda>(k, v). AList.update (upper k) (clamp 0 255 v)) nq d). quality_range q"
    if "\<forall>(k, q) \<in> set d. quality_range q" for d
    using that
  proof (induction nq arbitrary: d)
    case (Cons x nq)
    have "quality_range (clamp 0 255 v)" for v by (simp add: quality_range_def clamp_def)
    with Cons show ?case
      by (cases x) (fastforce dest!: set_update_dict intro!: Cons.IH)
  qed simp
  from nq [of "[]"] show ?thesis
    by (simp add: router_init_def router_inv_def routes_ok_def neighbours_ok_def)
      (simp add: quality_range_def clamp_def)
qed

section \<open>Lemmas: learning and lookup\<close>

lemma bucket_of_upsert:
  "bucket_of (rt_routes (upsert_route e rt)) k =
     (if k = upper (re_dest_call e) then sort_bucket (replace_via e (bucket_of (rt_routes rt) k))
      else bucket_of (rt_routes rt) k)"
  by (simp add: bucket_of_def upsert_route_def Let_def)

lemma keys_upsert:
  "fst ` set (rt_routes (upsert_route e rt)) = insert (upper (re_dest_call e)) (fst ` set (rt_routes rt))"
  by (simp add: upsert_route_def Let_def)

lemma length_update: "length (AList.update k v d) = (if k \<in> fst ` set d then length d else Suc (length d))"
  by (induction d) auto

lemma in_all_routes_bucket:
  assumes "distinct (map fst rs)"
  shows "r \<in> set (all_routes rs) \<longleftrightarrow> (\<exists>k. r \<in> set (bucket_of rs k))"
  using assms by (force simp: all_routes_def bucket_of_def map_of_eq_None_iff
      dest: map_of_SomeD intro: map_of_is_SomeI split: option.splits)

lemma set_sort_bucket: "set (sort_bucket b) \<subseteq> set b"
  unfolding sort_bucket_def by (metis set_sort set_take_subset)

lemma sort_bucket_short: "length b \<le> MAX_ROUTES_PER_DEST \<Longrightarrow> set (sort_bucket b) = set b"
  by (simp add: sort_bucket_def)

lemma sort_bucket_dominates:
  assumes "r \<in> set b" and "r \<notin> set (sort_bucket b)" and "s \<in> set (sort_bucket b)"
  shows "re_quality r \<le> re_quality s"
proof -
  let ?s = "sort_key (\<lambda>r. - re_quality r) b"
  have "r \<in> set ?s" using assms(1) by simp
  then have "r \<in> set (drop MAX_ROUTES_PER_DEST ?s)"
    using assms(2) unfolding sort_bucket_def
    by (metis Un_iff append_take_drop_id set_append)
  moreover have "sorted (map (\<lambda>r. - re_quality r) (take MAX_ROUTES_PER_DEST ?s @ drop MAX_ROUTES_PER_DEST ?s))"
    by (simp only: append_take_drop_id sorted_sort_key)
  ultimately have "- re_quality s \<le> - re_quality r"
    using assms(3) unfolding sort_bucket_def map_append sorted_append by auto
  then show ?thesis by simp
qed

text \<open>Every route in the table after a frame was there before, or was learned from the frame.\<close>

lemma upsert_routes_origin:
  assumes "routes_ok (rt_routes rt)" and "routes_ok (rt_routes (upsert_route e rt))"
    and "r \<in> set (all_routes (rt_routes (upsert_route e rt)))"
  shows "r = e \<or> r \<in> set (all_routes (rt_routes rt))"
proof -
  obtain k where "r \<in> set (bucket_of (rt_routes (upsert_route e rt)) k)"
    using assms(2,3) in_all_routes_bucket by (auto simp: routes_ok_def)
  then have "r = e \<or> r \<in> set (bucket_of (rt_routes rt) k)"
    using set_sort_bucket set_replace_via(1) [of e "bucket_of (rt_routes rt) k"]
    by (auto simp: bucket_of_upsert split: if_splits)
  then show ?thesis using assms(1) in_all_routes_bucket by (auto simp: routes_ok_def)
qed

lemma process_entry_origin:
  assumes "router_inv rt" and "quality_range (ne_quality e)" and "quality_range p"
    and "r \<in> set (all_routes (rt_routes (process_entry f p now e rt)))"
  shows "r \<in> set (all_routes (rt_routes rt)) \<or>
    (r = indirect_route f e (route_quality (ne_quality e) p) now (rt_obs_initializer rt)
      \<and> upper (ne_neighbor_call e) \<noteq> rt_call rt \<and> rt_worst_quality rt \<le> re_quality r)
    \<or> (upper (ne_neighbor_call e) = rt_call rt \<and> rt_worst_quality rt \<le> 0)"
proof -
  have i: "router_inv (process_entry f p now e rt)"
    by (rule router_inv_process_entry [OF assms(1-3)])
  define rq where "rq = (if upper (ne_neighbor_call e) = rt_call rt then 0 else route_quality (ne_quality e) p)"
  define e' where "e' = indirect_route f e rq now (rt_obs_initializer rt)"
  consider "process_entry f p now e rt = rt"
    | "process_entry f p now e rt = upsert_route e' rt" and "rt_worst_quality rt \<le> rq"
  proof -
    assume *: "process_entry f p now e rt = rt \<Longrightarrow> thesis"
      "process_entry f p now e rt = upsert_route e' rt \<Longrightarrow> rt_worst_quality rt \<le> rq \<Longrightarrow> thesis"
    show thesis
    proof (cases "rq < rt_worst_quality rt \<or> (map_of (rt_routes rt) (upper (ne_dest_call e)) = None
        \<and> rt_max_destinations rt \<le> int (length (rt_routes rt)))")
      case True
      then have "process_entry f p now e rt = rt" by (auto simp: process_entry_def Let_def rq_def)
      then show thesis by (rule *(1))
    next
      case False
      then have "process_entry f p now e rt = upsert_route e' rt"
        unfolding process_entry_def Let_def rq_def [symmetric] e'_def by auto
      with False show thesis by (intro *(2)) auto
    qed
  qed
  then show ?thesis
  proof cases
    case 1
    with assms(4) show ?thesis by simp
  next
    case 2
    then have "r = e' \<or> r \<in> set (all_routes (rt_routes rt))"
      using upsert_routes_origin [of rt e' r] assms(1,4) i by (simp add: router_inv_def)
    with 2(2) show ?thesis by (auto simp: e'_def rq_def indirect_route_def)
  qed
qed

lemma process_entries_origin:
  assumes "router_inv rt" and "\<forall>e \<in> set es. quality_range (ne_quality e)" and "quality_range p"
    and "0 < rt_worst_quality rt"
    and "r \<in> set (all_routes (rt_routes (fold (process_entry f p now) es rt)))"
  shows "r \<in> set (all_routes (rt_routes rt)) \<or>
    (\<exists>e \<in> set es. r = indirect_route f e (route_quality (ne_quality e) p) now (rt_obs_initializer rt)
      \<and> upper (ne_neighbor_call e) \<noteq> rt_call rt \<and> rt_worst_quality rt \<le> re_quality r)"
  using assms
proof (induction es arbitrary: rt)
  case (Cons e es)
  have i: "router_inv (process_entry f p now e rt)"
    using Cons.prems by (intro router_inv_process_entry) auto
  from Cons.IH [OF i] Cons.prems
  have "r \<in> set (all_routes (rt_routes (process_entry f p now e rt))) \<or>
    (\<exists>e \<in> set es. r = indirect_route f e (route_quality (ne_quality e) p) now (rt_obs_initializer rt)
      \<and> upper (ne_neighbor_call e) \<noteq> rt_call rt \<and> rt_worst_quality rt \<le> re_quality r)"
    by simp
  then show ?case
    using process_entry_origin [OF Cons.prems(1) _ Cons.prems(3), of e r f now] Cons.prems(2,4)
    by auto
qed simp

lemma process_nodes_origin:
  assumes "router_inv rt" and "frame_ok f" and "0 \<le> rt_worst_quality rt"
    and "r \<in> set (all_routes (rt_routes (process_nodes now f rt)))"
  shows "r \<in> set (all_routes (rt_routes rt))
    \<or> (\<exists>p. r = source_route f p now (rt_obs_initializer rt) \<and> quality_range p \<and> p \<noteq> 0)
    \<or> (\<exists>p e. e \<in> set (nf_entries f) \<and> quality_range p
        \<and> r = indirect_route f e (route_quality (ne_quality e) p) now (rt_obs_initializer rt)
        \<and> upper (ne_neighbor_call e) \<noteq> rt_call rt \<and> rt_worst_quality rt \<le> re_quality r)"
proof -
  obtain rt' nbr where g: "get_or_create_neighbour (nf_source_call f) now rt = (rt', nbr)" by fastforce
  note n = get_or_create_neighbour_inv [OF assms(1) g]
  define p where "p = nb_path_quality nbr"
  define s where "s = source_route f p now (rt_obs_initializer rt')"
  have qs: "quality_range (re_quality s)" using n(2) by (simp add: s_def source_route_def p_def)
  note i = router_inv_upsert [OF n(1) qs]
  show ?thesis
  proof (cases "rt_worst_quality rt = 0 \<or> p = 0")
    case True
    then have "rt_routes (process_nodes now f rt) = rt_routes rt"
      using g n(3) by (auto simp: process_nodes_def Let_def p_def)
    with assms(4) show ?thesis by simp
  next
    case False
    then have "r \<in> set (all_routes (rt_routes (fold (process_entry f p now) (nf_entries f) (upsert_route s rt'))))"
      using assms(4) g by (simp add: process_nodes_def Let_def p_def s_def)
    from process_entries_origin [OF i _ _ _ this] assms(2,3) n False
    have "r \<in> set (all_routes (rt_routes (upsert_route s rt'))) \<or>
      (\<exists>e \<in> set (nf_entries f). r = indirect_route f e (route_quality (ne_quality e) p) now (rt_obs_initializer rt)
      \<and> upper (ne_neighbor_call e) \<noteq> rt_call rt \<and> rt_worst_quality rt \<le> re_quality r)"
      by (auto simp: frame_ok_def p_def)
    then show ?thesis
      using upsert_routes_origin [of rt' s r] i n False by (auto simp: router_inv_def s_def p_def)
  qed
qed

lemma get_route_hd: "get_route rt d = (case get_routes rt d of [] \<Rightarrow> None | r # _ \<Rightarrow> Some r)"
  by (auto simp: get_route_def get_routes_def Let_def neq_Nil_conv)

lemma alias_search_bucket:
  "alias_search d rs \<noteq> [] \<Longrightarrow> \<exists>k. (k, alias_search d rs) \<in> set rs \<and> upper (re_alias (hd (alias_search d rs))) = d"
  by (induction d rs rule: alias_search.induct) (auto split: if_splits)

lemma get_routes_bucket:
  assumes "router_inv rt" and "get_routes rt d \<noteq> []"
  obtains k where "bucket_ok k (get_routes rt d)" and "bucket_of (rt_routes rt) k = get_routes rt d"
    and "k = upper d \<or> upper (re_alias (hd (get_routes rt d))) = upper d"
proof (cases "bucket_of (rt_routes rt) (upper d) \<noteq> []")
  case True
  then have e: "get_routes rt d = bucket_of (rt_routes rt) (upper d)" by (simp add: get_routes_def Let_def)
  have "bucket_ok (upper d) (bucket_of (rt_routes rt) (upper d))"
    using assms(1) True by (intro bucket_of_ok) (simp_all add: router_inv_def)
  with e show ?thesis by (intro that [of "upper d"]) simp_all
next
  case False
  then have e: "get_routes rt d = alias_search (upper d) (rt_routes rt)" by (simp add: get_routes_def Let_def)
  with assms(2) have "alias_search (upper d) (rt_routes rt) \<noteq> []" by simp
  from alias_search_bucket [OF this] obtain k where
    k: "(k, get_routes rt d) \<in> set (rt_routes rt)" "upper (re_alias (hd (get_routes rt d))) = upper d" unfolding e by blast
  from k(1) have "bucket_of (rt_routes rt) k = get_routes rt d"
    using assms(1) by (simp add: bucket_of_def router_inv_def routes_ok_def)
  moreover from k(1) assms(1) have "bucket_ok k (get_routes rt d)"
    by (auto simp: router_inv_def routes_ok_def)
  ultimately show ?thesis using k(2) that by blast
qed

lemma get_route_best:
  assumes "router_inv rt" and "get_route rt d = Some r"
  shows "r \<in> set (get_routes rt d)" and "s \<in> set (get_routes rt d) \<Longrightarrow> re_quality s \<le> re_quality r"
proof -
  from assms(2) obtain rs where r: "get_routes rt d = r # rs"
    by (auto simp: get_route_hd split: list.splits)
  then show "r \<in> set (get_routes rt d)" by simp
  from r obtain k where "bucket_ok k (get_routes rt d)"
    using get_routes_bucket [OF assms(1), of d] by (metis list.distinct(1))
  then show "s \<in> set (get_routes rt d) \<Longrightarrow> re_quality s \<le> re_quality r"
    using sorted_neg_hd [of "get_routes rt d" s] r by (simp add: bucket_ok_def)
qed

section \<open>Lemmas: next hop\<close>

lemma find_Some_iff_ex: "list_ex P xs \<Longrightarrow> \<exists>x \<in> set xs. find P xs = Some x \<and> P x"
  by (induction xs) auto

lemma best_neighbor_sound:
  assumes "best_neighbor_for now rt dest mq = Some hop"
  shows "is_direct_neighbor now rt hop
    \<or> (\<exists>r \<in> set (get_routes rt dest). upper (re_via_call r) = hop \<and> mq \<le> re_quality r
        \<and> (\<forall>s \<in> set (get_routes rt dest). mq \<le> re_quality s \<longrightarrow> \<not> is_direct_neighbor now rt (re_via_call s)))"
proof -
  let ?us = "filter (\<lambda>r. mq \<le> re_quality r) (get_routes rt dest)"
  show ?thesis
  proof (cases "is_direct_neighbor now rt hop")
    case False
    have d: "is_direct_neighbor now rt (upper c) = is_direct_neighbor now rt c" for c
      by (simp add: is_direct_neighbor_def has_fresh_direct_route_def Let_def)
    from assms False obtain u us where u: "?us = u # us"
      "hop = upper (re_via_call (case find (\<lambda>r. is_direct_neighbor now rt (re_via_call r)) ?us of Some r \<Rightarrow> r | None \<Rightarrow> u))"
      by (auto simp: best_neighbor_for_def Let_def split: if_splits list.splits)
    have n: "find (\<lambda>r. is_direct_neighbor now rt (re_via_call r)) ?us = None"
    proof (rule ccontr)
      assume "find (\<lambda>r. is_direct_neighbor now rt (re_via_call r)) ?us \<noteq> None"
      then obtain r where "find (\<lambda>r. is_direct_neighbor now rt (re_via_call r)) ?us = Some r" by blast
      moreover from this have "is_direct_neighbor now rt (re_via_call r)" by (auto simp: find_Some_iff)
      ultimately show False using u False d by simp
    qed
    from u(1) have "u \<in> set ?us" by (metis list.set_intros(1))
    moreover from n have "\<forall>s \<in> set ?us. \<not> is_direct_neighbor now rt (re_via_call s)"
      by (auto simp: find_None_iff)
    moreover from u(2) n have "hop = upper (re_via_call u)" by simp
    ultimately show ?thesis by auto
  qed simp
qed

section \<open>Lemmas: the obsolescence scan\<close>

definition aged :: "nat \<Rightarrow> route_entry \<Rightarrow> route_entry" where
  "aged n r = (if re_obs_count r = 0 then r else r\<lparr>re_obs_count := re_obs_count r - int n\<rparr>)"

definition survives :: "nat \<Rightarrow> route_entry \<Rightarrow> bool" where
  "survives n r \<longleftrightarrow> re_obs_count r = 0 \<or> int n < re_obs_count r"

lemma decay_fields [simp]:
  "rt_obs_initializer (fst (decay_obsolescence rt)) = rt_obs_initializer rt"
  "rt_crosslinks (fst (decay_obsolescence rt)) = rt_crosslinks rt"
  by (simp_all add: decay_obsolescence_def reconcile_neighbours_def Let_def)

lemma all_routes_filter_nonempty:
  "all_routes (filter (\<lambda>(k, b). b \<noteq> []) rs) = all_routes rs"
  by (induction rs) (auto simp: all_routes_def)

lemma all_routes_decay:
  assumes "rt_obs_initializer rt \<noteq> 0"
  shows "all_routes (rt_routes (fst (decay_obsolescence rt))) =
    map (aged 1) (filter (survives 1) (all_routes (rt_routes rt)))"
proof -
  have "all_routes (map (\<lambda>(k, b). (k, decay_bucket b)) rs) = map (aged 1) (filter (survives 1) (all_routes rs))" for rs
  proof (induction rs)
    case (Cons x rs)
    have "decay_bucket b = map (aged 1) (filter (survives 1) b)" for b
      by (simp add: decay_bucket_eq aged_def [abs_def] survives_def [abs_def])
    with Cons show ?case by (cases x) (simp add: all_routes_def)
  qed (simp add: all_routes_def)
  with assms show ?thesis
    by (simp add: decay_obsolescence_def reconcile_neighbours_def Let_def all_routes_filter_nonempty)
qed

lemma aged_survives:
  assumes "0 < m" shows "filter (survives 1) (map (aged m) (filter (survives m) rs)) =
      map (aged m) (filter (survives (Suc m)) rs)"
  using assms by (induction rs) (auto simp: aged_def survives_def)

lemma all_routes_decay_n:
  assumes "rt_obs_initializer rt \<noteq> 0" and "0 < n"
  shows "all_routes (rt_routes (((\<lambda>rt. fst (decay_obsolescence rt)) ^^ n) rt)) =
    map (aged n) (filter (survives n) (all_routes (rt_routes rt)))"
  using assms(2)
proof (induction n)
  case (Suc n)
  let ?d = "\<lambda>rt. fst (decay_obsolescence rt)"
  have init: "rt_obs_initializer ((?d ^^ m) rt) = rt_obs_initializer rt" for m
    by (induction m) simp_all
  show ?case
  proof (cases "n = 0")
    case True
    with assms(1) show ?thesis by (simp add: all_routes_decay)
  next
    case False
    let ?rs = "all_routes (rt_routes rt)"
    have "all_routes (rt_routes ((?d ^^ Suc n) rt)) =
        map (aged 1) (filter (survives 1) (all_routes (rt_routes ((?d ^^ n) rt))))"
      using assms(1) init [of n] by (simp add: all_routes_decay)
    also have "\<dots> = map (aged 1) (map (aged n) (filter (survives (Suc n)) ?rs))"
      using Suc.IH False aged_survives [of n ?rs] by simp
    also have "\<dots> = map (aged (Suc n)) (filter (survives (Suc n)) ?rs)"
      by (auto simp: survives_def aged_def)
    finally show ?thesis .
  qed
qed simp

lemma reconcile_neighbour_iff:
  assumes "distinct (map fst (rt_neighbours rt))"
  shows "map_of (rt_neighbours (reconcile_neighbours rt)) c =
    (case map_of (rt_neighbours rt) c of
       None \<Rightarrow> None
     | Some n \<Rightarrow> if use_count (rt_routes rt) c = 0 \<and> \<not> nb_locked n \<and> c \<notin> rt_crosslinks rt then None
         else Some (n\<lparr>nb_use_count := use_count (rt_routes rt) c\<rparr>))"
  using assms unfolding reconcile_neighbours_def
proof (induction "rt_neighbours rt" arbitrary: rt)
  case (Cons x ns)
  from Cons.hyps(2) [symmetric] Cons.prems Cons.hyps(1) [of "rt\<lparr>rt_neighbours := ns\<rparr>"] show ?case
    by (cases x) (auto simp: map_of_eq_None_iff image_iff split: option.splits)
qed auto

section \<open>Lemmas: the destination cap\<close>

lemma length_upsert:
  "length (rt_routes (upsert_route e rt)) =
     (if upper (re_dest_call e) \<in> fst ` set (rt_routes rt) then length (rt_routes rt)
      else Suc (length (rt_routes rt)))"
  by (simp add: upsert_route_def Let_def length_update)

lemma length_process_entry:
  "int (length (rt_routes (process_entry f p now e rt))) \<le>
     max (int (length (rt_routes rt))) (rt_max_destinations rt)"
  by (auto simp: process_entry_def Let_def length_upsert indirect_route_def map_of_eq_None_iff)

lemma length_process_entries:
  "int (length (rt_routes (fold (process_entry f p now) es rt))) \<le>
     max (int (length (rt_routes rt))) (rt_max_destinations rt)"
proof (induction es arbitrary: rt)
  case (Cons e es)
  show ?case using Cons [of "process_entry f p now e rt"] length_process_entry [of f p now e rt] by simp
qed simp

lemma length_process_nodes:
  "int (length (rt_routes (process_nodes now f rt))) \<le>
     max (int (length (rt_routes rt)) + 1) (rt_max_destinations rt)"
proof -
  obtain rt' nbr where g: "get_or_create_neighbour (nf_source_call f) now rt = (rt', nbr)" by fastforce
  then have r: "rt_routes rt' = rt_routes rt" "rt_max_destinations rt' = rt_max_destinations rt"
    by (auto simp: get_or_create_neighbour_def Let_def)
  let ?u = "upsert_route (source_route f (nb_path_quality nbr) now (rt_obs_initializer rt')) rt'"
  have "int (length (rt_routes ?u)) \<le> int (length (rt_routes rt)) + 1"
    by (simp add: length_upsert r)
  then show ?thesis
    using length_process_entries [of f "nb_path_quality nbr" now "nf_entries f" ?u] g r
    by (auto simp: process_nodes_def Let_def)
qed

section \<open>Lemmas: advertising\<close>

lemma those_Some_iff: "those xs = Some ys \<longleftrightarrow> xs = map Some ys"
proof (induction xs arbitrary: ys)
  case (Cons x xs)
  then show ?case by (cases ys) (auto split: option.splits)
qed auto

lemma list_all_sort_key: "list_all P (sort_key f xs) = list_all P xs"
  by (simp add: list_all_iff)

definition table_encodable :: "router \<Rightarrow> bool" where
  "table_encodable rt \<longleftrightarrow> (\<forall>r \<in> set (all_routes (rt_routes rt)).
     canonical (re_dest_call r) \<and> canonical (re_via_call r) \<and> alias_ok (re_alias r))"

lemma nodes_entries_ok:
  assumes "router_inv rt" and "table_encodable rt"
  shows "list_all entry_ok (nodes_entries rt)"
proof -
  have "entry_ok (advert_entry (hd b))" if "(k, b) \<in> set (rt_routes rt)" "b \<noteq> []" for k b
  proof -
    have "hd b \<in> set (all_routes (rt_routes rt))" using that by (force simp: all_routes_def)
    moreover have "quality_range (re_quality (hd b))"
      using assms(1) that by (auto simp: router_inv_def routes_ok_def bucket_ok_def)
    ultimately show ?thesis
      using assms(2) by (auto simp: table_encodable_def entry_ok_def advert_entry_def quality_range_def)
  qed
  then show ?thesis
    by (auto simp: nodes_entries_def list_all_sort_key list_all_iff)
qed

lemma length_enc_nodes:
  assumes "list_all entry_ok es" and "encode_nodes_broadcast a es = Some bs"
  shows "length bs = 7 + 21 * length es"
proof -
  have w: "0 < node_entry_len" by (simp add: netrom_lens)
  obtain body where "enc_all encode_node_entry es = Some body" "length body = node_entry_len * length es"
    using entry.list_round_trip [OF assms(1), of "[]"] w by auto
  with assms(2) show ?thesis by (auto simp: encode_nodes_broadcast_def netrom_lens)
qed

lemma payloads_round_trip:
  assumes "router_inv rt" and "table_encodable rt" and "alias_ok (rt_alias rt)"
    and "\<not> rt_advertise_self_only rt"
  shows "\<exists>ps fs. build_nodes_payloads rt = Some ps
    \<and> map (decode_nodes_broadcast src) ps = map (\<lambda>f. Some (Some f)) fs
    \<and> concat (map nf_entries fs) = nodes_entries rt
    \<and> (\<forall>f \<in> set fs. nf_source_call f = src \<and> nf_source_alias f = rt_alias rt \<and> nf_entries f \<noteq> [])
    \<and> (\<forall>p \<in> set ps. length p \<le> NODES_FRAME_BUDGET)"
proof -
  define fr where "fr = fragments NODES_MAX_ENTRIES_PER_FRAME (nodes_entries rt)"
  have n: "NODES_MAX_ENTRIES_PER_FRAME = 11"
    by (simp add: NODES_MAX_ENTRIES_PER_FRAME_def NODES_FRAME_BUDGET_def NODES_HEADER_LEN_def NODES_ENTRY_LEN_def)
  have c: "concat fr = nodes_entries rt" by (simp add: fr_def concat_fragments n)
  have ok: "list_all entry_ok es" if "es \<in> set fr" for es
    using nodes_entries_ok [OF assms(1,2)] that unfolding c [symmetric] by (auto simp: list_all_iff)
  have w: "length ([] :: bytes) < node_entry_len" by (simp add: netrom_lens)
  have enc: "\<exists>bs. encode_nodes_broadcast (rt_alias rt) es = Some bs \<and> decode_nodes_broadcast src bs =
      Some (Some \<lparr>nf_source_call = src, nf_source_alias = rt_alias rt, nf_entries = es\<rparr>)
      \<and> length bs \<le> NODES_FRAME_BUDGET" if "es \<in> set fr" for es
  proof -
    from nodes_round_trip [OF assms(3) ok [OF that] w, of src] obtain bs where
      bs: "encode_nodes_broadcast (rt_alias rt) es = Some bs" "decode_nodes_broadcast src bs =
      Some (Some \<lparr>nf_source_call = src, nf_source_alias = rt_alias rt, nf_entries = es\<rparr>)" by auto
    moreover have "length es \<le> 11" using fragments_length that n by (auto simp: fr_def)
    ultimately show ?thesis
      using length_enc_nodes [OF ok [OF that] bs(1)] by (simp add: NODES_FRAME_BUDGET_def)
  qed
  define ps where "ps = map (\<lambda>es. the (encode_nodes_broadcast (rt_alias rt) es)) fr"
  define fs where "fs = map (\<lambda>es. \<lparr>nf_source_call = src, nf_source_alias = rt_alias rt, nf_entries = es\<rparr>) fr"
  have "map (encode_nodes_broadcast (rt_alias rt)) fr = map Some ps"
    using enc by (fastforce simp: ps_def)
  then have "build_nodes_payloads rt = Some ps"
    using assms(4) by (simp add: build_nodes_payloads_def fr_def [symmetric] those_Some_iff)
  moreover have "map (decode_nodes_broadcast src) ps = map (\<lambda>f. Some (Some f)) fs"
    using enc by (fastforce simp: ps_def fs_def)
  moreover have "concat (map nf_entries fs) = nodes_entries rt"
    by (simp add: fs_def comp_def c)
  moreover have "\<forall>f \<in> set fs. nf_source_call f = src \<and> nf_source_alias f = rt_alias rt \<and> nf_entries f \<noteq> []"
    using fragments_length by (fastforce simp: fs_def fr_def)
  moreover have "\<forall>p \<in> set ps. length p \<le> NODES_FRAME_BUDGET"
    using enc by (fastforce simp: ps_def)
  ultimately show ?thesis by blast
qed

section \<open>Lemmas: a peer learns what is advertised\<close>

lemma process_entry_other:
  "k \<noteq> upper (ne_dest_call e) \<Longrightarrow> bucket_of (rt_routes (process_entry f p now e rt)) k = bucket_of (rt_routes rt) k"
  by (simp add: process_entry_def Let_def bucket_of_upsert indirect_route_def)

lemma process_entries_other:
  "k \<notin> (\<lambda>e. upper (ne_dest_call e)) ` set es \<Longrightarrow>
     bucket_of (rt_routes (fold (process_entry f p now) es rt)) k = bucket_of (rt_routes rt) k"
  by (induction es arbitrary: rt) (auto simp: process_entry_other)

lemma sort_bucket_single [simp]: "sort_bucket [r] = [r]"
  by (simp add: sort_bucket_def MAX_ROUTES_PER_DEST_def)

lemma process_entry_learns:
  assumes "bucket_of (rt_routes rt) (upper (ne_dest_call e)) = []"
    and "int (length (rt_routes rt)) < rt_max_destinations rt"
    and "upper (ne_neighbor_call e) \<noteq> rt_call rt"
    and "rt_worst_quality rt \<le> route_quality (ne_quality e) p"
  shows "bucket_of (rt_routes (process_entry f p now e rt)) (upper (ne_dest_call e)) =
    [indirect_route f e (route_quality (ne_quality e) p) now (rt_obs_initializer rt)]"
  using assms by (simp add: process_entry_def Let_def bucket_of_upsert indirect_route_def)

lemma process_entries_learn:
  assumes "distinct (map (\<lambda>e. upper (ne_dest_call e)) es)" and "e \<in> set es"
    and "bucket_of (rt_routes rt) (upper (ne_dest_call e)) = []"
    and "int (length (rt_routes rt) + length es) \<le> rt_max_destinations rt"
    and "upper (ne_neighbor_call e) \<noteq> rt_call rt"
    and "rt_worst_quality rt \<le> route_quality (ne_quality e) p"
  shows "bucket_of (rt_routes (fold (process_entry f p now) es rt)) (upper (ne_dest_call e)) =
    [indirect_route f e (route_quality (ne_quality e) p) now (rt_obs_initializer rt)]"
  using assms
proof (induction es arbitrary: rt)
  case (Cons x es)
  have len: "length (rt_routes (process_entry f p now x rt)) \<le> Suc (length (rt_routes rt))"
    by (simp add: process_entry_def Let_def length_upsert)
  show ?case
  proof (cases "e = x")
    case True
    have "upper (ne_dest_call e) \<notin> (\<lambda>e. upper (ne_dest_call e)) ` set es"
      using Cons.prems(1) True by auto
    with process_entry_learns [of rt x p f now] Cons.prems True show ?thesis
      by (simp add: process_entries_other)
  next
    case False
    with Cons.prems(1,2) have "e \<in> set es" "upper (ne_dest_call e) \<noteq> upper (ne_dest_call x)"
      by (auto simp: image_iff)
    with Cons.IH [of "process_entry f p now x rt"] Cons.prems len show ?thesis
      by (simp add: process_entry_other)
  qed
qed simp

lemma distinct_nodes_entries:
  assumes "router_inv rt"
  shows "distinct (map (\<lambda>e. upper (ne_dest_call e)) (nodes_entries rt))"
proof -
  define rs where "rs = filter (\<lambda>(k, b). b \<noteq> [] \<and> advertisable rt (hd b)) (rt_routes rt)"
  define es where "es = map (\<lambda>(k, b). advert_entry (hd b)) rs"
  have "upper (re_dest_call (hd b)) = k" if "(k, b) \<in> set rs" for k b
    using that assms by (auto simp: rs_def router_inv_def routes_ok_def bucket_ok_def)
  then have "map (\<lambda>e. upper (ne_dest_call e)) es = map fst rs"
    by (auto simp: es_def advert_entry_def)
  moreover have "distinct (map fst rs)"
    using assms by (auto simp: rs_def router_inv_def routes_ok_def intro!: distinct_keys_filter)
  ultimately have "distinct (map (\<lambda>e. upper (ne_dest_call e)) es)" by simp
  moreover have "mset (map (\<lambda>e. upper (ne_dest_call e)) (nodes_entries rt)) =
      mset (map (\<lambda>e. upper (ne_dest_call e)) es)"
    by (simp only: nodes_entries_def es_def rs_def mset_map mset_sort)
  ultimately show ?thesis using mset_eq_imp_distinct_iff by blast
qed

lemma process_nodes_fresh:
  assumes "rt_routes rt = []" and "rt_neighbours rt = []" and "rt_worst_quality rt \<noteq> 0"
    and "p = default_path_quality rt (upper (nf_source_call f))" and "p \<noteq> 0"
    and "distinct (map (\<lambda>e. upper (ne_dest_call e)) (nf_entries f))"
    and "upper (nf_source_call f) \<notin> (\<lambda>e. upper (ne_dest_call e)) ` set (nf_entries f)"
    and "int (length (nf_entries f)) < rt_max_destinations rt"
    and "rt' = process_nodes now f rt"
  shows "get_route rt' (nf_source_call f) = Some (source_route f p now (rt_obs_initializer rt))"
    and "e \<in> set (nf_entries f) \<Longrightarrow> upper (ne_neighbor_call e) \<noteq> rt_call rt \<Longrightarrow>
      rt_worst_quality rt \<le> route_quality (ne_quality e) p \<Longrightarrow>
      get_route rt' (ne_dest_call e) =
        Some (indirect_route f e (route_quality (ne_quality e) p) now (rt_obs_initializer rt))"
proof -
  obtain r0 nbr where g: "get_or_create_neighbour (nf_source_call f) now rt = (r0, nbr)" by fastforce
  then have r0: "rt_routes r0 = []" "rt_worst_quality r0 = rt_worst_quality rt" "rt_call r0 = rt_call rt"
      "rt_max_destinations r0 = rt_max_destinations rt" "rt_obs_initializer r0 = rt_obs_initializer rt"
      "nb_path_quality nbr = p"
    using assms(1,2,4) by (auto simp: get_or_create_neighbour_def Let_def)
  define u where "u = upsert_route (source_route f p now (rt_obs_initializer rt)) r0"
  have rt': "rt' = fold (process_entry f p now) (nf_entries f) u"
    using assms(3,5,9) g r0 by (simp add: process_nodes_def Let_def u_def)
  have u: "bucket_of (rt_routes u) k = (if k = upper (nf_source_call f)
      then [source_route f p now (rt_obs_initializer rt)] else [])" for k
    by (simp add: u_def bucket_of_upsert r0 source_route_def) (simp add: bucket_of_def r0)
  have ul: "length (rt_routes u) = 1" "rt_call u = rt_call rt" "rt_worst_quality u = rt_worst_quality rt"
      "rt_max_destinations u = rt_max_destinations rt" "rt_obs_initializer u = rt_obs_initializer rt"
    using length_upsert [of "source_route f p now (rt_obs_initializer rt)" r0] r0 by (simp_all add: u_def)
  show "get_route rt' (nf_source_call f) = Some (source_route f p now (rt_obs_initializer rt))"
    using process_entries_other [OF assms(7), of f p now u] u by (simp add: get_route_def rt')
  show "get_route rt' (ne_dest_call e) =
        Some (indirect_route f e (route_quality (ne_quality e) p) now (rt_obs_initializer rt))"
    if "e \<in> set (nf_entries f)" "upper (ne_neighbor_call e) \<noteq> rt_call rt"
      "rt_worst_quality rt \<le> route_quality (ne_quality e) p"
  proof -
    have "upper (ne_dest_call e) \<noteq> upper (nf_source_call f)"
      using assms(7) that(1) by (metis image_eqI)
    with process_entries_learn [OF assms(6) that(1), of u p f now] that(2,3) u ul assms(8)
    show ?thesis by (simp add: get_route_def rt')
  qed
qed

lemma peer_learns:
  assumes "router_inv a" and "table_encodable a" and "alias_ok (rt_alias a)"
    and "\<not> rt_advertise_self_only a" and "nodes_entries a \<noteq> []"
    and "\<forall>e \<in> set (nodes_entries a). is_routable_callsign (ne_dest_call e)"
    and "upper (rt_call a) \<notin> (\<lambda>e. upper (ne_dest_call e)) ` set (nodes_entries a)"
    and "rt_routes b = []" and "rt_neighbours b = []" and "rt_worst_quality b \<noteq> 0"
    and "int (length (nodes_entries a)) < rt_max_destinations b"
    and "p = default_path_quality b (upper (rt_call a))" and "p \<noteq> 0"
  shows "\<exists>payload b' obs. build_nodes_payload a = Some (Some payload)
    \<and> on_netrom_frame now (rt_call a) ''NODES'' payload b = Some (b', obs)
    \<and> (\<exists>r. get_route b' (rt_call a) = Some r \<and> is_direct r \<and> re_quality r = p)
    \<and> (\<forall>e \<in> set (nodes_entries a). upper (ne_neighbor_call e) \<noteq> rt_call b \<longrightarrow>
         rt_worst_quality b \<le> route_quality (ne_quality e) p \<longrightarrow>
         (\<exists>r. get_route b' (ne_dest_call e) = Some r \<and> re_via_call r = rt_call a
            \<and> re_quality r = route_quality (ne_quality e) p))"
proof -
  have w: "length ([] :: bytes) < node_entry_len" by (simp add: netrom_lens)
  define f where "f = \<lparr>nf_source_call = rt_call a, nf_source_alias = rt_alias a, nf_entries = nodes_entries a\<rparr>"
  from nodes_round_trip [OF assms(3) nodes_entries_ok [OF assms(1,2)] w, of "rt_call a"] obtain bs where
    bs: "encode_nodes_broadcast (rt_alias a) (nodes_entries a) = Some bs"
      "decode_nodes_broadcast (rt_call a) bs = Some (Some f)" by (auto simp: f_def)
  have s: "sanitize_entries f = f"
    using assms(6) by (auto simp: sanitize_entries_def f_def intro!: filter_True)
  define b' where "b' = process_nodes now f b"
  have "upper ''NODES'' = ''NODES''" by (simp add: up_def is_lower_def code_def)
  then have on: "on_netrom_frame now (rt_call a) ''NODES'' bs b = Some (b', Some f)"
    using bs(2) s by (simp add: on_netrom_frame_def b'_def)
  have b: "build_nodes_payload a = Some (Some bs)"
    using assms(4,5) bs(1) by (simp add: build_nodes_payload_def Let_def)
  note fresh = process_nodes_fresh [OF assms(8-10), of p f b' now, unfolded f_def nodes_frame.simps, folded f_def,
      OF assms(12,13) distinct_nodes_entries [OF assms(1)] assms(7,11) b'_def]
  from fresh(1) have direct: "\<exists>r. get_route b' (rt_call a) = Some r \<and> is_direct r \<and> re_quality r = p"
    by (simp add: source_route_def is_direct_def f_def)
  have learnt: "\<exists>r. get_route b' (ne_dest_call e) = Some r \<and> re_via_call r = rt_call a
            \<and> re_quality r = route_quality (ne_quality e) p"
    if "e \<in> set (nodes_entries a)" "upper (ne_neighbor_call e) \<noteq> rt_call b"
      "rt_worst_quality b \<le> route_quality (ne_quality e) p" for e
    using fresh(2) [OF that] by (simp add: indirect_route_def f_def)
  from b on direct learnt show ?thesis by blast
qed

section \<open>Lemmas: persistence\<close>

lemma best_by_key_keys:
  "distinct (map fst (best_by_key rs))"
  "(k, r) \<in> set (best_by_key rs) \<Longrightarrow> r \<in> set rs \<and> k = (upper (re_dest_call r), upper (re_neighbor_call r))"
proof -
  let ?key = "\<lambda>r. (upper (re_dest_call r), upper (re_neighbor_call r))"
  let ?f = "\<lambda>r best. (let k = ?key r in case map_of best k of None \<Rightarrow> AList.update k r best
      | Some r' \<Rightarrow> if re_quality r' < re_quality r then AList.update k r best else best)"
  have "distinct (map fst (fold ?f rs d)) \<and>
      (\<forall>(k, r) \<in> set (fold ?f rs d). r \<in> A \<union> set rs \<and> k = ?key r)"
    if "distinct (map fst d)" "\<forall>(k, r) \<in> set d. r \<in> A \<and> k = ?key r" for d A
    using that
  proof (induction rs arbitrary: d A)
    case (Cons r rs)
    have "distinct (map fst (?f r d))"
      using Cons.prems(1) by (auto simp: Let_def split: option.splits)
    moreover have "\<forall>(k, r') \<in> set (?f r d). r' \<in> insert r A \<and> k = ?key r'"
      using Cons.prems(2) by (auto simp: Let_def split: option.splits dest!: set_update_dict)
    ultimately have "distinct (map fst (fold ?f rs (?f r d))) \<and>
      (\<forall>(k, r') \<in> set (fold ?f rs (?f r d)). r' \<in> insert r A \<union> set rs \<and> k = ?key r')"
      by (rule Cons.IH)
    then show ?case by auto
  qed auto
  from this [of "[]" "{}"] show "distinct (map fst (best_by_key rs))"
    "(k, r) \<in> set (best_by_key rs) \<Longrightarrow> r \<in> set rs \<and> k = ?key r"
    unfolding best_by_key_def by auto
qed

lemma best_by_key_all:
  assumes "distinct (map (\<lambda>r. (upper (re_dest_call r), upper (re_neighbor_call r))) rs)"
  shows "map snd (best_by_key rs) = rs"
proof -
  let ?key = "\<lambda>r. (upper (re_dest_call r), upper (re_neighbor_call r))"
  let ?f = "\<lambda>r best. (let k = ?key r in case map_of best k of None \<Rightarrow> AList.update k r best
      | Some r' \<Rightarrow> if re_quality r' < re_quality r then AList.update k r best else best)"
  have new: "AList.update k v d = d @ [(k, v)]" if "map_of d k = None" for k v and d :: "(_, route_entry) dict"
    using that by (induction d) (auto split: if_splits)
  have "fold ?f rs (map (\<lambda>r. (?key r, r)) qs) = map (\<lambda>r. (?key r, r)) (qs @ rs)"
    if "distinct (map ?key (qs @ rs))" for qs
    using that
  proof (induction rs arbitrary: qs)
    case (Cons r rs)
    have "map_of (map (\<lambda>r. (?key r, r)) qs) (?key r) = None"
      using Cons.prems by (auto simp: map_of_eq_None_iff)
    then have "?f r (map (\<lambda>r. (?key r, r)) qs) = map (\<lambda>r. (?key r, r)) (qs @ [r])"
      by (simp add: new)
    with Cons.IH [of "qs @ [r]"] Cons.prems show ?case by simp
  qed simp
  from this [of "[]"] assms show ?thesis by (simp add: best_by_key_def comp_def)
qed

lemma persisted_keys_distinct:
  "distinct (map (\<lambda>row. (rr_dest row, rr_neighbor row)) (fst (persist_rows rt)))"
proof -
  let ?b = "best_by_key (all_routes (rt_routes rt))"
  have "map (\<lambda>row. (rr_dest row, rr_neighbor row)) (fst (persist_rows rt)) = map fst ?b"
    using best_by_key_keys(2) by (auto simp: persist_rows_def)
  then show ?thesis using best_by_key_keys(1) by simp
qed

text \<open>Seeding from rows in quality order builds the buckets the rows describe.\<close>

definition rows_for :: "callsign \<Rightarrow> route_row list \<Rightarrow> route_row list" where
  "rows_for k rows = filter (\<lambda>row. upper (rr_dest row) = k) rows"

definition seedable :: "route_row list \<Rightarrow> bool" where
  "seedable rows \<longleftrightarrow> sorted (map (\<lambda>row. - rr_quality row) rows)
     \<and> (\<forall>row \<in> set rows. is_routable_callsign (rr_dest row))
     \<and> (\<forall>k. distinct (map (\<lambda>row. upper (rr_via row)) (rows_for k rows))
          \<and> length (rows_for k rows) \<le> MAX_ROUTES_PER_DEST)"

lemma seed_routes_bucket:
  assumes "seedable rows" and "rt_routes rt = []"
  shows "bucket_of (rt_routes (fst (fold seed_route rows (rt, n)))) k = map row_entry (rows_for k rows)
    \<and> snd (fold seed_route rows (rt, n)) = n + int (length rows)"
  using assms(1)
proof (induction rows arbitrary: k rule: rev_induct)
  case Nil
  then show ?case using assms(2) by (simp add: bucket_of_def rows_for_def)
next
  case (snoc row rows)
  have s: "seedable rows"
    unfolding seedable_def
  proof (intro conjI allI)
    show "sorted (map (\<lambda>row. - rr_quality row) rows)"
      using snoc.prems by (simp add: seedable_def sorted_append)
    show "\<forall>row \<in> set rows. is_routable_callsign (rr_dest row)"
      using snoc.prems by (simp add: seedable_def)
    fix k
    have "distinct (map (\<lambda>row. upper (rr_via row)) (rows_for k (rows @ [row])))"
      "length (rows_for k (rows @ [row])) \<le> MAX_ROUTES_PER_DEST"
      using snoc.prems unfolding seedable_def by blast+
    then show "distinct (map (\<lambda>row. upper (rr_via row)) (rows_for k rows))"
      "length (rows_for k rows) \<le> MAX_ROUTES_PER_DEST"
      by (auto simp: rows_for_def split: if_splits)
  qed
  obtain r1 m where r1: "fold seed_route rows (rt, n) = (r1, m)" by fastforce
  from snoc.IH [OF s] r1 have ih: "\<And>k. bucket_of (rt_routes r1) k = map row_entry (rows_for k rows)"
    and m: "m = n + int (length rows)" by simp_all
  define key where "key = upper (rr_dest row)"
  have here: "rows_for key (rows @ [row]) = rows_for key rows @ [row]" by (simp add: rows_for_def key_def)
  have here_ok: "distinct (map (\<lambda>row. upper (rr_via row)) (rows_for key rows @ [row]))"
    "length (rows_for key rows @ [row]) \<le> MAX_ROUTES_PER_DEST"
    using snoc.prems unfolding seedable_def here [symmetric] by blast+
  have no: "\<not> list_ex (\<lambda>r. upper (re_via_call r) = upper (rr_via row)) (map row_entry (rows_for key rows))"
    using here_ok(1) by (auto simp: list_ex_iff row_entry_def) (metis image_eqI)
  have srt: "sorted (map (\<lambda>r. - re_quality r) (map row_entry (rows_for key rows @ [row])))"
  proof -
    have "sorted (map (\<lambda>row. - rr_quality row) (rows_for key (rows @ [row])))"
      using snoc.prems unfolding seedable_def rows_for_def by (blast intro: sorted_filter)
    then show ?thesis by (simp only: here map_map comp_def row_entry_def route_entry.simps)
  qed
  then have sb: "sort_bucket (map row_entry (rows_for key rows @ [row])) = map row_entry (rows_for key rows @ [row])"
    using here_ok(2) by (simp add: sort_bucket_def sorted_sort_id sort_key_id_if_sorted)
  have rc: "is_routable_callsign (rr_dest row)" using snoc.prems by (simp add: seedable_def)
  have e: "upper (re_dest_call (row_entry row)) = key" "upper (re_via_call (row_entry row)) = upper (rr_via row)"
    by (simp_all add: row_entry_def key_def)
  have step: "fold seed_route (rows @ [row]) (rt, n) =
      (r1\<lparr>rt_routes := AList.update key (map row_entry (rows_for key rows @ [row])) (rt_routes r1)\<rparr>, m + 1)"
    using r1 no rc sb ih [of key] by (simp add: seed_route_def Let_def e)
  show ?case
    unfolding step using ih m by (auto simp: bucket_of_def rows_for_def key_def split: option.splits)
qed

definition row_of :: "route_entry \<Rightarrow> route_row" where
  "row_of r = \<lparr>rr_dest = upper (re_dest_call r), rr_neighbor = upper (re_neighbor_call r),
     rr_alias = re_alias r, rr_quality = re_quality r, rr_via = upper (re_via_call r),
     rr_via_alias = re_via_alias r, rr_last_seen = trunc (re_last_seen r), rr_obs_count = re_obs_count r\<rparr>"

text \<open>A table whose calls are upper case and routable, with whole-second times and no two routes
  sharing destination and advertised neighbour (the key of the database table).\<close>

definition persistable :: "router \<Rightarrow> bool" where
  "persistable rt \<longleftrightarrow>
     distinct (map (\<lambda>r. (upper (re_dest_call r), upper (re_neighbor_call r))) (all_routes (rt_routes rt)))
     \<and> (\<forall>r \<in> set (all_routes (rt_routes rt)). row_entry (row_of r) = r
          \<and> is_routable_callsign (re_dest_call r))"

lemma filter_all_routes:
  assumes "routes_ok rs"
  shows "filter (\<lambda>r. upper (re_dest_call r) = k) (all_routes rs) = bucket_of rs k"
  using assms
proof (induction rs)
  case (Cons x rs)
  obtain k' b where x: "x = (k', b)" by fastforce
  have ok: "routes_ok rs" using Cons.prems by (simp add: routes_ok_def)
  have b: "filter (\<lambda>r. upper (re_dest_call r) = k) b = (if k = k' then b else [])"
    using Cons.prems x by (auto simp: routes_ok_def bucket_ok_def intro: filter_True filter_False)
  have n: "bucket_of rs k = []" if "k = k'"
    using Cons.prems x that by (auto simp: routes_ok_def bucket_of_def split: option.splits dest!: map_of_SomeD)
      (metis fst_conv image_eqI)
  show ?case using Cons.IH [OF ok] b n x by (auto simp: all_routes_def bucket_of_def)
qed (simp add: all_routes_def bucket_of_def)

lemma seed_neighbours_routes [simp]: "rt_routes (fold seed_neighbour ns rt) = rt_routes rt"
proof (induction ns arbitrary: rt)
  case (Cons n ns)
  then show ?case by (simp add: seed_neighbour_def Let_def)
qed simp

lemma persist_seed:
  assumes "router_inv rt" and "persistable rt" and "rt_routes b = []"
    and "mset rows = mset (fst (persist_rows rt))" and "sorted (map (\<lambda>row. - rr_quality row) rows)"
  shows "set (bucket_of (rt_routes (fst (seed_from_db nbrs rows b))) k) = set (bucket_of (rt_routes rt) k)"
    and "snd (seed_from_db nbrs rows b) = int (length (all_routes (rt_routes rt)))"
proof -
  let ?rs = "all_routes (rt_routes rt)"
  have "map snd (best_by_key ?rs) = ?rs" using assms(2) by (intro best_by_key_all) (simp add: persistable_def)
  moreover have "fst (persist_rows rt) = map row_of (map snd (best_by_key ?rs))"
    by (simp add: persist_rows_def row_of_def case_prod_beta)
  ultimately have rows: "mset rows = mset (map row_of ?rs)" using assms(4) by simp
  have up: "upper (re_dest_call r) = re_dest_call r" "upper (re_via_call r) = re_via_call r"
    if "r \<in> set ?rs" for r
  proof -
    from that assms(2) have "row_entry (row_of r) = r" by (simp add: persistable_def)
    from arg_cong [OF this, of re_dest_call] arg_cong [OF this, of re_via_call]
    show "upper (re_dest_call r) = re_dest_call r" "upper (re_via_call r) = re_via_call r"
      by (simp_all add: row_entry_def row_of_def)
  qed
  have rf: "mset (rows_for k rows) = mset (map row_of (bucket_of (rt_routes rt) k))" for k
  proof -
    have "mset (rows_for k rows) = mset (filter (\<lambda>row. upper (rr_dest row) = k) (map row_of ?rs))"
      using rows by (simp only: rows_for_def mset_filter)
    also have "filter (\<lambda>row. upper (rr_dest row) = k) (map row_of ?rs) =
        map row_of (filter (\<lambda>r. upper (re_dest_call r) = k) ?rs)"
      by (simp add: filter_map comp_def row_of_def)
    also have "filter (\<lambda>r. upper (re_dest_call r) = k) ?rs = bucket_of (rt_routes rt) k"
      using assms(1) by (intro filter_all_routes) (simp add: router_inv_def)
    finally show ?thesis .
  qed
  have ok: "routes_ok (rt_routes rt)" using assms(1) by (simp add: router_inv_def)
  have seedable: "seedable rows"
    unfolding seedable_def
  proof (intro conjI allI ballI)
    show "sorted (map (\<lambda>row. - rr_quality row) rows)" by (rule assms(5))
    fix row assume "row \<in> set rows"
    then have "row \<in> set (map row_of ?rs)" using rows by (metis set_mset_mset)
    then obtain r where "r \<in> set ?rs" "row = row_of r" by auto
    with assms(2) up show "is_routable_callsign (rr_dest row)" by (simp add: persistable_def row_of_def)
  next
    fix k
    have "mset (map (\<lambda>row. upper (rr_via row)) (rows_for k rows)) =
        mset (map (\<lambda>r. upper (re_via_call r)) (bucket_of (rt_routes rt) k))"
      using arg_cong [OF rf [of k], of "image_mset (\<lambda>row. upper (rr_via row))"]
      by (simp add: image_mset.compositionality comp_def row_of_def)
    then show "distinct (map (\<lambda>row. upper (rr_via row)) (rows_for k rows))"
      using bucket_of_facts(1) [OF ok, of k] mset_eq_imp_distinct_iff by blast
    have "length (rows_for k rows) = length (bucket_of (rt_routes rt) k)"
      using mset_eq_length [OF rf [of k]] by simp
    then show "length (rows_for k rows) \<le> MAX_ROUTES_PER_DEST"
      using bucket_of_ok [OF ok, of k] by (cases "bucket_of (rt_routes rt) k = []") (auto simp: bucket_ok_def)
  qed
  note seed = seed_routes_bucket [OF seedable, of "fold seed_neighbour nbrs b" 0, simplified, OF assms(3)]
  have "length rows = length ?rs" using mset_eq_length [OF rows] by simp
  with seed show "snd (seed_from_db nbrs rows b) = int (length ?rs)" by (simp add: seed_from_db_def)
  have "set (rows_for k rows) = row_of ` set (bucket_of (rt_routes rt) k)"
    using rf [of k] by (metis set_map set_mset_mset)
  moreover have "row_entry (row_of r) = r" if "r \<in> set (bucket_of (rt_routes rt) k)" for r
    using that assms(2) in_all_routes_bucket [of "rt_routes rt" r] ok by (auto simp: persistable_def routes_ok_def)
  ultimately show "set (bucket_of (rt_routes (fst (seed_from_db nbrs rows b))) k) = set (bucket_of (rt_routes rt) k)"
    using seed by (simp add: seed_from_db_def image_image)
qed

end
