(* ===== verification/Router_Properties.thy ===== *)
theory Router_Properties
  imports Router
begin

text \<open>
  The properties of the NET/ROM router: the shape of its table on every run, where its routes come
  from, what the queries answer, how routes age, and what another node and a restart make of what
  it advertises and saves.
\<close>

abbreviation sample_route :: route_entry where
  "sample_route \<equiv> \<lparr>re_dest_call = ''W1AW-1'', re_alias = ''NWTN'', re_neighbor_call = ''K1AB'',
     re_quality = 150, re_via_call = ''N0CALL-7'', re_via_alias = ''NOD'', re_last_seen = 100,
     re_obs_count = 6\<rparr>"

abbreviation sample_direct :: route_entry where
  "sample_direct \<equiv> \<lparr>re_dest_call = ''N0CALL-7'', re_alias = ''NOD'', re_neighbor_call = ''N0CALL-7'',
     re_quality = 192, re_via_call = ''N0CALL-7'', re_via_alias = ''NOD'', re_last_seen = 100,
     re_obs_count = 6\<rparr>"

abbreviation sample_neighbour :: neighbour_entry where
  "sample_neighbour \<equiv> \<lparr>nb_call = ''N0CALL-7'', nb_port = [], nb_path_quality = 192, nb_use_count = 2,
     nb_locked = False, nb_crosslink = False, nb_last_heard = 100\<rparr>"

abbreviation empty_router :: router where
  "empty_router \<equiv> \<lparr>rt_call = ''KK6XYZ-1'', rt_alias = ''BBSND'', rt_routes = [], rt_neighbours = [],
     rt_channel_quality = 192, rt_neighbour_quality = [], rt_worst_quality = 1,
     rt_max_destinations = 200, rt_obs_initializer = 6, rt_obs_min_to_broadcast = 5,
     rt_heard_direct = [], rt_crosslinks = {}, rt_direct_heard_ttl = 3600,
     rt_route_ttl_seconds = 10800, rt_advertise_self_only = False\<rparr>"

abbreviation sample_router :: router where
  "sample_router \<equiv> empty_router\<lparr>rt_routes := [(''N0CALL-7'', [sample_direct]), (''W1AW-1'', [sample_route])],
     rt_neighbours := [(''N0CALL-7'', sample_neighbour)]\<rparr>"

lemma sample_router_inv: "router_inv sample_router" "router_inv empty_router"
  by (simp_all add: router_inv_def routes_ok_def bucket_ok_def neighbours_ok_def quality_range_def
      MAX_ROUTES_PER_DEST_def) code_simp+

section \<open>The table\<close>

text \<open>
  C4. On every run from construction (broadcasts of any bytes, stations heard, crosslinks opening
  and closing, decay and pruning scans) each destination keeps one to three routes, best quality
  first, no two through the same neighbour, all keyed by their own destination with a quality of 0
  to 255; neighbours are keyed by their upper-case call.
\<close>

theorem router_table_well_formed:
  "router_inv (run router_step (router_init call al ttl self dttl cq nq wq md oi ob) es)"
  by (rule router_ts.inv_run [OF router_inv_init])


abbreviation sample_nodes :: nodes_frame where
  "sample_nodes \<equiv> \<lparr>nf_source_call = ''N0CALL-7'', nf_source_alias = ''NOD'',
     nf_entries = [\<lparr>ne_dest_call = ''W1AW-1'', ne_alias = ''NWTN'', ne_neighbor_call = ''K1AB'', ne_quality = 200\<rparr>,
       \<lparr>ne_dest_call = ''K9ZZ'', ne_alias = [], ne_neighbor_call = ''KK6XYZ-1'', ne_quality = 255\<rparr>]\<rparr>"


text \<open>
  The combined quality of two qualities is a quality, and no better than either: a path only
  gets worse with every hop.
\<close>

theorem route_quality_degrades:
  assumes "quality_range a" and "quality_range p"
  shows "quality_range (route_quality a p) \<and> route_quality a p \<le> min a p"
  using route_quality_bounds [of a p] assms by (auto simp: quality_range_def)

lemma route_quality_degrades_witness:
  "quality_range (route_quality 255 192) \<and> route_quality 255 192 \<le> min 255 192"
  by (rule route_quality_degrades) (simp_all add: quality_range_def)

text \<open>
  A broadcast never grows the table past its limit by more than the one direct route to its
  sender: indirect destinations are admitted only below the configured maximum.
\<close>

theorem destinations_bounded:
  "int (length (rt_routes (process_nodes now f rt))) \<le>
     max (int (length (rt_routes rt)) + 1) (rt_max_destinations rt)"
  by (rule length_process_nodes)

section \<open>Queries\<close>

text \<open>
  \<open>get_route\<close> answers with a best route: it is one of the alternates \<open>get_routes\<close> lists for the
  same name, and none of those has a better quality.
\<close>

theorem get_route_is_best:
  assumes "router_inv rt" and "get_route rt d = Some r"
  shows "r \<in> set (get_routes rt d) \<and> (\<forall>s \<in> set (get_routes rt d). re_quality s \<le> re_quality r)"
  using get_route_best [OF assms] by blast

lemma get_route_is_best_witness:
  "sample_route \<in> set (get_routes sample_router ''nwtn'')
    \<and> list_all (\<lambda>s. re_quality s \<le> re_quality sample_route) (get_routes sample_router ''nwtn'')"
proof -
  have "get_route sample_router ''nwtn'' = Some sample_route" by code_simp
  from get_route_is_best [OF sample_router_inv(1) this] show ?thesis by (auto simp: list_all_iff)
qed

text \<open>
  The next hop chosen for a connect is a station we hear, when there is one: either the hop is
  itself a direct neighbour, or it is the via of a usable route (quality at least the minimum) and
  no usable route goes through a direct neighbour.
\<close>

theorem next_hop_sound:
  assumes "best_neighbor_for now rt dest mq = Some hop"
  shows "is_direct_neighbor now rt hop
    \<or> (\<exists>r \<in> set (get_routes rt dest). upper (re_via_call r) = hop \<and> mq \<le> re_quality r
        \<and> (\<forall>s \<in> set (get_routes rt dest). mq \<le> re_quality s \<longrightarrow> \<not> is_direct_neighbor now rt (re_via_call s)))"
  by (rule best_neighbor_sound [OF assms])

lemma next_hop_sound_witness:
  "is_direct_neighbor 10000 sample_router ''N0CALL-7''
    \<or> (\<exists>r \<in> set (get_routes sample_router ''W1AW-1''). upper (re_via_call r) = ''N0CALL-7'' \<and> 1 \<le> re_quality r
        \<and> (\<forall>s \<in> set (get_routes sample_router ''W1AW-1''). 1 \<le> re_quality s
             \<longrightarrow> \<not> is_direct_neighbor 10000 sample_router (re_via_call s)))"
  by (rule next_hop_sound) code_simp

section \<open>Ageing\<close>

text \<open>
  After \<open>n\<close> decay scans exactly the locked routes and those whose count exceeds \<open>n\<close> are left, in
  their order, each unlocked one with its count lowered by \<open>n\<close>: a route not refreshed for its
  initial count of scans is gone.
\<close>

theorem decay_scans:
  assumes "rt_obs_initializer rt \<noteq> 0" and "0 < n"
  shows "all_routes (rt_routes (((\<lambda>rt. fst (decay_obsolescence rt)) ^^ n) rt)) =
    map (aged n) (filter (survives n) (all_routes (rt_routes rt)))"
  by (rule all_routes_decay_n [OF assms])

lemma decay_scans_witness:
  "all_routes (rt_routes (((\<lambda>rt. fst (decay_obsolescence rt)) ^^ 6) sample_router)) = []"
  using decay_scans [of sample_router 6] by (simp add: all_routes_def survives_def)

section \<open>Advertising and persistence\<close>

text \<open>
  The broadcasts of a table of canonical calls fit their 256-byte budget, decode without loss,
  and together carry every advertisable route once, in destination order.
\<close>

theorem advertisements_decode_back:
  assumes "router_inv rt" and "table_encodable rt" and "alias_ok (rt_alias rt)"
    and "\<not> rt_advertise_self_only rt"
  shows "\<exists>ps fs. build_nodes_payloads rt = Some ps
    \<and> map (decode_nodes_broadcast src) ps = map (\<lambda>f. Some (Some f)) fs
    \<and> concat (map nf_entries fs) = nodes_entries rt
    \<and> (\<forall>f \<in> set fs. nf_source_call f = src \<and> nf_source_alias f = rt_alias rt \<and> nf_entries f \<noteq> [])
    \<and> (\<forall>p \<in> set ps. length p \<le> NODES_FRAME_BUDGET)"
  by (rule payloads_round_trip [OF assms])

lemma sample_table_encodable: "table_encodable sample_router"
proof -
  have "canonical ''W1AW-1'' \<and> canonical ''N0CALL-7'' \<and> alias_ok ''NWTN'' \<and> alias_ok ''NOD''" by code_simp
  then show ?thesis by (simp add: table_encodable_def all_routes_def)
qed

lemma advertisements_decode_back_witness:
  "\<exists>ps fs. build_nodes_payloads sample_router = Some ps
    \<and> map (decode_nodes_broadcast ''KK6XYZ-1'') ps = map (\<lambda>f. Some (Some f)) fs
    \<and> concat (map nf_entries fs) = nodes_entries sample_router
    \<and> (\<forall>f \<in> set fs. nf_source_call f = ''KK6XYZ-1'' \<and> nf_source_alias f = rt_alias sample_router
         \<and> nf_entries f \<noteq> [])
    \<and> (\<forall>p \<in> set ps. length p \<le> NODES_FRAME_BUDGET)"
proof (rule advertisements_decode_back [OF sample_router_inv(1) sample_table_encodable])
  show "alias_ok (rt_alias sample_router)" by code_simp
qed simp

text \<open>
  C19. A freshly started node that hears our broadcast routes to us directly and to everything we
  advertise through us, except the entries that would come back through it or fall below its worst
  quality.
\<close>

theorem fresh_peer_learns_our_table:
  assumes "router_inv a" and "table_encodable a" and "alias_ok (rt_alias a)"
    and "\<not> rt_advertise_self_only a" and "nodes_entries a \<noteq> []"
    and "\<forall>e \<in> set (nodes_entries a). is_routable_callsign (ne_dest_call e)"
    and "upper (rt_call a) \<notin> (\<lambda>e. upper (ne_dest_call e)) ` set (nodes_entries a)"
    and "rt_routes b = []" and "rt_neighbours b = []" and "rt_worst_quality b \<noteq> 0"
    and "int (length (nodes_entries a)) < rt_max_destinations b"
    and "p = default_path_quality b (upper (rt_call a))" and "p \<noteq> 0"
  shows "\<exists>payload b' obs. build_nodes_payload a = Some (Some payload)
    \<and> on_netrom_frame now (rt_call a) ''NODES'' payload b = Some (b', obs)
    \<and> (\<exists>r. get_route b' (rt_call a) = Some r \<and> is_direct r \<and> re_quality r = p)
    \<and> (\<forall>e \<in> set (nodes_entries a). upper (ne_neighbor_call e) \<noteq> rt_call b \<longrightarrow>
         rt_worst_quality b \<le> route_quality (ne_quality e) p \<longrightarrow>
         (\<exists>r. get_route b' (ne_dest_call e) = Some r \<and> re_via_call r = rt_call a
            \<and> re_quality r = route_quality (ne_quality e) p))"
  by (rule peer_learns [OF assms])

lemma fresh_peer_learns_our_table_witness:
  "\<exists>payload b' obs. build_nodes_payload sample_router = Some (Some payload)
    \<and> on_netrom_frame 50 (rt_call sample_router) ''NODES'' payload (empty_router\<lparr>rt_call := ''K5AA''\<rparr>) = Some (b', obs)
    \<and> (\<exists>r. get_route b' (rt_call sample_router) = Some r \<and> is_direct r \<and> re_quality r = 192)
    \<and> (\<forall>e \<in> set (nodes_entries sample_router). upper (ne_neighbor_call e) \<noteq> rt_call (empty_router\<lparr>rt_call := ''K5AA''\<rparr>) \<longrightarrow>
         rt_worst_quality (empty_router\<lparr>rt_call := ''K5AA''\<rparr>) \<le> route_quality (ne_quality e) 192 \<longrightarrow>
         (\<exists>r. get_route b' (ne_dest_call e) = Some r \<and> re_via_call r = rt_call sample_router
            \<and> re_quality r = route_quality (ne_quality e) 192))"
proof (rule fresh_peer_learns_our_table [OF sample_router_inv(1) sample_table_encodable])
  show "alias_ok (rt_alias sample_router)" by code_simp
  show "nodes_entries sample_router \<noteq> []" by code_simp
  show "\<forall>e \<in> set (nodes_entries sample_router). is_routable_callsign (ne_dest_call e)" by code_simp
  show "upper (rt_call sample_router) \<notin> (\<lambda>e. upper (ne_dest_call e)) ` set (nodes_entries sample_router)"
    by code_simp
  show "int (length (nodes_entries sample_router)) < rt_max_destinations (empty_router\<lparr>rt_call := ''K5AA''\<rparr>)"
    by code_simp
  show "192 = default_path_quality (empty_router\<lparr>rt_call := ''K5AA''\<rparr>) (upper (rt_call sample_router))"
    by (simp add: default_path_quality_def)
qed simp_all



text \<open>No row is saved twice under the table's primary key, whatever the routes.\<close>

lemma saved_rows_keyed:
  "distinct (map (\<lambda>row. (rr_dest row, rr_neighbor row)) (fst (persist_rows rt)))"
  by (rule persisted_keys_distinct)

end
