(* ===== verification/Otp.thy ===== *)
theory Otp
  imports Prelude
begin

text \<open>
  The one-time passwords of \<open>bbs/core/auth.py\<close> (RFC 4226, RFC 6238). \<open>hmac\<close> and
  \<open>hashlib.sha1\<close> of the standard library are written out (FIPS 180, RFC 2104) on 32-bit words,
  so that a code can be evaluated; \<open>None\<close> is the \<open>struct.error\<close> of packing a counter that does
  not fit 64 bits.
\<close>

section \<open>SHA-1 and HMAC\<close>

type_synonym word32 = "32 word"

text \<open>Big-endian words: \<open>struct\<close>'s \<open>>I\<close> and \<open>>Q\<close>.\<close>

definition be32 :: "bytes \<Rightarrow> word32" where
  "be32 bs = fold (\<lambda>b w. push_bit 8 w OR ucast b) bs 0"

definition be32_bytes :: "word32 \<Rightarrow> bytes" where
  "be32_bytes w = [ucast (drop_bit 24 w), ucast (drop_bit 16 w), ucast (drop_bit 8 w), ucast w]"

definition be64_bytes :: "64 word \<Rightarrow> bytes" where
  "be64_bytes w = be32_bytes (ucast (drop_bit 32 w)) @ be32_bytes (ucast w)"

definition rol :: "nat \<Rightarrow> word32 \<Rightarrow> word32" where
  "rol n w = push_bit n w OR drop_bit (32 - n) w"

definition sha1_pad :: "bytes \<Rightarrow> bytes" where
  "sha1_pad m = m @ [0x80] @ replicate ((119 - length m mod 64) mod 64) 0 @ be64_bytes (8 * word_of_nat (length m))"

fun blocks_of :: "nat \<Rightarrow> nat \<Rightarrow> 'a list \<Rightarrow> 'a list list" where
  "blocks_of 0 n xs = []"
| "blocks_of (Suc k) n xs = take n xs # blocks_of k n (drop n xs)"

text \<open>The message schedule, newest word first.\<close>

fun sha1_schedule :: "nat \<Rightarrow> word32 list \<Rightarrow> word32 list" where
  "sha1_schedule 0 ws = ws"
| "sha1_schedule (Suc n) ws =
     sha1_schedule n (rol 1 (ws ! 2 XOR ws ! 7 XOR ws ! 13 XOR ws ! 15) # ws)"

type_synonym sha1_state = "word32 \<times> word32 \<times> word32 \<times> word32 \<times> word32"

definition sha1_fk :: "nat \<Rightarrow> word32 \<Rightarrow> word32 \<Rightarrow> word32 \<Rightarrow> word32 \<times> word32" where
  "sha1_fk t b c d =
     (if t < 20 then ((b AND c) OR (NOT b AND d), 0x5A827999)
      else if t < 40 then (b XOR c XOR d, 0x6ED9EBA1)
      else if t < 60 then ((b AND c) OR (b AND d) OR (c AND d), 0x8F1BBCDC)
      else (b XOR c XOR d, 0xCA62C1D6))"

fun sha1_rounds :: "nat \<Rightarrow> word32 list \<Rightarrow> sha1_state \<Rightarrow> sha1_state" where
  "sha1_rounds t [] s = s"
| "sha1_rounds t (w # ws) (a, b, c, d, e) =
     (let (f, k) = sha1_fk t b c d in
      sha1_rounds (Suc t) ws (rol 5 a + f + e + k + w, a, rol 30 b, c, d))"

definition sha1_block :: "bytes \<Rightarrow> sha1_state \<Rightarrow> sha1_state" where
  "sha1_block blk s =
     (let ws = rev (sha1_schedule 64 (rev (map be32 (blocks_of 16 4 blk))));
          (a, b, c, d, e) = s; (a', b', c', d', e') = sha1_rounds 0 ws s in
      (a + a', b + b', c + c', d + d', e + e'))"

definition sha1 :: "bytes \<Rightarrow> bytes" where
  "sha1 m =
     (let p = sha1_pad m;
          (a, b, c, d, e) = fold sha1_block (blocks_of (length p div 64) 64 p)
            (0x67452301, 0xEFCDAB89, 0x98BADCFE, 0x10325476, 0xC3D2E1F0) in
      concat (map be32_bytes [a, b, c, d, e]))"

definition hmac_sha1 :: "bytes \<Rightarrow> bytes \<Rightarrow> bytes" where
  "hmac_sha1 key msg =
     (let k0 = (if 64 < length key then sha1 key else key);
          k = k0 @ replicate (64 - length k0) 0 in
      sha1 (map (\<lambda>b. b XOR 0x5C) k @ sha1 (map (\<lambda>b. b XOR 0x36) k @ msg)))"

section \<open>HOTP and TOTP\<close>

definition zfill :: "nat \<Rightarrow> string \<Rightarrow> string" where
  "zfill n s = replicate (n - length s) CHR 0x30 @ s"

definition hotp_code :: "bytes \<Rightarrow> int \<Rightarrow> nat \<Rightarrow> string option" where
  "hotp_code secret counter digits =
     (if counter < 0 \<or> 2 ^ 64 \<le> counter then None
      else
        (let msg = be64_bytes (word_of_int counter);
             h = hmac_sha1 secret msg;
             offset = unat (last h AND 0x0F);
             n = uint (be32 (take 4 (drop offset h)) AND 0x7FFFFFFF) in
         Some (zfill digits (nat_str (nat (n mod 10 ^ digits))))))"

definition compute_totp_code :: "timestamp \<Rightarrow> bytes \<Rightarrow> int \<Rightarrow> nat \<Rightarrow> string option" where
  "compute_totp_code now secret time_step digits = hotp_code secret (trunc now div time_step) digits"

definition totp_window :: "timestamp \<Rightarrow> bytes \<Rightarrow> int \<Rightarrow> int \<Rightarrow> nat \<Rightarrow> string list option" where
  "totp_window now secret time_step skew digits =
     (let t = trunc now div time_step in
      those (map (\<lambda>i. hotp_code secret (t + i) digits) [- skew .. skew]))"

text \<open>The look-ahead loop of \<open>verify_otp\<close> for HOTP: the offset of the first match.\<close>

fun hotp_search :: "bytes \<Rightarrow> string \<Rightarrow> int \<Rightarrow> int list \<Rightarrow> int option option" where
  "hotp_search secret given counter [] = Some None"
| "hotp_search secret given counter (off # offs) =
     (case hotp_code secret (counter + off) 6 of
        None \<Rightarrow> None
      | Some candidate \<Rightarrow> if candidate = given then Some (Some off) else hotp_search secret given counter offs)"

section \<open>Lemmas\<close>

lemma length_sha1: "length (sha1 m) = 20"
  by (simp add: sha1_def be32_bytes_def Let_def split: prod.splits)

lemma length_hmac: "length (hmac_sha1 key msg) = 20"
  by (simp add: hmac_sha1_def length_sha1 Let_def)

lemma nat_str_length: "0 < d \<Longrightarrow> n < 10 ^ d \<Longrightarrow> length (nat_str n) \<le> d"
proof (induction n arbitrary: d rule: nat_str.induct)
  case (1 n)
  show ?case
  proof (cases "n < 10")
    case True
    then show ?thesis using "1.prems" by (subst nat_str.simps) simp
  next
    case False
    then obtain d' where d: "d = Suc d'" "0 < d'"
      using "1.prems" by (cases d; cases "d - 1") auto
    from "1.prems" d have "n div 10 < 10 ^ d'" by (simp add: less_mult_imp_div_less mult.commute)
    with "1.IH" [OF False d(2)] False d show ?thesis by (subst nat_str.simps) simp
  qed
qed

lemma hotp_code_six:
  assumes "hotp_code secret counter 6 = Some c"
  shows "length c = 6" and "list_all is_digit c"
proof -
  obtain k :: int where k: "c = zfill 6 (nat_str (nat (k mod 10 ^ 6)))"
    using assms by (auto simp: hotp_code_def Let_def split: if_splits)
  have "nat (k mod 10 ^ 6) < 10 ^ 6" by (simp add: nat_less_iff)
  then have "length (nat_str (nat (k mod 10 ^ 6))) \<le> 6" by (intro nat_str_length) simp_all
  with k show "length c = 6" by (simp add: zfill_def)
  have "is_digit CHR 0x30" by (simp add: is_digit_def code_def)
  with k show "list_all is_digit c"
    using nat_str_digits [of "nat (k mod 10 ^ 6)"] by (auto simp: zfill_def list_all_iff)
qed

lemma hotp_code_total: "0 \<le> c \<Longrightarrow> c < 2 ^ 64 \<Longrightarrow> \<exists>s. hotp_code secret c d = Some s"
  by (simp add: hotp_code_def Let_def)

lemma hotp_search_spec:
  "hotp_search secret given counter offs = Some (Some off) \<Longrightarrow>
     off \<in> set offs \<and> hotp_code secret (counter + off) 6 = Some given"
  by (induction offs) (auto split: option.splits if_splits)

lemma hotp_search_total:
  assumes "\<And>off. off \<in> set offs \<Longrightarrow> 0 \<le> counter + off \<and> counter + off < 2 ^ 64"
  shows "\<exists>r. hotp_search secret given counter offs = Some r"
  using assms
proof (induction offs)
  case (Cons off offs)
  then have "\<exists>s. hotp_code secret (counter + off) 6 = Some s" by (intro hotp_code_total) auto
  moreover have "\<exists>r. hotp_search secret given counter offs = Some r" using Cons.prems by (intro Cons.IH) auto
  ultimately show ?case by auto
qed simp

end
