(* ===== verification/Users.thy ===== *)
theory Users
  imports Prelude
begin

text \<open>
  \<open>bbs/db/users.py\<close>: the \<open>users\<close> table. The database is the list of its rows with the
  AUTOINCREMENT counter; a query is a scan of the list, an UPDATE a map over it. Column types and
  defaults are those of \<open>bbs/db/schema.py\<close>.
\<close>

record user =
  u_id :: int
  u_callsign :: callsign
  u_name :: string
  u_qth :: string
  u_approved :: bool
  u_banned :: bool
  u_totp_secret :: "bytes option"
  u_otp_type :: string
  u_hotp_counter :: int
  u_auth_failures :: int
  u_locked_until :: "int option"
  u_color_mode :: string
  u_created_at :: int
  u_last_seen :: "int option"

record users_db =
  db_users :: "user list"
  db_next_id :: int

definition normalize_color_mode :: "string option \<Rightarrow> string" where
  "normalize_color_mode m =
     (let v = lower (strip (case m of None \<Rightarrow> ''off'' | Some s \<Rightarrow> if s = [] then ''off'' else s)) in
      if v \<in> {''off'', ''ansi16'', ''truecolor''} then v else ''off'')"

definition is_locked :: "timestamp \<Rightarrow> user \<Rightarrow> bool" where
  "is_locked now u = (case u_locked_until u of None \<Rightarrow> False | Some t \<Rightarrow> trunc now < t)"

definition has_secret :: "user \<Rightarrow> bool" where
  "has_secret u = (case u_totp_secret u of None \<Rightarrow> False | Some s \<Rightarrow> 0 < length s)"

text \<open>\<open>WHERE callsign = ? COLLATE NOCASE\<close>.\<close>

definition select_callsign :: "callsign \<Rightarrow> users_db \<Rightarrow> user option" where
  "select_callsign c db = find (\<lambda>u. upper (u_callsign u) = upper c) (db_users db)"

definition get_by_callsign :: "callsign \<Rightarrow> users_db \<Rightarrow> user option" where
  "get_by_callsign c db = select_callsign (strip (upper c)) db"

definition get_by_id :: "int \<Rightarrow> users_db \<Rightarrow> user option" where
  "get_by_id i db = find (\<lambda>u. u_id u = i) (db_users db)"

definition new_user :: "int \<Rightarrow> callsign \<Rightarrow> bool \<Rightarrow> timestamp \<Rightarrow> user" where
  "new_user i c approved now = \<lparr>u_id = i, u_callsign = c, u_name = [], u_qth = [],
     u_approved = approved, u_banned = False, u_totp_secret = None, u_otp_type = ''totp'',
     u_hotp_counter = 0, u_auth_failures = 0, u_locked_until = None, u_color_mode = ''off'',
     u_created_at = trunc now, u_last_seen = None\<rparr>"

definition get_or_create :: "timestamp \<Rightarrow> callsign \<Rightarrow> bool \<Rightarrow> users_db \<Rightarrow> users_db \<times> user \<times> bool" where
  "get_or_create now c initial_approved db =
     (let c = strip (upper c) in
      case select_callsign c db of
        Some u \<Rightarrow> (db, u, False)
      | None \<Rightarrow>
          (let u = new_user (db_next_id db) c initial_approved now in
           (db\<lparr>db_users := db_users db @ [u], db_next_id := db_next_id db + 1\<rparr>, u, True)))"

text \<open>\<open>UPDATE users SET \<dots> WHERE id = ?\<close>.\<close>

definition update_user :: "int \<Rightarrow> (user \<Rightarrow> user) \<Rightarrow> users_db \<Rightarrow> users_db" where
  "update_user i f db = db\<lparr>db_users := map (\<lambda>u. if u_id u = i then f u else u) (db_users db)\<rparr>"

definition update_last_seen :: "timestamp \<Rightarrow> int \<Rightarrow> users_db \<Rightarrow> users_db" where
  "update_last_seen now i = update_user i (\<lambda>u. u\<lparr>u_last_seen := Some (trunc now)\<rparr>)"

definition set_approved :: "int \<Rightarrow> bool \<Rightarrow> users_db \<Rightarrow> users_db" where
  "set_approved i b = update_user i (\<lambda>u. u\<lparr>u_approved := b\<rparr>)"

definition set_banned :: "int \<Rightarrow> bool \<Rightarrow> users_db \<Rightarrow> users_db" where
  "set_banned i b = update_user i (\<lambda>u. u\<lparr>u_banned := b\<rparr>)"

definition set_otp_secret :: "int \<Rightarrow> bytes \<Rightarrow> string \<Rightarrow> users_db \<Rightarrow> users_db" where
  "set_otp_secret i secret otp_type = update_user i
     (\<lambda>u. u\<lparr>u_totp_secret := Some secret, u_otp_type := otp_type, u_hotp_counter := 0\<rparr>)"

definition clear_otp_secret :: "int \<Rightarrow> users_db \<Rightarrow> users_db" where
  "clear_otp_secret i = update_user i (\<lambda>u. u\<lparr>u_totp_secret := None, u_hotp_counter := 0\<rparr>)"

definition increment_hotp_counter :: "int \<Rightarrow> int \<Rightarrow> users_db \<Rightarrow> users_db" where
  "increment_hotp_counter i new_counter = update_user i (\<lambda>u. u\<lparr>u_hotp_counter := new_counter\<rparr>)"

definition record_auth_failure ::
  "timestamp \<Rightarrow> int \<Rightarrow> int \<Rightarrow> int \<Rightarrow> users_db \<Rightarrow> users_db \<times> int" where
  "record_auth_failure now i max_attempts lockout_seconds db =
     (let failures = (case get_by_id i db of None \<Rightarrow> 0 | Some u \<Rightarrow> u_auth_failures u) + 1;
          locked_until = (if max_attempts \<le> failures then Some (trunc now + lockout_seconds) else None) in
      (update_user i (\<lambda>u. u\<lparr>u_auth_failures := failures, u_locked_until := locked_until\<rparr>) db, failures))"

definition reset_auth_failures :: "int \<Rightarrow> users_db \<Rightarrow> users_db" where
  "reset_auth_failures i = update_user i (\<lambda>u. u\<lparr>u_auth_failures := 0, u_locked_until := None\<rparr>)"

definition update_profile :: "int \<Rightarrow> string \<Rightarrow> string \<Rightarrow> users_db \<Rightarrow> users_db" where
  "update_profile i name qth = update_user i (\<lambda>u. u\<lparr>u_name := strip name, u_qth := strip qth\<rparr>)"

definition set_color_mode :: "int \<Rightarrow> string \<Rightarrow> users_db \<Rightarrow> users_db" where
  "set_color_mode i m = update_user i (\<lambda>u. u\<lparr>u_color_mode := normalize_color_mode (Some m)\<rparr>)"

definition list_users :: "bool \<Rightarrow> users_db \<Rightarrow> user list" where
  "list_users pending_only db =
     (if pending_only then sort_key u_created_at (filter (\<lambda>u. \<not> u_approved u) (db_users db))
      else sort_key (\<lambda>u. upper (u_callsign u)) (db_users db))"

section \<open>Lemmas\<close>

text \<open>The keys of the table: ids are fresh and unique, callsigns unique up to case.\<close>

definition users_inv :: "users_db \<Rightarrow> bool" where
  "users_inv db \<longleftrightarrow> distinct (map u_id (db_users db))
     \<and> distinct (map (\<lambda>u. upper (u_callsign u)) (db_users db))
     \<and> (\<forall>u \<in> set (db_users db). u_id u < db_next_id db)"

lemma find_distinct_id:
  "distinct (map u_id us) \<Longrightarrow> u \<in> set us \<Longrightarrow> find (\<lambda>v. u_id v = u_id u) us = Some u"
  by (induction us) (auto simp: image_iff)

lemma find_distinct_call:
  "distinct (map (\<lambda>u. upper (u_callsign u)) us) \<Longrightarrow> u \<in> set us \<Longrightarrow>
     find (\<lambda>v. upper (u_callsign v) = upper (u_callsign u)) us = Some u"
  by (induction us) (auto simp: image_iff)

lemma find_None_all: "find P xs = None \<Longrightarrow> x \<in> set xs \<Longrightarrow> \<not> P x"
  by (auto simp: find_None_iff)

lemma find_Some_in: "find P xs = Some x \<Longrightarrow> x \<in> set xs \<and> P x"
  by (auto simp: find_Some_iff)

lemma users_inv_update:
  assumes "users_inv db" and "\<And>u. u_id (f u) = u_id u" and "\<And>u. u_callsign (f u) = u_callsign u"
  shows "users_inv (update_user i f db)"
proof -
  have "map u_id (db_users (update_user i f db)) = map u_id (db_users db)"
    "map (\<lambda>u. upper (u_callsign u)) (db_users (update_user i f db))
      = map (\<lambda>u. upper (u_callsign u)) (db_users db)"
    "db_next_id (update_user i f db) = db_next_id db"
    using assms(2,3) by (auto simp: update_user_def)
  note eqs = this
  have "\<forall>u \<in> set (db_users (update_user i f db)). u_id u < db_next_id db"
    using assms(1,2) by (auto simp: users_inv_def update_user_def)
  with assms(1) show ?thesis unfolding users_inv_def eqs by blast
qed

lemma find_map: "(\<And>x. P (g x) = P x) \<Longrightarrow> find P (map g xs) = map_option g (find P xs)"
  by (induction xs) auto

lemma get_by_id_update:
  assumes "\<And>u. u_id (f u) = u_id u"
  shows "get_by_id j (update_user i f db) = map_option (\<lambda>u. if u_id u = i then f u else u) (get_by_id j db)"
  unfolding get_by_id_def update_user_def by (simp, rule find_map) (simp add: assms)

lemma get_by_callsign_update:
  assumes "\<And>u. u_callsign (f u) = u_callsign u"
  shows "get_by_callsign c (update_user i f db) =
    map_option (\<lambda>u. if u_id u = i then f u else u) (get_by_callsign c db)"
  unfolding get_by_callsign_def select_callsign_def update_user_def
  by (simp, rule find_map) (simp add: assms)

lemma users_inv_get_or_create:
  assumes "users_inv db" and "get_or_create now c a db = (db', u, created)"
  shows "users_inv db'" and "u \<in> set (db_users db')" and "upper (u_callsign u) = strip (upper c)"
proof -
  have uu: "upper (strip (upper c)) = strip (upper c)"
  proof -
    have "upper (dropWhile is_space s) = dropWhile is_space (upper s)" for s
      by (induction s) auto
    then have "upper (strip s) = strip (upper s)" for s
      by (simp add: strip_def rstrip_def lstrip_def) (simp add: upper_def rev_map [symmetric])
    then show ?thesis by simp
  qed
  show "users_inv db'" "u \<in> set (db_users db')" "upper (u_callsign u) = strip (upper c)"
  proof -
    consider (old) "select_callsign (strip (upper c)) db = Some u" "db' = db"
      | (new) "select_callsign (strip (upper c)) db = None"
          "u = new_user (db_next_id db) (strip (upper c)) a now"
          "db' = db\<lparr>db_users := db_users db @ [u], db_next_id := db_next_id db + 1\<rparr>"
      using assms(2) by (auto simp: get_or_create_def Let_def split: option.splits)
    then show "users_inv db'" "u \<in> set (db_users db')" "upper (u_callsign u) = strip (upper c)"
    proof (atomize (full), cases)
      case old
      with assms(1) uu show "users_inv db' \<and> u \<in> set (db_users db') \<and> upper (u_callsign u) = strip (upper c)"
        by (auto simp: select_callsign_def dest!: find_Some_in)
    next
      case new
      have "upper (u_callsign v) \<noteq> strip (upper c)" "u_id v < db_next_id db" if "v \<in> set (db_users db)" for v
        using new(1) assms(1) that uu by (auto simp: select_callsign_def find_None_iff users_inv_def)
      with new(2,3) assms(1) uu show "users_inv db' \<and> u \<in> set (db_users db') \<and> upper (u_callsign u) = strip (upper c)"
        by (fastforce simp: users_inv_def new_user_def)
    qed
  qed
qed

end
