(* ===== verification/Auth.thy ===== *)
theory Auth
  imports Otp Users
begin

text \<open>
  \<open>bbs/core/auth.py\<close>: access levels, the per-session \<open>AuthState\<close> and the OTP check with its
  lockout. Every method takes the users table and the clock and returns the new table; \<open>None\<close> is
  an exception (the clock or a counter out of the 64-bit range). The message to the user is its
  template with the numbers it shows.
\<close>

datatype auth_level = ANONYMOUS | IDENTIFIED | AUTHENTICATED | SYSOP

fun level_value :: "auth_level \<Rightarrow> int" where
  "level_value ANONYMOUS = 0"
| "level_value IDENTIFIED = 1"
| "level_value AUTHENTICATED = 2"
| "level_value SYSOP = 3"

instantiation auth_level :: linorder
begin

definition less_eq_auth_level :: "auth_level \<Rightarrow> auth_level \<Rightarrow> bool" where
  "less_eq_auth_level a b \<longleftrightarrow> level_value a \<le> level_value b"

definition less_auth_level :: "auth_level \<Rightarrow> auth_level \<Rightarrow> bool" where
  "less_auth_level a b \<longleftrightarrow> level_value a < level_value b"

instance
proof
  fix x y :: auth_level
  show "x \<le> y \<Longrightarrow> y \<le> x \<Longrightarrow> x = y"
    by (cases x; cases y) (simp_all add: less_eq_auth_level_def)
qed (auto simp: less_eq_auth_level_def less_auth_level_def)

end

lemmas auth_level_order = less_eq_auth_level_def less_auth_level_def

record auth_state =
  as_callsign :: callsign
  as_level :: auth_level
  as_user_id :: "int option"
  as_approved :: bool

definition is_identified :: "auth_state \<Rightarrow> bool" where
  "is_identified st \<longleftrightarrow> IDENTIFIED \<le> as_level st"

definition is_authenticated :: "auth_state \<Rightarrow> bool" where
  "is_authenticated st \<longleftrightarrow> AUTHENTICATED \<le> as_level st"

definition is_sysop :: "auth_state \<Rightarrow> bool" where
  "is_sysop st \<longleftrightarrow> as_level st = SYSOP"

definition require :: "auth_state \<Rightarrow> auth_level \<Rightarrow> bool" where
  "require st level \<longleftrightarrow> level_value level \<le> level_value (as_level st)"

record auth_cfg =
  ac_callsign :: callsign
  ac_max_attempts :: int
  ac_lockout_secs :: int
  ac_time_step :: int
  ac_enforce_active :: bool

definition identify :: "auth_cfg \<Rightarrow> timestamp \<Rightarrow> callsign \<Rightarrow> users_db \<Rightarrow> users_db \<times> auth_state \<times> bool" where
  "identify cfg now callsign db =
     (let c = strip (upper callsign);
          initial_approved = (\<not> ac_enforce_active cfg);
          (db, u, created) = get_or_create now c initial_approved db;
          db = update_last_seen now (u_id u) db in
      (db, \<lparr>as_callsign = c, as_level = IDENTIFIED, as_user_id = Some (u_id u),
            as_approved = u_approved u\<rparr>, created))"

datatype otp_prompt = EnterHotp int | EnterTotp

definition otp_prompt :: "auth_state \<Rightarrow> users_db \<Rightarrow> otp_prompt" where
  "otp_prompt st db = (case get_by_callsign (as_callsign st) db of
       Some u \<Rightarrow> if u_otp_type u = ''hotp'' then EnterHotp (u_hotp_counter u) else EnterTotp
     | None \<Rightarrow> EnterTotp)"

datatype otp_message =
    Failed
  | Locked int
  | FailedNoSecret
  | FailedLockedFor int
  | FailedRemaining int
  | Ok

text \<open>The common tail of the two failure branches.\<close>

definition fail_attempt ::
  "auth_cfg \<Rightarrow> timestamp \<Rightarrow> user \<Rightarrow> (int \<Rightarrow> int) \<Rightarrow> users_db \<Rightarrow> users_db \<times> otp_message" where
  "fail_attempt cfg now u shown db =
     (let (db, failures) = record_auth_failure now (u_id u) (ac_max_attempts cfg) (ac_lockout_secs cfg) db;
          remaining = ac_max_attempts cfg - failures in
      (db, if remaining \<le> 0 then FailedLockedFor (ac_lockout_secs cfg div 60)
           else FailedRemaining (shown remaining)))"

text \<open>The matching step: whether the code matched, and the new HOTP counter if there is one.\<close>

definition match_code ::
  "auth_cfg \<Rightarrow> timestamp \<Rightarrow> user \<Rightarrow> bytes \<Rightarrow> string \<Rightarrow> (bool \<times> int option) option" where
  "match_code cfg now u secret code_clean =
     (if u_otp_type u = ''hotp'' then
        map_option (\<lambda>r. case r of None \<Rightarrow> (False, None) | Some off \<Rightarrow> (True, Some (u_hotp_counter u + off + 1)))
          (hotp_search secret code_clean (u_hotp_counter u) [0, 1, 2])
      else
        map_option (\<lambda>codes. (code_clean \<in> set codes, None))
          (totp_window now secret (ac_time_step cfg) 1 6))"

definition verify_otp ::
  "auth_cfg \<Rightarrow> timestamp \<Rightarrow> string \<Rightarrow> auth_state \<Rightarrow> users_db \<Rightarrow>
     (bool \<times> otp_message \<times> auth_state \<times> users_db) option" where
  "verify_otp cfg now given st db =
     (case get_by_callsign (as_callsign st) db of
        None \<Rightarrow> Some (False, Failed, st, db)
      | Some u \<Rightarrow>
          if is_locked now u then
            (let remaining = (case u_locked_until u of None \<Rightarrow> 0 | Some t \<Rightarrow> t) - trunc now in
             Some (False, Locked (max 1 (remaining div 60)), st, db))
          else if \<not> has_secret u then Some (False, FailedNoSecret, st, db)
          else
            (let code_clean = strip given in
             if \<not> (code_clean \<noteq> [] \<and> list_all is_digit code_clean) \<or> length code_clean \<noteq> 6 then
               (let (db, msg) = fail_attempt cfg now u (max 0) db in Some (False, msg, st, db))
             else
               (case u_totp_secret u of
                  None \<Rightarrow> None
                | Some secret \<Rightarrow>
                    (case match_code cfg now u secret code_clean of
                       None \<Rightarrow> None
                     | Some (matched, new_counter) \<Rightarrow>
                         if \<not> matched then
                           (let (db, msg) = fail_attempt cfg now u (\<lambda>n. n) db in Some (False, msg, st, db))
                         else
                           (let db = reset_auth_failures (u_id u) db;
                                db = (case new_counter of None \<Rightarrow> db
                                      | Some n \<Rightarrow> increment_hotp_counter (u_id u) n db);
                                st = st\<lparr>as_level := (if upper (as_callsign st) = upper (ac_callsign cfg)
                                                    then SYSOP else AUTHENTICATED),
                                       as_user_id := Some (u_id u)\<rparr> in
                            Some (True, Ok, st, db))))))"

definition get_user :: "auth_state \<Rightarrow> users_db \<Rightarrow> user option" where
  "get_user st db = (case as_user_id st of None \<Rightarrow> None | Some i \<Rightarrow> get_by_id i db)"

fun level_label :: "auth_level \<Rightarrow> string" where
  "level_label ANONYMOUS = ''anon''"
| "level_label IDENTIFIED = ''ident''"
| "level_label AUTHENTICATED = ''auth''"
| "level_label SYSOP = ''sysop''"

section \<open>Lemmas\<close>

lemma require_iff: "require st l \<longleftrightarrow> l \<le> as_level st"
  by (simp add: require_def auth_level_order)

lemma users_inv_identify:
  assumes "users_inv db" and "identify cfg now c db = (db', st, created)"
  shows "users_inv db'"
proof -
  obtain db1 u cr where g: "get_or_create now (strip (upper c)) (\<not> ac_enforce_active cfg) db = (db1, u, cr)"
    by (metis prod_cases3)
  have "users_inv db1" by (rule users_inv_get_or_create(1) [OF assms(1) g])
  moreover have "db' = update_last_seen now (u_id u) db1" using assms(2) g by (simp add: identify_def Let_def)
  ultimately show ?thesis by (simp add: update_last_seen_def users_inv_update)
qed

lemma users_inv_fail:
  "users_inv db \<Longrightarrow> users_inv (fst (fail_attempt cfg now u shown db))"
  by (simp add: fail_attempt_def record_auth_failure_def Let_def users_inv_update)

lemma users_inv_verify:
  assumes "users_inv db" and "verify_otp cfg now given st db = Some (r, msg, st', db')"
  shows "users_inv db'"
  using assms users_inv_fail [OF assms(1)]
  by (auto simp: verify_otp_def Let_def case_prod_beta reset_auth_failures_def
      increment_hotp_counter_def intro!: users_inv_update split: option.splits if_splits)

lemma get_by_callsign_in:
  "get_by_callsign c db = Some u \<Longrightarrow> u \<in> set (db_users db) \<and> upper (u_callsign u) = upper (strip (upper c))"
  by (auto simp: get_by_callsign_def select_callsign_def dest!: find_Some_in)

lemma get_by_id_of_callsign:
  "users_inv db \<Longrightarrow> get_by_callsign c db = Some u \<Longrightarrow> get_by_id (u_id u) db = Some u"
  using get_by_callsign_in [of c db u] find_distinct_id [of "db_users db" u]
  by (simp add: get_by_id_def users_inv_def)

lemma fail_attempt_result:
  assumes "users_inv db" and "get_by_callsign c db = Some u"
    and "fail_attempt cfg now u shown db = (db', msg)"
  shows "get_by_callsign c db' = Some (u\<lparr>u_auth_failures := u_auth_failures u + 1,
      u_locked_until := (if ac_max_attempts cfg \<le> u_auth_failures u + 1
        then Some (trunc now + ac_lockout_secs cfg) else None)\<rparr>)"
proof -
  have "get_by_id (u_id u) db = Some u" by (rule get_by_id_of_callsign [OF assms(1,2)])
  with assms(2,3) show ?thesis
    by (auto simp: fail_attempt_def record_auth_failure_def Let_def case_prod_beta get_by_callsign_update)
qed

text \<open>The outcomes of \<open>verify_otp\<close>, as the properties use them.\<close>

lemma verify_otp_success:
  assumes "users_inv db" and "verify_otp cfg now given st db = Some (True, msg, st', db')"
  obtains u secret new_counter where
    "get_by_callsign (as_callsign st) db = Some u" and "\<not> is_locked now u"
    and "u_totp_secret u = Some secret" and "match_code cfg now u secret (strip given) = Some (True, new_counter)"
    and "msg = Ok" and "as_callsign st' = as_callsign st"
    and "as_level st' = (if upper (as_callsign st) = upper (ac_callsign cfg) then SYSOP else AUTHENTICATED)"
    and "get_by_callsign (as_callsign st) db' = Some (u\<lparr>u_auth_failures := 0, u_locked_until := None,
        u_hotp_counter := (case new_counter of None \<Rightarrow> u_hotp_counter u | Some n \<Rightarrow> n)\<rparr>)"
proof -
  from assms(2) obtain u secret nc where
    u: "get_by_callsign (as_callsign st) db = Some u" "\<not> is_locked now u" "u_totp_secret u = Some secret"
      "match_code cfg now u secret (strip given) = Some (True, nc)" "msg = Ok"
      "st' = st\<lparr>as_level := (if upper (as_callsign st) = upper (ac_callsign cfg)
                                                    then SYSOP else AUTHENTICATED),
                                       as_user_id := Some (u_id u)\<rparr>"
      "db' = (case nc of None \<Rightarrow> reset_auth_failures (u_id u) db
             | Some n \<Rightarrow> increment_hotp_counter (u_id u) n (reset_auth_failures (u_id u) db))"
    by (auto simp: verify_otp_def Let_def case_prod_beta split: option.splits if_splits)
  have "get_by_callsign (as_callsign st) db' = Some (u\<lparr>u_auth_failures := 0, u_locked_until := None,
        u_hotp_counter := (case nc of None \<Rightarrow> u_hotp_counter u | Some n \<Rightarrow> n)\<rparr>)"
    using u(1,7) by (auto simp: reset_auth_failures_def increment_hotp_counter_def get_by_callsign_update
        split: option.splits)
  with u show ?thesis by (intro that) auto
qed

lemma verify_otp_locked:
  assumes "get_by_callsign (as_callsign st) db = Some u" and "is_locked now u"
  shows "\<exists>mins \<ge> 1. verify_otp cfg now given st db = Some (False, Locked mins, st, db)"
  using assms by (simp add: verify_otp_def Let_def)

lemma verify_otp_unmatched:
  assumes "users_inv db" and "get_by_callsign (as_callsign st) db = Some u" and "\<not> is_locked now u"
    and "has_secret u" and "verify_otp cfg now given st db = Some (False, msg, st', db')"
  shows "st' = st" and "get_by_callsign (as_callsign st) db' =
      Some (u\<lparr>u_auth_failures := u_auth_failures u + 1,
        u_locked_until := (if ac_max_attempts cfg \<le> u_auth_failures u + 1
          then Some (trunc now + ac_lockout_secs cfg) else None)\<rparr>)"
proof -
  from assms(2-5) obtain shown where "st' = st" and f: "(db', msg) = fail_attempt cfg now u shown db"
    by (auto simp: verify_otp_def Let_def case_prod_beta split: option.splits if_splits)
  show "st' = st" by fact
  show "get_by_callsign (as_callsign st) db' =
      Some (u\<lparr>u_auth_failures := u_auth_failures u + 1,
        u_locked_until := (if ac_max_attempts cfg \<le> u_auth_failures u + 1
          then Some (trunc now + ac_lockout_secs cfg) else None)\<rparr>)"
    by (rule fail_attempt_result [OF assms(1,2) f [symmetric]])
qed

text \<open>A run of attempts, each at its own time.\<close>

fun attempts :: "auth_cfg \<Rightarrow> (timestamp \<times> string) list \<Rightarrow> auth_state \<Rightarrow> users_db \<Rightarrow>
    (bool list \<times> auth_state \<times> users_db) option" where
  "attempts cfg [] st db = Some ([], st, db)"
| "attempts cfg ((now, given) # tries) st db =
     (case verify_otp cfg now given st db of
        None \<Rightarrow> None
      | Some (r, _, st', db') \<Rightarrow>
          (case attempts cfg tries st' db' of
             None \<Rightarrow> None
           | Some (rs, st'', db'') \<Rightarrow> Some (r # rs, st'', db'')))"

text \<open>After \<open>max_attempts\<close> failures in a row the account is locked.\<close>

lemma attempts_fail_locks:
  assumes "users_inv db" and "get_by_callsign (as_callsign st) db = Some u" and "has_secret u"
    and "u_locked_until u = None" and "0 < ac_lockout_secs cfg"
    and "list_all (\<lambda>(t, _). t = now) tries"
    and "attempts cfg tries st db = Some (rs, st', db')" and "True \<notin> set rs"
    and "ac_max_attempts cfg \<le> u_auth_failures u + int (length tries)" and "tries \<noteq> []"
  shows "\<exists>u'. get_by_callsign (as_callsign st) db' = Some u' \<and> is_locked now u' \<and> st' = st"
  using assms
proof (induction tries arbitrary: u db rs)
  case (Cons a tries)
  obtain t g where a: "a = (t, g)" by fastforce
  have t: "t = now" using Cons.prems(6) a by simp
  from Cons.prems(7) a t obtain r msg st1 db1 rs1 where
    v: "verify_otp cfg now g st db = Some (r, msg, st1, db1)" and
    m: "attempts cfg tries st1 db1 = Some (rs1, st', db')" and rs: "rs = r # rs1"
    by (auto split: option.splits)
  from Cons.prems(8) rs have r: "r = False" by auto
  have nl: "\<not> is_locked now u" using Cons.prems(4) by (simp add: is_locked_def)
  note un = verify_otp_unmatched [OF Cons.prems(1,2) nl Cons.prems(3) v [unfolded r]]
  define u1 where "u1 = u\<lparr>u_auth_failures := u_auth_failures u + 1,
        u_locked_until := (if ac_max_attempts cfg \<le> u_auth_failures u + 1
          then Some (trunc now + ac_lockout_secs cfg) else None)\<rparr>"
  have inv1: "users_inv db1" by (rule users_inv_verify [OF Cons.prems(1) v])
  have u1: "get_by_callsign (as_callsign st) db1 = Some u1" using un(2) by (simp add: u1_def)
  have tries_now: "list_all (\<lambda>(t, _). t = now) tries" using Cons.prems(6) by simp
  have stay: "st' = st \<and> db' = db1 \<or> tries \<noteq> []"
    using m un(1) by (cases tries) auto
  show ?case
  proof (cases "ac_max_attempts cfg \<le> u_auth_failures u + 1")
    case True
    then have l: "is_locked now u1" using Cons.prems(5) by (simp add: u1_def is_locked_def)
    have "attempts cfg m st db1 = Some (rs', s', d') \<Longrightarrow> list_all (\<lambda>(t, _). t = now) m \<Longrightarrow> s' = st \<and> d' = db1"
      for m rs' s' d'
    proof (induction m arbitrary: rs')
      case (Cons x m)
      obtain t g where x: "x = (t, g)" by fastforce
      obtain mins where "verify_otp cfg t g st db1 = Some (False, Locked mins, st, db1)"
        using verify_otp_locked [OF u1 l, of cfg g] Cons.prems(2) x by auto
      with Cons.prems x obtain rs1 where "attempts cfg m st db1 = Some (rs1, s', d')"
        by (auto split: option.splits)
      with Cons show ?case by simp
    qed simp
    from this [OF m [unfolded un(1)] tries_now] u1 l show ?thesis by blast
  next
    case False
    have "tries \<noteq> []" using Cons.prems(9) False by auto
    moreover have "u_locked_until u1 = None" "has_secret u1"
      using False Cons.prems(3) by (simp_all add: u1_def has_secret_def)
    moreover have "True \<notin> set rs1" using Cons.prems(8) rs by simp
    moreover have "ac_max_attempts cfg \<le> u_auth_failures u1 + int (length tries)"
      using Cons.prems(9) by (simp add: u1_def)
    ultimately show ?thesis
      using Cons.IH [OF inv1 u1 _ _ Cons.prems(5) tries_now m [unfolded un(1)]] by blast
  qed
qed simp

end
