(* ===== verification/Gateway.thy ===== *)
theory Gateway
  imports Auth Interfaces
begin

text \<open>
  \<open>bbs/netrom/gateway.py\<close>: the gateway guard, its policy, the gate order of \<open>check\<close> and the circuit
  accounting of \<open>acquire\<close> and \<open>release\<close>. The sessions that hold a slot are the list \<open>gw_held\<close> of
  the system at the end: \<open>acquire\<close> and \<open>release\<close> are paired around the gateway bridge
  (\<open>bbs/netrom/node.py\<close>), so a release is always one of a slot held.
\<close>

definition norm :: "string \<Rightarrow> callsign" where
  "norm call = strip (upper call)"

definition base :: "string \<Rightarrow> callsign" where
  "base call = fst (split1 CHR 0x2D (norm call))"

record policy =
  gp_min_auth :: auth_level
  gp_allow :: "callsign set"
  gp_deny :: "callsign set"
  gp_interlock :: bool
  gp_rate_limit_per_min :: int
  gp_max_circuits_per_user :: int
  gp_max_circuits :: int

definition permissive :: "int \<Rightarrow> policy" where
  "permissive max_circuits = (let n = max 1 max_circuits in
     \<lparr>gp_min_auth = ANONYMOUS, gp_allow = {}, gp_deny = {}, gp_interlock = False,
      gp_rate_limit_per_min = 0, gp_max_circuits_per_user = n, gp_max_circuits = n\<rparr>)"

text \<open>\<open>_MIN_AUTH_NAMES\<close> and the values of the \<open>gateway\<close> block (\<open>None\<close> for an absent key).\<close>

definition min_auth_of :: "string \<Rightarrow> auth_level" where
  "min_auth_of s = (case map_of [(''none'', ANONYMOUS), (''anonymous'', ANONYMOUS),
       (''identified'', IDENTIFIED), (''authenticated'', AUTHENTICATED), (''sysop'', SYSOP)]
       (strip (lower s)) of Some l \<Rightarrow> l | None \<Rightarrow> IDENTIFIED)"

definition dflt :: "'a \<Rightarrow> 'a option \<Rightarrow> 'a" where
  "dflt d x = (case x of None \<Rightarrow> d | Some v \<Rightarrow> v)"

definition from_netrom_cfg :: "int option \<Rightarrow> string option \<Rightarrow> string list \<Rightarrow> string list \<Rightarrow> bool option
    \<Rightarrow> int option \<Rightarrow> int option \<Rightarrow> int option \<Rightarrow> policy" where
  "from_netrom_cfg max_gateway_circuits min_auth allow deny interlock rate per_user max_circuits =
     (let legacy_max = dflt 4 max_gateway_circuits in
      \<lparr>gp_min_auth = min_auth_of (dflt ''identified'' min_auth),
       gp_allow = set (map norm (filter (\<lambda>c. strip c \<noteq> []) allow)),
       gp_deny = set (map norm (filter (\<lambda>c. strip c \<noteq> []) deny)),
       gp_interlock = dflt True interlock,
       gp_rate_limit_per_min = max 0 (dflt 6 rate),
       gp_max_circuits_per_user = max 1 (dflt 2 per_user),
       gp_max_circuits = max 1 (dflt legacy_max max_circuits)\<rparr>)"

record refusal =
  rf_ts :: timestamp
  rf_user :: callsign
  rf_dest :: callsign
  rf_reason :: string

record guard =
  gg_policy :: policy
  gg_rate :: "(callsign, timestamp list) dict"
  gg_active_total :: int
  gg_active_per_user :: "(callsign, int) dict"
  gg_refusals :: "refusal list"

definition guard_init :: "policy \<Rightarrow> guard" where
  "guard_init p = \<lparr>gg_policy = p, gg_rate = [], gg_active_total = 0, gg_active_per_user = [],
     gg_refusals = []\<rparr>"

section \<open>The gates\<close>

definition rate_exceeded :: "timestamp \<Rightarrow> callsign \<Rightarrow> guard \<Rightarrow> guard \<times> bool" where
  "rate_exceeded now b g =
     (case map_of (gg_rate g) b of
        None \<Rightarrow> (g, False)
      | Some [] \<Rightarrow> (g, False)
      | Some dq \<Rightarrow>
          (let dq = dropWhile (\<lambda>t. t < now - 60) dq in
           if dq = [] then (g\<lparr>gg_rate := AList.delete b (gg_rate g)\<rparr>, False)
           else (g\<lparr>gg_rate := AList.update b dq (gg_rate g)\<rparr>,
                 gp_rate_limit_per_min (gg_policy g) \<le> int (length dq))))"

datatype gate = AccessDenied | NotAuthorized | AuthRequired auth_level | RateLimit | Interlock

definition check :: "timestamp \<Rightarrow> callsign \<Rightarrow> auth_level option \<Rightarrow> callsign \<Rightarrow> callsign \<Rightarrow> guard
    \<Rightarrow> guard \<times> gate option" where
  "check now user_call level neighbor arrival_via g =
     (let p = gg_policy g; full = norm user_call; b = base user_call in
      if full \<in> gp_deny p \<or> b \<in> gp_deny p then (g, Some AccessDenied)
      else if gp_allow p \<noteq> {} \<and> \<not> (full \<in> gp_allow p \<or> b \<in> gp_allow p) then (g, Some NotAuthorized)
      else
        (let lv = (case level of Some l \<Rightarrow> l | None \<Rightarrow> IDENTIFIED) in
         if lv < gp_min_auth p then (g, Some (AuthRequired (gp_min_auth p)))
         else
           (let (g, exceeded) = (if 0 < gp_rate_limit_per_min p then rate_exceeded now b g else (g, False)) in
            if exceeded then (g, Some RateLimit)
            else if gp_interlock p \<and> arrival_via \<noteq> [] \<and> norm neighbor = norm arrival_via
              then (g, Some Interlock)
            else (g, None))))"

section \<open>Accounting\<close>

definition active_for :: "callsign \<Rightarrow> guard \<Rightarrow> int" where
  "active_for user_call g = (case map_of (gg_active_per_user g) (base user_call) of None \<Rightarrow> 0 | Some n \<Rightarrow> n)"

definition acquire :: "timestamp \<Rightarrow> callsign \<Rightarrow> guard \<Rightarrow> guard \<times> bool" where
  "acquire now user_call g =
     (let b = base user_call; p = gg_policy g; n = active_for user_call g in
      if gp_max_circuits p \<le> gg_active_total g then (g, False)
      else if gp_max_circuits_per_user p \<le> n then (g, False)
      else
        (let g = g\<lparr>gg_active_total := gg_active_total g + 1,
                   gg_active_per_user := AList.update b (n + 1) (gg_active_per_user g)\<rparr>;
             g = (if 0 < gp_rate_limit_per_min p then
                    g\<lparr>gg_rate := AList.update b
                       ((case map_of (gg_rate g) b of None \<Rightarrow> [] | Some dq \<Rightarrow> dq) @ [now]) (gg_rate g)\<rparr>
                  else g) in
         (g, True)))"

definition release :: "callsign \<Rightarrow> guard \<Rightarrow> guard" where
  "release user_call g =
     (let b = base user_call; n = active_for user_call g;
          total = (if 0 < gg_active_total g then gg_active_total g - 1 else gg_active_total g) in
      g\<lparr>gg_active_total := total,
        gg_active_per_user := (if n \<le> 1 then AList.delete b (gg_active_per_user g)
                               else AList.update b (n - 1) (gg_active_per_user g))\<rparr>)"

definition refusal_history :: nat where
  "refusal_history = 50"

definition note_refusal :: "timestamp \<Rightarrow> callsign \<Rightarrow> string \<Rightarrow> callsign \<Rightarrow> guard \<Rightarrow> guard" where
  "note_refusal now user_call reason dest g =
     (let rs = gg_refusals g @ [\<lparr>rf_ts = now, rf_user = norm user_call, rf_dest = norm dest, rf_reason = reason\<rparr>] in
      g\<lparr>gg_refusals := drop (length rs - refusal_history) rs\<rparr>)"

section \<open>Texts and the summary\<close>

fun level_name :: "auth_level \<Rightarrow> string" where
  "level_name ANONYMOUS = ''anonymous''"
| "level_name IDENTIFIED = ''identified''"
| "level_name AUTHENTICATED = ''authenticated''"
| "level_name SYSOP = ''sysop''"

text \<open>The reasons \<open>check\<close> gives; the dash of the fourth and its like are not ASCII.\<close>

fun gate_text :: "gate \<Rightarrow> string" where
  "gate_text AccessDenied = ''Access denied.''"
| "gate_text NotAuthorized = ''Not authorized to use this gateway.''"
| "gate_text (AuthRequired l) = ''Authentication required ('' @ level_name l @ '').''"
| "gate_text RateLimit = ''Rate limit '' @ [replacement] @ '' try again shortly.''"
| "gate_text Interlock = ''Interlock: won'' @ [CHR 0x27] @ ''t route back the way you came.''"

definition default_policy :: policy where
  "default_policy = \<lparr>gp_min_auth = IDENTIFIED, gp_allow = {}, gp_deny = {}, gp_interlock = True,
     gp_rate_limit_per_min = 6, gp_max_circuits_per_user = 2, gp_max_circuits = 4\<rparr>"

record guard_summary =
  gs_active :: int
  gs_max :: int
  gs_max_per_user :: int
  gs_per_user :: "(callsign, int) dict"
  gs_min_auth :: string
  gs_interlock :: bool
  gs_rate_limit_per_min :: int
  gs_allow :: "callsign list"
  gs_deny :: "callsign list"
  gs_recent_refusals :: "refusal list"

definition guard_stats :: "guard \<Rightarrow> guard_summary" where
  "guard_stats g = (let p = gg_policy g in
     \<lparr>gs_active = gg_active_total g, gs_max = gp_max_circuits p, gs_max_per_user = gp_max_circuits_per_user p,
      gs_per_user = gg_active_per_user g, gs_min_auth = level_name (gp_min_auth p),
      gs_interlock = gp_interlock p, gs_rate_limit_per_min = gp_rate_limit_per_min p,
      gs_allow = sorted_list_of_set (gp_allow p), gs_deny = sorted_list_of_set (gp_deny p),
      gs_recent_refusals = gg_refusals g\<rparr>)"

section \<open>The sessions around the guard\<close>

record gateway_system =
  gw_guard :: guard
  gw_held :: "callsign list"

datatype gateway_event =
    OpenCircuit timestamp callsign "auth_level option" callsign callsign
  | CloseCircuit callsign
  | Refused timestamp callsign string callsign

definition gateway_step :: "gateway_system \<Rightarrow> gateway_event \<Rightarrow> gateway_system" where
  "gateway_step s e = (case e of
     OpenCircuit now u level neighbor via \<Rightarrow>
       (case check now u level neighbor via (gw_guard s) of
          (g, Some _) \<Rightarrow> s\<lparr>gw_guard := g\<rparr>
        | (g, None) \<Rightarrow>
            (case acquire now u g of
               (g, True) \<Rightarrow> s\<lparr>gw_guard := g, gw_held := u # gw_held s\<rparr>
             | (g, False) \<Rightarrow> s\<lparr>gw_guard := g\<rparr>))
   | CloseCircuit u \<Rightarrow>
       (if u \<in> set (gw_held s)
        then s\<lparr>gw_guard := release u (gw_guard s), gw_held := remove1 u (gw_held s)\<rparr> else s)
   | Refused now u reason dest \<Rightarrow> s\<lparr>gw_guard := note_refusal now u reason dest (gw_guard s)\<rparr>)"

definition held_by :: "callsign \<Rightarrow> callsign list \<Rightarrow> nat" where
  "held_by b held = length (filter (\<lambda>u. base u = b) held)"

text \<open>The counters are the held slots, within both caps.\<close>

definition gateway_inv :: "gateway_system \<Rightarrow> bool" where
  "gateway_inv s \<longleftrightarrow>
     gg_active_total (gw_guard s) = int (length (gw_held s))
     \<and> (\<forall>b. map_of (gg_active_per_user (gw_guard s)) b =
          (if held_by b (gw_held s) = 0 then None else Some (int (held_by b (gw_held s)))))
     \<and> int (length (gw_held s)) \<le> max 0 (gp_max_circuits (gg_policy (gw_guard s)))
     \<and> (\<forall>b. int (held_by b (gw_held s)) \<le> max 0 (gp_max_circuits_per_user (gg_policy (gw_guard s))))
     \<and> length (gg_refusals (gw_guard s)) \<le> refusal_history"

section \<open>Lemmas\<close>

lemma rate_exceeded_fields:
  assumes "rate_exceeded now b g = (g', x)"
  shows "gg_policy g' = gg_policy g" and "gg_active_total g' = gg_active_total g"
    and "gg_active_per_user g' = gg_active_per_user g" and "gg_refusals g' = gg_refusals g"
  using assms by (auto simp: rate_exceeded_def Let_def split: option.splits list.splits if_splits)

lemma check_fields:
  assumes "check now u lv nb via g = (g', x)"
  shows "gg_policy g' = gg_policy g" and "gg_active_total g' = gg_active_total g"
    and "gg_active_per_user g' = gg_active_per_user g" and "gg_refusals g' = gg_refusals g"
  using assms rate_exceeded_fields [of now "base u" g]
  by (auto simp: check_def Let_def split: if_splits prod.splits)

lemma dropWhile_sorted_filter:
  "sorted xs \<Longrightarrow> dropWhile (\<lambda>t. t < c) xs = filter (\<lambda>t. c \<le> t) (xs :: timestamp list)"
proof (induction xs)
  case (Cons x xs)
  show ?case
  proof (cases "x < c")
    case False
    then have "\<forall>y \<in> set xs. c \<le> y" using Cons.prems by auto
    then have "filter (\<lambda>t. c \<le> t) xs = xs" by (simp add: filter_id_conv)
    with False show ?thesis by simp
  qed (use Cons in simp)
qed simp

text \<open>On an ordered window the rate gate counts the accepted connects of the last sixty seconds.\<close>

lemma rate_exceeded_iff:
  assumes "sorted (dflt [] (map_of (gg_rate g) b))" and "0 < gp_rate_limit_per_min (gg_policy g)"
  shows "snd (rate_exceeded now b g) \<longleftrightarrow> gp_rate_limit_per_min (gg_policy g) \<le>
    int (length (filter (\<lambda>t. now - 60 \<le> t) (dflt [] (map_of (gg_rate g) b))))"
proof (cases "map_of (gg_rate g) b")
  case None
  with assms(2) show ?thesis by (simp add: rate_exceeded_def dflt_def)
next
  case (Some dq)
  have "sorted dq" using assms(1) Some by (simp add: dflt_def)
  note d = dropWhile_sorted_filter [OF this, of "now - 60"]
  have "snd (rate_exceeded now b g) \<longleftrightarrow> dropWhile (\<lambda>t. t < now - 60) dq \<noteq> [] \<and>
      gp_rate_limit_per_min (gg_policy g) \<le> int (length (dropWhile (\<lambda>t. t < now - 60) dq))"
    using Some by (cases dq) (simp_all add: rate_exceeded_def Let_def)
  also have "\<dots> \<longleftrightarrow> gp_rate_limit_per_min (gg_policy g) \<le> int (length (filter (\<lambda>t. now - 60 \<le> t) dq))"
    unfolding d using assms(2) by (cases "filter (\<lambda>t. now - 60 \<le> t) dq") auto
  finally show ?thesis using Some by (simp add: dflt_def)
qed

lemma held_by_Cons: "held_by b (u # held) = (if base u = b then Suc (held_by b held) else held_by b held)"
  by (simp add: held_by_def)

lemma held_by_remove1:
  "u \<in> set held \<Longrightarrow> held_by b (remove1 u held) = (if base u = b then held_by b held - 1 else held_by b held)"
  by (auto simp: held_by_def filter_remove1 length_remove1)

lemma held_by_pos: "u \<in> set held \<Longrightarrow> 0 < held_by (base u) held"
  by (auto simp: held_by_def filter_empty_conv)

lemma gateway_inv_guard:
  assumes "gateway_inv s" and "gg_policy g = gg_policy (gw_guard s)"
    and "gg_active_total g = gg_active_total (gw_guard s)"
    and "gg_active_per_user g = gg_active_per_user (gw_guard s)"
    and "length (gg_refusals g) \<le> refusal_history"
  shows "gateway_inv (s\<lparr>gw_guard := g\<rparr>)"
  using assms by (simp add: gateway_inv_def)

lemma acquire_held:
  assumes "gateway_inv s" and "acquire now u (gw_guard s) = (g, True)"
  shows "gateway_inv (s\<lparr>gw_guard := g, gw_held := u # gw_held s\<rparr>)"
proof -
  let ?p = "gg_policy (gw_guard s)"
  have n: "active_for u (gw_guard s) = int (held_by (base u) (gw_held s))"
    using assms(1) by (simp add: active_for_def gateway_inv_def)
  from assms(2) have caps: "gg_active_total (gw_guard s) < gp_max_circuits ?p"
      "active_for u (gw_guard s) < gp_max_circuits_per_user ?p"
    and g: "gg_policy g = ?p" "gg_active_total g = gg_active_total (gw_guard s) + 1"
      "gg_active_per_user g = AList.update (base u) (active_for u (gw_guard s) + 1) (gg_active_per_user (gw_guard s))"
      "gg_refusals g = gg_refusals (gw_guard s)"
    by (auto simp: acquire_def Let_def split: if_splits)
  with n assms(1) show ?thesis
    by (auto simp: gateway_inv_def held_by_Cons)
qed

lemma acquire_refused: "acquire now u g = (g', False) \<Longrightarrow> g' = g"
  by (auto simp: acquire_def Let_def split: if_splits)

lemma release_held:
  assumes "gateway_inv s" and "u \<in> set (gw_held s)"
  shows "gateway_inv (s\<lparr>gw_guard := release u (gw_guard s), gw_held := remove1 u (gw_held s)\<rparr>)"
proof -
  have n: "active_for u (gw_guard s) = int (held_by (base u) (gw_held s))"
    using assms(1) by (simp add: active_for_def gateway_inv_def)
  have pos: "0 < held_by (base u) (gw_held s)" by (rule held_by_pos [OF assms(2)])
  have "0 < length (gw_held s)" using assms(2) by (rule length_pos_if_in_set)
  then have len: "int (length (remove1 u (gw_held s))) = int (length (gw_held s)) - 1" "0 < length (gw_held s)"
    using assms(2) by (simp_all only: length_remove1 if_True)
  have per: "map_of (gg_active_per_user (release u (gw_guard s))) b =
      (if held_by b (remove1 u (gw_held s)) = 0 then None else Some (int (held_by b (remove1 u (gw_held s)))))" for b
    using assms(1) pos
    by (auto simp: release_def Let_def n held_by_remove1 [OF assms(2)] gateway_inv_def)
  have le: "held_by b (remove1 u (gw_held s)) \<le> held_by b (gw_held s)" for b
    by (simp add: held_by_remove1 [OF assms(2)])
  have cap: "int (held_by b (gw_held s)) \<le> max 0 (gp_max_circuits_per_user (gg_policy (gw_guard s)))" for b
    using assms(1) by (simp add: gateway_inv_def)
  have "int (held_by b (remove1 u (gw_held s))) \<le> max 0 (gp_max_circuits_per_user (gg_policy (gw_guard s)))" for b
    using le [of b] cap [of b] by linarith
  then show ?thesis
    using assms(1) len per by (simp add: gateway_inv_def) (simp add: release_def Let_def)
qed

lemma gateway_inv_step: "gateway_inv s \<Longrightarrow> gateway_inv (gateway_step s e)"
proof (cases e)
  case (OpenCircuit now u lv nb via)
  assume s: "gateway_inv s"
  obtain g x where c: "check now u lv nb via (gw_guard s) = (g, x)" by fastforce
  have gi: "gateway_inv (s\<lparr>gw_guard := g\<rparr>)"
    using s check_fields [OF c] by (intro gateway_inv_guard) (auto simp: gateway_inv_def)
  obtain g2 ok where a: "acquire now u g = (g2, ok)" by fastforce
  show ?thesis
  proof (cases "x = None \<and> ok")
    case True
    then show ?thesis using acquire_held [OF gi, of now u g2] c a OpenCircuit by (simp add: gateway_step_def)
  next
    case False
    then show ?thesis
      using gi c a OpenCircuit acquire_refused [of now u g g2]
      by (auto simp: gateway_step_def split: option.splits)
  qed
next
  case (CloseCircuit u)
  assume "gateway_inv s"
  with CloseCircuit release_held [of s u] show ?thesis by (simp add: gateway_step_def)
next
  case (Refused now u reason dest)
  assume "gateway_inv s"
  with Refused show ?thesis
    by (simp add: gateway_step_def gateway_inv_guard note_refusal_def Let_def)
qed

lemma gateway_policy_step [simp]: "gg_policy (gw_guard (gateway_step s e)) = gg_policy (gw_guard s)"
proof (cases e)
  case (OpenCircuit now u lv nb via)
  obtain g x where c: "check now u lv nb via (gw_guard s) = (g, x)" by fastforce
  have "gg_policy g = gg_policy (gw_guard s)" by (rule check_fields [OF c])
  with OpenCircuit c show ?thesis
    by (auto simp: gateway_step_def acquire_def Let_def split: option.splits)
qed (simp_all add: gateway_step_def release_def note_refusal_def Let_def)

interpretation gateway_ts: bounded_transition gateway_step gateway_inv
  "\<lambda>s. nat (gg_active_total (gw_guard s))" "\<lambda>s. nat (gp_max_circuits (gg_policy (gw_guard s)))"
proof unfold_locales
  show "gateway_inv s \<Longrightarrow> gateway_inv (gateway_step s e)" for s e by (rule gateway_inv_step)
  show "nat (gg_active_total (gw_guard s)) \<le> nat (gp_max_circuits (gg_policy (gw_guard s)))"
    if "gateway_inv s" for s
    using that by (simp add: gateway_inv_def) linarith
  show "nat (gp_max_circuits (gg_policy (gw_guard (gateway_step s e)))) =
      nat (gp_max_circuits (gg_policy (gw_guard s)))" for s e
    by simp
qed

lemma gateway_inv_init: "gateway_inv \<lparr>gw_guard = guard_init p, gw_held = []\<rparr>"
  by (simp add: gateway_inv_def guard_init_def held_by_def refusal_history_def)

end
