(* ===== verification/Access_Properties.thy ===== *)
theory Access_Properties
  imports Gateway
begin

text \<open>
  The properties of who may do what: the access level of a session and the one-time codes that
  raise it, the lockout, the keys of the users table, and the gateway's policy and caps.
\<close>

section \<open>One-time codes\<close>

abbreviation sample_cfg :: auth_cfg where
  "sample_cfg \<equiv> \<lparr>ac_callsign = ''KK6XYZ'', ac_max_attempts = 3, ac_lockout_secs = 900,
     ac_time_step = 30, ac_enforce_active = False\<rparr>"

abbreviation sample_user :: user where
  "sample_user \<equiv> (new_user 1 ''N0CALL'' True 0)\<lparr>u_totp_secret := Some [1, 2, 3], u_otp_type := ''hotp''\<rparr>"

abbreviation sample_db :: users_db where
  "sample_db \<equiv> \<lparr>db_users = [sample_user], db_next_id = 2\<rparr>"

abbreviation sample_state :: auth_state where
  "sample_state \<equiv> \<lparr>as_callsign = ''N0CALL'', as_level = IDENTIFIED, as_user_id = Some 1, as_approved = True\<rparr>"

lemma sample_db_inv: "users_inv sample_db"
  by (simp add: users_inv_def new_user_def)

lemma sample_db_user: "get_by_callsign (as_callsign sample_state) sample_db = Some sample_user"
  by code_simp



text \<open>
  A locked account answers every attempt, the right code included, with a refusal of at least
  one minute, and changes nothing.
\<close>

theorem locked_account_refuses:
  assumes "get_by_callsign (as_callsign st) db = Some u" and "is_locked now u"
  shows "\<exists>mins \<ge> 1. verify_otp cfg now given st db = Some (False, Locked mins, st, db)"
  by (rule verify_otp_locked [OF assms])

lemma locked_account_refuses_witness:
  "\<exists>mins \<ge> 1. verify_otp sample_cfg 100 ''755224'' sample_state
      (sample_db\<lparr>db_users := [sample_user\<lparr>u_locked_until := Some 400\<rparr>]\<rparr>)
    = Some (False, Locked mins, sample_state, sample_db\<lparr>db_users := [sample_user\<lparr>u_locked_until := Some 400\<rparr>]\<rparr>)"
proof (rule locked_account_refuses)
  show "get_by_callsign (as_callsign sample_state) (sample_db\<lparr>db_users := [sample_user\<lparr>u_locked_until := Some 400\<rparr>]\<rparr>)
    = Some (sample_user\<lparr>u_locked_until := Some 400\<rparr>)" by code_simp
  show "is_locked 100 (sample_user\<lparr>u_locked_until := Some 400\<rparr>)" by code_simp
qed



text \<open>
  A counter-based code is used up: no attempt lowers the account's counter, and a successful
  one moves it past the counter value whose code was given, by at most three.
\<close>

theorem hotp_counter_advances:
  assumes "users_inv db" and "get_by_callsign (as_callsign st) db = Some u" and "u_otp_type u = ''hotp''"
    and "verify_otp cfg now given st db = Some (r, msg, st', db')"
  shows "\<exists>u'. get_by_callsign (as_callsign st) db' = Some u' \<and> u_hotp_counter u \<le> u_hotp_counter u'
    \<and> (r \<longrightarrow> u_hotp_counter u < u_hotp_counter u' \<and> u_hotp_counter u' \<le> u_hotp_counter u + 3
         \<and> hotp_code (the (u_totp_secret u)) (u_hotp_counter u' - 1) 6 = Some (strip given))"
proof (cases r)
  case True
  with assms(4) have v: "verify_otp cfg now given st db = Some (True, msg, st', db')" by simp
  from verify_otp_success [OF assms(1) v] assms(2) obtain secret nc where
    m: "match_code cfg now u secret (strip given) = Some (True, nc)" and s: "u_totp_secret u = Some secret"
    and g: "get_by_callsign (as_callsign st) db' = Some (u\<lparr>u_auth_failures := 0, u_locked_until := None,
        u_hotp_counter := (case nc of None \<Rightarrow> u_hotp_counter u | Some n \<Rightarrow> n)\<rparr>)"
    by (metis option.inject)
  from m assms(3) obtain off where o: "hotp_search secret (strip given) (u_hotp_counter u) [0, 1, 2] = Some (Some off)"
    and nc: "nc = Some (u_hotp_counter u + off + 1)"
    by (auto simp: match_code_def split: option.splits)
  from hotp_search_spec [OF o] have "off \<in> {0, 1, 2}" "hotp_code secret (u_hotp_counter u + off) 6 = Some (strip given)"
    by auto
  with g nc s show ?thesis by auto
next
  case False
  show ?thesis
  proof (cases "is_locked now u \<or> \<not> has_secret u")
    case True
    with assms(2,4) have "db' = db" by (cases "is_locked now u") (simp_all add: verify_otp_def Let_def)
    with assms(2) False show ?thesis by simp
  next
    case False
    with \<open>\<not> r\<close> assms(4) verify_otp_unmatched(2) [OF assms(1,2), of now cfg given msg st' db'] \<open>\<not> r\<close>
    show ?thesis by auto
  qed
qed

lemma hotp_counter_advances_witness:
  "\<exists>r msg st' db' u'. verify_otp sample_cfg 100 ''12345'' sample_state sample_db = Some (r, msg, st', db')
    \<and> get_by_callsign (as_callsign sample_state) db' = Some u' \<and> u_hotp_counter sample_user \<le> u_hotp_counter u'"
proof -
  have v: "verify_otp sample_cfg 100 ''12345'' sample_state sample_db = Some (False, FailedRemaining 2, sample_state,
      \<lparr>db_users = [sample_user\<lparr>u_auth_failures := 1\<rparr>], db_next_id = 2\<rparr>)"
    by code_simp
  have t: "u_otp_type sample_user = ''hotp''" by simp
  show ?thesis using hotp_counter_advances [OF sample_db_inv sample_db_user t v] v by blast
qed

section \<open>The users table\<close>

datatype account_event =
    SignOn timestamp callsign
  | EnterCode timestamp string auth_state
  | Approve int bool
  | Ban int bool
  | SetSecret int bytes string
  | ClearSecret int
  | EditProfile int string string
  | ColorMode int string

definition account_step :: "auth_cfg \<Rightarrow> users_db \<Rightarrow> account_event \<Rightarrow> users_db" where
  "account_step cfg db e = (case e of
     SignOn now c \<Rightarrow> fst (identify cfg now c db)
   | EnterCode now given st \<Rightarrow> (case verify_otp cfg now given st db of None \<Rightarrow> db | Some (_, _, _, db') \<Rightarrow> db')
   | Approve i b \<Rightarrow> set_approved i b db
   | Ban i b \<Rightarrow> set_banned i b db
   | SetSecret i s t \<Rightarrow> set_otp_secret i s t db
   | ClearSecret i \<Rightarrow> clear_otp_secret i db
   | EditProfile i n q \<Rightarrow> update_profile i n q db
   | ColorMode i m \<Rightarrow> set_color_mode i m db)"

interpretation accounts: transition "account_step cfg" users_inv for cfg :: auth_cfg
proof unfold_locales
  fix db e assume inv: "users_inv db"
  show "users_inv (account_step cfg db e)"
  proof (cases e)
    case (SignOn now c)
    obtain db' st cr where "identify cfg now c db = (db', st, cr)" by (metis prod_cases3)
    with users_inv_identify [OF inv this] SignOn show ?thesis by (simp add: account_step_def)
  next
    case (EnterCode now given st)
    then show ?thesis using users_inv_verify [OF inv] inv
      by (auto simp: account_step_def split: option.splits)
  qed (use inv in \<open>simp_all add: account_step_def set_approved_def set_banned_def set_otp_secret_def
        clear_otp_secret_def update_profile_def set_color_mode_def users_inv_update\<close>)
qed

text \<open>
  On every run of sign-ons, code entries and administrative changes from an empty table, ids
  stay unique and below the next one, and no two accounts have callsigns that differ only in case.
\<close>

theorem account_keys_unique:
  "users_inv (run (account_step cfg) \<lparr>db_users = [], db_next_id = n\<rparr> es)"
  by (rule accounts.inv_run) (simp add: users_inv_def)

section \<open>The gateway\<close>

text \<open>
  C13. On every run of opens, closes and refusals under a policy with positive caps, the circuits in
  use never exceed the total cap, no base callsign holds more than the per-user cap, the guard's
  counters are exactly the circuits held, and at most fifty refusals are remembered.
\<close>

theorem gateway_caps_hold:
  "gateway_inv (run gateway_step \<lparr>gw_guard = guard_init p, gw_held = []\<rparr> es)
    \<and> nat (gg_active_total (gw_guard (run gateway_step \<lparr>gw_guard = guard_init p, gw_held = []\<rparr> es)))
        \<le> nat (gp_max_circuits p)"
  using gateway_ts.inv_run [OF gateway_inv_init, of p es] gateway_ts.run_within [OF gateway_inv_init, of p es]
  by (simp add: guard_init_def)

text \<open>
  The rate gate counts the last minute: with the times of a caller's circuits in order, the
  gate closes exactly when at least the configured number of them lie within sixty seconds.
\<close>

theorem rate_gate_counts_last_minute:
  assumes "sorted (dflt [] (map_of (gg_rate g) b))" and "0 < gp_rate_limit_per_min (gg_policy g)"
  shows "snd (rate_exceeded now b g) \<longleftrightarrow> gp_rate_limit_per_min (gg_policy g) \<le>
    int (length (filter (\<lambda>t. now - 60 \<le> t) (dflt [] (map_of (gg_rate g) b))))"
  by (rule rate_exceeded_iff [OF assms])

abbreviation sample_guard :: guard where
  "sample_guard \<equiv> (guard_init (permissive 4))\<lparr>gg_policy := (permissive 4)\<lparr>gp_rate_limit_per_min := 2\<rparr>,
     gg_rate := [(''N0CALL'', [10, 75, 90])]\<rparr>"

lemma rate_gate_counts_last_minute_witness:
  "snd (rate_exceeded 100 ''N0CALL'' sample_guard) \<longleftrightarrow> gp_rate_limit_per_min (gg_policy sample_guard) \<le>
    int (length (filter (\<lambda>t. 100 - 60 \<le> t) (dflt [] (map_of (gg_rate sample_guard) ''N0CALL''))))"
  by (rule rate_gate_counts_last_minute) (simp_all add: dflt_def)

text \<open>
  What a passed check means: the caller is on no deny list under either form of the callsign,
  is on the allow list if there is one, has at least the required level, and is not sent back over
  the link it arrived on.
\<close>

theorem check_admits_only_permitted:
  assumes "check now u level nb via g = (g', None)"
  shows "norm u \<notin> gp_deny (gg_policy g) \<and> base u \<notin> gp_deny (gg_policy g)
    \<and> (gp_allow (gg_policy g) = {} \<or> norm u \<in> gp_allow (gg_policy g) \<or> base u \<in> gp_allow (gg_policy g))
    \<and> gp_min_auth (gg_policy g) \<le> (case level of Some l \<Rightarrow> l | None \<Rightarrow> IDENTIFIED)
    \<and> (gp_interlock (gg_policy g) \<longrightarrow> via = [] \<or> norm nb \<noteq> norm via)
    \<and> gg_policy g' = gg_policy g \<and> gg_active_total g' = gg_active_total g"
  using assms check_fields(1,2) [OF assms]
  by (auto simp: check_def Let_def case_prod_beta not_less split: if_splits option.splits)

lemma check_admits_only_permitted_witness:
  "norm ''n0call-3'' \<notin> gp_deny (permissive 4) \<and> base ''n0call-3'' \<notin> gp_deny (permissive 4)"
proof -
  have "check 0 ''n0call-3'' None ''K1'' [] (guard_init (permissive 4)) = (guard_init (permissive 4), None)"
    by (simp add: check_def guard_init_def permissive_def Let_def) code_simp
  from check_admits_only_permitted [OF this] show ?thesis by (simp add: guard_init_def)
qed

end
