(* ===== verification/Circuit.thy ===== *)
theory Circuit
  imports Netrom_Frame
begin

text \<open>
  \<open>bbs/netrom/circuit.py\<close>, \<open>NetromCircuit\<close> and \<open>_NetromCircuitWriter\<close>: one NET/ROM virtual
  circuit. The record holds the object's attributes; the reader is the list of the chunks fed to
  it, an asyncio event is its flag, the guard timer is whether it is armed. The AX.25 writer below
  is a \<open>link\<close>: the frames written and whether it is closing. \<open>None\<close> is a Python exception (the
  ValueError of encoding a malformed callsign, or the assertion of \<open>feed_data\<close> after \<open>feed_eof\<close>).
  Sequence variables are 8-bit words: \<open>& 0xFF\<close> is their arithmetic.
\<close>

definition DEFAULT_TTL :: int where "DEFAULT_TTL = 25"
definition MAX_WINDOW :: int where "MAX_WINDOW = 7"
definition MAX_REASSEMBLY_BYTES :: nat where "MAX_REASSEMBLY_BYTES = 64 * 1024"

datatype circuit_state = CONNECTING | AWAITING_CONNECT | CONNECTED | DISCONNECTING | CLOSED

record link =
  lk_out :: "bytes list"
  lk_closing :: bool

record circuit =
  c_local_idx :: int
  c_local_id :: int
  c_remote_idx :: int
  c_remote_id :: int
  c_local_call :: callsign
  c_user_call :: callsign
  c_origin_node_call :: callsign
  c_via_node :: callsign
  c_state :: circuit_state
  c_vs :: byte
  c_vr :: byte
  c_va :: byte
  c_accepted_window :: int
  c_info_mtu :: nat
  c_reassembly :: bytes
  c_pending :: "(bytes \<times> bool) list"
  c_window_event :: bool
  c_reader :: "bytes list"
  c_reader_eof :: bool
  c_writer_closing :: bool
  c_disc_guard :: bool
  c_closed_event :: bool
  c_connected_event :: bool

section \<open>Sending\<close>

definition send_l3 :: "bytes \<Rightarrow> link \<Rightarrow> link" where
  "send_l3 frame_bytes lk = (if lk_closing lk then lk else lk\<lparr>lk_out := lk_out lk @ [frame_bytes]\<rparr>)"

definition send_frame :: "l3_header \<Rightarrow> bytes \<Rightarrow> link \<Rightarrow> link option" where
  "send_frame h tail lk = map_option (\<lambda>fb. send_l3 fb lk) (encode_l3_frame h tail)"

definition build_header :: "circuit \<Rightarrow> int \<Rightarrow> l3_header" where
  "build_header c opcode_flags =
     \<lparr>h_origin_call = c_local_call c, h_dest_call = c_origin_node_call c, h_ttl = DEFAULT_TTL,
      h_circuit_idx = c_remote_idx c, h_circuit_id = c_remote_id c, h_tx_seq = uint (c_vs c),
      h_rx_seq = uint (c_vr c), h_opcode_flags = opcode_flags\<rparr>"

definition send_connect_request :: "int \<Rightarrow> circuit \<Rightarrow> link \<Rightarrow> link option" where
  "send_connect_request proposed_window c lk = do {
     let header = \<lparr>h_origin_call = c_local_call c, h_dest_call = c_origin_node_call c,
        h_ttl = DEFAULT_TTL, h_circuit_idx = c_local_idx c, h_circuit_id = c_local_id c,
        h_tx_seq = 0, h_rx_seq = 0, h_opcode_flags = OPCODE_CONNECT_REQ\<rparr>;
     tail \<leftarrow> encode_connect_request_tail proposed_window (c_user_call c) (c_local_call c);
     send_frame header tail lk
   }"

definition send_connect_ack :: "int \<Rightarrow> bool \<Rightarrow> circuit \<Rightarrow> link \<Rightarrow> (circuit \<times> link) option" where
  "send_connect_ack accepted_window refused c lk = do {
     let flags = OPCODE_CONNECT_ACK OR (if refused then FLAG_CHOKE else 0);
     let header = \<lparr>h_origin_call = c_local_call c, h_dest_call = c_origin_node_call c,
        h_ttl = DEFAULT_TTL, h_circuit_idx = c_remote_idx c, h_circuit_id = c_remote_id c,
        h_tx_seq = c_local_idx c, h_rx_seq = c_local_id c, h_opcode_flags = flags\<rparr>;
     lk \<leftarrow> send_frame header (encode_connect_ack_tail accepted_window) lk;
     Some (if refused then c else c\<lparr>c_state := CONNECTED, c_connected_event := True\<rparr>, lk)
   }"

definition send_info_fragment :: "bytes \<Rightarrow> bool \<Rightarrow> circuit \<Rightarrow> link \<Rightarrow> (circuit \<times> link) option" where
  "send_info_fragment chunk more_follows c lk = do {
     let flags = OPCODE_INFORMATION OR (if more_follows then FLAG_MORE_FOLLOWS else 0);
     lk \<leftarrow> send_frame (build_header c flags) chunk lk;
     Some (c\<lparr>c_vs := c_vs c + 1\<rparr>, lk)
   }"

definition send_info_ack :: "circuit \<Rightarrow> link \<Rightarrow> link option" where
  "send_info_ack c lk = send_frame (build_header c OPCODE_INFORMATION_ACK) [] lk"

definition send_disconnect_request :: "circuit \<Rightarrow> link \<Rightarrow> link option" where
  "send_disconnect_request c lk = send_frame (build_header c OPCODE_DISCONNECT_REQ) [] lk"

definition send_disconnect_ack :: "circuit \<Rightarrow> link \<Rightarrow> link option" where
  "send_disconnect_ack c lk = send_frame (build_header c OPCODE_DISCONNECT_ACK) [] lk"

section \<open>The send window\<close>

definition frames_in_flight :: "circuit \<Rightarrow> int" where
  "frames_in_flight c = uint (c_vs c - c_va c)"

definition advance_va :: "int \<Rightarrow> circuit \<Rightarrow> circuit" where
  "advance_va new_va c =
     (let v = low_byte new_va in
      if v \<noteq> c_va c then c\<lparr>c_va := v, c_window_event := True\<rparr> else c)"

definition window_full :: "circuit \<Rightarrow> bool" where
  "window_full c \<longleftrightarrow> c_accepted_window c \<le> frames_in_flight c"

section \<open>Closing\<close>

definition set_closed :: "circuit \<Rightarrow> circuit" where
  "set_closed c =
     (if c_state c = CLOSED then c
      else c\<lparr>c_state := CLOSED, c_disc_guard := False, c_window_event := True,
             c_connected_event := True, c_reader_eof := True, c_closed_event := True\<rparr>)"

definition initiate_disconnect :: "circuit \<Rightarrow> link \<Rightarrow> (circuit \<times> link) option" where
  "initiate_disconnect c lk =
     (if c_state c \<in> {DISCONNECTING, CLOSED} then Some (c, lk)
      else do {
        lk \<leftarrow> send_disconnect_request c lk;
        Some (c\<lparr>c_state := DISCONNECTING, c_disc_guard := True\<rparr>, lk)
      })"

text \<open>\<open>_reap_disconnecting\<close>: the circuit afterwards, and whether the manager must drop it.\<close>

definition reap_disconnecting :: "circuit \<Rightarrow> circuit \<times> bool" where
  "reap_disconnecting c =
     (let c = c\<lparr>c_disc_guard := False\<rparr> in
      if c_state c \<noteq> DISCONNECTING then (c, False) else (set_closed c, True))"

section \<open>The session's writer\<close>

text \<open>The loop of \<open>write\<close>: slices of \<open>info_mtu\<close> bytes, each with its MORE FOLLOWS flag.\<close>

function write_loop :: "nat \<Rightarrow> nat \<Rightarrow> bytes \<Rightarrow> (bytes \<times> bool) list" where
  "write_loop mtu offset data =
     (if 0 < mtu \<and> offset < length data
      then (slice offset (offset + mtu) data, offset + mtu < length data) # write_loop mtu (offset + mtu) data
      else [])"
  by pat_completeness auto
termination
  by (relation "measure (\<lambda>(mtu, offset, data). length data - offset)") auto

declare write_loop.simps [simp del]

definition writer_write :: "bytes \<Rightarrow> circuit \<Rightarrow> circuit" where
  "writer_write data c =
     (if c_writer_closing c \<or> data = [] then c
      else if c_state c \<noteq> CONNECTED then c
      else c\<lparr>c_pending := c_pending c @ write_loop (c_info_mtu c) 0 data\<rparr>)"

text \<open>One turn of the loop of \<open>drain\<close>; a full window leaves the task waiting on the event.\<close>

definition drain_turn :: "circuit \<Rightarrow> link \<Rightarrow> (circuit \<times> link) option" where
  "drain_turn c lk =
     (case c_pending c of
        [] \<Rightarrow> Some (c, lk)
      | (chunk, more_follows) # rest \<Rightarrow>
          if c_state c \<noteq> CONNECTED then Some (c\<lparr>c_pending := []\<rparr>, lk)
          else if window_full c then Some (c\<lparr>c_window_event := False\<rparr>, lk)
          else send_info_fragment chunk more_follows (c\<lparr>c_pending := rest\<rparr>) lk)"

text \<open>The turns of \<open>drain\<close> up to the point where it returns or waits for an acknowledgement.\<close>

fun drain_turns :: "nat \<Rightarrow> circuit \<Rightarrow> link \<Rightarrow> (circuit \<times> link) option" where
  "drain_turns 0 c lk = Some (c, lk)"
| "drain_turns (Suc n) c lk = Option.bind (drain_turn c lk) (\<lambda>(c, lk). drain_turns n c lk)"

definition drain :: "circuit \<Rightarrow> link \<Rightarrow> (circuit \<times> link) option" where
  "drain c lk = drain_turns (length (c_pending c)) c lk"

definition writer_is_closing :: "circuit \<Rightarrow> bool" where
  "writer_is_closing c \<longleftrightarrow> c_writer_closing c \<or> c_state c \<in> {DISCONNECTING, CLOSED}"

definition writer_close :: "circuit \<Rightarrow> link \<Rightarrow> (circuit \<times> link) option" where
  "writer_close c lk =
     (if c_writer_closing c then Some (c, lk)
      else initiate_disconnect (c\<lparr>c_writer_closing := True\<rparr>) lk)"

section \<open>Receiving\<close>

definition feed_data :: "bytes \<Rightarrow> circuit \<Rightarrow> circuit option" where
  "feed_data payload c =
     (if c_reader_eof c then None else Some (c\<lparr>c_reader := c_reader c @ [payload]\<rparr>))"

text \<open>The reassembly step of \<open>handle_information\<close>.\<close>

definition reassemble :: "l3_header \<Rightarrow> bytes \<Rightarrow> circuit \<Rightarrow> circuit option" where
  "reassemble h info c =
     (if MAX_REASSEMBLY_BYTES < length (c_reassembly c) + length info
      then Some (c\<lparr>c_reassembly := []\<rparr>)
      else
        (let buf = c_reassembly c @ info in
         if h_more_follows h then Some (c\<lparr>c_reassembly := buf\<rparr>)
         else if buf = [] then Some (c\<lparr>c_reassembly := []\<rparr>)
         else feed_data buf (c\<lparr>c_reassembly := []\<rparr>)))"

definition handle_information :: "l3_header \<Rightarrow> bytes \<Rightarrow> circuit \<Rightarrow> link \<Rightarrow> (circuit \<times> link) option" where
  "handle_information h info c lk =
     (if low_byte (h_tx_seq h) \<noteq> c_vr c then do {
        let c = advance_va (h_rx_seq h) c;
        lk \<leftarrow> send_info_ack c lk;
        Some (c, lk)
      }
      else do {
        c \<leftarrow> reassemble h info c;
        let c = advance_va (h_rx_seq h) (c\<lparr>c_vr := c_vr c + 1\<rparr>);
        lk \<leftarrow> send_info_ack c lk;
        Some (c, lk)
      })"

definition handle_information_ack :: "l3_header \<Rightarrow> circuit \<Rightarrow> circuit" where
  "handle_information_ack h c = advance_va (h_rx_seq h) c"

definition handle_connect_ack :: "l3_header \<Rightarrow> int \<Rightarrow> bool \<Rightarrow> circuit \<Rightarrow> circuit" where
  "handle_connect_ack h accepted_window refused c =
     (if c_state c \<noteq> AWAITING_CONNECT then c
      else if refused then set_closed c
      else c\<lparr>c_remote_idx := h_tx_seq h AND 0xFF, c_remote_id := h_rx_seq h AND 0xFF,
             c_accepted_window := (if accepted_window \<noteq> 0 then min (c_accepted_window c) accepted_window
                                   else c_accepted_window c),
             c_state := CONNECTED, c_connected_event := True\<rparr>)"

definition handle_disconnect_request :: "circuit \<Rightarrow> link \<Rightarrow> (circuit \<times> link) option" where
  "handle_disconnect_request c lk = map_option (\<lambda>lk. (set_closed c, lk)) (send_disconnect_ack c lk)"

definition handle_disconnect_ack :: "circuit \<Rightarrow> circuit" where
  "handle_disconnect_ack c = (if c_state c = DISCONNECTING then set_closed c else c)"

section \<open>Lemmas: fragments\<close>

fun well_flagged :: "(bytes \<times> bool) list \<Rightarrow> bool" where
  "well_flagged [] = False"
| "well_flagged [(chunk, mf)] = (\<not> mf)"
| "well_flagged ((chunk, mf) # f # fs) = (mf \<and> well_flagged (f # fs))"

lemma write_loop_spec:
  assumes "0 < mtu" and "off < length data"
  shows "concat (map fst (write_loop mtu off data)) = drop off data"
    and "well_flagged (write_loop mtu off data)"
    and "\<forall>f \<in> set (write_loop mtu off data). fst f \<noteq> [] \<and> length (fst f) \<le> mtu"
  using assms
proof (atomize (full), induction mtu off data rule: write_loop.induct)
  case (1 mtu off data)
  have split: "drop off data = slice off (off + mtu) data @ drop (off + mtu) data"
    by (simp add: slice_def) (metis add.commute append_take_drop_id drop_drop)
  have chunk: "slice off (off + mtu) data \<noteq> []" "length (slice off (off + mtu) data) \<le> mtu"
    using "1.prems" by (auto simp: slice_def)
  have eq: "write_loop mtu off data =
      (slice off (off + mtu) data, off + mtu < length data) # write_loop mtu (off + mtu) data"
    using "1.prems" by (subst write_loop.simps) simp
  show ?case
  proof (cases "off + mtu < length data")
    case True
    have ih: "concat (map fst (write_loop mtu (off + mtu) data)) = drop (off + mtu) data"
      "well_flagged (write_loop mtu (off + mtu) data)"
      "\<forall>f \<in> set (write_loop mtu (off + mtu) data). fst f \<noteq> [] \<and> length (fst f) \<le> mtu"
      using "1.IH" "1.prems" True by auto
    obtain g gs where "write_loop mtu (off + mtu) data = g # gs"
      using ih(2) by (cases "write_loop mtu (off + mtu) data") auto
    with ih split chunk True show ?thesis by (simp add: eq)
  next
    case False
    then have "write_loop mtu (off + mtu) data = []" by (subst write_loop.simps) simp
    with False split chunk show ?thesis by (simp add: eq)
  qed
qed

section \<open>Lemmas: sending never fails on good callsigns\<close>

definition encodable :: "string \<Rightarrow> bool" where
  "encodable s \<longleftrightarrow> encode_wire_call s \<noteq> None"

definition sendable :: "circuit \<Rightarrow> bool" where
  "sendable c \<longleftrightarrow> encodable (c_local_call c) \<and> encodable (c_origin_node_call c)"

lemma canonical_encodable: "canonical s \<Longrightarrow> encodable s"
  by (auto simp: encodable_def elim: wire.encE)

lemma encodable_call_ssid:
  assumes "list_all is_call_char c" shows "encodable c" and "encodable (c @ CHR 0x2D # nat_str k)"
proof -
  have u: "upper c = c" using assms by simp
  have d: "CHR 0x2D \<notin> set c" using assms by (auto simp: list_all_iff)
  show "encodable c" by (simp add: encodable_def encode_wire_call_def u rsplit1_none d)
  show "encodable (c @ CHR 0x2D # nat_str k)"
    by (simp add: encodable_def encode_wire_call_def u rsplit1_at)
qed

lemma decoded_encodable:
  assumes "wire_call_is_valid data" and "decode_wire_call data = Some s" shows "encodable s"
  using decode_wire_call_valid [OF assms] encodable_call_ssid by (auto split: if_splits)

lemma send_frame_total:
  assumes "encodable (h_origin_call h)" and "encodable (h_dest_call h)"
  shows "\<exists>lk'. send_frame h tail lk = Some lk' \<and> lk_closing lk' = lk_closing lk"
proof -
  have "\<exists>fb. encode_l3_frame h tail = Some fb"
    using assms by (auto simp: encode_l3_frame_def encode_l3_header_def encodable_def Let_def)
  then obtain fb where "send_frame h tail lk = Some (send_l3 fb lk)" by (auto simp: send_frame_def)
  moreover have "lk_closing (send_l3 fb lk) = lk_closing lk" by (simp add: send_l3_def)
  ultimately show ?thesis by blast
qed

lemma build_header_calls [simp]:
  "h_origin_call (build_header c fl) = c_local_call c" "h_dest_call (build_header c fl) = c_origin_node_call c"
  by (simp_all add: build_header_def)

lemma send_total:
  assumes "sendable c"
  shows "\<exists>lk'. send_info_ack c lk = Some lk' \<and> lk_closing lk' = lk_closing lk"
    and "\<exists>lk'. send_disconnect_request c lk = Some lk' \<and> lk_closing lk' = lk_closing lk"
    and "\<exists>lk'. send_disconnect_ack c lk = Some lk' \<and> lk_closing lk' = lk_closing lk"
    and "\<exists>lk'. send_info_fragment chunk m c lk = Some (c\<lparr>c_vs := c_vs c + 1\<rparr>, lk') \<and> lk_closing lk' = lk_closing lk"
    and "\<exists>lk'. send_connect_ack w r c lk =
      Some (if r then c else c\<lparr>c_state := CONNECTED, c_connected_event := True\<rparr>, lk') \<and> lk_closing lk' = lk_closing lk"
proof -
  have e: "encodable (c_local_call c)" "encodable (c_origin_node_call c)" using assms by (auto simp: sendable_def)
  note t = send_frame_total [of "build_header c _", simplified, OF e]
  show "\<exists>lk'. send_info_ack c lk = Some lk' \<and> lk_closing lk' = lk_closing lk"
    unfolding send_info_ack_def by (rule t)
  show "\<exists>lk'. send_disconnect_request c lk = Some lk' \<and> lk_closing lk' = lk_closing lk"
    unfolding send_disconnect_request_def by (rule t)
  show "\<exists>lk'. send_disconnect_ack c lk = Some lk' \<and> lk_closing lk' = lk_closing lk"
    unfolding send_disconnect_ack_def by (rule t)
  show "\<exists>lk'. send_info_fragment chunk m c lk = Some (c\<lparr>c_vs := c_vs c + 1\<rparr>, lk') \<and> lk_closing lk' = lk_closing lk"
    using t [of "OPCODE_INFORMATION OR (if m then FLAG_MORE_FOLLOWS else 0)" chunk lk]
    by (auto simp: send_info_fragment_def Let_def)
  show "\<exists>lk'. send_connect_ack w r c lk =
      Some (if r then c else c\<lparr>c_state := CONNECTED, c_connected_event := True\<rparr>, lk') \<and> lk_closing lk' = lk_closing lk"
    using send_frame_total [of "\<lparr>h_origin_call = c_local_call c, h_dest_call = c_origin_node_call c,
        h_ttl = DEFAULT_TTL, h_circuit_idx = c_remote_idx c, h_circuit_id = c_remote_id c,
        h_tx_seq = c_local_idx c, h_rx_seq = c_local_id c,
        h_opcode_flags = OPCODE_CONNECT_ACK OR (if r then FLAG_CHOKE else 0)\<rparr>"
        "encode_connect_ack_tail w" lk] e
    by (auto simp: send_connect_ack_def Let_def)
qed

text \<open>What the handlers leave alone.\<close>

definition same_identity :: "circuit \<Rightarrow> circuit \<Rightarrow> bool" where
  "same_identity c d \<longleftrightarrow> c_local_idx d = c_local_idx c \<and> c_local_id d = c_local_id c
     \<and> c_local_call d = c_local_call c \<and> c_origin_node_call d = c_origin_node_call c
     \<and> c_user_call d = c_user_call c \<and> c_via_node d = c_via_node c"

lemma same_identity_refl [simp]: "same_identity c c"
  by (simp add: same_identity_def)

lemma same_identity_trans: "same_identity a b \<Longrightarrow> same_identity b c \<Longrightarrow> same_identity a c"
  by (simp add: same_identity_def)

lemma sendable_same: "same_identity c d \<Longrightarrow> sendable d = sendable c"
  by (simp add: same_identity_def sendable_def)

lemma identity_advance [simp]: "same_identity c (advance_va n c)"
  by (simp add: advance_va_def same_identity_def Let_def)

lemma identity_closed [simp]: "same_identity c (set_closed c)"
  by (simp add: set_closed_def same_identity_def)

lemma identity_reassemble: "reassemble h info c = Some d \<Longrightarrow> same_identity c d \<and> c_state d = c_state c
    \<and> c_remote_idx d = c_remote_idx c \<and> c_remote_id d = c_remote_id c \<and> c_reader_eof d = c_reader_eof c"
  by (auto simp: reassemble_def feed_data_def same_identity_def Let_def split: if_splits)

lemma handle_information_effect:
  assumes "handle_information h info c lk = Some (d, lk')"
  shows "same_identity c d" and "c_state d = c_state c" and "c_remote_idx d = c_remote_idx c"
    and "c_remote_id d = c_remote_id c" and "c_reader_eof d = c_reader_eof c"
proof -
  have adv: "c_state (advance_va n x) = c_state x" "c_remote_idx (advance_va n x) = c_remote_idx x"
    "c_remote_id (advance_va n x) = c_remote_id x" "c_reader_eof (advance_va n x) = c_reader_eof x" for n x
    by (simp_all add: advance_va_def Let_def)
  have vr: "same_identity x (advance_va n (x\<lparr>c_vr := v\<rparr>))" for n x v
    by (simp add: advance_va_def same_identity_def Let_def)
  have *: "same_identity c d \<and> c_state d = c_state c \<and> c_remote_idx d = c_remote_idx c
      \<and> c_remote_id d = c_remote_id c \<and> c_reader_eof d = c_reader_eof c"
  proof (cases "low_byte (h_tx_seq h) = c_vr c")
    case True
    with assms obtain x where "reassemble h info c = Some x" "d = advance_va (h_rx_seq h) (x\<lparr>c_vr := c_vr x + 1\<rparr>)"
      by (auto simp: handle_information_def Let_def split: Option.bind_splits)
    with identity_reassemble [of h info c x] vr same_identity_trans show ?thesis
      by (auto simp: adv)
  next
    case False
    with assms show ?thesis
      by (auto simp: handle_information_def Let_def adv split: Option.bind_splits)
  qed
  then show "same_identity c d" "c_state d = c_state c" "c_remote_idx d = c_remote_idx c"
    "c_remote_id d = c_remote_id c" "c_reader_eof d = c_reader_eof c" by blast+
qed

lemma handle_information_total:
  assumes "sendable c" and "\<not> c_reader_eof c"
  shows "\<exists>d lk'. handle_information h info c lk = Some (d, lk') \<and> lk_closing lk' = lk_closing lk"
proof (cases "low_byte (h_tx_seq h) = c_vr c")
  case True
  have "\<exists>x. reassemble h info c = Some x"
    using assms(2) by (simp add: reassemble_def feed_data_def Let_def)
  then obtain x where x: "reassemble h info c = Some x" by blast
  define y where "y = advance_va (h_rx_seq h) (x\<lparr>c_vr := c_vr x + 1\<rparr>)"
  have "sendable y" using identity_reassemble [OF x] assms(1)
    by (auto simp: y_def sendable_def same_identity_def advance_va_def Let_def)
  from send_total(1) [OF this, of lk] x True show ?thesis
    by (auto simp: handle_information_def y_def Let_def)
next
  case False
  have "sendable (advance_va (h_rx_seq h) c)" using assms(1) sendable_same [OF identity_advance] by simp
  from send_total(1) [OF this, of lk] False show ?thesis
    by (auto simp: handle_information_def Let_def)
qed

text \<open>A retransmitted fragment is acknowledged again and not delivered.\<close>

lemma duplicate_not_delivered:
  assumes "handle_information h info c lk = Some (d, lk')" and "low_byte (h_tx_seq h) \<noteq> c_vr c"
  shows "c_reader d = c_reader c" and "c_reassembly d = c_reassembly c" and "c_vr d = c_vr c"
  using assms by (auto simp: handle_information_def advance_va_def Let_def split: Option.bind_splits)

section \<open>Lemmas: delivery between two circuits\<close>

text \<open>A circuit whose frames the codec carries faithfully.\<close>

definition circuit_ok :: "circuit \<Rightarrow> bool" where
  "circuit_ok c \<longleftrightarrow> canonical (c_local_call c) \<and> canonical (c_origin_node_call c)
     \<and> byte_range (c_remote_idx c) \<and> byte_range (c_remote_id c)"

lemma circuit_ok_sendable: "circuit_ok c \<Longrightarrow> sendable c"
  by (simp add: circuit_ok_def sendable_def canonical_encodable)

lemma build_header_ok:
  assumes "circuit_ok c" and "byte_range fl" shows "header_ok (build_header c fl)"
proof -
  have "byte_range (uint w)" for w :: byte using uint_lt2p [of w] by (simp add: byte_range_def)
  with assms show ?thesis
    by (simp add: header_ok_def build_header_def circuit_ok_def) (simp add: byte_range_def DEFAULT_TTL_def)
qed

lemma low_byte_uint [simp]: "low_byte (uint w) = w"
  by (simp add: low_byte_def)

lemma send_frame_open:
  assumes "header_ok h" and "\<not> lk_closing lk"
  obtains fb where "send_frame h p lk = Some (lk\<lparr>lk_out := lk_out lk @ [fb]\<rparr>)" and "encode_l3_frame h p = Some fb"
proof -
  obtain hb where "encode_l3_header h = Some hb" using l3_header_round_trip [OF assms(1)] by blast
  then have "encode_l3_frame h p = Some (hb @ p)" by (simp add: encode_l3_frame_def)
  with assms(2) show ?thesis by (intro that) (simp_all add: send_frame_def send_l3_def)
qed

lemma info_flags:
  "(OPCODE_INFORMATION OR (if m then FLAG_MORE_FOLLOWS else 0)) AND 7 = 5"
  "(OPCODE_INFORMATION OR (if m then FLAG_MORE_FOLLOWS else 0)) AND FLAG_MORE_FOLLOWS \<noteq> 0 \<longleftrightarrow> m"
  "byte_range (OPCODE_INFORMATION OR (if m then FLAG_MORE_FOLLOWS else 0))"
  "byte_range OPCODE_INFORMATION_ACK" "OPCODE_INFORMATION_ACK AND 7 = 6"
  by (cases m; simp add: opcode_defs flag_defs byte_range_def)+

text \<open>
  One turn of a transfer: the sender's \<open>drain\<close> sends a fragment, the receiver handles what arrived
  and acknowledges, the sender handles the acknowledgement. The links deliver in order (AX.25).
\<close>

definition deliver_info :: "bytes \<Rightarrow> circuit \<Rightarrow> (circuit \<times> bytes list) option" where
  "deliver_info fb b =
     (case decode_l3_frame fb of
        Some (Some (Information h info)) \<Rightarrow>
          map_option (\<lambda>(b, lk). (b, lk_out lk)) (handle_information h info b \<lparr>lk_out = [], lk_closing = False\<rparr>)
      | _ \<Rightarrow> None)"

definition deliver_ack :: "bytes \<Rightarrow> circuit \<Rightarrow> circuit option" where
  "deliver_ack fb a =
     (case decode_l3_frame fb of
        Some (Some (InformationAck h)) \<Rightarrow> Some (handle_information_ack h a)
      | _ \<Rightarrow> None)"

definition transfer_turn :: "circuit \<times> circuit \<Rightarrow> (circuit \<times> circuit) option" where
  "transfer_turn s = do {
     let (a, b) = s;
     (a, lk) \<leftarrow> drain_turn a \<lparr>lk_out = [], lk_closing = False\<rparr>;
     case lk_out lk of
       [fb] \<Rightarrow> do {
         (b, acks) \<leftarrow> deliver_info fb b;
         (case acks of [ab] \<Rightarrow> do { a \<leftarrow> deliver_ack ab a; Some (a, b) } | _ \<Rightarrow> None)
       }
     | _ \<Rightarrow> None
   }"

fun transfer :: "nat \<Rightarrow> circuit \<times> circuit \<Rightarrow> (circuit \<times> circuit) option" where
  "transfer 0 s = Some s"
| "transfer (Suc n) s = Option.bind (transfer_turn s) (transfer n)"

definition in_step :: "circuit \<Rightarrow> circuit \<Rightarrow> bool" where
  "in_step a b \<longleftrightarrow> circuit_ok a \<and> circuit_ok b \<and> c_state a = CONNECTED \<and> c_va a = c_vs a
     \<and> c_vr b = c_vs a \<and> 1 \<le> c_accepted_window a \<and> \<not> c_reader_eof b"

lemma transfer_turn_step:
  assumes "in_step a b" and "c_pending a = (chunk, mf) # rest"
    and "length (c_reassembly b) + length chunk \<le> MAX_REASSEMBLY_BYTES"
    and "c_reassembly b @ chunk \<noteq> []"
  shows "\<exists>a' b'. transfer_turn (a, b) = Some (a', b') \<and> in_step a' b' \<and> c_pending a' = rest
    \<and> c_reassembly b' = (if mf then c_reassembly b @ chunk else [])
    \<and> c_reader b' = (if mf then c_reader b else c_reader b @ [c_reassembly b @ chunk])"
proof -
  let ?lk = "\<lparr>lk_out = [], lk_closing = False\<rparr>"
  define fl where "fl = OPCODE_INFORMATION OR (if mf then FLAG_MORE_FOLLOWS else 0)"
  define a1 where "a1 = a\<lparr>c_pending := rest\<rparr>"
  define h where "h = build_header a1 fl"
  have a: "circuit_ok a1" "c_state a = CONNECTED" "c_va a = c_vs a" "1 \<le> c_accepted_window a"
    using assms(1) by (auto simp: in_step_def a1_def circuit_ok_def)
  have hok: "header_ok h" unfolding h_def fl_def by (intro build_header_ok a info_flags)
  obtain fb where fb: "send_frame h chunk ?lk = Some (?lk\<lparr>lk_out := [fb]\<rparr>)" "encode_l3_frame h chunk = Some fb"
    using send_frame_open [OF hok, of ?lk chunk] by auto
  have "\<not> window_full a" using a by (simp add: window_full_def frames_in_flight_def)
  then have drain: "drain_turn a ?lk = Some (a1\<lparr>c_vs := c_vs a + 1\<rparr>, ?lk\<lparr>lk_out := [fb]\<rparr>)"
    using assms(2) a fb(1) by (simp add: drain_turn_def send_info_fragment_def a1_def h_def fl_def Let_def)
  have op: "h_opcode h = OPCODE_INFORMATION"
    using info_flags(1) [of mf] by (simp add: h_def h_opcode_def build_header_def fl_def opcode_defs)
  have dec: "decode_l3_frame fb = Some (Some (Information h chunk))"
    using l3_frame_round_trip(1) [OF hok op, of chunk] fb(2) by auto
  have seq: "low_byte (h_tx_seq h) = c_vr b" "h_more_follows h = mf" "low_byte (h_rx_seq h) = c_vr a"
    using assms(1) info_flags(2) [of mf]
    by (simp_all add: h_def build_header_def h_more_follows_def fl_def in_step_def a1_def)
  define b1 where "b1 = (if mf then b\<lparr>c_reassembly := c_reassembly b @ chunk\<rparr>
      else b\<lparr>c_reassembly := [], c_reader := c_reader b @ [c_reassembly b @ chunk]\<rparr>)"
  have re: "reassemble h chunk b = Some b1"
    using assms(1,3,4) seq(2) by (auto simp: reassemble_def feed_data_def b1_def in_step_def Let_def)
  define b2 where "b2 = advance_va (h_rx_seq h) (b1\<lparr>c_vr := c_vr b1 + 1\<rparr>)"
  have b2: "circuit_ok b2" "c_vr b2 = c_vs a + 1" "\<not> c_reader_eof b2" "c_reassembly b2 = c_reassembly b1"
      "c_reader b2 = c_reader b1"
    using assms(1) by (auto simp: b2_def b1_def advance_va_def in_step_def circuit_ok_def Let_def)
  define k where "k = build_header b2 OPCODE_INFORMATION_ACK"
  have kok: "header_ok k" unfolding k_def by (intro build_header_ok b2 info_flags)
  obtain ab where ab: "send_frame k [] ?lk = Some (?lk\<lparr>lk_out := [ab]\<rparr>)" "encode_l3_frame k [] = Some ab"
    using send_frame_open [OF kok, of ?lk "[]"] by auto
  have deliver: "deliver_info fb b = Some (b2, [ab])"
    using seq(1) re ab(1) by (simp add: deliver_info_def dec handle_information_def send_info_ack_def
        b2_def [symmetric] k_def [symmetric] Let_def)
  have "h_opcode k = OPCODE_INFORMATION_ACK" by (simp add: k_def h_opcode_def build_header_def opcode_defs)
  then have kdec: "decode_l3_frame ab = Some (Some (InformationAck k))"
    using l3_frame_round_trip(2) [OF kok] ab(2) by auto
  define a2 where "a2 = advance_va (h_rx_seq k) (a1\<lparr>c_vs := c_vs a + 1\<rparr>)"
  have "low_byte (h_rx_seq k) = c_vs a + 1" by (simp add: k_def build_header_def b2)
  then have a2: "in_step a2 b2" "c_pending a2 = rest"
    using assms(1) b2 a by (auto simp: a2_def advance_va_def in_step_def a1_def circuit_ok_def Let_def)
  have "transfer_turn (a, b) = Some (a2, b2)"
    by (simp add: transfer_turn_def drain deliver deliver_ack_def kdec handle_information_ack_def a2_def)
  with a2 b2 show ?thesis by (auto simp: b1_def)
qed

lemma transfer_delivers:
  assumes "in_step a b" and "well_flagged (c_pending a)"
    and "length (c_reassembly b @ concat (map fst (c_pending a))) \<le> MAX_REASSEMBLY_BYTES"
    and "\<forall>f \<in> set (c_pending a). fst f \<noteq> []"
  shows "\<exists>a' b'. transfer (length (c_pending a)) (a, b) = Some (a', b') \<and> in_step a' b'
    \<and> c_pending a' = [] \<and> c_reassembly b' = []
    \<and> c_reader b' = c_reader b @ [c_reassembly b @ concat (map fst (c_pending a))]"
  using assms
proof (induction "c_pending a" arbitrary: a b)
  case (Cons f fs)
  obtain chunk mf where f: "f = (chunk, mf)" by fastforce
  have p: "c_pending a = (chunk, mf) # fs" using Cons.hyps(2) f by simp
  have len: "length (c_reassembly b) + length chunk \<le> MAX_REASSEMBLY_BYTES"
    "c_reassembly b @ chunk \<noteq> []" using Cons.prems(3,4) p by auto
  from transfer_turn_step [OF Cons.prems(1) p len] obtain a1 b1 where s: "transfer_turn (a, b) = Some (a1, b1)"
    "in_step a1 b1" "c_pending a1 = fs" "c_reassembly b1 = (if mf then c_reassembly b @ chunk else [])"
    "c_reader b1 = (if mf then c_reader b else c_reader b @ [c_reassembly b @ chunk])" by auto
  show ?case
  proof (cases fs)
    case Nil
    with Cons.prems(2) p have "\<not> mf" by simp
    with s Nil p show ?thesis by auto
  next
    case (Cons g gs)
    with Cons.prems(2) p have mf: "mf" "well_flagged (c_pending a1)" using s(3) by auto
    have "\<exists>a' b'. transfer (length (c_pending a1)) (a1, b1) = Some (a', b') \<and> in_step a' b'
      \<and> c_pending a' = [] \<and> c_reassembly b' = []
      \<and> c_reader b' = c_reader b1 @ [c_reassembly b1 @ concat (map fst (c_pending a1))]"
      using Cons.hyps(1) [of a1 b1] Cons.prems s mf p by auto
    with s mf p show ?thesis by auto
  qed
qed auto

section \<open>Lemmas: the window\<close>

text \<open>
  The acknowledgements a peer can send for what it has received: the next one of the frames in
  flight. Under them the window is never exceeded.
\<close>

datatype circuit_event =
    WriteData bytes
  | DrainTurn
  | PeerAcks nat

definition flow_step :: "circuit \<Rightarrow> circuit_event \<Rightarrow> circuit" where
  "flow_step c e = (case e of
     WriteData data \<Rightarrow> writer_write data c
   | DrainTurn \<Rightarrow> (case drain_turn c \<lparr>lk_out = [], lk_closing = False\<rparr> of Some (c', _) \<Rightarrow> c' | None \<Rightarrow> c)
   | PeerAcks k \<Rightarrow> advance_va (uint (c_va c + word_of_nat (min k (nat (frames_in_flight c))))) c)"

definition window_inv :: "circuit \<Rightarrow> bool" where
  "window_inv c \<longleftrightarrow> 1 \<le> c_accepted_window c \<and> c_accepted_window c \<le> MAX_WINDOW
     \<and> frames_in_flight c \<le> c_accepted_window c"

lemma in_flight_sent:
  assumes "frames_in_flight c < c_accepted_window c" and "c_accepted_window c \<le> MAX_WINDOW"
  shows "uint (c_vs c + 1 - c_va c) = frames_in_flight c + 1"
proof -
  have "uint (c_vs c - c_va c) + 1 < 256" "0 \<le> uint (c_vs c - c_va c)"
    using assms by (simp_all add: frames_in_flight_def MAX_WINDOW_def)
  then have "uint ((c_vs c - c_va c) + 1) = uint (c_vs c - c_va c) + 1"
    by (simp add: uint_word_ariths)
  moreover have "c_vs c + 1 - c_va c = (c_vs c - c_va c) + 1" by simp
  ultimately show ?thesis by (simp only: frames_in_flight_def)
qed

lemma in_flight_acked:
  assumes "n \<le> unat (x :: byte)" shows "uint (x - word_of_nat n) \<le> uint x"
proof -
  have "n < 256" using assms unsigned_less [of x, where ?'a = nat] by simp
  then have "unat (word_of_nat n :: byte) = n" by (simp add: unat_of_nat)
  then have "(word_of_nat n :: byte) \<le> x" using assms by (simp add: word_le_nat_alt)
  then have "uint (x - word_of_nat n) = uint x - uint (word_of_nat n :: byte)"
    by (simp add: uint_sub_lem [THEN iffD1] word_le_def)
  then show ?thesis by simp
qed

lemma advance_va_fields: "c_va (advance_va n c) = low_byte n" "c_vs (advance_va n c) = c_vs c"
    "c_accepted_window (advance_va n c) = c_accepted_window c"
  by (simp_all add: advance_va_def Let_def)

lemma window_inv_step: "window_inv c \<Longrightarrow> window_inv (flow_step c e)"
proof (cases e)
  case (WriteData data)
  assume "window_inv c"
  with WriteData show ?thesis
    by (auto simp: flow_step_def writer_write_def window_inv_def frames_in_flight_def)
next
  case DrainTurn
  assume c: "window_inv c"
  have "window_inv c'" if "drain_turn c lk = Some (c', lk')" for c' lk lk'
    using that c in_flight_sent [of c]
    by (auto simp: drain_turn_def send_info_fragment_def window_inv_def window_full_def
        frames_in_flight_def Let_def split: list.splits prod.splits if_splits Option.bind_splits)
  with DrainTurn c show ?thesis by (auto simp: flow_step_def split: option.splits)
next
  case (PeerAcks k)
  assume c: "window_inv c"
  define n where "n = min k (nat (frames_in_flight c))"
  have "nat (frames_in_flight c) = unat (c_vs c - c_va c)"
    unfolding frames_in_flight_def by (rule unat_eq_nat_uint [symmetric])
  then have "n \<le> unat (c_vs c - c_va c)" by (simp only: n_def min.cobounded2)
  from in_flight_acked [OF this]
  have "uint (c_vs c - (c_va c + word_of_nat n)) \<le> frames_in_flight c"
    by (simp only: frames_in_flight_def diff_diff_eq)
  then have "frames_in_flight (advance_va (uint (c_va c + word_of_nat n)) c) \<le> frames_in_flight c"
    by (simp only: frames_in_flight_def advance_va_fields low_byte_uint)
  with c have "window_inv (advance_va (uint (c_va c + word_of_nat n)) c)"
    by (simp add: window_inv_def advance_va_fields)
  with PeerAcks show ?thesis by (simp add: flow_step_def n_def)
qed

interpretation window: bounded_transition flow_step window_inv
  "\<lambda>c. nat (frames_in_flight c)" "\<lambda>c. nat (c_accepted_window c)"
proof unfold_locales
  show "window_inv c \<Longrightarrow> window_inv (flow_step c e)" for c e by (rule window_inv_step)
  show "window_inv c \<Longrightarrow> nat (frames_in_flight c) \<le> nat (c_accepted_window c)" for c
    by (rule nat_mono) (simp add: window_inv_def)
  show "nat (c_accepted_window (flow_step c e)) = nat (c_accepted_window c)" for c e
    by (auto simp: flow_step_def writer_write_def drain_turn_def send_info_fragment_def advance_va_def Let_def
        split: circuit_event.splits option.splits list.splits prod.splits Option.bind_splits if_splits)
qed

end
