(* ===== verification/Circuit_Manager.thy ===== *)
theory Circuit_Manager
  imports Circuit
begin

text \<open>
  \<open>bbs/netrom/circuit.py\<close>, \<open>NetromCircuitManager\<close>: the circuits of one crosslink. Circuit objects
  live in the store \<open>mg_store\<close> under an object number, because they outlive the tables: a session
  keeps its reader and writer after \<open>_remove_circuit\<close>. The two tables map keys to object numbers,
  as the source's dictionaries hold references. A task is the object number of the circuit it
  serves; \<open>mg_waiting\<close> lists the circuits whose \<open>originate_circuit\<close> is still suspended.
\<close>

definition MAX_LOCAL_CIRCUITS :: int where "MAX_LOCAL_CIRCUITS = 256"

type_synonym circuit_key = "int \<times> int"

record user_connection =
  uc_remote_addr :: callsign
  uc_local_addr :: callsign
  uc_netrom_via :: callsign
  uc_circuit :: nat

record manager =
  mg_local_call :: callsign
  mg_via_node :: callsign
  mg_default_ttl :: int
  mg_info_mtu :: nat
  mg_link_idle_timeout :: rat
  mg_idle_armed :: bool
  mg_closed :: bool
  mg_store :: "(nat, circuit) dict"
  mg_next_oid :: nat
  mg_by_local :: "(circuit_key, nat) dict"
  mg_by_remote :: "(circuit_key, nat) dict"
  mg_used_idx :: "int set"
  mg_next_local_id :: byte
  mg_user_tasks :: "(circuit_key, nat) dict"
  mg_waiting :: "nat list"
  mg_link :: link
  mg_conns :: "user_connection list"

section \<open>The idle timer\<close>

definition arm_idle_timer :: "manager \<Rightarrow> manager" where
  "arm_idle_timer mg =
     (if mg_closed mg \<or> mg_link_idle_timeout mg \<le> 0 \<or> mg_by_local mg \<noteq> [] \<or> mg_idle_armed mg
      then mg else mg\<lparr>mg_idle_armed := True\<rparr>)"

definition cancel_idle_timer :: "manager \<Rightarrow> manager" where
  "cancel_idle_timer mg = mg\<lparr>mg_idle_armed := False\<rparr>"

definition close_link :: "manager \<Rightarrow> manager" where
  "close_link mg = (if \<not> lk_closing (mg_link mg) then mg\<lparr>mg_link := (mg_link mg)\<lparr>lk_closing := True\<rparr>\<rparr> else mg)"

definition reap_idle :: "manager \<Rightarrow> manager" where
  "reap_idle mg =
     (let mg = mg\<lparr>mg_idle_armed := False\<rparr> in
      if mg_closed mg \<or> mg_by_local mg \<noteq> [] then mg else close_link mg)"

definition reap_now_if_idle :: "manager \<Rightarrow> manager" where
  "reap_now_if_idle mg =
     (if mg_closed mg \<or> mg_by_local mg \<noteq> [] then mg else close_link (cancel_idle_timer mg))"

definition manager_init :: "callsign \<Rightarrow> callsign \<Rightarrow> int \<Rightarrow> int \<Rightarrow> rat \<Rightarrow> manager" where
  "manager_init local_call via_node default_ttl info_mtu link_idle_timeout =
     arm_idle_timer
       \<lparr>mg_local_call = local_call, mg_via_node = via_node, mg_default_ttl = default_ttl,
        mg_info_mtu = nat (max 1 info_mtu), mg_link_idle_timeout = max 0 link_idle_timeout,
        mg_idle_armed = False, mg_closed = False, mg_store = [], mg_next_oid = 0,
        mg_by_local = [], mg_by_remote = [], mg_used_idx = {}, mg_next_local_id = 0,
        mg_user_tasks = [], mg_waiting = [], mg_link = \<lparr>lk_out = [], lk_closing = False\<rparr>,
        mg_conns = []\<rparr>"

section \<open>Circuits as objects\<close>

definition put_circuit :: "nat \<Rightarrow> circuit \<times> link \<Rightarrow> manager \<Rightarrow> manager" where
  "put_circuit oid cl mg =
     mg\<lparr>mg_store := AList.update oid (fst cl) (mg_store mg), mg_link := snd cl\<rparr>"

text \<open>Run an operation of the circuit object \<open>oid\<close> on the crosslink's writer.\<close>

definition on_circuit ::
  "nat \<Rightarrow> (circuit \<Rightarrow> link \<Rightarrow> (circuit \<times> link) option) \<Rightarrow> manager \<Rightarrow> manager option" where
  "on_circuit oid f mg = do {
     c \<leftarrow> map_of (mg_store mg) oid;
     cl \<leftarrow> f c (mg_link mg);
     Some (put_circuit oid cl mg)
   }"

section \<open>Allocation\<close>

definition allocate_local_idx :: "manager \<Rightarrow> (manager \<times> int) option" where
  "allocate_local_idx mg =
     map_option (\<lambda>i. (mg\<lparr>mg_used_idx := insert i (mg_used_idx mg)\<rparr>, i))
       (find (\<lambda>i. i \<notin> mg_used_idx mg) [0 .. MAX_LOCAL_CIRCUITS - 1])"

definition allocate_local_id :: "manager \<Rightarrow> manager \<times> int" where
  "allocate_local_id mg =
     (let n = mg_next_local_id mg + 1 in (mg\<lparr>mg_next_local_id := n\<rparr>, uint n))"

definition fresh_circuit ::
  "manager \<Rightarrow> int \<Rightarrow> int \<Rightarrow> int \<Rightarrow> int \<Rightarrow> callsign \<Rightarrow> callsign \<Rightarrow> circuit_state \<Rightarrow> int \<Rightarrow> circuit" where
  "fresh_circuit mg local_idx local_id remote_idx remote_id user_call origin_node_call st window =
     \<lparr>c_local_idx = local_idx, c_local_id = local_id, c_remote_idx = remote_idx,
      c_remote_id = remote_id, c_local_call = mg_local_call mg, c_user_call = user_call,
      c_origin_node_call = origin_node_call, c_via_node = mg_via_node mg, c_state = st,
      c_vs = 0, c_vr = 0, c_va = 0, c_accepted_window = window, c_info_mtu = mg_info_mtu mg,
      c_reassembly = [], c_pending = [], c_window_event = False, c_reader = [], c_reader_eof = False,
      c_writer_closing = False, c_disc_guard = False, c_closed_event = False, c_connected_event = False\<rparr>"

definition add_circuit :: "circuit \<Rightarrow> manager \<Rightarrow> manager \<times> nat" where
  "add_circuit c mg =
     (let oid = mg_next_oid mg in
      (mg\<lparr>mg_store := AList.update oid c (mg_store mg), mg_next_oid := oid + 1,
          mg_by_local := AList.update (c_local_idx c, c_local_id c) oid (mg_by_local mg)\<rparr>, oid))"

definition open_circuit :: "l3_header \<Rightarrow> callsign \<Rightarrow> callsign \<Rightarrow> int \<Rightarrow> manager \<Rightarrow> (manager \<times> nat) option" where
  "open_circuit h user_call origin_node_call accepted_window mg = do {
     let mg = cancel_idle_timer mg;
     (mg, local_idx) \<leftarrow> allocate_local_idx mg;
     let (mg, local_id) = allocate_local_id mg;
     let c = fresh_circuit mg local_idx local_id (h_circuit_idx h) (h_circuit_id h) user_call
       origin_node_call CONNECTING accepted_window;
     let (mg, oid) = add_circuit c mg;
     Some (mg\<lparr>mg_by_remote := AList.update (h_circuit_idx h, h_circuit_id h) oid (mg_by_remote mg)\<rparr>, oid)
   }"

definition remove_circuit :: "nat \<Rightarrow> manager \<Rightarrow> manager" where
  "remove_circuit oid mg =
     (case map_of (mg_store mg) oid of
        None \<Rightarrow> mg
      | Some c \<Rightarrow>
          (let key = (c_local_idx c, c_local_id c);
               mg = mg\<lparr>mg_by_local := AList.delete key (mg_by_local mg),
                       mg_by_remote := AList.delete (c_remote_idx c, c_remote_id c) (mg_by_remote mg),
                       mg_used_idx := mg_used_idx mg - {c_local_idx c},
                       mg_user_tasks := AList.delete key (mg_user_tasks mg)\<rparr> in
           if mg_by_local mg = [] then arm_idle_timer mg else mg))"

section \<open>Dispatch\<close>

definition send_connect_refusal :: "l3_header \<Rightarrow> callsign \<Rightarrow> manager \<Rightarrow> manager option" where
  "send_connect_refusal h origin_node_call mg =
     (if lk_closing (mg_link mg) then Some mg
      else do {
        let header = \<lparr>h_origin_call = mg_local_call mg, h_dest_call = origin_node_call,
          h_ttl = mg_default_ttl mg, h_circuit_idx = h_circuit_idx h, h_circuit_id = h_circuit_id h,
          h_tx_seq = 0, h_rx_seq = 0, h_opcode_flags = OPCODE_CONNECT_ACK OR FLAG_CHOKE\<rparr>;
        lk \<leftarrow> send_frame header (encode_connect_ack_tail 0) (mg_link mg);
        Some (mg\<lparr>mg_link := lk\<rparr>)
      })"

definition used_count :: "manager \<Rightarrow> nat" where
  "used_count mg = card (mg_used_idx mg)"

definition handle_connect_request ::
  "l3_header \<Rightarrow> int \<Rightarrow> callsign \<Rightarrow> callsign \<Rightarrow> manager \<Rightarrow> manager option" where
  "handle_connect_request h proposed_window user_call origin_node_call mg =
     (case map_of (mg_by_remote mg) (h_circuit_idx h, h_circuit_id h) of
        Some oid \<Rightarrow> on_circuit oid (\<lambda>c lk. send_connect_ack (c_accepted_window c) False c lk) mg
      | None \<Rightarrow>
          if MAX_LOCAL_CIRCUITS \<le> int (used_count mg) then send_connect_refusal h origin_node_call mg
          else do {
            let accepted_window = max 1 (min MAX_WINDOW proposed_window);
            (mg, oid) \<leftarrow> open_circuit h user_call origin_node_call accepted_window mg;
            mg \<leftarrow> on_circuit oid (\<lambda>c lk. send_connect_ack accepted_window False c lk) mg;
            c \<leftarrow> map_of (mg_store mg) oid;
            Some (mg\<lparr>mg_conns := mg_conns mg @ [\<lparr>uc_remote_addr = c_user_call c,
                        uc_local_addr = h_dest_call h, uc_netrom_via = mg_via_node mg, uc_circuit = oid\<rparr>],
                     mg_user_tasks := AList.update (c_local_idx c, c_local_id c) oid (mg_user_tasks mg)\<rparr>)
          })"

definition dispatch :: "l3_frame \<Rightarrow> manager \<Rightarrow> manager option" where
  "dispatch frame mg =
     (case frame of
        ConnectRequest h w user origin \<Rightarrow> handle_connect_request h w user origin mg
      | _ \<Rightarrow>
          (case map_of (mg_by_local mg)
               (h_circuit_idx (frame_header frame), h_circuit_id (frame_header frame)) of
             None \<Rightarrow> Some mg
           | Some oid \<Rightarrow>
               (case frame of
                  Information h info \<Rightarrow> on_circuit oid (handle_information h info) mg
                | InformationAck h \<Rightarrow>
                    on_circuit oid (\<lambda>c lk. Some (handle_information_ack h c, lk)) mg
                | Disconnect h \<Rightarrow>
                    (if h_opcode h = OPCODE_DISCONNECT_REQ
                     then map_option (remove_circuit oid) (on_circuit oid handle_disconnect_request mg)
                     else map_option (remove_circuit oid)
                       (on_circuit oid (\<lambda>c lk. Some (handle_disconnect_ack c, lk)) mg))
                | ConnectAck h w refused \<Rightarrow>
                    on_circuit oid (\<lambda>c lk. Some (handle_connect_ack h w refused c, lk)) mg
                | ConnectRequest h w user origin \<Rightarrow> Some mg)))"

section \<open>Originating\<close>

text \<open>\<open>originate_circuit\<close> up to its wait, and from the wake-up on.\<close>

definition originate_start :: "callsign \<Rightarrow> callsign \<Rightarrow> int \<Rightarrow> manager \<Rightarrow> (manager \<times> nat) option" where
  "originate_start dest_node_call user_call proposed_window mg = do {
     let mg = cancel_idle_timer mg;
     (mg, local_idx) \<leftarrow> allocate_local_idx mg;
     let (mg, local_id) = allocate_local_id mg;
     let c = fresh_circuit mg local_idx local_id 0 0 user_call dest_node_call AWAITING_CONNECT
       (max 1 (min MAX_WINDOW proposed_window));
     let (mg, oid) = add_circuit c mg;
     mg \<leftarrow> on_circuit oid
       (\<lambda>c lk. map_option (\<lambda>lk. (c, lk)) (send_connect_request (c_accepted_window c) c lk)) mg;
     Some (mg\<lparr>mg_waiting := oid # mg_waiting mg\<rparr>, oid)
   }"

datatype originate_result = Originated | OriginateTimeout | OriginateRefused

definition originate_finish :: "nat \<Rightarrow> bool \<Rightarrow> manager \<Rightarrow> (manager \<times> originate_result) option" where
  "originate_finish oid timed_out mg = do {
     c \<leftarrow> map_of (mg_store mg) oid;
     let mg = mg\<lparr>mg_waiting := removeAll oid (mg_waiting mg)\<rparr>;
     if timed_out then Some (remove_circuit oid mg, OriginateTimeout)
     else if c_state c \<noteq> CONNECTED then Some (remove_circuit oid mg, OriginateRefused)
     else Some (mg, Originated)
   }"

section \<open>Sessions, timers and teardown\<close>

text \<open>The \<open>finally\<close> of \<open>_run_user_session\<close>.\<close>

definition session_ends :: "nat \<Rightarrow> manager \<Rightarrow> manager option" where
  "session_ends oid mg = do {
     c \<leftarrow> map_of (mg_store mg) oid;
     mg \<leftarrow> (if c_state c = CONNECTED then on_circuit oid initiate_disconnect mg else Some mg);
     Some (mg\<lparr>mg_user_tasks := AList.delete (c_local_idx c, c_local_id c) (mg_user_tasks mg)\<rparr>)
   }"

definition disc_guard_fires :: "nat \<Rightarrow> manager \<Rightarrow> manager option" where
  "disc_guard_fires oid mg = do {
     c \<leftarrow> map_of (mg_store mg) oid;
     let (c, drop_it) = reap_disconnecting c;
     let mg = put_circuit oid (c, mg_link mg) mg;
     Some (if drop_it then remove_circuit oid mg else mg)
   }"

definition close_all :: "nat list \<Rightarrow> (nat, circuit) dict \<Rightarrow> (nat, circuit) dict" where
  "close_all oids store = map (\<lambda>(oid, c). (oid, if oid \<in> set oids then set_closed c else c)) store"

definition shutdown :: "manager \<Rightarrow> manager" where
  "shutdown mg =
     (let mg = cancel_idle_timer (mg\<lparr>mg_closed := True\<rparr>) in
      mg\<lparr>mg_store := close_all (map snd (mg_by_local mg)) (mg_store mg),
         mg_by_local := [], mg_by_remote := [], mg_used_idx := {}, mg_user_tasks := []\<rparr>)"

definition circuit_count :: "manager \<Rightarrow> nat" where
  "circuit_count mg = length (mg_by_local mg)"

definition active_circuits :: "manager \<Rightarrow> circuit list" where
  "active_circuits mg = List.map_filter (\<lambda>(k, oid). map_of (mg_store mg) oid) (mg_by_local mg)"

section \<open>The step relation\<close>

datatype manager_event =
    FrameIn bytes
  | Originate callsign callsign int
  | OriginateWakes nat bool
  | SessionWrites nat bytes
  | SessionDrains nat
  | SessionCloses nat
  | SessionEnds nat
  | GuardFires nat
  | IdleFires
  | ReapNow
  | LinkDrops

text \<open>
  The events the event loop can run in a state: a frame the decoder accepts, a guard that is
  armed, a suspended originator (woken by its event or by its timeout), a writer in the hands of a
  session (only after the circuit has connected).
\<close>

definition has_writer :: "nat \<Rightarrow> manager \<Rightarrow> bool" where
  "has_writer oid mg \<longleftrightarrow> (case map_of (mg_store mg) oid of
      None \<Rightarrow> False | Some c \<Rightarrow> c_state c \<noteq> AWAITING_CONNECT \<and> oid \<notin> set (mg_waiting mg))"

inductive manager_step :: "manager \<Rightarrow> manager_event \<Rightarrow> manager \<Rightarrow> bool" where
  frame_in: "decode_l3_frame data = Some (Some f) \<Longrightarrow> dispatch f mg = Some mg' \<Longrightarrow>
    manager_step mg (FrameIn data) mg'"
| originate: "originate_start d u w mg = Some (mg', oid) \<Longrightarrow> manager_step mg (Originate d u w) mg'"
| originate_wakes: "oid \<in> set (mg_waiting mg) \<Longrightarrow> map_of (mg_store mg) oid = Some c \<Longrightarrow>
    c_connected_event c = (\<not> t) \<Longrightarrow> originate_finish oid t mg = Some (mg', r) \<Longrightarrow>
    manager_step mg (OriginateWakes oid t) mg'"
| session_writes: "has_writer oid mg \<Longrightarrow>
    on_circuit oid (\<lambda>c lk. Some (writer_write data c, lk)) mg = Some mg' \<Longrightarrow>
    manager_step mg (SessionWrites oid data) mg'"
| session_drains: "has_writer oid mg \<Longrightarrow> on_circuit oid drain_turn mg = Some mg' \<Longrightarrow>
    manager_step mg (SessionDrains oid) mg'"
| session_closes: "has_writer oid mg \<Longrightarrow> on_circuit oid writer_close mg = Some mg' \<Longrightarrow>
    manager_step mg (SessionCloses oid) mg'"
| session_finishes: "has_writer oid mg \<Longrightarrow> session_ends oid mg = Some mg' \<Longrightarrow>
    manager_step mg (SessionEnds oid) mg'"
| guard_fires: "map_of (mg_store mg) oid = Some c \<Longrightarrow> c_disc_guard c \<Longrightarrow>
    disc_guard_fires oid mg = Some mg' \<Longrightarrow> manager_step mg (GuardFires oid) mg'"
| idle_fires: "mg_idle_armed mg \<Longrightarrow> manager_step mg IdleFires (reap_idle mg)"
| reap_now: "manager_step mg ReapNow (reap_now_if_idle mg)"
| link_drops: "manager_step mg LinkDrops (shutdown mg)"

inductive manager_steps :: "manager \<Rightarrow> manager_event list \<Rightarrow> manager \<Rightarrow> bool" where
  none: "manager_steps mg [] mg"
| more_steps: "manager_step mg e mg' \<Longrightarrow> manager_steps mg' es mg'' \<Longrightarrow> manager_steps mg (e # es) mg''"

inductive_cases manager_stepE: "manager_step mg e mg'"
inductive_cases manager_steps_NilE: "manager_steps mg [] mg'"
inductive_cases manager_steps_ConsE: "manager_steps mg (e # es) mg'"
inductive_simps manager_step_frame: "manager_step mg (FrameIn data) mg'"
inductive_simps manager_step_ends: "manager_step mg (SessionEnds oid) mg'"
inductive_simps manager_step_guard: "manager_step mg (GuardFires oid) mg'"

section \<open>Lemmas: the invariant\<close>

text \<open>
  \<open>manager_ok X\<close>: the tables refer to circuits that carry their keys; a circuit in the remote table
  (except those in \<open>X\<close>) is neither awaiting its CONNECT ACK nor closed; a reader has seen EOF
  exactly when its circuit is closed; every circuit can encode its frames.
\<close>

definition circuit_good :: "circuit \<Rightarrow> bool" where
  "circuit_good c \<longleftrightarrow> sendable c \<and> (c_reader_eof c \<longleftrightarrow> c_state c = CLOSED)
     \<and> 0 \<le> c_local_idx c \<and> c_local_idx c < MAX_LOCAL_CIRCUITS"

definition tables_ok :: "nat set \<Rightarrow> manager \<Rightarrow> bool" where
  "tables_ok X mg \<longleftrightarrow>
     (\<forall>k oid. map_of (mg_by_local mg) k = Some oid \<longrightarrow>
        (\<exists>c. map_of (mg_store mg) oid = Some c \<and> k = (c_local_idx c, c_local_id c)))
     \<and> (\<forall>k oid. map_of (mg_by_remote mg) k = Some oid \<longrightarrow>
        (\<exists>c. map_of (mg_store mg) oid = Some c \<and> k = (c_remote_idx c, c_remote_id c)
           \<and> (oid \<notin> X \<longrightarrow> c_state c \<notin> {AWAITING_CONNECT, CLOSED})))"

definition manager_ok :: "nat set \<Rightarrow> manager \<Rightarrow> bool" where
  "manager_ok X mg \<longleftrightarrow> tables_ok X mg
     \<and> (\<forall>oid c. map_of (mg_store mg) oid = Some c \<longrightarrow> oid < mg_next_oid mg \<and> circuit_good c)
     \<and> finite (mg_used_idx mg) \<and> encodable (mg_local_call mg)"

abbreviation manager_inv :: "manager \<Rightarrow> bool" where
  "manager_inv mg \<equiv> manager_ok {} mg"

lemma tables_localD:
  "manager_ok X mg \<Longrightarrow> map_of (mg_by_local mg) k = Some i \<Longrightarrow>
     \<exists>c. map_of (mg_store mg) i = Some c \<and> k = (c_local_idx c, c_local_id c)"
  unfolding manager_ok_def tables_ok_def by blast

lemma tables_remoteD:
  "manager_ok X mg \<Longrightarrow> map_of (mg_by_remote mg) k = Some i \<Longrightarrow>
     \<exists>c. map_of (mg_store mg) i = Some c \<and> k = (c_remote_idx c, c_remote_id c)
       \<and> (i \<notin> X \<longrightarrow> c_state c \<notin> {AWAITING_CONNECT, CLOSED})"
  unfolding manager_ok_def tables_ok_def by blast

lemma put_fields [simp]:
  "mg_by_local (put_circuit oid cl mg) = mg_by_local mg"
  "mg_by_remote (put_circuit oid cl mg) = mg_by_remote mg"
  "mg_used_idx (put_circuit oid cl mg) = mg_used_idx mg"
  "mg_next_oid (put_circuit oid cl mg) = mg_next_oid mg"
  "mg_local_call (put_circuit oid cl mg) = mg_local_call mg"
  "mg_waiting (put_circuit oid cl mg) = mg_waiting mg"
  "mg_user_tasks (put_circuit oid cl mg) = mg_user_tasks mg"
  "map_of (mg_store (put_circuit oid cl mg)) = (map_of (mg_store mg))(oid \<mapsto> fst cl)"
  "mg_link (put_circuit oid cl mg) = snd cl"
  by (simp_all add: put_circuit_def)

lemma manager_ok_put:
  assumes "manager_ok X mg" and "map_of (mg_store mg) oid = Some c" and "same_identity c d"
    and "circuit_good d"
    and "(c_remote_idx d = c_remote_idx c \<and> c_remote_id d = c_remote_id c) \<or> c_state c = AWAITING_CONNECT \<and> oid \<notin> X"
    and "oid \<notin> X' \<Longrightarrow> c_state c \<notin> {AWAITING_CONNECT, CLOSED} \<Longrightarrow> c_state d \<notin> {AWAITING_CONNECT, CLOSED}"
    and "X \<subseteq> X'"
  shows "manager_ok X' (put_circuit oid (d, lk) mg)"
proof -
  have "tables_ok X' (put_circuit oid (d, lk) mg)"
    unfolding tables_ok_def
  proof (intro conjI allI impI)
    fix k i assume k: "map_of (mg_by_local (put_circuit oid (d, lk) mg)) k = Some i"
    then have "map_of (mg_by_local mg) k = Some i" by simp
    from tables_localD [OF assms(1) this] obtain e where
      "map_of (mg_store mg) i = Some e" "k = (c_local_idx e, c_local_id e)" by blast
    with assms(2,3) show "\<exists>c. map_of (mg_store (put_circuit oid (d, lk) mg)) i = Some c
        \<and> k = (c_local_idx c, c_local_id c)"
      by (cases "i = oid") (auto simp: same_identity_def)
  next
    fix k i assume k: "map_of (mg_by_remote (put_circuit oid (d, lk) mg)) k = Some i"
    then have "map_of (mg_by_remote mg) k = Some i" by simp
    from tables_remoteD [OF assms(1) this] obtain e where e: "map_of (mg_store mg) i = Some e"
      "k = (c_remote_idx e, c_remote_id e)" "i \<notin> X \<longrightarrow> c_state e \<notin> {AWAITING_CONNECT, CLOSED}"
      by blast
    show "\<exists>c. map_of (mg_store (put_circuit oid (d, lk) mg)) i = Some c \<and> k = (c_remote_idx c, c_remote_id c)
        \<and> (i \<notin> X' \<longrightarrow> c_state c \<notin> {AWAITING_CONNECT, CLOSED})"
    proof (cases "i = oid")
      case True
      with e assms(2,5-7) show ?thesis by auto
    next
      case False
      with e assms(7) show ?thesis by auto
    qed
  qed
  with assms(1,2,4) show ?thesis by (auto simp: manager_ok_def)
qed

lemma arm_fields [simp]:
  "mg_by_local (arm_idle_timer mg) = mg_by_local mg" "mg_by_remote (arm_idle_timer mg) = mg_by_remote mg"
  "mg_store (arm_idle_timer mg) = mg_store mg" "mg_used_idx (arm_idle_timer mg) = mg_used_idx mg"
  "mg_next_oid (arm_idle_timer mg) = mg_next_oid mg" "mg_local_call (arm_idle_timer mg) = mg_local_call mg"
  "mg_link (arm_idle_timer mg) = mg_link mg" "mg_waiting (arm_idle_timer mg) = mg_waiting mg"
  by (simp_all add: arm_idle_timer_def)

lemma remove_fields:
  assumes "map_of (mg_store mg) oid = Some c"
  shows "mg_by_local (remove_circuit oid mg) = AList.delete (c_local_idx c, c_local_id c) (mg_by_local mg)"
    and "mg_by_remote (remove_circuit oid mg) = AList.delete (c_remote_idx c, c_remote_id c) (mg_by_remote mg)"
    and "mg_used_idx (remove_circuit oid mg) = mg_used_idx mg - {c_local_idx c}"
    and "mg_store (remove_circuit oid mg) = mg_store mg"
    and "mg_next_oid (remove_circuit oid mg) = mg_next_oid mg"
    and "mg_local_call (remove_circuit oid mg) = mg_local_call mg"
    and "mg_link (remove_circuit oid mg) = mg_link mg"
    and "mg_waiting (remove_circuit oid mg) = mg_waiting mg"
  using assms by (simp_all add: remove_circuit_def Let_def)

lemma manager_ok_remove:
  assumes "manager_ok X mg" and "X \<subseteq> {oid}"
  shows "manager_inv (remove_circuit oid mg)"
proof (cases "map_of (mg_store mg) oid")
  case None
  have "tables_ok {} mg"
    unfolding tables_ok_def
  proof (intro conjI allI impI)
    fix k i assume k: "map_of (mg_by_local mg) k = Some i"
    from tables_localD [OF assms(1) k]
    show "\<exists>c. map_of (mg_store mg) i = Some c \<and> k = (c_local_idx c, c_local_id c)" .
  next
    fix k i assume k: "map_of (mg_by_remote mg) k = Some i"
    from tables_remoteD [OF assms(1) k] None assms(2)
    show "\<exists>c. map_of (mg_store mg) i = Some c \<and> k = (c_remote_idx c, c_remote_id c)
        \<and> (i \<notin> {} \<longrightarrow> c_state c \<notin> {AWAITING_CONNECT, CLOSED})"
      by (cases "i = oid") auto
  qed
  with assms None show ?thesis by (simp add: remove_circuit_def manager_ok_def)
next
  case (Some c)
  note f = remove_fields [OF Some]
  have "tables_ok {} (remove_circuit oid mg)"
    unfolding tables_ok_def f
  proof (intro conjI allI impI)
    fix k i assume "map_of (AList.delete (c_local_idx c, c_local_id c) (mg_by_local mg)) k = Some i"
    then have "map_of (mg_by_local mg) k = Some i" by (simp split: if_splits)
    from tables_localD [OF assms(1) this]
    show "\<exists>c. map_of (mg_store mg) i = Some c \<and> k = (c_local_idx c, c_local_id c)" .
  next
    fix k i assume "map_of (AList.delete (c_remote_idx c, c_remote_id c) (mg_by_remote mg)) k = Some i"
    then have k: "map_of (mg_by_remote mg) k = Some i" "k \<noteq> (c_remote_idx c, c_remote_id c)"
      by (auto split: if_splits)
    from tables_remoteD [OF assms(1) k(1)] obtain e where e: "map_of (mg_store mg) i = Some e"
      "k = (c_remote_idx e, c_remote_id e)" "i \<notin> X \<longrightarrow> c_state e \<notin> {AWAITING_CONNECT, CLOSED}"
      by blast
    with k(2) Some have "i \<noteq> oid" by auto
    with e assms(2) show "\<exists>c. map_of (mg_store mg) i = Some c \<and> k = (c_remote_idx c, c_remote_id c)
        \<and> (i \<notin> {} \<longrightarrow> c_state c \<notin> {AWAITING_CONNECT, CLOSED})"
      by auto
  qed
  with assms(1) show ?thesis by (simp add: manager_ok_def f)
qed

lemma allocate_idx_total:
  assumes "finite (mg_used_idx mg)" and "int (used_count mg) < MAX_LOCAL_CIRCUITS"
  shows "\<exists>i. allocate_local_idx mg = Some (mg\<lparr>mg_used_idx := insert i (mg_used_idx mg)\<rparr>, i)
    \<and> i \<notin> mg_used_idx mg \<and> 0 \<le> i \<and> i < MAX_LOCAL_CIRCUITS"
proof -
  have "\<not> {0 .. MAX_LOCAL_CIRCUITS - 1} \<subseteq> mg_used_idx mg"
  proof
    assume "{0 .. MAX_LOCAL_CIRCUITS - 1} \<subseteq> mg_used_idx mg"
    from card_mono [OF assms(1) this] assms(2) show False
      by (simp add: used_count_def MAX_LOCAL_CIRCUITS_def)
  qed
  then obtain j where "j \<in> {0 .. MAX_LOCAL_CIRCUITS - 1}" "j \<notin> mg_used_idx mg" by blast
  then have "j \<in> set [0 .. MAX_LOCAL_CIRCUITS - 1]" "j \<notin> mg_used_idx mg" by simp_all
  then have "find (\<lambda>i. i \<notin> mg_used_idx mg) [0 .. MAX_LOCAL_CIRCUITS - 1] \<noteq> None"
    by (auto simp: find_None_iff)
  then obtain i where i: "find (\<lambda>i. i \<notin> mg_used_idx mg) [0 .. MAX_LOCAL_CIRCUITS - 1] = Some i" by blast
  then have "i \<in> set [0 .. MAX_LOCAL_CIRCUITS - 1] \<and> i \<notin> mg_used_idx mg"
    by (auto simp: find_Some_iff in_set_conv_nth)
  with i show ?thesis by (auto simp: allocate_local_idx_def)
qed

lemma allocate_idx_facts:
  assumes "allocate_local_idx mg = Some (mg', i)"
  shows "mg' = mg\<lparr>mg_used_idx := insert i (mg_used_idx mg)\<rparr>" and "i \<notin> mg_used_idx mg"
    and "0 \<le> i" and "i < MAX_LOCAL_CIRCUITS"
proof -
  from assms have f: "find (\<lambda>i. i \<notin> mg_used_idx mg) [0 .. MAX_LOCAL_CIRCUITS - 1] = Some i"
    and "mg' = mg\<lparr>mg_used_idx := insert i (mg_used_idx mg)\<rparr>" by (auto simp: allocate_local_idx_def)
  then show "mg' = mg\<lparr>mg_used_idx := insert i (mg_used_idx mg)\<rparr>" by simp
  from f have "i \<in> set [0 .. MAX_LOCAL_CIRCUITS - 1] \<and> i \<notin> mg_used_idx mg"
    by (auto simp: find_Some_iff in_set_conv_nth)
  then show "i \<notin> mg_used_idx mg" "0 \<le> i" "i < MAX_LOCAL_CIRCUITS" by auto
qed

text \<open>Registering a new circuit.\<close>

lemma manager_ok_add:
  assumes "manager_inv mg" and "circuit_good c" and "add_circuit c mg = (mg', oid)"
  shows "manager_inv mg'" and "map_of (mg_store mg') oid = Some c" and "oid = mg_next_oid mg"
    and "map_of (mg_store mg) oid = None"
proof -
  have new: "map_of (mg_store mg) (mg_next_oid mg) = None"
    using assms(1) by (cases "map_of (mg_store mg) (mg_next_oid mg)") (auto simp: manager_ok_def)
  have mg': "mg' = mg\<lparr>mg_store := AList.update oid c (mg_store mg), mg_next_oid := oid + 1,
          mg_by_local := AList.update (c_local_idx c, c_local_id c) oid (mg_by_local mg)\<rparr>"
    and oid: "oid = mg_next_oid mg"
    using assms(3) by (auto simp: add_circuit_def Let_def)
  show "oid = mg_next_oid mg" "map_of (mg_store mg) oid = None" using oid new by simp_all
  show "map_of (mg_store mg') oid = Some c" by (simp add: mg')
  have "tables_ok {} mg'"
    using assms(1) new unfolding tables_ok_def mg' oid manager_ok_def by (auto split: if_splits) fastforce+
  with assms(1,2) show "manager_inv mg'"
    by (auto simp: manager_ok_def mg' oid less_Suc_eq split: if_splits)
qed

section \<open>Lemmas: every operation keeps the invariant\<close>

lemma circuit_good_of: "manager_ok X mg \<Longrightarrow> map_of (mg_store mg) oid = Some c \<Longrightarrow> circuit_good c"
  by (simp add: manager_ok_def)

lemma circuit_good_same:
  assumes "circuit_good c" and "same_identity c d" and "c_reader_eof d \<longleftrightarrow> c_state d = CLOSED"
  shows "circuit_good d"
  using assms by (auto simp: circuit_good_def same_identity_def sendable_def)

lemma on_circuit_Some:
  assumes "on_circuit oid f mg = Some mg'"
  obtains c d lk where "map_of (mg_store mg) oid = Some c" and "f c (mg_link mg) = Some (d, lk)"
    and "mg' = put_circuit oid (d, lk) mg"
  using assms by (auto simp: on_circuit_def split: Option.bind_splits)

text \<open>In-place updates that keep the circuit's keys and do not close or reset it.\<close>

lemma manager_inv_in_place:
  assumes "manager_inv mg" and "on_circuit oid f mg = Some mg'"
    and "\<And>c lk d lk'. map_of (mg_store mg) oid = Some c \<Longrightarrow> f c lk = Some (d, lk') \<Longrightarrow> same_identity c d
      \<and> c_remote_idx d = c_remote_idx c \<and> c_remote_id d = c_remote_id c
      \<and> (c_reader_eof d \<longleftrightarrow> c_reader_eof c) \<and> (c_state d = CLOSED \<longleftrightarrow> c_state c = CLOSED)
      \<and> (c_state d = AWAITING_CONNECT \<longrightarrow> c_state c = AWAITING_CONNECT)"
  shows "manager_inv mg'"
proof -
  from assms(2) obtain c d lk where o: "map_of (mg_store mg) oid = Some c" "f c (mg_link mg) = Some (d, lk)"
    "mg' = put_circuit oid (d, lk) mg" by (rule on_circuit_Some)
  note e = assms(3) [OF o(1,2)]
  have g: "circuit_good c" using circuit_good_of assms(1) o(1) by blast
  have "circuit_good d" using e g by (intro circuit_good_same [OF g]) (auto simp: circuit_good_def)
  with manager_ok_put [OF assms(1) o(1), of d "{}" lk] e show ?thesis by (auto simp: o(3))
qed

lemma writer_write_same: "same_identity c (writer_write data c)" "c_remote_idx (writer_write data c) = c_remote_idx c"
    "c_remote_id (writer_write data c) = c_remote_id c" "c_state (writer_write data c) = c_state c"
    "c_reader_eof (writer_write data c) = c_reader_eof c"
  by (simp_all add: writer_write_def same_identity_def)

lemma drain_turn_same:
  assumes "drain_turn c lk = Some (d, lk')"
  shows "same_identity c d" and "c_remote_idx d = c_remote_idx c" and "c_remote_id d = c_remote_id c"
    and "c_state d = c_state c" and "c_reader_eof d = c_reader_eof c"
  using assms by (auto simp: drain_turn_def send_info_fragment_def same_identity_def Let_def
      split: list.splits prod.splits if_splits Option.bind_splits)

lemma initiate_disconnect_same:
  assumes "initiate_disconnect c lk = Some (d, lk')"
  shows "same_identity c d" and "c_remote_idx d = c_remote_idx c" and "c_remote_id d = c_remote_id c"
    and "c_state d = (if c_state c \<in> {DISCONNECTING, CLOSED} then c_state c else DISCONNECTING)"
    and "c_reader_eof d = c_reader_eof c"
  using assms by (auto simp: initiate_disconnect_def same_identity_def split: if_splits Option.bind_splits)

lemma writer_close_same:
  assumes "writer_close c lk = Some (d, lk')"
  shows "same_identity c d" and "c_remote_idx d = c_remote_idx c" and "c_remote_id d = c_remote_id c"
    and "c_state d = c_state c \<or> c_state c \<notin> {DISCONNECTING, CLOSED} \<and> c_state d = DISCONNECTING"
    and "c_reader_eof d = c_reader_eof c"
  using assms initiate_disconnect_same [of "c\<lparr>c_writer_closing := True\<rparr>" lk d lk']
  by (auto simp: writer_close_def same_identity_def split: if_splits)

lemma set_closed_same: "c_remote_idx (set_closed c) = c_remote_idx c" "c_remote_id (set_closed c) = c_remote_id c"
    "c_state (set_closed c) = CLOSED" "circuit_good c \<Longrightarrow> circuit_good (set_closed c)"
  by (auto simp: set_closed_def circuit_good_def sendable_def)

lemma manager_inv_fields:
  assumes "manager_inv mg" and "mg_store mg' = mg_store mg" and "mg_by_local mg' = mg_by_local mg"
    and "mg_by_remote mg' = mg_by_remote mg" and "mg_next_oid mg' = mg_next_oid mg"
    and "mg_used_idx mg' = mg_used_idx mg" and "mg_local_call mg' = mg_local_call mg"
  shows "manager_inv mg'"
  using assms unfolding manager_ok_def tables_ok_def by simp

text \<open>Closing a circuit and dropping it from the tables, in that order.\<close>

lemma manager_inv_close_remove:
  assumes "manager_inv mg" and "map_of (mg_store mg) oid = Some c"
  shows "manager_inv (remove_circuit oid (put_circuit oid (set_closed c, lk) mg))"
proof -
  have "manager_ok {oid} (put_circuit oid (set_closed c, lk) mg)"
    using circuit_good_of [OF assms] set_closed_same
    by (intro manager_ok_put [OF assms]) auto
  then show ?thesis by (rule manager_ok_remove) simp
qed

lemma dispatch_disconnect_inv:
  assumes "manager_inv mg" and "map_option (remove_circuit oid) (on_circuit oid handle_disconnect_request mg) = Some mg'
      \<or> map_option (remove_circuit oid) (on_circuit oid (\<lambda>c lk. Some (handle_disconnect_ack c, lk)) mg) = Some mg'"
  shows "manager_inv mg'"
proof -
  have "\<exists>c lk. map_of (mg_store mg) oid = Some c \<and> (mg' = remove_circuit oid (put_circuit oid (set_closed c, lk) mg)
      \<or> mg' = remove_circuit oid (put_circuit oid (c, mg_link mg) mg))"
    using assms(2)
  proof
    assume "map_option (remove_circuit oid) (on_circuit oid handle_disconnect_request mg) = Some mg'"
    then show ?thesis by (auto simp: handle_disconnect_request_def elim!: on_circuit_Some)
  next
    assume "map_option (remove_circuit oid) (on_circuit oid (\<lambda>c lk. Some (handle_disconnect_ack c, lk)) mg) = Some mg'"
    then obtain c where "map_of (mg_store mg) oid = Some c"
      "mg' = remove_circuit oid (put_circuit oid (handle_disconnect_ack c, mg_link mg) mg)"
      by (auto elim!: on_circuit_Some)
    then show ?thesis by (cases "c_state c = DISCONNECTING") (auto simp: handle_disconnect_ack_def)
  qed
  then obtain c lk where c: "map_of (mg_store mg) oid = Some c"
    and mg': "mg' = remove_circuit oid (put_circuit oid (set_closed c, lk) mg)
      \<or> mg' = remove_circuit oid (put_circuit oid (c, mg_link mg) mg)" by blast
  have "manager_inv (put_circuit oid (c, mg_link mg) mg)"
    using circuit_good_of [OF assms(1) c] by (intro manager_ok_put [OF assms(1) c]) auto
  then have "manager_inv (remove_circuit oid (put_circuit oid (c, mg_link mg) mg))"
    by (rule manager_ok_remove) simp
  with mg' manager_inv_close_remove [OF assms(1) c] show ?thesis by auto
qed

lemma connect_ack_inv:
  assumes "manager_inv mg" and "on_circuit oid (\<lambda>c lk. Some (handle_connect_ack h w r c, lk)) mg = Some mg'"
  shows "manager_inv mg'"
proof -
  from assms(2) obtain c where c: "map_of (mg_store mg) oid = Some c"
    and mg': "mg' = put_circuit oid (handle_connect_ack h w r c, mg_link mg) mg"
    by (auto elim!: on_circuit_Some)
  have g: "circuit_good c" by (rule circuit_good_of [OF assms(1) c])
  show ?thesis
  proof (cases "c_state c = AWAITING_CONNECT")
    case True
    define d where "d = handle_connect_ack h w r c"
    have "same_identity c d" "circuit_good d"
      using True g set_closed_same
      by (auto simp: d_def handle_connect_ack_def same_identity_def circuit_good_def sendable_def set_closed_def)
    with True manager_ok_put [OF assms(1) c, of d "{}"] show ?thesis by (simp add: mg' d_def)
  next
    case False
    with manager_ok_put [OF assms(1) c, of c "{}"] g show ?thesis by (simp add: mg' handle_connect_ack_def)
  qed
qed

lemma fresh_good:
  assumes "encodable (mg_local_call mg)" and "encodable origin" and "0 \<le> i" and "i < MAX_LOCAL_CIRCUITS"
    and "st \<noteq> CLOSED"
  shows "circuit_good (fresh_circuit mg i j ri rid user origin st w)"
  using assms by (simp add: circuit_good_def fresh_circuit_def sendable_def)

lemma alloc_inv:
  assumes "manager_inv mg" and "allocate_local_idx (cancel_idle_timer mg) = Some (mg1, i)"
    and "allocate_local_id mg1 = (m, lid)"
  shows "manager_inv m" and "mg_link m = mg_link mg" and "encodable (mg_local_call m)"
    and "mg_by_local m = mg_by_local mg" and "mg_by_remote m = mg_by_remote mg"
    and "mg_store m = mg_store mg" and "mg_used_idx m = insert i (mg_used_idx mg)"
    and "i \<notin> mg_used_idx mg"
proof -
  note af = allocate_idx_facts [OF assms(2)]
  have m: "m = mg1\<lparr>mg_next_local_id := mg_next_local_id mg1 + 1\<rparr>"
    using assms(3) by (simp add: allocate_local_id_def Let_def)
  show "manager_inv m" "mg_link m = mg_link mg" "encodable (mg_local_call m)" "mg_by_local m = mg_by_local mg"
    "mg_by_remote m = mg_by_remote mg" "mg_store m = mg_store mg" "mg_used_idx m = insert i (mg_used_idx mg)"
    "i \<notin> mg_used_idx mg"
    using assms(1) af(2) by (simp_all add: m af(1) cancel_idle_timer_def manager_ok_def tables_ok_def)
qed

lemma manager_inv_by_remote:
  assumes "manager_inv mg" and "map_of (mg_store mg) oid = Some c"
    and "c_state c \<notin> {AWAITING_CONNECT, CLOSED}" and "k = (c_remote_idx c, c_remote_id c)"
  shows "manager_inv (mg\<lparr>mg_by_remote := AList.update k oid (mg_by_remote mg)\<rparr>)"
  using assms unfolding manager_ok_def tables_ok_def by auto

lemma open_circuit_inv:
  assumes "manager_inv mg" and "encodable origin"
    and "open_circuit h user origin w mg = Some (mg', oid)"
  shows "manager_inv mg'" and "\<exists>c. map_of (mg_store mg') oid = Some c \<and> c_state c = CONNECTING
      \<and> map_of (mg_by_local mg') (c_local_idx c, c_local_id c) = Some oid \<and> c_user_call c = user
      \<and> c_origin_node_call c = origin \<and> c_accepted_window c = w"
    and "mg_link mg' = mg_link mg"
proof -
  obtain mg1 i where a: "allocate_local_idx (cancel_idle_timer mg) = Some (mg1, i)"
    using assms(3) by (cases "allocate_local_idx (cancel_idle_timer mg)") (auto simp: open_circuit_def)
  obtain m lid where l: "allocate_local_id mg1 = (m, lid)" by fastforce
  note af = allocate_idx_facts [OF a] and ai = alloc_inv [OF assms(1) a l]
  define c where "c = fresh_circuit m i lid (h_circuit_idx h) (h_circuit_id h) user origin CONNECTING w"
  obtain mg2 o2 where add: "add_circuit c m = (mg2, o2)" by fastforce
  from assms(3) have oid: "o2 = oid"
    and mg': "mg' = mg2\<lparr>mg_by_remote := AList.update (h_circuit_idx h, h_circuit_id h) oid (mg_by_remote mg2)\<rparr>"
    by (auto simp: open_circuit_def a l Let_def add [unfolded c_def])
  have g: "circuit_good c" unfolding c_def using ai(3) assms(2) af(3,4) by (intro fresh_good) simp_all
  note ad = manager_ok_add [OF ai(1) g add [unfolded oid]]
  show "manager_inv mg'" unfolding mg'
    by (rule manager_inv_by_remote [OF ad(1,2)]) (simp_all add: c_def fresh_circuit_def)
  show "\<exists>c. map_of (mg_store mg') oid = Some c \<and> c_state c = CONNECTING
      \<and> map_of (mg_by_local mg') (c_local_idx c, c_local_id c) = Some oid \<and> c_user_call c = user
      \<and> c_origin_node_call c = origin \<and> c_accepted_window c = w"
    using add by (intro exI [of _ c]) (auto simp: mg' add_circuit_def Let_def oid c_def fresh_circuit_def)
  show "mg_link mg' = mg_link mg" using add ai(2) by (auto simp: mg' add_circuit_def Let_def)
qed

lemma connect_ack_sent_inv:
  assumes "manager_inv mg" and "map_of (mg_store mg) oid = Some c"
    and "c_state c \<notin> {AWAITING_CONNECT, CLOSED}"
    and "on_circuit oid (\<lambda>c lk. send_connect_ack w False c lk) mg = Some mg'"
  shows "manager_inv mg'"
proof (rule manager_inv_in_place [OF assms(1,4)])
  fix d lk e lk' assume d: "map_of (mg_store mg) oid = Some d" "send_connect_ack w False d lk = Some (e, lk')"
  then have "e = d\<lparr>c_state := CONNECTED, c_connected_event := True\<rparr>"
    by (auto simp: send_connect_ack_def Let_def split: Option.bind_splits)
  with d(1) assms(2,3) show "same_identity d e \<and> c_remote_idx e = c_remote_idx d \<and> c_remote_id e = c_remote_id d
      \<and> (c_reader_eof e \<longleftrightarrow> c_reader_eof d) \<and> (c_state e = CLOSED \<longleftrightarrow> c_state d = CLOSED)
      \<and> (c_state e = AWAITING_CONNECT \<longrightarrow> c_state d = AWAITING_CONNECT)"
    by (simp add: same_identity_def)
qed

lemma handle_connect_request_inv:
  assumes "manager_inv mg" and "encodable origin"
    and "handle_connect_request h w user origin mg = Some mg'"
  shows "manager_inv mg'"
proof (cases "map_of (mg_by_remote mg) (h_circuit_idx h, h_circuit_id h)")
  case (Some oid)
  from tables_remoteD [OF assms(1) Some] obtain c where c: "map_of (mg_store mg) oid = Some c"
    "c_state c \<notin> {AWAITING_CONNECT, CLOSED}" by auto
  from assms(3) Some have "on_circuit oid (\<lambda>c lk. send_connect_ack (c_accepted_window c) False c lk) mg = Some mg'"
    by (simp add: handle_connect_request_def)
  with c(1) have "on_circuit oid (\<lambda>d lk. send_connect_ack (c_accepted_window c) False d lk) mg = Some mg'"
    by (simp add: on_circuit_def)
  from connect_ack_sent_inv [OF assms(1) c this] show ?thesis .
next
  case None
  show ?thesis
  proof (cases "MAX_LOCAL_CIRCUITS \<le> int (used_count mg)")
    case True
    with None assms(3) have "mg' = mg \<or> (\<exists>lk. mg' = mg\<lparr>mg_link := lk\<rparr>)"
      by (auto simp: handle_connect_request_def send_connect_refusal_def split: if_splits Option.bind_splits)
    then show ?thesis
    proof
      assume "\<exists>lk. mg' = mg\<lparr>mg_link := lk\<rparr>"
      with assms(1) show ?thesis by (elim exE) (rule manager_inv_fields, simp_all)
    qed (use assms(1) in simp)
  next
    case False
    define aw where "aw = max 1 (min MAX_WINDOW w)"
    from None False assms(3) obtain mg1 oid mg2 where o: "open_circuit h user origin aw mg = Some (mg1, oid)"
      and s: "on_circuit oid (\<lambda>c lk. send_connect_ack aw False c lk) mg1 = Some mg2"
      and f: "mg_store mg' = mg_store mg2" "mg_by_local mg' = mg_by_local mg2" "mg_by_remote mg' = mg_by_remote mg2"
        "mg_next_oid mg' = mg_next_oid mg2" "mg_used_idx mg' = mg_used_idx mg2" "mg_local_call mg' = mg_local_call mg2"
      by (auto simp: handle_connect_request_def aw_def Let_def split: Option.bind_splits)
    note oi = open_circuit_inv [OF assms(1,2) o]
    from oi(2) obtain c where c: "map_of (mg_store mg1) oid = Some c" "c_state c = CONNECTING" by blast
    have "manager_inv mg2" by (rule connect_ack_sent_inv [OF oi(1) c(1) _ s]) (simp add: c(2))
    then show ?thesis by (rule manager_inv_fields) (fact f)+
  qed
qed

lemma decoded_frame_encodable:
  assumes "decode_l3_frame data = Some (Some (ConnectRequest h w user origin))"
  shows "encodable origin" and "encodable user"
  using assms decoded_encodable
  by (auto simp: decode_l3_frame_def Let_def split: Option.bind_splits option.splits if_splits)

lemma dispatch_inv:
  assumes "manager_inv mg" and "\<And>h w user origin. f = ConnectRequest h w user origin \<Longrightarrow> encodable origin"
    and "dispatch f mg = Some mg'"
  shows "manager_inv mg'"
proof -
  have info: "manager_inv mg'" if "on_circuit oid (handle_information h i) mg = Some mg'" for oid h i
    by (rule manager_inv_in_place [OF assms(1) that]) (use handle_information_effect in auto)
  have ack: "manager_inv mg'" if "on_circuit oid (\<lambda>c lk. Some (handle_information_ack h c, lk)) mg = Some mg'" for oid h
    by (rule manager_inv_in_place [OF assms(1) that])
      (auto simp: handle_information_ack_def advance_va_def same_identity_def Let_def split: if_splits)
  show ?thesis
  proof (cases f)
    case (ConnectRequest h w user origin)
    with assms(3) have "handle_connect_request h w user origin mg = Some mg'" by (simp add: dispatch_def)
    from handle_connect_request_inv [OF assms(1) assms(2) [OF ConnectRequest] this] show ?thesis .
  next
    case (ConnectAck h w r)
    with assms(1,3) show ?thesis by (auto simp: dispatch_def split: option.splits intro: connect_ack_inv)
  next
    case (Disconnect h)
    with assms(1,3) show ?thesis
      by (auto simp: dispatch_def split: option.splits if_splits intro: dispatch_disconnect_inv)
  next
    case (Information h i)
    with assms(1,3) show ?thesis by (auto simp: dispatch_def split: option.splits intro: info)
  next
    case (InformationAck h)
    with assms(1,3) show ?thesis by (auto simp: dispatch_def split: option.splits intro: ack)
  qed
qed

lemma originate_start_inv:
  assumes "manager_inv mg" and "originate_start d u w mg = Some (mg', oid)"
  shows "manager_inv mg'"
proof -
  obtain mg1 i where a: "allocate_local_idx (cancel_idle_timer mg) = Some (mg1, i)"
    using assms(2) by (cases "allocate_local_idx (cancel_idle_timer mg)") (auto simp: originate_start_def)
  obtain m lid where l: "allocate_local_id mg1 = (m, lid)" by fastforce
  note af = allocate_idx_facts [OF a] and ai = alloc_inv [OF assms(1) a l]
  define c where "c = fresh_circuit m i lid 0 0 u d AWAITING_CONNECT (max 1 (min MAX_WINDOW w))"
  obtain mg2 o2 where add: "add_circuit c m = (mg2, o2)" by fastforce
  from assms(2) obtain mg3 where oid: "o2 = oid" and mg': "mg' = mg3\<lparr>mg_waiting := oid # mg_waiting mg3\<rparr>"
    and s: "on_circuit oid (\<lambda>c lk. map_option (\<lambda>lk. (c, lk)) (send_connect_request (c_accepted_window c) c lk)) mg2
        = Some mg3"
    by (auto simp: originate_start_def a l Let_def add [unfolded c_def] split: Option.bind_splits)
  have store: "map_of (mg_store mg2) oid = Some c"
    using add by (auto simp: add_circuit_def Let_def oid)
  from s obtain lk where sr: "send_connect_request (c_accepted_window c) c (mg_link mg2) = Some lk"
    and mg3: "mg3 = put_circuit oid (c, lk) mg2"
    by (auto simp: store elim!: on_circuit_Some)
  have "c_origin_node_call c = d" by (simp add: c_def fresh_circuit_def)
  with sr have d: "encodable d"
    by (auto simp: send_connect_request_def send_frame_def encode_l3_frame_def encode_l3_header_def
        encodable_def Let_def split: Option.bind_splits)
  have g: "circuit_good c" unfolding c_def using af(3,4) d ai(3) by (intro fresh_good) simp_all
  note ad = manager_ok_add [OF ai(1) g add [unfolded oid]]
  have "manager_inv mg3" unfolding mg3 by (rule manager_ok_put [OF ad(1) store]) (use g in auto)
  then show ?thesis by (rule manager_inv_fields) (simp_all add: mg')
qed

lemma remove_inv: "manager_inv mg \<Longrightarrow> manager_inv (remove_circuit oid mg)"
  by (rule manager_ok_remove) auto

lemma originate_finish_inv:
  assumes "manager_inv mg" and "originate_finish oid t mg = Some (mg', r)"
  shows "manager_inv mg'"
proof -
  have "manager_inv (mg\<lparr>mg_waiting := removeAll oid (mg_waiting mg)\<rparr>)"
    using assms(1) by (rule manager_inv_fields) simp_all
  with assms(2) show ?thesis
    by (auto simp: originate_finish_def Let_def split: Option.bind_splits if_splits intro: remove_inv)
qed

lemma session_ends_inv:
  assumes "manager_inv mg" and "session_ends oid mg = Some mg'"
  shows "manager_inv mg'"
proof -
  from assms(2) obtain c mg1 where c: "map_of (mg_store mg) oid = Some c"
    and s: "(if c_state c = CONNECTED then on_circuit oid initiate_disconnect mg else Some mg) = Some mg1"
    and mg': "mg' = mg1\<lparr>mg_user_tasks := AList.delete (c_local_idx c, c_local_id c) (mg_user_tasks mg1)\<rparr>"
    by (auto simp: session_ends_def split: Option.bind_splits)
  have "manager_inv mg1"
  proof (cases "c_state c = CONNECTED")
    case True
    with s have "on_circuit oid initiate_disconnect mg = Some mg1" by simp
    with assms(1) show ?thesis
      by (rule manager_inv_in_place) (use initiate_disconnect_same in \<open>auto split: if_splits\<close>)
  next
    case False
    with s assms(1) show ?thesis by simp
  qed
  then show ?thesis by (rule manager_inv_fields) (simp_all add: mg')
qed

lemma disc_guard_inv:
  assumes "manager_inv mg" and "disc_guard_fires oid mg = Some mg'"
  shows "manager_inv mg'"
proof -
  from assms(2) obtain c where c: "map_of (mg_store mg) oid = Some c"
    by (auto simp: disc_guard_fires_def split: Option.bind_splits)
  define c1 where "c1 = c\<lparr>c_disc_guard := False\<rparr>"
  have g: "circuit_good c" by (rule circuit_good_of [OF assms(1) c])
  have g1: "circuit_good c1" "same_identity c c1"
    using g by (auto simp: c1_def circuit_good_def sendable_def same_identity_def)
  have i1: "manager_inv (put_circuit oid (c1, mg_link mg) mg)"
    by (rule manager_ok_put [OF assms(1) c]) (use g1 in \<open>auto simp: c1_def\<close>)
  show ?thesis
  proof (cases "c_state c = DISCONNECTING")
    case False
    then show ?thesis using assms(2) c i1
      by (simp add: disc_guard_fires_def reap_disconnecting_def c1_def)
  next
    case True
    then have mg': "mg' = remove_circuit oid (put_circuit oid (set_closed c1, mg_link mg) mg)"
      using assms(2) c by (simp add: disc_guard_fires_def reap_disconnecting_def c1_def)
    have "manager_ok {oid} (put_circuit oid (set_closed c1, mg_link mg) mg)"
      by (rule manager_ok_put [OF assms(1) c])
        (use g1 set_closed_same [of c1] same_identity_trans [OF g1(2) identity_closed] in \<open>auto simp: c1_def\<close>)
    then show ?thesis unfolding mg' by (rule manager_ok_remove) simp
  qed
qed

lemma map_of_close_all: "map_of (close_all oids store) oid =
    map_option (\<lambda>c. if oid \<in> set oids then set_closed c else c) (map_of store oid)"
  by (induction store) (auto simp: close_all_def)

lemma shutdown_inv:
  assumes "manager_inv mg" shows "manager_inv (shutdown mg)"
proof -
  have "circuit_good (set_closed c)" if "map_of (mg_store mg) oid = Some c" for oid c
    using circuit_good_of [OF assms that] set_closed_same(4) by blast
  then show ?thesis
    using assms by (auto simp: shutdown_def cancel_idle_timer_def manager_ok_def tables_ok_def map_of_close_all Let_def)
qed

lemma manager_step_inv:
  assumes "manager_step mg e mg'" and "manager_inv mg"
  shows "manager_inv mg'"
  using assms
proof cases
  case (frame_in data f)
  show ?thesis
    by (rule dispatch_inv [OF assms(2) _ frame_in(3)]) (use frame_in(2) decoded_frame_encodable(1) in blast)
next
  case (originate d u w oid)
  then show ?thesis using assms(2) originate_start_inv by blast
next
  case (originate_wakes oid c t r)
  then show ?thesis using assms(2) originate_finish_inv by blast
next
  case (session_writes oid data)
  from assms(2) session_writes(3) show ?thesis
    by (rule manager_inv_in_place) (use writer_write_same in auto)
next
  case (session_drains oid)
  from assms(2) session_drains(3) show ?thesis
    by (rule manager_inv_in_place) (use drain_turn_same in auto)
next
  case (session_closes oid)
  from assms(2) session_closes(3) show ?thesis
    by (rule manager_inv_in_place) (use writer_close_same in fastforce)
next
  case (session_finishes oid)
  then show ?thesis using assms(2) session_ends_inv by blast
next
  case (guard_fires oid c)
  then show ?thesis using assms(2) disc_guard_inv by blast
next
  case idle_fires
  from assms(2) show ?thesis
    by (rule manager_inv_fields) (simp_all add: idle_fires reap_idle_def close_link_def Let_def)
next
  case reap_now
  from assms(2) show ?thesis
    by (rule manager_inv_fields) (simp_all add: reap_now reap_now_if_idle_def close_link_def cancel_idle_timer_def)
next
  case link_drops
  with assms(2) show ?thesis using shutdown_inv by simp
qed

lemma manager_steps_inv: "manager_steps mg es mg' \<Longrightarrow> manager_inv mg \<Longrightarrow> manager_inv mg'"
  by (induction rule: manager_steps.induct) (auto intro: manager_step_inv)

lemma manager_init_inv: "encodable lc \<Longrightarrow> manager_inv (manager_init lc via ttl mtu idle)"
  by (simp add: manager_init_def manager_ok_def tables_ok_def)

section \<open>Lemmas: index allocation in orderly runs\<close>

text \<open>
  \<open>_used_idx\<close> holds exactly the indices of the registered circuits, and no two of those share one,
  as long as every circuit that a guard or a waking originator removes is still registered.
\<close>

definition slots_ok :: "(circuit_key, nat) dict \<Rightarrow> int set \<Rightarrow> bool" where
  "slots_ok L U \<longleftrightarrow> distinct (map (fst \<circ> fst) L) \<and> (fst \<circ> fst) ` set L = U"

definition registered :: "nat \<Rightarrow> manager \<Rightarrow> bool" where
  "registered oid mg \<longleftrightarrow> oid \<in> snd ` set (mg_by_local mg)"

definition slot_inv :: "manager \<Rightarrow> bool" where
  "slot_inv mg \<longleftrightarrow> manager_inv mg \<and> slots_ok (mg_by_local mg) (mg_used_idx mg)
     \<and> mg_used_idx mg \<subseteq> {0 ..< MAX_LOCAL_CIRCUITS}"

lemma slots_distinct: "slots_ok L U \<Longrightarrow> distinct (map fst L)"
  by (metis distinct_map_filter list.map_comp distinct_map slots_ok_def)

lemma update_new: "k \<notin> fst ` set d \<Longrightarrow> AList.update k v d = d @ [(k, v)]"
  by (induction d) auto

lemma slots_add:
  assumes "slots_ok L U" and "i \<notin> U"
  shows "slots_ok (AList.update (i, j) v L) (insert i U)"
proof -
  have "(i, j) \<notin> fst ` set L" using assms by (force simp: slots_ok_def)
  then show ?thesis using assms by (auto simp: update_new slots_ok_def)
qed

lemma slots_remove:
  assumes "slots_ok L U" and "map_of L (i, j) = Some v"
  shows "slots_ok (AList.delete (i, j) L) (U - {i})"
proof -
  have m: "((i, j), v) \<in> set L" by (rule map_of_SomeD [OF assms(2)])
  have inj: "inj_on (fst \<circ> fst) (set L)" using assms(1) by (simp add: slots_ok_def distinct_map)
  have uniq: "p = ((i, j), v)" if "p \<in> set L" "fst (fst p) = i" for p
    using inj_onD [OF inj, of p "((i, j), v)"] that m by simp
  have "fst p \<noteq> (i, j) \<longleftrightarrow> fst (fst p) \<noteq> i" if "p \<in> set L" for p
    using uniq [OF that] by (cases p) auto
  then have "{p \<in> set L. fst p \<noteq> (i, j)} = {p \<in> set L. fst (fst p) \<noteq> i}" by blast
  moreover have "set (AList.delete (i, j) L) = {p \<in> set L. fst p \<noteq> (i, j)}"
    by (auto simp: AList.delete_eq)
  moreover have "(fst \<circ> fst) ` {p \<in> set L. fst (fst p) \<noteq> i} = U - {i}"
    using assms(1) unfolding slots_ok_def by force
  ultimately have "(fst \<circ> fst) ` set (AList.delete (i, j) L) = U - {i}" by simp
  moreover have "distinct (map (fst \<circ> fst) (AList.delete (i, j) L))"
    using assms(1) by (simp add: slots_ok_def AList.delete_eq distinct_map_filter)
  ultimately show ?thesis by (simp add: slots_ok_def)
qed

lemma slot_inv_fields:
  assumes "slot_inv mg" and "manager_inv mg'" and "mg_by_local mg' = mg_by_local mg"
    and "mg_used_idx mg' = mg_used_idx mg"
  shows "slot_inv mg'"
  using assms by (simp add: slot_inv_def)

lemma on_circuit_fields:
  assumes "on_circuit oid f mg = Some mg'"
  shows "mg_by_local mg' = mg_by_local mg" and "mg_used_idx mg' = mg_used_idx mg"
    and "mg_by_remote mg' = mg_by_remote mg"
  using assms by (auto elim!: on_circuit_Some)

lemma slot_inv_remove:
  assumes "slot_inv mg" and "registered oid mg" and "manager_inv (remove_circuit oid mg)"
  shows "slot_inv (remove_circuit oid mg)"
proof -
  from assms(2) obtain k where "(k, oid) \<in> set (mg_by_local mg)" by (auto simp: registered_def)
  then have k: "map_of (mg_by_local mg) k = Some oid"
    using slots_distinct assms(1) by (auto simp: slot_inv_def)
  have "manager_inv mg" using assms(1) by (simp add: slot_inv_def)
  from tables_localD [OF this k] obtain c where c: "map_of (mg_store mg) oid = Some c"
    and kc: "k = (c_local_idx c, c_local_id c)" by blast
  have "slots_ok (AList.delete (c_local_idx c, c_local_id c) (mg_by_local mg)) (mg_used_idx mg - {c_local_idx c})"
    using assms(1) k kc by (intro slots_remove) (auto simp: slot_inv_def)
  then show ?thesis using assms(1,3) by (auto simp: slot_inv_def remove_fields [OF c])
qed

lemma registered_put [simp]: "registered oid (put_circuit oid' cl mg) = registered oid mg"
  by (simp add: registered_def)

lemma slots_added:
  assumes "add_circuit c m = (mg', oid)" and "mg_used_idx m = U" and "mg_by_local m = L"
  shows "mg_used_idx mg' = U" and "mg_by_local mg' = AList.update (c_local_idx c, c_local_id c) oid L"
  using assms by (auto simp: add_circuit_def Let_def)

lemma slots_open:
  assumes "manager_inv mg" and "open_circuit h user origin w mg = Some (mg', oid)"
    and "slots_ok (mg_by_local mg) (mg_used_idx mg)"
  shows "slots_ok (mg_by_local mg') (mg_used_idx mg')"
    and "\<exists>i. mg_used_idx mg' = insert i (mg_used_idx mg) \<and> 0 \<le> i \<and> i < MAX_LOCAL_CIRCUITS"
proof -
  obtain mg1 i where a: "allocate_local_idx (cancel_idle_timer mg) = Some (mg1, i)"
    using assms(2) by (cases "allocate_local_idx (cancel_idle_timer mg)") (auto simp: open_circuit_def)
  obtain m lid where l: "allocate_local_id mg1 = (m, lid)" by fastforce
  note af = allocate_idx_facts [OF a] and ai = alloc_inv [OF assms(1) a l]
  define c where "c = fresh_circuit m i lid (h_circuit_idx h) (h_circuit_id h) user origin CONNECTING w"
  have c: "c_local_idx c = i" "c_local_id c = lid" by (simp_all add: c_def fresh_circuit_def)
  obtain mg2 o2 where add: "add_circuit c m = (mg2, o2)" by fastforce
  from assms(2) have oid: "o2 = oid"
    and mg': "mg' = mg2\<lparr>mg_by_remote := AList.update (h_circuit_idx h, h_circuit_id h) oid (mg_by_remote mg2)\<rparr>"
    by (auto simp: open_circuit_def a l Let_def add [unfolded c_def])
  have e: "mg_used_idx mg' = insert i (mg_used_idx mg)"
    "mg_by_local mg' = AList.update (i, lid) oid (mg_by_local mg)" 
    using slots_added [OF add [unfolded oid] ai(7,4)] by (simp_all add: mg' c)
  show "slots_ok (mg_by_local mg') (mg_used_idx mg')"
    unfolding e by (rule slots_add [OF assms(3) ai(8)])
  show "\<exists>i. mg_used_idx mg' = insert i (mg_used_idx mg) \<and> 0 \<le> i \<and> i < MAX_LOCAL_CIRCUITS"
    using e(1) af(3,4) by blast
qed

lemma slots_originate:
  assumes "manager_inv mg" and "originate_start d u w mg = Some (mg', oid)"
    and "slots_ok (mg_by_local mg) (mg_used_idx mg)"
  shows "slots_ok (mg_by_local mg') (mg_used_idx mg')"
    and "\<exists>i. mg_used_idx mg' = insert i (mg_used_idx mg) \<and> 0 \<le> i \<and> i < MAX_LOCAL_CIRCUITS"
proof -
  obtain mg1 i where a: "allocate_local_idx (cancel_idle_timer mg) = Some (mg1, i)"
    using assms(2) by (cases "allocate_local_idx (cancel_idle_timer mg)") (auto simp: originate_start_def)
  obtain m lid where l: "allocate_local_id mg1 = (m, lid)" by fastforce
  note af = allocate_idx_facts [OF a] and ai = alloc_inv [OF assms(1) a l]
  define c where "c = fresh_circuit m i lid 0 0 u d AWAITING_CONNECT (max 1 (min MAX_WINDOW w))"
  have c: "c_local_idx c = i" "c_local_id c = lid" by (simp_all add: c_def fresh_circuit_def)
  obtain mg2 o2 where add: "add_circuit c m = (mg2, o2)" by fastforce
  from assms(2) obtain mg3 where oid: "o2 = oid" and mg': "mg' = mg3\<lparr>mg_waiting := oid # mg_waiting mg3\<rparr>"
    and s: "on_circuit oid (\<lambda>c lk. map_option (\<lambda>lk. (c, lk)) (send_connect_request (c_accepted_window c) c lk)) mg2
        = Some mg3"
    by (auto simp: originate_start_def a l Let_def add [unfolded c_def] split: Option.bind_splits)
  have e: "mg_used_idx mg' = insert i (mg_used_idx mg)"
    "mg_by_local mg' = AList.update (i, lid) oid (mg_by_local mg)"
    using slots_added [OF add [unfolded oid] ai(7,4)] on_circuit_fields [OF s] by (simp_all add: mg' c)
  show "slots_ok (mg_by_local mg') (mg_used_idx mg')"
    unfolding e by (rule slots_add [OF assms(3) ai(8)])
  show "\<exists>i. mg_used_idx mg' = insert i (mg_used_idx mg) \<and> 0 \<le> i \<and> i < MAX_LOCAL_CIRCUITS"
    using e(1) af(3,4) by blast
qed

definition orderly :: "manager \<Rightarrow> manager_event \<Rightarrow> bool" where
  "orderly mg e \<longleftrightarrow> (case e of
      OriginateWakes oid t \<Rightarrow> registered oid mg
    | GuardFires oid \<Rightarrow> registered oid mg
    | _ \<Rightarrow> True)"

inductive orderly_steps :: "manager \<Rightarrow> manager_event list \<Rightarrow> manager \<Rightarrow> bool" where
  orderly_none: "orderly_steps mg [] mg"
| orderly_more: "orderly mg e \<Longrightarrow> manager_step mg e mg' \<Longrightarrow> orderly_steps mg' es mg'' \<Longrightarrow>
    orderly_steps mg (e # es) mg''"

lemma slot_inv_connect_request:
  assumes "slot_inv mg" and "handle_connect_request h w user origin mg = Some mg'" and "manager_inv mg'"
  shows "slot_inv mg'"
proof (cases "map_of (mg_by_remote mg) (h_circuit_idx h, h_circuit_id h)")
  case (Some oid)
  then have "mg_by_local mg' = mg_by_local mg" "mg_used_idx mg' = mg_used_idx mg"
    using assms(2) by (auto simp: handle_connect_request_def dest: on_circuit_fields)
  then show ?thesis by (rule slot_inv_fields [OF assms(1,3)])
next
  case None
  have inv: "manager_inv mg" using assms(1) by (simp add: slot_inv_def)
  show ?thesis
  proof (cases "MAX_LOCAL_CIRCUITS \<le> int (used_count mg)")
    case True
    then have "mg_by_local mg' = mg_by_local mg" "mg_used_idx mg' = mg_used_idx mg"
      using None assms(2)
      by (auto simp: handle_connect_request_def send_connect_refusal_def split: if_splits Option.bind_splits)
    then show ?thesis by (rule slot_inv_fields [OF assms(1,3)])
  next
    case False
    define aw where "aw = max 1 (min MAX_WINDOW w)"
    from None False assms(2) obtain mg1 oid mg2 where o: "open_circuit h user origin aw mg = Some (mg1, oid)"
      and s: "on_circuit oid (\<lambda>c lk. send_connect_ack aw False c lk) mg1 = Some mg2"
      and f: "mg_by_local mg' = mg_by_local mg2" "mg_used_idx mg' = mg_used_idx mg2"
      by (auto simp: handle_connect_request_def aw_def Let_def split: Option.bind_splits)
    from slots_open [OF inv o] on_circuit_fields [OF s] f assms(1,3) show ?thesis
      by (auto simp: slot_inv_def)
  qed
qed

lemma registered_of_table: "map_of (mg_by_local mg) k = Some oid \<Longrightarrow> registered oid mg"
  by (force simp: registered_def dest: map_of_SomeD)

lemma slot_inv_in_place:
  assumes "slot_inv mg" and "on_circuit oid f mg = Some mg'" and "manager_inv mg'"
  shows "slot_inv mg'"
  by (rule slot_inv_fields [OF assms(1,3)]) (fact on_circuit_fields [OF assms(2)])+

text \<open>Removing a registered circuit after updating it in place.\<close>

lemma slot_inv_put_remove:
  assumes "slot_inv mg" and "registered oid mg" and "on_circuit oid f mg = Some mg1"
    and "manager_inv (remove_circuit oid mg1)"
  shows "slot_inv (remove_circuit oid mg1)"
proof -
  from assms(2) obtain k where "(k, oid) \<in> set (mg_by_local mg)" by (auto simp: registered_def)
  then have k: "map_of (mg_by_local mg) k = Some oid"
    using slots_distinct assms(1) by (auto simp: slot_inv_def)
  from assms(3) obtain c d lk where c: "map_of (mg_store mg) oid = Some c"
    and mg1: "mg1 = put_circuit oid (d, lk) mg" by (rule on_circuit_Some)
  have d: "map_of (mg_store mg1) oid = Some d" by (simp add: mg1)
  show ?thesis
  proof (cases "k = (c_local_idx d, c_local_id d)")
    case True
    have "slots_ok (AList.delete (c_local_idx d, c_local_id d) (mg_by_local mg)) (mg_used_idx mg - {c_local_idx d})"
      using assms(1) k True by (intro slots_remove) (auto simp: slot_inv_def)
    then show ?thesis using assms(1,4) by (auto simp: slot_inv_def remove_fields [OF d, unfolded mg1] mg1)
  next
    case False
    then have "map_of (mg_by_local (remove_circuit oid mg1)) k = Some oid"
      using k by (simp add: remove_fields [OF d]) (simp add: mg1)
    from tables_localD [OF assms(4) this] d have "k = (c_local_idx d, c_local_id d)"
      by (simp add: remove_fields [OF d])
    with False show ?thesis by simp
  qed
qed

lemma slot_inv_dispatch:
  assumes "slot_inv mg" and "dispatch f mg = Some mg'" and "manager_inv mg'"
  shows "slot_inv mg'"
proof (cases f)
  case (ConnectRequest h w user origin)
  with assms(2) have "handle_connect_request h w user origin mg = Some mg'" by (simp add: dispatch_def)
  from slot_inv_connect_request [OF assms(1) this assms(3)] show ?thesis .
next
  case (Disconnect h)
  show ?thesis
  proof (cases "map_of (mg_by_local mg) (h_circuit_idx h, h_circuit_id h)")
    case None
    with assms Disconnect show ?thesis by (simp add: dispatch_def)
  next
    case (Some oid)
    with assms(2) Disconnect obtain g mg1 where "on_circuit oid g mg = Some mg1" "mg' = remove_circuit oid mg1"
      by (auto simp: dispatch_def split: if_splits)
    with slot_inv_put_remove [OF assms(1) registered_of_table [OF Some]] assms(3) show ?thesis by blast
  qed
next
  case (ConnectAck h w r)
  with assms(2) show ?thesis
    by (cases "map_of (mg_by_local mg) (h_circuit_idx h, h_circuit_id h)")
      (use assms(1) in \<open>simp_all add: dispatch_def slot_inv_in_place [OF assms(1) _ assms(3)]\<close>)
next
  case (Information h i)
  with assms(2) show ?thesis
    by (cases "map_of (mg_by_local mg) (h_circuit_idx h, h_circuit_id h)")
      (use assms(1) in \<open>simp_all add: dispatch_def slot_inv_in_place [OF assms(1) _ assms(3)]\<close>)
next
  case (InformationAck h)
  with assms(2) show ?thesis
    by (cases "map_of (mg_by_local mg) (h_circuit_idx h, h_circuit_id h)")
      (use assms(1) in \<open>simp_all add: dispatch_def slot_inv_in_place [OF assms(1) _ assms(3)]\<close>)
qed

lemma slot_inv_step:
  assumes "slot_inv mg" and "manager_step mg e mg'" and "orderly mg e"
  shows "slot_inv mg'"
proof -
  have inv: "manager_inv mg" using assms(1) by (simp add: slot_inv_def)
  have inv': "manager_inv mg'" by (rule manager_step_inv [OF assms(2) inv])
  note same = slot_inv_fields [OF assms(1) inv']
  from assms(2) show ?thesis
  proof cases
    case (frame_in data f)
    with assms(1) inv' show ?thesis using slot_inv_dispatch by blast
  next
    case (originate d u w oid)
    from slots_originate [OF inv originate(2)] assms(1) inv' show ?thesis by (auto simp: slot_inv_def)
  next
    case (originate_wakes oid c t r)
    let ?m = "mg\<lparr>mg_waiting := removeAll oid (mg_waiting mg)\<rparr>"
    have m: "manager_inv ?m" using inv by (rule manager_inv_fields) simp_all
    have "slot_inv ?m" by (rule slot_inv_fields [OF assms(1) m]) simp_all
    moreover have "registered oid ?m" using assms(3) originate_wakes(1) by (simp add: orderly_def registered_def)
    ultimately have "slot_inv (remove_circuit oid ?m)" by (rule slot_inv_remove) (rule remove_inv [OF m])
    with \<open>slot_inv ?m\<close> originate_wakes(5) show ?thesis
      by (auto simp: originate_finish_def Let_def split: Option.bind_splits if_splits)
  next
    case (session_finishes oid)
    then have "mg_by_local mg' = mg_by_local mg" "mg_used_idx mg' = mg_used_idx mg"
      by (auto simp: session_ends_def split: Option.bind_splits if_splits dest: on_circuit_fields)
    then show ?thesis by (rule same)
  next
    case (guard_fires oid c)
    define c1 where "c1 = fst (reap_disconnecting c)"
    have p: "on_circuit oid (\<lambda>c lk. Some (fst (reap_disconnecting c), lk)) mg = Some (put_circuit oid (c1, mg_link mg) mg)"
      using guard_fires(2) by (simp add: on_circuit_def c1_def)
    have r: "registered oid mg" using assms(3) guard_fires(1) by (simp add: orderly_def)
    show ?thesis
    proof (cases "snd (reap_disconnecting c)")
      case True
      with guard_fires(2,4) have "mg' = remove_circuit oid (put_circuit oid (c1, mg_link mg) mg)"
        by (auto simp: disc_guard_fires_def c1_def split: prod.splits)
      with slot_inv_put_remove [OF assms(1) r p] inv' show ?thesis by blast
    next
      case False
      with guard_fires(2,4) have "mg' = put_circuit oid (c1, mg_link mg) mg"
        by (auto simp: disc_guard_fires_def c1_def split: prod.splits)
      then show ?thesis by (intro same) simp_all
    qed
  next
    case link_drops
    with assms(1) inv' show ?thesis
      by (simp add: slot_inv_def shutdown_def slots_ok_def cancel_idle_timer_def Let_def)
  next
    case (session_writes oid data)
    show ?thesis by (rule slot_inv_in_place [OF assms(1) session_writes(3) inv'])
  next
    case (session_drains oid)
    show ?thesis by (rule slot_inv_in_place [OF assms(1) session_drains(3) inv'])
  next
    case (session_closes oid)
    show ?thesis by (rule slot_inv_in_place [OF assms(1) session_closes(3) inv'])
  next
    case idle_fires
    show ?thesis by (rule same) (simp_all add: idle_fires reap_idle_def close_link_def Let_def)
  next
    case reap_now
    show ?thesis by (rule same) (simp_all add: reap_now reap_now_if_idle_def close_link_def cancel_idle_timer_def)
  qed
qed

lemma slot_inv_steps: "orderly_steps mg es mg' \<Longrightarrow> slot_inv mg \<Longrightarrow> slot_inv mg'"
  by (induction rule: orderly_steps.induct) (auto intro: slot_inv_step)

lemma slot_inv_init: "encodable lc \<Longrightarrow> slot_inv (manager_init lc via ttl mtu idle)"
  using manager_init_inv by (simp add: slot_inv_def) (simp add: manager_init_def slots_ok_def arm_idle_timer_def)

lemma slot_inv_bound:
  assumes "slot_inv mg" shows "int (circuit_count mg) \<le> MAX_LOCAL_CIRCUITS"
    and "used_count mg = circuit_count mg"
proof -
  have s: "slots_ok (mg_by_local mg) (mg_used_idx mg)" "mg_used_idx mg \<subseteq> {0 ..< MAX_LOCAL_CIRCUITS}"
    using assms by (simp_all add: slot_inv_def)
  have "card (mg_used_idx mg) = length (mg_by_local mg)"
    using s(1) distinct_card [of "map (fst \<circ> fst) (mg_by_local mg)"] by (simp add: slots_ok_def)
  then show u: "used_count mg = circuit_count mg" by (simp add: used_count_def circuit_count_def)
  have "card (mg_used_idx mg) \<le> card {0 ..< MAX_LOCAL_CIRCUITS}"
    by (rule card_mono [OF _ s(2)]) simp
  then show "int (circuit_count mg) \<le> MAX_LOCAL_CIRCUITS"
    using u by (simp add: used_count_def MAX_LOCAL_CIRCUITS_def)
qed

section \<open>Lemmas: dispatch\<close>

lemma put_total: "\<exists>x. f c (mg_link mg) = Some x \<Longrightarrow> map_of (mg_store mg) oid = Some c \<Longrightarrow>
    \<exists>mg'. on_circuit oid f mg = Some mg'"
  by (auto simp: on_circuit_def)

lemma open_circuit_total:
  assumes "manager_inv mg" and "int (used_count mg) < MAX_LOCAL_CIRCUITS"
  shows "\<exists>mg' oid. open_circuit h user origin w mg = Some (mg', oid)"
proof -
  have "finite (mg_used_idx (cancel_idle_timer mg))" "int (used_count (cancel_idle_timer mg)) < MAX_LOCAL_CIRCUITS"
    using assms by (simp_all add: cancel_idle_timer_def used_count_def manager_ok_def)
  from allocate_idx_total [OF this] obtain i where
    "allocate_local_idx (cancel_idle_timer mg)
      = Some (cancel_idle_timer mg\<lparr>mg_used_idx := insert i (mg_used_idx (cancel_idle_timer mg))\<rparr>, i)" by blast
  then show ?thesis by (simp add: open_circuit_def Let_def case_prod_beta)
qed

lemma connect_request_total:
  assumes "manager_inv mg" and "encodable origin"
  shows "\<exists>mg'. handle_connect_request h w user origin mg = Some mg'"
proof (cases "map_of (mg_by_remote mg) (h_circuit_idx h, h_circuit_id h)")
  case (Some oid)
  from tables_remoteD [OF assms(1) Some] obtain c where c: "map_of (mg_store mg) oid = Some c" by blast
  then have "sendable c" using circuit_good_of [OF assms(1)] by (simp add: circuit_good_def)
  from put_total [of "\<lambda>c lk. send_connect_ack (c_accepted_window c) False c lk" c mg oid] send_total(5) [OF this] c
  show ?thesis by (fastforce simp: handle_connect_request_def Some)
next
  case None
  have lc: "encodable (mg_local_call mg)" using assms(1) by (simp add: manager_ok_def)
  show ?thesis
  proof (cases "MAX_LOCAL_CIRCUITS \<le> int (used_count mg)")
    case True
    have "\<exists>lk. send_frame \<lparr>h_origin_call = mg_local_call mg, h_dest_call = origin,
          h_ttl = mg_default_ttl mg, h_circuit_idx = h_circuit_idx h, h_circuit_id = h_circuit_id h,
          h_tx_seq = 0, h_rx_seq = 0, h_opcode_flags = OPCODE_CONNECT_ACK OR FLAG_CHOKE\<rparr>
          (encode_connect_ack_tail 0) (mg_link mg) = Some lk"
      (is "\<exists>lk. send_frame ?h _ _ = Some lk")
      using send_frame_total [of ?h "encode_connect_ack_tail 0" "mg_link mg"] lc assms(2) by auto
    with None True show ?thesis by (auto simp: handle_connect_request_def send_connect_refusal_def Let_def)
  next
    case False
    define aw where "aw = max 1 (min MAX_WINDOW w)"
    obtain mg1 oid where o: "open_circuit h user origin aw mg = Some (mg1, oid)"
      using open_circuit_total [OF assms(1)] False by fastforce
    note oi = open_circuit_inv [OF assms o]
    from oi(2) obtain c where c: "map_of (mg_store mg1) oid = Some c" by blast
    then have "sendable c" using circuit_good_of [OF oi(1)] by (simp add: circuit_good_def)
    from put_total [of "\<lambda>c lk. send_connect_ack aw False c lk" c mg1 oid] send_total(5) [OF this] c
    obtain mg2 where s: "on_circuit oid (\<lambda>c lk. send_connect_ack aw False c lk) mg1 = Some mg2" by fastforce
    then obtain d where "map_of (mg_store mg2) oid = Some d" by (auto elim!: on_circuit_Some)
    with None False o s show ?thesis by (simp add: handle_connect_request_def aw_def [symmetric] Let_def)
  qed
qed

lemma dispatch_total_aux:
  assumes "manager_inv mg" and "\<And>h w user origin. f = ConnectRequest h w user origin \<Longrightarrow> encodable origin"
    and "\<And>oid c. registered oid mg \<Longrightarrow> map_of (mg_store mg) oid = Some c \<Longrightarrow> c_state c \<noteq> CLOSED"
  shows "\<exists>mg'. dispatch f mg = Some mg'"
proof (cases "\<exists>h w user origin. f = ConnectRequest h w user origin")
  case True
  then obtain h w user origin where f: "f = ConnectRequest h w user origin" by blast
  with connect_request_total [OF assms(1) assms(2) [OF f]] show ?thesis by (simp add: dispatch_def)
next
  case False
  let ?k = "(h_circuit_idx (frame_header f), h_circuit_id (frame_header f))"
  show ?thesis
  proof (cases "map_of (mg_by_local mg) ?k")
    case None
    with False show ?thesis by (cases f) (auto simp: dispatch_def)
  next
    case (Some oid)
    from tables_localD [OF assms(1) Some] obtain c where c: "map_of (mg_store mg) oid = Some c" by blast
    have good: "circuit_good c" by (rule circuit_good_of [OF assms(1) c])
    have "c_state c \<noteq> CLOSED" using assms(3) registered_of_table [OF Some] c by blast
    then have g: "sendable c" "\<not> c_reader_eof c" using good by (auto simp: circuit_good_def)
    show ?thesis
    proof (cases f)
      case (Information h i)
      with Some have "dispatch f mg = on_circuit oid (handle_information h i) mg" by (simp add: dispatch_def)
      with put_total [of "handle_information h i" c mg oid] handle_information_total [OF g] c show ?thesis by fastforce
    next
      case (Disconnect h)
      have "\<exists>mg'. on_circuit oid handle_disconnect_request mg = Some mg'"
        using put_total [of handle_disconnect_request c mg oid] send_total(3) [OF g(1), of "mg_link mg"] c
        by (auto simp: handle_disconnect_request_def)
      with Some Disconnect c show ?thesis by (auto simp: dispatch_def on_circuit_def)
    qed (use False Some c in \<open>auto simp: dispatch_def on_circuit_def\<close>)
  qed
qed

end
