(* ===== verification/Circuit_Properties.thy ===== *)
theory Circuit_Properties
  imports Circuit_Manager
begin

text \<open>
  The properties of virtual circuits: delivery and flow control between two circuits, the tables of
  the manager on every run of its event loop, and what it does at the edges: a full table, a dropped
  crosslink, frames that arrive in an order the peer should not produce.
\<close>

abbreviation sample_circuit :: "callsign \<Rightarrow> callsign \<Rightarrow> circuit" where
  "sample_circuit here there \<equiv>
     \<lparr>c_local_idx = 0, c_local_id = 1, c_remote_idx = 0, c_remote_id = 1, c_local_call = here,
      c_user_call = ''W1AW'', c_origin_node_call = there, c_via_node = there, c_state = CONNECTED,
      c_vs = 254, c_vr = 254, c_va = 254, c_accepted_window = 4, c_info_mtu = 3, c_reassembly = [],
      c_pending = [], c_window_event = False, c_reader = [], c_reader_eof = False,
      c_writer_closing = False, c_disc_guard = False, c_closed_event = False, c_connected_event = True\<rparr>"

lemma sample_in_step: "in_step (sample_circuit ''K1'' ''K2'') (sample_circuit ''K2'' ''K1'')"
proof -
  have "canonical ''K1''" "canonical ''K2''" by code_simp+
  then show ?thesis by (simp add: in_step_def circuit_ok_def byte_range_def)
qed

section \<open>Delivery and flow control\<close>

text \<open>
  C2. What one end of a connected pair writes, the other end's session reads as one chunk: the
  fragments of the write go over the wire frame by frame, are acknowledged, reassembled and handed
  over in as many turns as there are fragments, whatever the sequence numbers were (they wrap).
\<close>

theorem circuit_delivers_write:
  assumes "in_step a b" and "c_pending a = []" and "\<not> c_writer_closing a" and "0 < c_info_mtu a"
    and "data \<noteq> []" and "length data \<le> MAX_REASSEMBLY_BYTES" and "c_reassembly b = []"
  shows "\<exists>a' b'. transfer (length (c_pending (writer_write data a))) (writer_write data a, b) = Some (a', b')
    \<and> in_step a' b' \<and> c_pending a' = [] \<and> c_reader b' = c_reader b @ [data]"
proof -
  let ?a = "writer_write data a"
  have p: "c_pending ?a = write_loop (c_info_mtu a) 0 data"
    using assms(1-5) by (simp add: writer_write_def in_step_def)
  note w = write_loop_spec [OF assms(4), of 0 data]
  have i: "in_step ?a b" using assms(1) by (auto simp: in_step_def writer_write_def circuit_ok_def)
  have c: "concat (map fst (c_pending ?a)) = data" "well_flagged (c_pending ?a)"
    "\<forall>f \<in> set (c_pending ?a). fst f \<noteq> []" using w assms(5) by (simp_all add: p)
  have "length (c_reassembly b @ concat (map fst (c_pending ?a))) \<le> MAX_REASSEMBLY_BYTES"
    using assms(6,7) c(1) by simp
  from transfer_delivers [OF i c(2) this c(3)] c(1) assms(7) show ?thesis by auto
qed

lemma circuit_delivers_write_witness:
  "\<exists>a' b'. transfer (length (c_pending (writer_write [1, 2, 3, 4, 5, 6, 7] (sample_circuit ''K1'' ''K2''))))
      (writer_write [1, 2, 3, 4, 5, 6, 7] (sample_circuit ''K1'' ''K2''), sample_circuit ''K2'' ''K1'') = Some (a', b')
    \<and> in_step a' b' \<and> c_pending a' = []
    \<and> c_reader b' = c_reader (sample_circuit ''K2'' ''K1'') @ [[1, 2, 3, 4, 5, 6, 7]]"
  by (rule circuit_delivers_write [OF sample_in_step]) (simp_all add: MAX_REASSEMBLY_BYTES_def)

text \<open>
  C12. Under any interleaving of writes, drain turns and acknowledgements of frames in flight, the
  frames in flight never exceed the window the circuit agreed on.
\<close>

theorem window_respected:
  assumes "window_inv c"
  shows "nat (frames_in_flight (run flow_step c es)) \<le> nat (c_accepted_window c)"
  by (rule window.run_within [OF assms])

lemma window_respected_witness:
  "nat (frames_in_flight (run flow_step (sample_circuit ''K1'' ''K2'')
     [WriteData [1, 2, 3, 4, 5, 6], DrainTurn, DrainTurn, PeerAcks 1])) \<le>
     nat (c_accepted_window (sample_circuit ''K1'' ''K2''))"
  by (rule window_respected) (simp add: window_inv_def frames_in_flight_def MAX_WINDOW_def)

section \<open>The manager\<close>

text \<open>
  C3. On every run of the event loop from construction the tables stay sound: every registered key
  is the key of its circuit, a circuit found by its remote key is neither closed nor still waiting
  for its acknowledgement, a reader has seen EOF exactly when its circuit is closed, and every
  circuit can address its frames.
\<close>

theorem manager_tables_sound:
  assumes "encodable lc" and "manager_steps (manager_init lc via ttl mtu idle) es mg"
  shows "manager_inv mg"
  using manager_steps_inv [OF assms(2) manager_init_inv [OF assms(1)]] .

lemma sample_dispatch:
  "decode_l3_frame [0x96, 0x62, 0x40, 0x40, 0x40, 0x40, 0, 0x96, 0x64, 0x40, 0x40, 0x40, 0x40, 1,
      25, 7, 9, 0, 0, 1, 4, 0x96, 0x66, 0x40, 0x40, 0x40, 0x40, 0, 0x96, 0x62, 0x40, 0x40, 0x40, 0x40, 0]
    = Some (Some (ConnectRequest \<lparr>h_origin_call = ''K1'', h_dest_call = ''K2'', h_ttl = 25,
        h_circuit_idx = 7, h_circuit_id = 9, h_tx_seq = 0, h_rx_seq = 0, h_opcode_flags = 1\<rparr>
        4 ''K3'' ''K1''))"
  by code_simp

abbreviation sample_request :: l3_frame where
  "sample_request \<equiv> ConnectRequest \<lparr>h_origin_call = ''K1'', h_dest_call = ''K2'', h_ttl = 25,
     h_circuit_idx = 7, h_circuit_id = 9, h_tx_seq = 0, h_rx_seq = 0, h_opcode_flags = 1\<rparr> 4 ''K3'' ''K1''"

abbreviation sample_manager :: manager where
  "sample_manager \<equiv> manager_init ''K2'' ''K1'' 25 108 900"

lemma sample_encodable: "encodable ''K2''" "encodable ''K1''"
  by code_simp+

lemma sample_connected: "\<exists>mg. dispatch sample_request sample_manager = Some mg"
proof -
  have o: "encodable origin" if "sample_request = ConnectRequest h w user origin" for h w user origin
    using that sample_encodable(2) by simp
  have n: "c_state c \<noteq> CLOSED" if "registered oid sample_manager" for oid c
    using that by (simp add: registered_def manager_init_def)
  show ?thesis by (rule dispatch_total_aux [OF manager_init_inv [OF sample_encodable(1)]]) (erule o, erule n)
qed

lemma sample_accepted:
  "\<exists>mg. dispatch sample_request sample_manager = Some mg \<and> manager_inv mg"
proof -
  obtain mg where d: "dispatch sample_request sample_manager = Some mg" using sample_connected by blast
  have "manager_inv mg"
    by (rule dispatch_inv [OF manager_init_inv [OF sample_encodable(1)] _ d]) (use sample_encodable(2) in simp)
  with d show ?thesis by blast
qed

lemma manager_tables_sound_witness:
  "\<exists>mg. manager_steps sample_manager [FrameIn [0x96, 0x62, 0x40, 0x40, 0x40, 0x40, 0, 0x96, 0x64, 0x40,
      0x40, 0x40, 0x40, 1, 25, 7, 9, 0, 0, 1, 4, 0x96, 0x66, 0x40, 0x40, 0x40, 0x40, 0, 0x96, 0x62, 0x40,
      0x40, 0x40, 0x40, 0], LinkDrops] mg \<and> manager_inv mg"
proof -
  obtain mg where "dispatch sample_request sample_manager = Some mg" using sample_connected by blast
  from manager_step.frame_in [OF sample_dispatch this]
  have "manager_steps sample_manager [FrameIn [0x96, 0x62, 0x40, 0x40, 0x40, 0x40, 0, 0x96, 0x64, 0x40,
      0x40, 0x40, 0x40, 1, 25, 7, 9, 0, 0, 1, 4, 0x96, 0x66, 0x40, 0x40, 0x40, 0x40, 0, 0x96, 0x62, 0x40,
      0x40, 0x40, 0x40, 0], LinkDrops] (shutdown mg)"
    by (rule manager_steps.more_steps)
      (rule manager_steps.more_steps [OF manager_step.link_drops manager_steps.none])
  with manager_tables_sound [OF sample_encodable(1) this] show ?thesis by blast
qed



text \<open>
  C22. A frame the decoder accepts never raises out of \<open>dispatch\<close> while no registered circuit is
  closed: it is handled, refused or dropped.
\<close>

theorem dispatch_never_raises:
  assumes "manager_inv mg" and "decode_l3_frame data = Some (Some f)"
    and "\<forall>oid c. registered oid mg \<longrightarrow> map_of (mg_store mg) oid = Some c \<longrightarrow> c_state c \<noteq> CLOSED"
  shows "\<exists>mg'. dispatch f mg = Some mg' \<and> manager_inv mg'"
proof -
  have e: "encodable origin" if "f = ConnectRequest h w user origin" for h w user origin
    using decoded_frame_encodable(1) assms(2) that by blast
  have "\<exists>mg'. dispatch f mg = Some mg'"
    by (rule dispatch_total_aux [OF assms(1)]) (erule e, use assms(3) in blast)
  then obtain mg' where d: "dispatch f mg = Some mg'" by blast
  have "manager_inv mg'" by (rule dispatch_inv [OF assms(1) _ d]) (erule e)
  with d show ?thesis by blast
qed

lemma dispatch_never_raises_witness:
  "\<exists>mg'. dispatch sample_request sample_manager = Some mg' \<and> manager_inv mg'"
  by (rule dispatch_never_raises [OF manager_init_inv [OF sample_encodable(1)] sample_dispatch])
    (simp add: registered_def manager_init_def)

text \<open>
  A full table refuses and changes nothing: with 256 indices in use, a new CONNECT REQUEST is
  answered by exactly one frame, which the originator decodes as the refusal of its own circuit, and
  no table, index or session changes.
\<close>

theorem full_table_refuses:
  assumes "MAX_LOCAL_CIRCUITS \<le> int (used_count mg)" and "\<not> lk_closing (mg_link mg)"
    and "map_of (mg_by_remote mg) (h_circuit_idx h, h_circuit_id h) = None"
    and "canonical (mg_local_call mg)" and "canonical origin" and "byte_range (mg_default_ttl mg)"
    and "byte_range (h_circuit_idx h)" and "byte_range (h_circuit_id h)"
  shows "\<exists>fb k. dispatch (ConnectRequest h w user origin) mg
      = Some (mg\<lparr>mg_link := (mg_link mg)\<lparr>lk_out := lk_out (mg_link mg) @ [fb]\<rparr>\<rparr>)
    \<and> decode_l3_frame fb = Some (Some (ConnectAck k 0 True))
    \<and> h_circuit_idx k = h_circuit_idx h \<and> h_circuit_id k = h_circuit_id h \<and> h_dest_call k = origin"
proof -
  define k where "k = \<lparr>h_origin_call = mg_local_call mg, h_dest_call = origin,
          h_ttl = mg_default_ttl mg, h_circuit_idx = h_circuit_idx h, h_circuit_id = h_circuit_id h,
          h_tx_seq = 0, h_rx_seq = 0, h_opcode_flags = OPCODE_CONNECT_ACK OR FLAG_CHOKE\<rparr>"
  have fl: "OPCODE_CONNECT_ACK OR FLAG_CHOKE = 130" by (simp add: opcode_defs flag_defs)
  have ok: "header_ok k"
    using assms(4-8) by (simp add: header_ok_def k_def fl) (simp add: byte_range_def)
  have op: "h_opcode k = OPCODE_CONNECT_ACK"
    by (simp add: k_def h_opcode_def fl) (simp add: opcode_defs)
  have r: "h_refused k"
  proof -
    have "h_opcode_flags k = 130" by (simp add: k_def fl)
    with op show ?thesis by (simp add: h_refused_def h_choke_def flag_defs)
  qed
  obtain fb where fb: "send_frame k (encode_connect_ack_tail 0) (mg_link mg)
      = Some ((mg_link mg)\<lparr>lk_out := lk_out (mg_link mg) @ [fb]\<rparr>)"
    "encode_l3_frame k (encode_connect_ack_tail 0) = Some fb"
    using send_frame_open [OF ok assms(2)] by metis
  have d: "decode_l3_frame fb = Some (Some (ConnectAck k 0 True))"
    using l3_frame_round_trip(4) [OF ok op, of 0] fb(2) r by (auto simp: byte_range_def)
  have "dispatch (ConnectRequest h w user origin) mg
      = Some (mg\<lparr>mg_link := (mg_link mg)\<lparr>lk_out := lk_out (mg_link mg) @ [fb]\<rparr>\<rparr>)"
    using assms(1-3) fb(1) by (simp add: dispatch_def handle_connect_request_def send_connect_refusal_def
        Let_def k_def [symmetric])
  with d show ?thesis by (intro exI [of _ fb] exI [of _ k]) (simp add: k_def)
qed

lemma full_table_refuses_witness:
  "\<exists>fb k. dispatch sample_request (sample_manager\<lparr>mg_used_idx := {0 ..< 256}\<rparr>)
      = Some (sample_manager\<lparr>mg_used_idx := {0 ..< 256},
          mg_link := (mg_link (sample_manager\<lparr>mg_used_idx := {0 ..< 256}\<rparr>))\<lparr>lk_out :=
            lk_out (mg_link (sample_manager\<lparr>mg_used_idx := {0 ..< 256}\<rparr>)) @ [fb]\<rparr>\<rparr>)
    \<and> decode_l3_frame fb = Some (Some (ConnectAck k 0 True))
    \<and> h_circuit_idx k = 7 \<and> h_circuit_id k = 9 \<and> h_dest_call k = ''K1''"
proof -
  have c: "canonical ''K2''" "canonical ''K1''" by code_simp+
  have "\<exists>fb k. dispatch sample_request (sample_manager\<lparr>mg_used_idx := {0 ..< 256}\<rparr>)
      = Some ((sample_manager\<lparr>mg_used_idx := {0 ..< 256}\<rparr>)\<lparr>mg_link :=
          (mg_link (sample_manager\<lparr>mg_used_idx := {0 ..< 256}\<rparr>))\<lparr>lk_out :=
            lk_out (mg_link (sample_manager\<lparr>mg_used_idx := {0 ..< 256}\<rparr>)) @ [fb]\<rparr>\<rparr>)
    \<and> decode_l3_frame fb = Some (Some (ConnectAck k 0 True))
    \<and> h_circuit_idx k = h_circuit_idx \<lparr>h_origin_call = ''K1'', h_dest_call = ''K2'', h_ttl = 25,
        h_circuit_idx = 7, h_circuit_id = 9, h_tx_seq = 0, h_rx_seq = 0, h_opcode_flags = 1\<rparr>
    \<and> h_circuit_id k = h_circuit_id \<lparr>h_origin_call = ''K1'', h_dest_call = ''K2'', h_ttl = 25,
        h_circuit_idx = 7, h_circuit_id = 9, h_tx_seq = 0, h_rx_seq = 0, h_opcode_flags = 1\<rparr>
    \<and> h_dest_call k = ''K1''"
    by (rule full_table_refuses)
      (use c in \<open>simp_all add: used_count_def MAX_LOCAL_CIRCUITS_def byte_range_def manager_init_def
        arm_idle_timer_def\<close>)
  then show ?thesis by simp
qed

text \<open>
  When the crosslink drops, every circuit that was registered is closed with EOF for its
  session, and the manager is empty: no circuit, no index, no session task and no idle timer.
\<close>

theorem shutdown_closes_everything:
  assumes "manager_inv mg" and "map_of (mg_by_local mg) k = Some oid"
  shows "(\<exists>c. map_of (mg_store (shutdown mg)) oid = Some c \<and> c_state c = CLOSED \<and> c_reader_eof c)
    \<and> mg_by_local (shutdown mg) = [] \<and> mg_by_remote (shutdown mg) = [] \<and> mg_used_idx (shutdown mg) = {}
    \<and> mg_user_tasks (shutdown mg) = [] \<and> \<not> mg_idle_armed (shutdown mg)"
proof -
  obtain c where c: "map_of (mg_store mg) oid = Some c" using tables_localD [OF assms] by blast
  have "oid \<in> set (map snd (mg_by_local mg))" using map_of_SomeD [OF assms(2)] by force
  with c have s: "map_of (mg_store (shutdown mg)) oid = Some (set_closed c)"
    by (auto simp: shutdown_def map_of_close_all cancel_idle_timer_def Let_def)
  have "circuit_good (set_closed c)" using set_closed_same(4) circuit_good_of [OF assms(1) c] by blast
  then have "c_reader_eof (set_closed c)" by (simp add: circuit_good_def set_closed_same)
  with s show ?thesis by (simp add: set_closed_same) (simp add: shutdown_def cancel_idle_timer_def Let_def)
qed

lemma shutdown_closes_everything_witness:
  "\<exists>mg oid. dispatch sample_request sample_manager = Some mg
    \<and> (\<exists>c. map_of (mg_store (shutdown mg)) oid = Some c \<and> c_state c = CLOSED \<and> c_reader_eof c)
    \<and> mg_by_local (shutdown mg) = []"
proof -
  obtain mg where d: "dispatch sample_request sample_manager = Some mg" "manager_inv mg"
    using sample_accepted by blast
  have "map_option (\<lambda>mg. map_of (mg_by_local mg) (0, 1)) (dispatch sample_request sample_manager) = Some (Some 0)"
    by code_simp
  with d(1) have "map_of (mg_by_local mg) (0, 1) = Some 0" by simp
  from shutdown_closes_everything [OF d(2) this] d(1) show ?thesis by blast
qed

section \<open>Frames out of order\<close>

text \<open>
  A duplicate CONNECT REQUEST revives a circuit that is being torn down: it is acknowledged
  again and marked connected, and when the guard of its unanswered DISCONNECT REQUEST then fires,
  nothing happens: the circuit stays registered although its session has ended.
\<close>

theorem duplicate_request_revives_closing_circuit:
  assumes "manager_inv mg" and "map_of (mg_by_remote mg) (h_circuit_idx h, h_circuit_id h) = Some oid"
    and "map_of (mg_store mg) oid = Some c" and "c_state c = DISCONNECTING" and "c_disc_guard c"
    and "map_of (mg_by_local mg) k = Some oid"
  shows "\<exists>mg1 mg2 d. dispatch (ConnectRequest h w user origin) mg = Some mg1
    \<and> disc_guard_fires oid mg1 = Some mg2 \<and> map_of (mg_by_local mg2) k = Some oid
    \<and> map_of (mg_store mg2) oid = Some d \<and> c_state d = CONNECTED \<and> \<not> c_disc_guard d"
proof -
  have "sendable c" using circuit_good_of [OF assms(1,3)] by (simp add: circuit_good_def)
  then obtain lk where lk: "send_connect_ack (c_accepted_window c) False c (mg_link mg)
      = Some (c\<lparr>c_state := CONNECTED, c_connected_event := True\<rparr>, lk)"
    using send_total(5) [of c "c_accepted_window c" False "mg_link mg"] by auto
  let ?d = "c\<lparr>c_state := CONNECTED, c_connected_event := True\<rparr>"
  let ?m1 = "put_circuit oid (?d, lk) mg"
  have d: "dispatch (ConnectRequest h w user origin) mg = Some ?m1"
    using assms(2,3) lk by (simp add: dispatch_def handle_connect_request_def on_circuit_def)
  have "map_of (mg_store ?m1) oid = Some ?d" by simp
  then have "disc_guard_fires oid ?m1 = Some (put_circuit oid (?d\<lparr>c_disc_guard := False\<rparr>, lk) ?m1)"
    by (simp add: disc_guard_fires_def reap_disconnecting_def Let_def)
  with d assms(6) show ?thesis by (intro exI conjI) (assumption | simp)+
qed

lemma duplicate_request_revives_closing_circuit_witness:
  "\<exists>mg mg1 mg2 d. Option.bind (dispatch sample_request sample_manager) (session_ends 0) = Some mg
    \<and> dispatch sample_request mg = Some mg1 \<and> disc_guard_fires 0 mg1 = Some mg2
    \<and> map_of (mg_by_local mg2) (0, 1) = Some 0 \<and> map_of (mg_store mg2) 0 = Some d
    \<and> c_state d = CONNECTED \<and> \<not> c_disc_guard d"
proof -
  obtain mg0 where d: "dispatch sample_request sample_manager = Some mg0" "manager_inv mg0"
    using sample_accepted by blast
  have "map_option (\<lambda>mg. (map_of (mg_by_local mg) (0, 1), map_of (mg_by_remote mg) (7, 9),
      map_option (\<lambda>c. (c_state c, c_disc_guard c)) (map_of (mg_store mg) 0)))
    (Option.bind (dispatch sample_request sample_manager) (session_ends 0))
      = Some (Some 0, Some 0, Some (DISCONNECTING, True))"
    by code_simp
  then obtain mg c where e: "session_ends 0 mg0 = Some mg" "map_of (mg_by_local mg) (0, 1) = Some 0"
    "map_of (mg_by_remote mg) (7, 9) = Some 0" "map_of (mg_store mg) 0 = Some c"
    "c_state c = DISCONNECTING" "c_disc_guard c"
    by (auto simp: d(1))
  have "map_of (mg_by_remote mg) (h_circuit_idx \<lparr>h_origin_call = ''K1'', h_dest_call = ''K2'', h_ttl = 25,
     h_circuit_idx = 7, h_circuit_id = 9, h_tx_seq = 0, h_rx_seq = 0, h_opcode_flags = 1\<rparr>,
     h_circuit_id \<lparr>h_origin_call = ''K1'', h_dest_call = ''K2'', h_ttl = 25,
     h_circuit_idx = 7, h_circuit_id = 9, h_tx_seq = 0, h_rx_seq = 0, h_opcode_flags = 1\<rparr>) = Some 0"
    using e(3) by simp
  from duplicate_request_revives_closing_circuit [OF session_ends_inv [OF d(2) e(1)] this e(4,5,6,2)] d(1) e(1)
  show ?thesis by auto
qed

text \<open>
  A refused circuit takes the connection down if data follows in the same batch: after a CONNECT
  ACK that refuses the circuit we are waiting for, a first non-empty INFORMATION frame for it raises
  out of \<open>dispatch\<close> (\<open>feed_data\<close> after \<open>feed_eof\<close>), because the waiting originator, which would have
  removed the circuit, has not run yet.
\<close>

theorem refused_then_data_raises:
  assumes "map_of (mg_by_local mg) (h_circuit_idx h, h_circuit_id h) = Some oid"
    and "map_of (mg_store mg) oid = Some c" and "c_state c = AWAITING_CONNECT"
    and "h_circuit_idx k = h_circuit_idx h" and "h_circuit_id k = h_circuit_id h"
    and "low_byte (h_tx_seq k) = c_vr c" and "\<not> h_more_follows k" and "c_reassembly c = []"
    and "info \<noteq> []" and "length info \<le> MAX_REASSEMBLY_BYTES"
  shows "\<exists>mg1. dispatch (ConnectAck h w True) mg = Some mg1 \<and> dispatch (Information k info) mg1 = None"
proof -
  let ?m1 = "put_circuit oid (set_closed c, mg_link mg) mg"
  have d: "dispatch (ConnectAck h w True) mg = Some ?m1"
    using assms(1-3) by (simp add: dispatch_def on_circuit_def handle_connect_ack_def)
  have c: "c_vr (set_closed c) = c_vr c" "c_reassembly (set_closed c) = []" "c_reader_eof (set_closed c)"
    using assms(3,8) by (simp_all add: set_closed_def)
  have "handle_information k info (set_closed c) lk = None" for lk
    using assms(6,7,9,10) c by (simp add: handle_information_def reassemble_def feed_data_def Let_def)
  then have "dispatch (Information k info) ?m1 = None"
    using assms(1,4,5) by (simp add: dispatch_def on_circuit_def)
  with d show ?thesis by blast
qed

lemma refused_then_data_raises_witness:
  "\<exists>mg mg1. originate_start ''K1'' ''K3'' 4 sample_manager = Some (mg, 0)
    \<and> dispatch (ConnectAck \<lparr>h_origin_call = ''K1'', h_dest_call = ''K2'', h_ttl = 25, h_circuit_idx = 0,
        h_circuit_id = 1, h_tx_seq = 0, h_rx_seq = 0, h_opcode_flags = 130\<rparr> 0 True) mg = Some mg1
    \<and> dispatch (Information \<lparr>h_origin_call = ''K1'', h_dest_call = ''K2'', h_ttl = 25, h_circuit_idx = 0,
        h_circuit_id = 1, h_tx_seq = 0, h_rx_seq = 0, h_opcode_flags = 5\<rparr> [65]) mg1 = None"
proof -
  let ?h = "\<lparr>h_origin_call = ''K1'', h_dest_call = ''K2'', h_ttl = 25, h_circuit_idx = 0,
        h_circuit_id = 1, h_tx_seq = 0, h_rx_seq = 0, h_opcode_flags = 130\<rparr>"
  let ?k = "\<lparr>h_origin_call = ''K1'', h_dest_call = ''K2'', h_ttl = 25, h_circuit_idx = 0,
        h_circuit_id = 1, h_tx_seq = 0, h_rx_seq = 0, h_opcode_flags = 5\<rparr>"
  have "map_option (\<lambda>(mg, oid). (oid, map_of (mg_by_local mg) (0, 1),
      map_option (\<lambda>c. (c_state c, c_vr c, c_reassembly c)) (map_of (mg_store mg) 0)))
    (originate_start ''K1'' ''K3'' 4 sample_manager) = Some (0, Some 0, Some (AWAITING_CONNECT, 0, []))"
    by code_simp
  then obtain mg c where o: "originate_start ''K1'' ''K3'' 4 sample_manager = Some (mg, 0)"
    and m: "map_of (mg_by_local mg) (h_circuit_idx ?h, h_circuit_id ?h) = Some 0" "map_of (mg_store mg) 0 = Some c"
      "c_state c = AWAITING_CONNECT" and c: "c_vr c = 0" "c_reassembly c = []"
    by auto
  have "\<exists>mg1. dispatch (ConnectAck ?h 0 True) mg = Some mg1 \<and> dispatch (Information ?k [65]) mg1 = None"
    by (rule refused_then_data_raises [OF m])
      (simp_all add: c low_byte_def h_more_follows_def flag_defs MAX_REASSEMBLY_BYTES_def)
  with o show ?thesis by blast
qed

text \<open>A DISCONNECT ACK for a connected circuit unregisters it without closing it or its reader.\<close>

lemma stray_disconnect_ack_orphans:
  assumes "map_of (mg_by_local mg) (h_circuit_idx h, h_circuit_id h) = Some oid"
    and "map_of (mg_store mg) oid = Some c" and "c_state c = CONNECTED" and "\<not> c_reader_eof c"
    and "h_opcode h = OPCODE_DISCONNECT_ACK" and "c_local_idx c = h_circuit_idx h" and "c_local_id c = h_circuit_id h"
  shows "\<exists>mg'. dispatch (Disconnect h) mg = Some mg'
    \<and> map_of (mg_by_local mg') (h_circuit_idx h, h_circuit_id h) = None
    \<and> map_of (mg_store mg') oid = Some c"
  using assms by (auto simp: dispatch_def on_circuit_def opcode_defs handle_disconnect_ack_def put_circuit_def
      remove_circuit_def Let_def)

end
