(* ===== verification/Services.thy ===== *)
theory Services
  imports Auth
begin

text \<open>
  \<open>bbs/services/dispatcher.py\<close>, the \<open>Connection\<close> of \<open>bbs/transport/base.py\<close>, and the line-ending
  translation of \<open>bbs/services/bridge.py\<close>. A configuration value that may be missing is an option,
  with the default of the source's \<open>get\<close>; the strings of the YAML file are taken as given.
\<close>

section \<open>Connections\<close>

text \<open>The fields of a \<open>Connection\<close> that are read when it is classified.\<close>

record connection =
  cn_remote_addr :: string
  cn_transport_id :: string
  cn_hop_count :: int
  cn_local_addr :: string
  cn_netrom_via :: string

section \<open>The service table\<close>

datatype service_action = PASS | EXEC | REFUSE

record service_route =
  sr_called :: callsign
  sr_exec_path :: string
  sr_args :: "string list"
  sr_min_auth :: auth_level
  sr_no_digi :: bool
  sr_quiet :: bool
  sr_crlf :: bool
  sr_idle_timeout :: int
  sr_env :: "(string, string) dict"

record service_decision =
  sd_action :: service_action
  sd_route :: "service_route option"
  sd_reason :: string

record dispatcher =
  sv_routes :: "(callsign, service_route) dict"
  sv_lockout :: "callsign set"
  sv_enabled :: bool
  sv_max_sessions :: int

record route_spec =
  rs_exec :: string
  rs_args :: "string list"
  rs_min_auth :: "string option"
  rs_no_digi :: bool
  rs_quiet :: bool
  rs_crlf :: bool
  rs_idle_timeout :: int
  rs_env :: "(string, string) dict"

record services_cfg =
  sc_enabled :: "bool option"
  sc_max_sessions :: "int option"
  sc_lockout :: "string list"
  sc_routes :: "(string, route_spec) dict"

text \<open>\<open>os.path.isabs\<close> and \<open>os.path.basename\<close> on POSIX.\<close>

definition isabs :: "string \<Rightarrow> bool" where
  "isabs p \<longleftrightarrow> take 1 p = ''/''"

definition basename :: "string \<Rightarrow> string" where
  "basename p = rev (takeWhile (\<lambda>c. c \<noteq> CHR 0x2F) (rev p))"

definition route_min_auth :: "string \<Rightarrow> auth_level" where
  "route_min_auth s =
     (case map_of [(''none'', ANONYMOUS), (''anonymous'', ANONYMOUS), (''identified'', IDENTIFIED),
                   (''authenticated'', AUTHENTICATED), (''sysop'', SYSOP)] (strip (lower s)) of
        Some l \<Rightarrow> l | None \<Rightarrow> IDENTIFIED)"

definition parse_route :: "string \<Rightarrow> route_spec \<Rightarrow> service_route option" where
  "parse_route called spec =
     (let called = strip (upper called); exec_path = strip (rs_exec spec) in
      if exec_path = [] then None
      else if \<not> isabs exec_path then None
      else Some \<lparr>sr_called = called, sr_exec_path = exec_path,
             sr_args = (if rs_args spec \<noteq> [] then rs_args spec else [basename exec_path]),
             sr_min_auth = route_min_auth (case rs_min_auth spec of None \<Rightarrow> ''identified'' | Some s \<Rightarrow> s),
             sr_no_digi = rs_no_digi spec, sr_quiet = rs_quiet spec, sr_crlf = rs_crlf spec,
             sr_idle_timeout = rs_idle_timeout spec, sr_env = rs_env spec\<rparr>)"

definition build_routes :: "(string, route_spec) dict \<Rightarrow> (callsign, service_route) dict" where
  "build_routes specs = fold (\<lambda>(called, spec) routes.
     (case parse_route called spec of
        None \<Rightarrow> routes
      | Some r \<Rightarrow> AList.update (sr_called r) r routes)) specs []"

definition reload :: "services_cfg \<Rightarrow> dispatcher" where
  "reload cfg =
     \<lparr>sv_routes = build_routes (sc_routes cfg),
      sv_lockout = set (map (\<lambda>c. strip (upper c)) (filter (\<lambda>c. c \<noteq> []) (sc_lockout cfg))),
      sv_enabled = (case sc_enabled cfg of Some b \<Rightarrow> b | None \<Rightarrow> sc_routes cfg \<noteq> []),
      sv_max_sessions = (case sc_max_sessions cfg of Some n \<Rightarrow> n | None \<Rightarrow> 10)\<rparr>"

definition services_enabled :: "dispatcher \<Rightarrow> bool" where
  "services_enabled d \<longleftrightarrow> sv_enabled d \<and> sv_routes d \<noteq> []"

definition route_callsigns :: "dispatcher \<Rightarrow> callsign list" where
  "route_callsigns d = map fst (sv_routes d)"

definition service_routes :: "dispatcher \<Rightarrow> service_route list" where
  "service_routes d = map snd (sv_routes d)"

section \<open>Classification\<close>

text \<open>\<open>_CALLSIGN_RE = ^[A-Z0-9]{1,6}(-\d{1,2})?$\<close>.\<close>

definition is_caller_callsign :: "string \<Rightarrow> bool" where
  "is_caller_callsign s =
     (let call = takeWhile is_call_char s; rest = dropWhile is_call_char s in
      1 \<le> length call \<and> length call \<le> 6 \<and>
      (case rest of
         [] \<Rightarrow> True
       | c # ds \<Rightarrow> c = CHR 0x2D \<and> 1 \<le> length ds \<and> length ds \<le> 2 \<and> list_all is_digit ds))"

definition caller_of :: "connection \<Rightarrow> callsign" where
  "caller_of conn = strip (upper (cn_remote_addr conn))"

definition match_service :: "connection \<Rightarrow> dispatcher \<Rightarrow> service_decision" where
  "match_service conn d =
     (if \<not> services_enabled d then \<lparr>sd_action = PASS, sd_route = None, sd_reason = []\<rparr>
      else
        (case map_of (sv_routes d) (strip (upper (cn_local_addr conn))) of
           None \<Rightarrow> \<lparr>sd_action = PASS, sd_route = None, sd_reason = []\<rparr>
         | Some route \<Rightarrow>
             (let caller = caller_of conn; base = fst (split1 CHR 0x2D caller);
                  refuse = (\<lambda>why. \<lparr>sd_action = REFUSE, sd_route = Some route, sd_reason = why\<rparr>) in
              if \<not> is_caller_callsign caller then refuse (''invalid caller callsign '' @ caller)
              else if caller \<in> sv_lockout d \<or> base \<in> sv_lockout d then refuse ''locked out''
              else if sr_no_digi route \<and> 0 < cn_hop_count conn then refuse ''arrived via digipeater''
              else if IDENTIFIED < sr_min_auth route then refuse ''auth level too low''
              else \<lparr>sd_action = EXEC, sd_route = Some route, sd_reason = []\<rparr>)))"

text \<open>\<open>_SUBST_RE.sub\<close> over \<open>%[uUsSdpPrR%]\<close>: leftmost, non-overlapping tokens.\<close>

definition subst_token :: "string \<Rightarrow> string \<Rightarrow> string \<Rightarrow> char \<Rightarrow> string option" where
  "subst_token base caller label c =
     map_of [(CHR ''u'', lower base), (CHR ''U'', upper base), (CHR ''s'', lower caller),
             (CHR ''S'', upper caller), (CHR ''d'', label), (CHR ''p'', []), (CHR ''P'', []),
             (CHR ''r'', []), (CHR ''R'', []), (CHR 0x25, [CHR 0x25])] c"

fun subst_args :: "(char \<Rightarrow> string option) \<Rightarrow> string \<Rightarrow> string" where
  "subst_args tok [] = []"
| "subst_args tok [c] = [c]"
| "subst_args tok (c # d # s) =
     (if c = CHR 0x25 then
        (case tok d of Some t \<Rightarrow> t @ subst_args tok s | None \<Rightarrow> c # subst_args tok (d # s))
      else c # subst_args tok (d # s))"

definition build_argv :: "service_route \<Rightarrow> connection \<Rightarrow> string \<Rightarrow> string list" where
  "build_argv route conn port =
     (let caller = caller_of conn; base = fst (split1 CHR 0x2D caller);
          label = (if port \<noteq> [] then port else cn_transport_id conn) in
      map (subst_args (subst_token base caller label)) (sr_args route))"

section \<open>Line endings\<close>

text \<open>\<open>replace(b"\r\n", x)\<close> then \<open>replace\<close> of the other line end.\<close>

fun replace_crlf :: "byte \<Rightarrow> bytes \<Rightarrow> bytes" where
  "replace_crlf x [] = []"
| "replace_crlf x [b] = [b]"
| "replace_crlf x (b # c # bs) =
     (if b = 0x0D \<and> c = 0x0A then x # replace_crlf x bs else b # replace_crlf x (c # bs))"

definition to_program :: "bytes \<Rightarrow> bytes" where
  "to_program data = map (\<lambda>b. if b = 0x0D then 0x0A else b) (replace_crlf 0x0A data)"

definition to_radio :: "bytes \<Rightarrow> bytes" where
  "to_radio data = map (\<lambda>b. if b = 0x0A then 0x0D else b) (replace_crlf 0x0D data)"

text \<open>What the pumps write of the chunks they read.\<close>

definition pump_to_proc :: "bool \<Rightarrow> bytes list \<Rightarrow> bytes list" where
  "pump_to_proc crlf chunks =
     map (\<lambda>data. if crlf then to_program data else data) (takeWhile (\<lambda>data. data \<noteq> []) chunks)"

definition pump_from_proc :: "bool \<Rightarrow> bytes list \<Rightarrow> bytes list" where
  "pump_from_proc crlf chunks =
     map (\<lambda>data. if crlf then to_radio data else data) (takeWhile (\<lambda>data. data \<noteq> []) chunks)"

text \<open>One turn of the idle watch: the time left until the session is reaped.\<close>

datatype idle_verdict = IdleClose | WaitFor rat | WaitForever

definition idle_check :: "int \<Rightarrow> rat \<Rightarrow> rat \<Rightarrow> idle_verdict" where
  "idle_check idle_timeout last_activity now =
     (if 0 < idle_timeout then
        (let remaining = of_int idle_timeout - (now - last_activity) in
         if remaining \<le> 0 then IdleClose else WaitFor remaining)
      else WaitForever)"

section \<open>Lemmas\<close>

lemma build_routes_keys:
  assumes "map_of (build_routes specs) k = Some r"
  shows "sr_called r = k" and "isabs (sr_exec_path r)" and "sr_exec_path r \<noteq> []" and "sr_args r \<noteq> []"
proof -
  define P where "P k r \<longleftrightarrow> sr_called r = k \<and> isabs (sr_exec_path r) \<and> sr_exec_path r \<noteq> [] \<and> sr_args r \<noteq> []"
    for k and r :: service_route
  have parse: "parse_route c s = Some r \<Longrightarrow> P (sr_called r) r" for c s r
    by (auto simp: parse_route_def P_def Let_def split: if_splits)
  have "\<forall>k r. map_of (fold (\<lambda>(called, spec) routes. (case parse_route called spec of
        None \<Rightarrow> routes | Some r \<Rightarrow> AList.update (sr_called r) r routes)) specs d) k = Some r \<longrightarrow> P k r"
    if "\<forall>k r. map_of d k = Some r \<longrightarrow> P k r" for d
    using that
  proof (induction specs arbitrary: d)
    case (Cons x specs)
    show ?case
      by (simp only: fold_simps comp_apply, rule Cons.IH)
        (use Cons.prems parse in \<open>auto split: prod.splits option.splits\<close>)
  qed simp
  from this [of "[]"] assms have "P k r" by (simp add: build_routes_def)
  then show "sr_called r = k" "isabs (sr_exec_path r)" "sr_exec_path r \<noteq> []" "sr_args r \<noteq> []"
    by (simp_all add: P_def)
qed

lemma match_exec:
  assumes "sd_action (match_service conn d) = EXEC"
  obtains r where "sd_route (match_service conn d) = Some r"
    and "map_of (sv_routes d) (strip (upper (cn_local_addr conn))) = Some r"
    and "is_caller_callsign (caller_of conn)"
    and "caller_of conn \<notin> sv_lockout d" and "fst (split1 CHR 0x2D (caller_of conn)) \<notin> sv_lockout d"
    and "sr_no_digi r \<longrightarrow> cn_hop_count conn \<le> 0" and "sr_min_auth r \<le> IDENTIFIED"
  using assms by (auto simp: match_service_def Let_def not_less split: if_splits option.splits)

lemma no_cr_to_program: "0x0D \<notin> set (to_program data)"
  by (auto simp: to_program_def)

lemma no_lf_to_radio: "0x0A \<notin> set (to_radio data)"
  by (auto simp: to_radio_def)

lemma replace_crlf_id: "b \<notin> set data \<Longrightarrow> b = 0x0D \<or> b = 0x0A \<Longrightarrow> replace_crlf x data = data"
  by (induction x data rule: replace_crlf.induct) auto

lemma to_program_to_radio: "0x0D \<notin> set data \<Longrightarrow> to_program (to_radio data) = data"
proof -
  assume no: "0x0D \<notin> set data"
  then have r: "to_radio data = map (\<lambda>b. if b = 0x0A then 0x0D else b) data"
    by (simp add: to_radio_def replace_crlf_id)
  have "replace_crlf 0x0A (to_radio data) = to_radio data"
    by (rule replace_crlf_id [OF no_lf_to_radio]) simp
  with no show ?thesis by (auto simp: to_program_def r intro!: map_idI)
qed

text \<open>A caller callsign survives substitution: a template without tokens is left alone.\<close>

lemma subst_args_id: "CHR 0x25 \<notin> set s \<Longrightarrow> subst_args tok s = s"
  by (induction tok s rule: subst_args.induct) auto

lemma length_build_argv [simp]: "length (build_argv r conn port) = length (sr_args r)"
  by (simp add: build_argv_def Let_def)

end
