(* ===== verification/Event_Bus.thy ===== *)
theory Event_Bus
  imports Interfaces
begin

text \<open>
  \<open>bbs/core/event_bus.py\<close>: the publish/subscribe bus of the plugins. The state is the subscriber
  dictionary; a callback is an element of an arbitrary type, and whether it raises on a topic and
  payload is a function the publisher does not see. \<open>publish\<close> returns the calls it makes, in the
  order \<open>gather\<close> starts them, and the callbacks whose exception it logged.
\<close>

type_synonym 'cb subscribers = "(string, 'cb list) dict"

definition callbacks :: "string \<Rightarrow> 'cb subscribers \<Rightarrow> 'cb list" where
  "callbacks topic subs = (case map_of subs topic of None \<Rightarrow> [] | Some cbs \<Rightarrow> cbs)"

text \<open>The \<open>defaultdict\<close> creates the entry of a topic that is looked up.\<close>

definition subscribe :: "string \<Rightarrow> 'cb \<Rightarrow> 'cb subscribers \<Rightarrow> 'cb subscribers" where
  "subscribe topic callback subs =
     (let cbs = callbacks topic subs in
      AList.update topic (if callback \<notin> set cbs then cbs @ [callback] else cbs) subs)"

definition unsubscribe :: "string \<Rightarrow> 'cb \<Rightarrow> 'cb subscribers \<Rightarrow> 'cb subscribers" where
  "unsubscribe topic callback subs =
     AList.update topic (remove1 callback (callbacks topic subs)) subs"

definition topic_matches :: "string \<Rightarrow> string \<Rightarrow> bool" where
  "topic_matches topic sub_topic \<longleftrightarrow>
     topic = sub_topic \<or> take (length sub_topic + 1) topic = sub_topic @ ''.''"

definition targets :: "string \<Rightarrow> 'cb subscribers \<Rightarrow> 'cb list" where
  "targets topic subs = concat (map snd (filter (\<lambda>(t, _). topic_matches topic t) subs))"

definition publish ::
  "('cb \<Rightarrow> string \<Rightarrow> 'p \<Rightarrow> bool) \<Rightarrow> string \<Rightarrow> 'p \<Rightarrow> 'cb subscribers \<Rightarrow> ('cb \<times> 'p) list \<times> 'cb list" where
  "publish raises topic payload subs =
     (let cbs = targets topic subs in
      (map (\<lambda>cb. (cb, payload)) cbs, filter (\<lambda>cb. raises cb topic payload) cbs))"

definition subscriber_count :: "string option \<Rightarrow> 'cb subscribers \<Rightarrow> nat" where
  "subscriber_count topic subs =
     (case topic of
        Some t \<Rightarrow> length (callbacks t subs)
      | None \<Rightarrow> sum_list (map (\<lambda>(_, cbs). length cbs) subs))"

section \<open>Lemmas\<close>

text \<open>The abstract view: the set of (topic, callback) pairs.\<close>

definition subscriptions :: "'cb subscribers \<Rightarrow> (string \<times> 'cb) set" where
  "subscriptions subs = {(t, cb). cb \<in> set (callbacks t subs)}"

definition bus_ok :: "'cb subscribers \<Rightarrow> bool" where
  "bus_ok subs \<longleftrightarrow> distinct (map fst subs) \<and> (\<forall>(t, cbs) \<in> set subs. distinct cbs)"

lemma callbacks_update [simp]:
  "callbacks t (AList.update t' cbs subs) = (if t = t' then cbs else callbacks t subs)"
  by (simp add: callbacks_def)

lemma callbacks_distinct: "bus_ok subs \<Longrightarrow> distinct (callbacks t subs)"
  by (auto simp: bus_ok_def callbacks_def dest!: map_of_SomeD split: option.splits)

lemma bus_ok_update:
  assumes "bus_ok subs" and "distinct cbs" shows "bus_ok (AList.update t cbs subs)"
proof -
  have "x = (t, cbs) \<or> x \<in> set subs" if "x \<in> set (AList.update t cbs subs)" for x
    using that by (induction subs) (auto split: if_splits)
  with assms show ?thesis by (fastforce simp: bus_ok_def)
qed

interpretation bus: registry "\<lambda>(t, cb). subscribe t cb" "\<lambda>(t, cb). unsubscribe t cb" subscriptions bus_ok
proof unfold_locales
  fix subs :: "'cb subscribers" and p :: "string \<times> 'cb"
  assume ok: "bus_ok subs"
  obtain t cb where p: "p = (t, cb)" by fastforce
  note d = callbacks_distinct [OF ok]
  show "bus_ok ((case p of (t, cb) \<Rightarrow> subscribe t cb) subs)"
    using d [of t] by (simp add: p subscribe_def Let_def bus_ok_update [OF ok])
  show "bus_ok ((case p of (t, cb) \<Rightarrow> unsubscribe t cb) subs)"
    using d [of t] by (simp add: p unsubscribe_def bus_ok_update [OF ok])
  show "subscriptions ((case p of (t, cb) \<Rightarrow> subscribe t cb) subs) = insert p (subscriptions subs)"
    by (auto simp: p subscriptions_def subscribe_def Let_def split: if_splits)
  show "subscriptions ((case p of (t, cb) \<Rightarrow> unsubscribe t cb) subs) = subscriptions subs - {p}"
    using d [of t] by (auto simp: p subscriptions_def unsubscribe_def split: if_splits)
qed

lemma in_targets:
  assumes "bus_ok subs"
  shows "cb \<in> set (targets topic subs) \<longleftrightarrow> (\<exists>t. (t, cb) \<in> subscriptions subs \<and> topic_matches topic t)"
proof -
  have d: "distinct (map fst subs)" using assms by (simp add: bus_ok_def)
  have "cb \<in> set (targets topic subs) \<longleftrightarrow> (\<exists>t cbs. (t, cbs) \<in> set subs \<and> topic_matches topic t \<and> cb \<in> set cbs)"
    by (force simp: targets_def)
  also have "\<dots> \<longleftrightarrow> (\<exists>t. topic_matches topic t \<and> cb \<in> set (callbacks t subs))"
    using d by (auto simp: callbacks_def split: option.splits dest: map_of_SomeD)
  finally show ?thesis by (auto simp: subscriptions_def)
qed

text \<open>A callback is called once per matching topic it is subscribed to.\<close>

lemma count_targets:
  assumes "bus_ok subs"
  shows "count_list (targets topic subs) cb = card {t. (t, cb) \<in> subscriptions subs \<and> topic_matches topic t}"
  using assms
proof (induction subs)
  case Nil
  then show ?case by (simp add: targets_def subscriptions_def callbacks_def)
next
  case (Cons x subs)
  obtain t cbs where x: "x = (t, cbs)" by fastforce
  have ok: "bus_ok subs" "t \<notin> fst ` set subs" "distinct cbs"
    using Cons.prems by (auto simp: bus_ok_def x)
  let ?S = "{t'. (t', cb) \<in> subscriptions subs \<and> topic_matches topic t'}"
  have none: "callbacks t subs = []" using ok(2) by (simp add: callbacks_def map_of_eq_None_iff [THEN iffD2])
  have "{t'. (t', cb) \<in> subscriptions (x # subs) \<and> topic_matches topic t'} =
      (if cb \<in> set cbs \<and> topic_matches topic t then insert t ?S else ?S)"
    using none by (auto simp: x subscriptions_def callbacks_def split: if_splits option.splits)
  moreover have fresh: "t \<notin> ?S" using none by (simp add: subscriptions_def)
  moreover have fin: "finite ?S"
  proof (rule finite_subset)
    show "?S \<subseteq> fst ` set subs"
    proof
      fix t' assume "t' \<in> ?S"
      then have "map_of subs t' \<noteq> None"
        by (cases "map_of subs t'") (auto simp: subscriptions_def callbacks_def)
      then show "t' \<in> fst ` set subs" by (simp add: map_of_eq_None_iff)
    qed
  qed simp
  moreover have "count_list cbs cb = (if cb \<in> set cbs then 1 else 0)"
    using ok(3) by (induction cbs) auto
  ultimately show ?case
    using Cons.IH [OF ok(1)] by (cases "topic_matches topic t") (simp_all add: targets_def x)
qed

text \<open>The bus under any sequence of calls is the set of its subscriptions.\<close>

definition bus_op :: "'cb subscribers \<Rightarrow> (string \<times> 'cb) registry_op \<Rightarrow> 'cb subscribers" where
  "bus_op subs e =
     (case e of Register (t, cb) \<Rightarrow> subscribe t cb subs | Unregister (t, cb) \<Rightarrow> unsubscribe t cb subs)"

definition subscription_op ::
  "(string \<times> 'cb) set \<Rightarrow> (string \<times> 'cb) registry_op \<Rightarrow> (string \<times> 'cb) set" where
  "subscription_op P e = (case e of Register p \<Rightarrow> insert p P | Unregister p \<Rightarrow> P - {p})"

lemma bus_op_eq: "bus_op = bus.apply_op"
  by (simp add: fun_eq_iff bus_op_def bus.apply_op_def split: registry_op.split)

lemma bus_ok_Nil [simp]: "bus_ok []" and subscriptions_Nil [simp]: "subscriptions [] = {}"
  by (simp_all add: bus_ok_def subscriptions_def callbacks_def)

lemma bus_runs:
  "bus_ok (run bus_op [] es)" "subscriptions (run bus_op [] es) = run subscription_op {} es"
  using bus.ok_run [of "[]" es] bus.entries_run [of "[]" es]
  by (simp_all add: bus_op_eq subscription_op_def [abs_def])

lemma publish_calls: "map fst (fst (publish raises topic payload subs)) = targets topic subs"
  by (simp add: publish_def Let_def comp_def)

lemma topic_matches_dot: "topic_matches (p @ ''.'' @ rest) p"
  by (simp add: topic_matches_def)

end
