(* ===== verification/Services_Properties.thy ===== *)
theory Services_Properties
  imports Services Event_Bus
begin

text \<open>
  Properties of the external services (the dispatcher and the bridge) and of the plugins' event bus.
\<close>

section \<open>The event bus\<close>

text \<open>
  C28. After any sequence of \<open>subscribe\<close> and \<open>unsubscribe\<close> calls, \<open>publish\<close> calls a callback exactly
  once for each topic it is subscribed to at that moment (in the set view of the calls) that is the
  published topic or a dotted prefix of it, whether or not callbacks raise.
\<close>

theorem publish_calls_each_subscription:
  "count_list (map fst (fst (publish raises topic payload (run bus_op [] es)))) cb =
     card {t. (t, cb) \<in> run subscription_op {} es \<and> topic_matches topic t}"
  using count_targets [OF bus_runs(1)] by (simp only: publish_calls bus_runs(2))

section \<open>Who gets a program\<close>

text \<open>
  C21. A connection is handed to an external program only when a loaded route names the called
  address and has an absolute program path, the caller's address has the syntax of a callsign with
  an optional SSID, neither it nor its base call is on the lockout list, a route with \<open>no_digi\<close> was
  reached without digipeaters, and the route asks for no more than identification.
\<close>

theorem exec_only_for_permitted_callers:
  assumes "sd_action (match_service conn (reload cfg)) = EXEC"
  shows "\<exists>r. sd_route (match_service conn (reload cfg)) = Some r
     \<and> sr_called r = strip (upper (cn_local_addr conn)) \<and> isabs (sr_exec_path r)
     \<and> is_caller_callsign (caller_of conn)
     \<and> caller_of conn \<notin> set (map (\<lambda>c. strip (upper c)) (filter (\<lambda>c. c \<noteq> []) (sc_lockout cfg)))
     \<and> fst (split1 CHR 0x2D (caller_of conn))
         \<notin> set (map (\<lambda>c. strip (upper c)) (filter (\<lambda>c. c \<noteq> []) (sc_lockout cfg)))
     \<and> (sr_no_digi r \<longrightarrow> cn_hop_count conn \<le> 0) \<and> sr_min_auth r \<le> IDENTIFIED
     \<and> build_argv r conn port \<noteq> []"
proof -
  obtain r where r: "sd_route (match_service conn (reload cfg)) = Some r"
    "map_of (build_routes (sc_routes cfg)) (strip (upper (cn_local_addr conn))) = Some r"
    "is_caller_callsign (caller_of conn)" "caller_of conn \<notin> sv_lockout (reload cfg)"
    "fst (split1 CHR 0x2D (caller_of conn)) \<notin> sv_lockout (reload cfg)"
    "sr_no_digi r \<longrightarrow> cn_hop_count conn \<le> 0" "sr_min_auth r \<le> IDENTIFIED"
    by (rule match_exec [OF assms]) (simp add: reload_def)
  note keys = build_routes_keys [OF r(2)]
  have "build_argv r conn port \<noteq> []"
    using keys(4) length_build_argv [of r conn port] by (metis length_0_conv)
  then show ?thesis
    using r(1,3-7) keys(1,2) by (intro exI [of _ r]) (simp add: reload_def)
qed

definition demo_services :: services_cfg where
  "demo_services = \<lparr>sc_enabled = None, sc_max_sessions = None, sc_lockout = [''nocall''],
     sc_routes = [(''w6ela-2'', \<lparr>rs_exec = ''/usr/bin/fbb'', rs_args = [], rs_min_auth = None,
       rs_no_digi = True, rs_quiet = False, rs_crlf = True, rs_idle_timeout = 600, rs_env = []\<rparr>)]\<rparr>"

definition demo_caller :: connection where
  "demo_caller = \<lparr>cn_remote_addr = ''K1ABC-7'', cn_transport_id = ''agwpe'', cn_hop_count = 0,
     cn_local_addr = ''W6ELA-2'', cn_netrom_via = []\<rparr>"

lemma demo_exec: "sd_action (match_service demo_caller (reload demo_services)) = EXEC"
  by code_simp

theorem exec_only_for_permitted_callers_witness:
  "\<exists>r. sd_route (match_service demo_caller (reload demo_services)) = Some r
     \<and> sr_called r = ''W6ELA-2'' \<and> build_argv r demo_caller [] \<noteq> []"
proof -
  have "strip (upper (cn_local_addr demo_caller)) = ''W6ELA-2''" by code_simp
  with exec_only_for_permitted_callers [OF demo_exec, of "[]"] show ?thesis by auto
qed

section \<open>Line endings\<close>

text \<open>
  What a program writes reaches a peer that normalises line ends the same way unchanged: for
  output without carriage returns, converting it for the radio and back is the identity; what goes
  to the radio holds no line feed and what goes to the program no carriage return.
\<close>

theorem line_endings_roundtrip:
  assumes "0x0D \<notin> set data"
  shows "to_program (to_radio data) = data \<and> 0x0A \<notin> set (to_radio data) \<and> 0x0D \<notin> set (to_program data)"
  using to_program_to_radio [OF assms] no_lf_to_radio no_cr_to_program by auto

theorem line_endings_roundtrip_witness:
  "to_program (to_radio [0x68, 0x69, 0x0A]) = [0x68, 0x69, 0x0A]
     \<and> 0x0A \<notin> set (to_radio [0x68, 0x69, 0x0A])"
  using line_endings_roundtrip [of "[0x68, 0x69, 0x0A]"] by simp

text \<open>
  The bridge translates each chunk it reads by itself, so a CR LF that straddles two reads
  reaches the program as two line feeds, where the same bytes in one read give one.
\<close>

theorem split_line_end_doubled:
  "concat (pump_to_proc True [[0x68, 0x0D], [0x0A]]) = [0x68, 0x0A, 0x0A]
     \<and> concat (pump_to_proc True [[0x68, 0x0D, 0x0A]]) = [0x68, 0x0A]"
  by code_simp

end
