(* ===== verification/Agwpe_Frame.thy ===== *)
theory Agwpe_Frame
  imports Netrom_Frame
begin

text \<open>
  \<open>bbs/transport/agwpe.py\<close>, the frame format: the 36-byte header and its reader, the builders of
  \<open>D\<close>, \<open>M\<close> and \<open>V\<close> frames, and the parsers of the monitor text. An exception of \<open>struct.pack\<close> or of
  \<open>encode("ascii")\<close> is \<open>None\<close>. The regular expressions are written out as the search they make: the
  first position that matches, with the groups their quantifiers take there.
\<close>

definition HEADER_SIZE :: nat where "HEADER_SIZE = 36"
definition PID_NO_L3 :: int where "PID_NO_L3 = 0xF0"

section \<open>Building frames\<close>

definition pad10 :: "bytes \<Rightarrow> bytes" where
  "pad10 bs = take 10 bs @ replicate (10 - length bs) 0"

definition encode_call :: "callsign \<Rightarrow> bytes option" where
  "encode_call callsign =
     (if list_all is_ascii (upper callsign) then Some (take 9 (encode_ascii (upper callsign)) @ [0]) else None)"

definition strip_nul :: "bytes \<Rightarrow> bytes" where
  "strip_nul raw = rev (dropWhile (\<lambda>b. b = 0) (rev raw))"

definition decode_call :: "bytes \<Rightarrow> callsign" where
  "decode_call raw = strip (decode_ascii (strip_nul raw))"

definition pack_byte :: "int \<Rightarrow> byte option" where
  "pack_byte n = (if 0 \<le> n \<and> n < 256 then Some (word_of_int n) else None)"

text \<open>\<open>i\<close>: a signed little-endian 32-bit integer.\<close>

definition pack_int :: "int \<Rightarrow> bytes option" where
  "pack_int n =
     (if - (2 ^ 31) \<le> n \<and> n < 2 ^ 31
      then Some (map (\<lambda>i. low_byte (n div 2 ^ (8 * i))) [0, 1, 2, 3]) else None)"

definition unpack_int :: "bytes \<Rightarrow> int" where
  "unpack_int bs =
     (let u = fold (\<lambda>b acc. acc * 256 + uint b) (rev bs) 0 in if u < 2 ^ 31 then u else u - 2 ^ 32)"

definition build_frame :: "int \<Rightarrow> char \<Rightarrow> callsign \<Rightarrow> callsign \<Rightarrow> int \<Rightarrow> bytes \<Rightarrow> bytes option" where
  "build_frame port kind call_from call_to pid data = do {
     p \<leftarrow> pack_byte port;
     q \<leftarrow> pack_byte pid;
     f \<leftarrow> encode_call call_from;
     t \<leftarrow> encode_call call_to;
     len \<leftarrow> pack_int (int (length data));
     Some ([p, 0, 0, 0, ord_of kind, 0, q, 0] @ pad10 f @ pad10 t @ len @ [0, 0, 0, 0] @ data)
   }"

definition via_field :: "callsign \<Rightarrow> bytes option" where
  "via_field v =
     (if list_all is_ascii (upper v) then Some (pad10 (take 9 (encode_ascii (upper v)))) else None)"

definition build_unproto_via_frame ::
  "int \<Rightarrow> callsign \<Rightarrow> callsign \<Rightarrow> callsign list \<Rightarrow> bytes \<Rightarrow> bytes option" where
  "build_unproto_via_frame port call_from call_to via_path payload = do {
     vias \<leftarrow> those (map via_field via_path);
     n \<leftarrow> pack_byte (int (length via_path));
     build_frame port CHR ''V'' call_from call_to PID_NO_L3 (n # concat vias @ payload)
   }"

section \<open>Reading frames\<close>

record agw_frame =
  af_port :: int
  af_kind :: char
  af_pid :: int
  af_from :: callsign
  af_to :: callsign
  af_data :: bytes
  af_reserved :: bytes

text \<open>
  One turn of \<open>_read_loop\<close> over what has arrived: None while \<open>readexactly\<close> still waits (or raises
  at the end of the stream), otherwise the frame and the bytes behind it. A negative length reads
  no payload.
\<close>

definition read_frame :: "bytes \<Rightarrow> (agw_frame \<times> bytes) option" where
  "read_frame buf =
     (if length buf < HEADER_SIZE then None
      else
        (let raw = take HEADER_SIZE buf; rest = drop HEADER_SIZE buf;
             data_len = nat (unpack_int (slice 28 32 raw)) in
         if length rest < data_len then None
         else Some (\<lparr>af_port = uint (raw ! 0), af_kind = chr_of (raw ! 4), af_pid = uint (raw ! 6),
                     af_from = decode_call (slice 8 18 raw), af_to = decode_call (slice 18 28 raw),
                     af_data = take data_len rest, af_reserved = slice 32 36 raw\<rparr>,
                    drop data_len rest)))"

lemma read_frame_shorter: "read_frame buf = Some (f, rest) \<Longrightarrow> length rest < length buf"
  by (auto simp: read_frame_def Let_def HEADER_SIZE_def split: if_splits)

function read_frames :: "bytes \<Rightarrow> agw_frame list \<times> bytes" where
  "read_frames buf =
     (case read_frame buf of
        None \<Rightarrow> ([], buf)
      | Some (f, rest) \<Rightarrow> (let (fs, left) = read_frames rest in (f # fs, left)))"
  by auto
termination by (relation "measure length") (auto dest: read_frame_shorter)

declare read_frames.simps [simp del]

section \<open>Monitor text\<close>

text \<open>\<open>re.search\<close>: the first suffix on which the matcher succeeds.\<close>

fun search :: "('a list \<Rightarrow> 'b option) \<Rightarrow> 'a list \<Rightarrow> 'b option" where
  "search m [] = m []"
| "search m (x # xs) = (case m (x # xs) of None \<Rightarrow> search m xs | Some r \<Rightarrow> Some r)"

definition is_word :: "char \<Rightarrow> bool" where
  "is_word c \<longleftrightarrow> is_digit c \<or> is_upper c \<or> is_lower c \<or> c = CHR ''_''"

text \<open>A search for a match that begins with a word character after \<open>\b\<close>.\<close>

fun search_word :: "(string \<Rightarrow> 'b option) \<Rightarrow> bool \<Rightarrow> string \<Rightarrow> 'b option" where
  "search_word m prev [] = None"
| "search_word m prev (c # s) =
     (case (if prev then None else m (c # s)) of
        None \<Rightarrow> search_word m (is_word c) s
      | Some r \<Rightarrow> Some r)"

definition lt_follows :: "string \<Rightarrow> bool" where
  "lt_follows s \<longleftrightarrow> take 1 (dropWhile is_space s) = ''<''"

text \<open>\<open>([^<\r\n]+?)\s*<\<close>: the shortest group.\<close>

fun lazy_group :: "string \<Rightarrow> string \<Rightarrow> string option" where
  "lazy_group acc [] = None"
| "lazy_group acc (c # s) =
     (if c = CHR ''<'' \<or> c = CHR 0x0D \<or> c = CHR 0x0A then None
      else if lt_follows s then Some (acc @ [c])
      else lazy_group (acc @ [c]) s)"

text \<open>\<open>\s+\<close> gives back blanks one by one until the rest matches.\<close>

fun after_blanks :: "nat \<Rightarrow> string \<Rightarrow> string option" where
  "after_blanks 0 s = None"
| "after_blanks (Suc k) s =
     (case lazy_group [] (drop (Suc k) s) of None \<Rightarrow> after_blanks k s | Some g \<Rightarrow> Some g)"

definition via_match :: "string \<Rightarrow> string option" where
  "via_match s =
     (if lower (take 3 s) = ''via''
      then (let rest = drop 3 s in after_blanks (length (takeWhile is_space rest)) rest)
      else None)"

definition parse_via :: "string \<Rightarrow> string list" where
  "parse_via monitor_text =
     (case search_word via_match False monitor_text of
        None \<Rightarrow> []
      | Some g \<Rightarrow> filter (\<lambda>v. v \<noteq> []) (map strip (split_on CHR '','' g)))"

text \<open>\<open><[^>]*\bSABME?\b\<close>.\<close>

definition word_ends :: "string \<Rightarrow> bool" where
  "word_ends s \<longleftrightarrow> (case s of [] \<Rightarrow> True | c # _ \<Rightarrow> \<not> is_word c)"

definition sabm_match :: "string \<Rightarrow> unit option" where
  "sabm_match s =
     (if lower (take 5 s) = ''sabme'' \<and> word_ends (drop 5 s) \<or> lower (take 4 s) = ''sabm'' \<and> word_ends (drop 4 s)
      then Some () else None)"

definition sabm_after :: "string \<Rightarrow> unit option" where
  "sabm_after s =
     (case s of
        [] \<Rightarrow> None
      | c # t \<Rightarrow> if c = CHR ''<'' then search_word sabm_match False (takeWhile (\<lambda>x. x \<noteq> CHR ''>'') t) else None)"

definition monitors_sabm :: "string \<Rightarrow> bool" where
  "monitors_sabm text \<longleftrightarrow> search sabm_after text \<noteq> None"

definition drop_cr :: "string \<Rightarrow> string" where
  "drop_cr s = (case s of c # t \<Rightarrow> if c = CHR 0x0D then t else s | [] \<Rightarrow> [])"

definition info_match :: "string \<Rightarrow> string option" where
  "info_match s =
     (if take 2 s = ''>['' then
        (let digits = takeWhile (\<lambda>c. is_digit c \<or> c = CHR '':'') (drop 2 s);
             rest = drop (length digits) (drop 2 s) in
         if digits \<noteq> [] \<and> take 1 rest = '']'' then Some (drop_cr (drop 1 rest)) else None)
      else None)"

definition strip_info :: "string \<Rightarrow> string" where
  "strip_info s =
     (let blank = (\<lambda>c. c = CHR 0x0D \<or> c = CHR 0x0A \<or> c = CHR 0x00 \<or> c = CHR 0x20) in
      rev (dropWhile blank (rev (dropWhile blank s))))"

definition parse_info :: "string \<Rightarrow> string" where
  "parse_info monitor_text =
     (case search info_match monitor_text of
        Some g \<Rightarrow> strip_info g
      | None \<Rightarrow>
          (case split1 CHR '':'' monitor_text of
             (_, None) \<Rightarrow> []
           | (before, Some rest) \<Rightarrow> if before = [] then [] else strip rest))"

definition is_digit_byte :: "byte \<Rightarrow> bool" where
  "is_digit_byte b \<longleftrightarrow> 0x30 \<le> b \<and> b \<le> 0x39"

text \<open>\<open>>\[\d{2}:\d{2}:\d{2}\]\r?\<close> at the front: what follows it.\<close>

definition stamp_match :: "bytes \<Rightarrow> bytes option" where
  "stamp_match s =
     (case s of
        a # b # c # d # e # f # g # h # i # j # k # rest \<Rightarrow>
          if a = 0x3E \<and> b = 0x5B \<and> list_all is_digit_byte [c, d, f, g, i, j] \<and> e = 0x3A \<and> h = 0x3A \<and> k = 0x5D
          then Some (case rest of x # t \<Rightarrow> if x = 0x0D then t else rest | [] \<Rightarrow> [])
          else None
      | _ \<Rightarrow> None)"

definition strip_tail :: "bytes \<Rightarrow> bytes" where
  "strip_tail info = rev (dropWhile (\<lambda>b. b = 0x0D \<or> b = 0x00) (rev info))"

definition extract_binary_info :: "bytes \<Rightarrow> bytes option" where
  "extract_binary_info raw = map_option strip_tail (search stamp_match raw)"

definition decode_signal :: "bytes \<Rightarrow> (byte \<times> byte \<times> byte \<times> byte) option" where
  "decode_signal user_reserved =
     (case user_reserved of
        rec # mark # space # retries # _ \<Rightarrow>
          if rec = 0 \<and> mark = 0 \<and> space = 0 \<and> retries = 0 then None else Some (rec, mark, space, retries)
      | _ \<Rightarrow> None)"

section \<open>Lemmas: frames\<close>

text \<open>A callsign field that survives the 10-byte header slot.\<close>

definition field_ok :: "callsign \<Rightarrow> bool" where
  "field_ok c \<longleftrightarrow> list_all is_ascii c \<and> upper c = c \<and> strip c = c \<and> length c \<le> 9 \<and> CHR 0x00 \<notin> set c"

lemma length_pad10 [simp]: "length (pad10 bs) = 10"
  by (simp add: pad10_def)

lemma strip_nul_zeros: "0 \<notin> set bs \<Longrightarrow> strip_nul (bs @ replicate n 0) = bs"
proof -
  assume a: "0 \<notin> set bs"
  have "dropWhile (\<lambda>b. b = 0) (replicate n 0 @ rev bs) = rev bs"
    using a by (induction n) (auto simp: dropWhile_eq_self_iff hd_rev dest: last_in_set)
  then show ?thesis by (simp add: strip_nul_def)
qed

lemma ord_of_zero: "ord_of c = 0 \<longleftrightarrow> c = CHR 0x00"
proof
  assume "ord_of c = 0"
  then have "c = chr_of 0" by (metis chr_ord)
  moreover have "chr_of 0 = CHR 0x00" by code_simp
  ultimately show "c = CHR 0x00" by simp
next
  show "c = CHR 0x00 \<Longrightarrow> ord_of c = 0" by (simp add: ord_of_def code_def)
qed

lemma encode_ascii_nonzero: "list_all is_ascii c \<Longrightarrow> CHR 0x00 \<notin> set c \<Longrightarrow> 0 \<notin> set (encode_ascii c)"
  by (auto simp: encode_ascii_def list_all_iff ord_of_zero split: if_splits)

lemma decode_encode_call:
  assumes "field_ok c" and "encode_call c = Some bs"
  shows "decode_call (pad10 bs) = c"
proof -
  have bs: "bs = encode_ascii c @ [0]" and c: "list_all is_ascii c" "strip c = c" "length c \<le> 9"
    using assms by (auto simp: field_ok_def encode_call_def split: if_splits)
  have "pad10 bs = encode_ascii c @ replicate (10 - length c) 0"
  proof -
    have n: "10 - length c = Suc (9 - length c)" using c(3) by simp
    show ?thesis using c(3) unfolding n by (simp add: pad10_def bs)
  qed
  moreover have "0 \<notin> set (encode_ascii c)"
    using assms(1) by (simp add: field_ok_def encode_ascii_nonzero)
  ultimately have "strip_nul (pad10 bs) = encode_ascii c" by (simp add: strip_nul_zeros)
  with c show ?thesis by (simp add: decode_call_def decode_encode_ascii)
qed

lemma encode_call_field: "field_ok c \<Longrightarrow> \<exists>bs. encode_call c = Some bs"
  by (simp add: field_ok_def encode_call_def)

lemma unpack_pack_int:
  assumes "0 \<le> n" and "n < 2 ^ 31"
  shows "\<exists>bs. pack_int n = Some bs \<and> length bs = 4 \<and> unpack_int bs = n"
proof -
  have u: "uint (low_byte m) = m mod 256" for m by (simp add: low_byte_def uint_word_of_int)
  let ?a = "n div 256" let ?b = "?a div 256" let ?c = "?b div 256"
  have d: "n div 65536 = ?b" "n div 16777216 = ?c" by (simp_all add: div_mult2_eq [symmetric])
  have "?c mod 256 = ?c" using assms by simp
  moreover have "?c * 256 + ?b mod 256 = ?b" "?b * 256 + ?a mod 256 = ?a" "?a * 256 + n mod 256 = n"
    by (simp_all only: mult.commute [of _ "256 :: int"] mult_div_mod_eq)
  ultimately have s: "((?c mod 256 * 256 + ?b mod 256) * 256 + ?a mod 256) * 256 + n mod 256 = n"
    by presburger
  have "unpack_int (map (\<lambda>i. low_byte (n div 2 ^ (8 * i))) [0, 1, 2, 3]) = n"
    using assms by (simp add: unpack_int_def u Let_def d s del: mult_div_mod_eq)
  then show ?thesis
    using assms unfolding pack_int_def by simp
qed

lemma take_pad10: "take 10 (pad10 bs @ r) = pad10 bs" "drop 10 (pad10 bs @ r) = r"
  by simp_all

lemma build_frame_bytes:
  assumes "build_frame port kind cf ct pid data = Some bs"
  obtains p q f t len where "pack_byte port = Some p" and "pack_byte pid = Some q"
    and "encode_call cf = Some f" and "encode_call ct = Some t"
    and "pack_int (int (length data)) = Some len" and "length len = 4"
    and "unpack_int len = int (length data)"
    and "bs = [p, 0, 0, 0, ord_of kind, 0, q, 0] @ pad10 f @ pad10 t @ len @ [0, 0, 0, 0] @ data"
proof -
  from assms obtain p q f t len where *: "pack_byte port = Some p" "pack_byte pid = Some q"
    "encode_call cf = Some f" "encode_call ct = Some t" "pack_int (int (length data)) = Some len"
    "bs = [p, 0, 0, 0, ord_of kind, 0, q, 0] @ pad10 f @ pad10 t @ len @ [0, 0, 0, 0] @ data"
    by (auto simp: build_frame_def bind_eq_Some_conv)
  moreover have "int (length data) < 2 ^ 31" using *(5) by (simp add: pack_int_def split: if_splits)
  then have "length len = 4" "unpack_int len = int (length data)"
    using unpack_pack_int [of "int (length data)"] *(5) by auto
  ultimately show ?thesis using that by blast
qed

lemma read_built:
  assumes "build_frame port kind cf ct pid data = Some bs" and "field_ok cf" and "field_ok ct"
  shows "read_frame (bs @ rest) =
    Some (\<lparr>af_port = port, af_kind = kind, af_pid = pid, af_from = cf, af_to = ct,
           af_data = data, af_reserved = [0, 0, 0, 0]\<rparr>, rest)"
  using assms(1)
proof (rule build_frame_bytes)
  fix p q f t len
  assume *: "pack_byte port = Some p" "pack_byte pid = Some q" "encode_call cf = Some f"
    "encode_call ct = Some t" "length len = 4" "unpack_int len = int (length data)"
    "bs = [p, 0, 0, 0, ord_of kind, 0, q, 0] @ pad10 f @ pad10 t @ len @ [0, 0, 0, 0] @ data"
  define hd where "hd = [p, 0, 0, 0, ord_of kind, 0, q, 0] @ pad10 f @ pad10 t @ len @ [0, 0, 0, 0]"
  have hd: "length hd = 36" "slice 28 32 hd = len" "slice 8 18 hd = pad10 f" "slice 18 28 hd = pad10 t"
    "slice 32 36 hd = [0, 0, 0, 0]" "hd ! 0 = p" "hd ! 4 = ord_of kind" "hd ! 6 = q"
    using *(5) by (simp_all add: hd_def slice_def)
  have bs: "bs @ rest = hd @ data @ rest" by (simp add: *(7) hd_def)
  have p: "uint p = port" "uint q = pid"
    using *(1,2) by (auto simp: pack_byte_def uint_word_of_int split: if_splits)
  have calls: "decode_call (pad10 f) = cf" "decode_call (pad10 t) = ct"
    using *(3,4) assms(2,3) decode_encode_call by blast+
  show ?thesis
    by (simp add: bs read_frame_def HEADER_SIZE_def hd calls p *(6) Let_def)
qed

lemma read_frame_append:
  assumes "read_frame a = Some (f, rest)" shows "read_frame (a @ b) = Some (f, rest @ b)"
  using assms by (auto simp: read_frame_def Let_def split: if_splits)

lemma read_frames_append:
  "read_frames (a @ b) = (fst (read_frames a) @ fst (read_frames (snd (read_frames a) @ b)),
     snd (read_frames (snd (read_frames a) @ b)))"
proof (induction a rule: read_frames.induct)
  case (1 a)
  show ?case
  proof (cases "read_frame a")
    case None
    then show ?thesis by (simp add: read_frames.simps [of a])
  next
    case (Some x)
    obtain f rest where x: "x = (f, rest)" by fastforce
    show ?thesis
      using 1 [OF Some [unfolded x] refl] read_frame_append [OF Some [unfolded x], of b] Some
      by (simp add: read_frames.simps [of a] read_frames.simps [of "a @ b"] x case_prod_beta)
  qed
qed

interpretation agw_stream: incremental read_frames
proof unfold_locales
  show "read_frames (a @ b) = (fst (read_frames a) @ fst (read_frames (snd (read_frames a) @ b)),
     snd (read_frames (snd (read_frames a) @ b)))" for a b
    by (rule read_frames_append)
  show "read_frames [] = ([], [])"
    by (simp add: read_frames.simps [of "[]"] read_frame_def HEADER_SIZE_def)
qed

text \<open>What a peer that builds frames from \<open>spec\<close> tuples puts on the stream.\<close>

type_synonym frame_spec = "int \<times> char \<times> callsign \<times> callsign \<times> int \<times> bytes"

definition build_spec :: "frame_spec \<Rightarrow> bytes option" where
  "build_spec = (\<lambda>(port, kind, cf, ct, pid, data). build_frame port kind cf ct pid data)"

definition spec_ok :: "frame_spec \<Rightarrow> bool" where
  "spec_ok = (\<lambda>(port, kind, cf, ct, pid, data). field_ok cf \<and> field_ok ct)"

definition spec_frame :: "frame_spec \<Rightarrow> agw_frame" where
  "spec_frame = (\<lambda>(port, kind, cf, ct, pid, data).
     \<lparr>af_port = port, af_kind = kind, af_pid = pid, af_from = cf, af_to = ct, af_data = data,
      af_reserved = [0, 0, 0, 0]\<rparr>)"

lemma read_frames_built:
  assumes "list_all spec_ok specs" and "those (map build_spec specs) = Some wires"
    and "read_frame rest = None"
  shows "read_frames (concat wires @ rest) = (map spec_frame specs, rest)"
  using assms
proof (induction specs arbitrary: wires)
  case Nil
  then show ?case by (simp add: read_frames.simps [of rest])
next
  case (Cons x specs)
  from Cons.prems obtain w ws where w: "build_spec x = Some w" "those (map build_spec specs) = Some ws"
    "wires = w # ws" by (auto split: option.splits)
  have "read_frame (w @ concat ws @ rest) = Some (spec_frame x, concat ws @ rest)"
    using Cons.prems(1) w(1)
    by (cases x) (auto simp: build_spec_def spec_ok_def spec_frame_def intro!: read_built)
  then show ?case
    using Cons w by (simp add: read_frames.simps [of "w @ concat ws @ rest"])
qed

section \<open>Lemmas: monitor text\<close>

text \<open>The digipeater path of a monitor line of the form \<open>pre Via a,b,c <UI ...\<close>.\<close>

definition path_char :: "char \<Rightarrow> bool" where
  "path_char c \<longleftrightarrow> c \<noteq> CHR ''<'' \<and> \<not> is_space c"

lemma space_codes [simp]: "is_space CHR 0x0D" "is_space CHR 0x0A" "\<not> is_space CHR ''<''"
  by (simp_all add: is_space_def code_def)

lemma lazy_group_path:
  assumes "list_all path_char p" and "p \<noteq> []"
  shows "lazy_group acc (p @ CHR 0x20 # CHR ''<'' # r) = Some (acc @ p)"
  using assms
proof (induction p arbitrary: acc)
  case (Cons c p)
  have c: "c \<noteq> CHR ''<''" "c \<noteq> CHR 0x0D" "c \<noteq> CHR 0x0A"
    using Cons.prems(1) by (auto simp: path_char_def)
  show ?case
  proof (cases p)
    case Nil
    then show ?thesis using c by (simp add: lt_follows_def)
  next
    case (Cons d q)
    then have "path_char d" using Cons.prems by simp
    then have "\<not> lt_follows (p @ CHR 0x20 # CHR ''<'' # r)" by (simp add: Cons lt_follows_def path_char_def)
    then show ?thesis using c Cons.IH Cons.prems Cons by simp
  qed
qed simp

definition no_via :: "string \<Rightarrow> bool" where
  "no_via s \<longleftrightarrow> list_all (\<lambda>i. lower (take 3 (drop i s)) \<noteq> ''via'') [0 ..< length s]"

lemma low_blank [simp]: "low CHR 0x20 = CHR 0x20" by code_simp

lemma search_word_skip:
  assumes "list_all (\<lambda>i. m (drop i pre @ rest) = None) [0 ..< length pre]"
  shows "search_word m prev (pre @ rest) = (if pre = [] then search_word m prev rest
     else search_word m (is_word (last pre)) rest)"
  using assms
proof (induction pre arbitrary: prev)
  case (Cons c pre)
  have "m (drop 0 (c # pre) @ rest) = None"
    using Cons.prems unfolding list_all_iff by (rule bspec) simp
  then have m0: "m (c # pre @ rest) = None" by simp
  have "list_all (\<lambda>i. m (drop i pre @ rest) = None) [0 ..< length pre]"
    unfolding list_all_iff
  proof
    fix i assume "i \<in> set [0 ..< length pre]"
    then have "Suc i \<in> set [0 ..< length (c # pre)]" by auto
    with Cons.prems have "m (drop (Suc i) (c # pre) @ rest) = None" unfolding list_all_iff by blast
    then show "m (drop i pre @ rest) = None" by simp
  qed
  then show ?case using Cons.IH m0 by simp
qed simp

lemma via_match_none:
  assumes "no_via (pre @ [CHR 0x20])" and "i \<le> length pre"
  shows "via_match (drop i (pre @ [CHR 0x20]) @ rest) = None"
proof -
  let ?s = "drop i (pre @ [CHR 0x20])"
  have ne: "lower (take 3 ?s) \<noteq> ''via''" using assms by (auto simp: no_via_def list_all_iff)
  have "lower (take 3 (?s @ rest)) \<noteq> ''via''"
  proof (cases "3 \<le> length ?s")
    case True
    have "take 3 (xs @ ys) = take 3 xs" if "3 \<le> length xs" for xs ys :: string
      using that by simp
    with ne show ?thesis using True by metis
  next
    case False
    have "last ?s = CHR 0x20" "?s \<noteq> []" using assms(2) by auto
    then have "CHR 0x20 \<in> set ?s" by (metis last_in_set)
    with False have "CHR 0x20 \<in> set (take 3 (?s @ rest))" by auto
    then have "CHR 0x20 \<in> set (lower (take 3 (?s @ rest)))"
      unfolding lower_def by (metis image_eqI list.set_map low_blank)
    then show ?thesis by (auto simp del: take_append)
  qed
  then show ?thesis by (simp add: via_match_def)
qed

lemma parse_via_path:
  assumes "no_via (pre @ [CHR 0x20])" and "vs \<noteq> []"
    and "list_all (\<lambda>v. v \<noteq> [] \<and> list_all (\<lambda>c. path_char c \<and> c \<noteq> CHR '','') v) vs"
  shows "parse_via (pre @ '' Via '' @ join '','' vs @ '' <'' @ rest) = vs"
proof -
  let ?p = "join '','' vs"
  have chars: "list_all path_char ?p" "?p \<noteq> []"
  proof -
    have "list_all (\<lambda>v. v \<noteq> [] \<and> list_all path_char v) vs"
      using assms(3) by (auto simp: list_all_iff)
    then show "list_all path_char ?p" "?p \<noteq> []"
      using assms(2) by (induction "'','' :: string" vs rule: join.induct)
        (auto simp: path_char_def is_space_def code_def)
  qed
  have v: "via_match (''Via '' @ ?p @ '' <'' @ rest) = Some ?p"
  proof -
    have h: "\<exists>c q. ?p = c # q \<and> \<not> is_space c"
      using chars by (cases ?p) (auto simp: path_char_def)
    then have "takeWhile is_space (CHR 0x20 # ?p @ '' <'' @ rest) = [CHR 0x20]" by auto
    moreover have "lower ''Via'' = ''via''" by code_simp
    ultimately show ?thesis
      using lazy_group_path [OF chars, of "[]" rest] by (simp add: via_match_def numeral_3_eq_3)
  qed
  have "search_word via_match False ((pre @ [CHR 0x20]) @ ''Via '' @ ?p @ '' <'' @ rest) = Some ?p"
  proof (subst search_word_skip)
    show "list_all (\<lambda>i. via_match (drop i (pre @ [CHR 0x20]) @ ''Via '' @ ?p @ '' <'' @ rest) = None)
        [0 ..< length (pre @ [CHR 0x20])]"
      unfolding list_all_iff
    proof
      fix i assume "i \<in> set [0 ..< length (pre @ [CHR 0x20])]"
      then have "i \<le> length pre" by auto
      then show "via_match (drop i (pre @ [CHR 0x20]) @ ''Via '' @ ?p @ '' <'' @ rest) = None"
        by (rule via_match_none [OF assms(1)])
    qed
    have "\<not> is_word CHR 0x20" by code_simp
    with v show "(if pre @ [CHR 0x20] = [] then search_word via_match False (''Via '' @ ?p @ '' <'' @ rest)
       else search_word via_match (is_word (last (pre @ [CHR 0x20]))) (''Via '' @ ?p @ '' <'' @ rest)) = Some ?p"
      by simp
  qed
  moreover have "split_on CHR '','' ?p = vs"
    using assms(2,3) by (intro split_on_join) (auto simp: list_all_iff)
  moreover have "map strip vs = vs"
    using assms(3) by (intro map_idI strip_no_space) (auto simp: list_all_iff path_char_def)
  moreover have "filter (\<lambda>v. v \<noteq> []) vs = vs" using assms(3) by (auto simp: list_all_iff intro: filter_True)
  ultimately show ?thesis by (simp add: parse_via_def)
qed

section \<open>Lemmas: the binary information field\<close>

definition stamp_ok :: "bytes \<Rightarrow> bool" where
  "stamp_ok t \<longleftrightarrow> length t = 8 \<and> list_all (\<lambda>i. is_digit_byte (t ! i)) [0, 1, 3, 4, 6, 7]
     \<and> t ! 2 = 0x3A \<and> t ! 5 = 0x3A"

definition monitor_frame :: "bytes \<Rightarrow> bytes \<Rightarrow> bytes \<Rightarrow> bytes" where
  "monitor_frame hdr t info = hdr @ [0x3E, 0x5B] @ t @ [0x5D, 0x0D] @ info @ [0x0D, 0x0D, 0x00]"

lemma search_skip:
  "list_all (\<lambda>x. \<forall>r. m (x # r) = None) pre \<Longrightarrow> search m (pre @ rest) = search m rest"
  by (induction pre) auto

lemma length8E:
  assumes "length t = 8"
  obtains a b c d e f g h where "t = [a, b, c, d, e, f, g, h]"
  using assms by (auto simp: length_Suc_conv eval_nat_numeral)

lemma extract_monitor_frame:
  assumes "stamp_ok t" and "0x3E \<notin> set hdr"
  shows "extract_binary_info (monitor_frame hdr t info) = Some (strip_tail info)"
proof -
  obtain a b c d e f g h where t: "t = [a, b, c, d, e, f, g, h]"
    using assms(1) by (auto simp: stamp_ok_def elim: length8E)
  have skip: "list_all (\<lambda>x. \<forall>r. stamp_match (x # r) = None) hdr"
    using assms(2) by (auto simp: list_all_iff stamp_match_def split: list.splits)
  have "stamp_match ([0x3E, 0x5B] @ t @ [0x5D, 0x0D] @ info @ [0x0D, 0x0D, 0x00])
      = Some (info @ [0x0D, 0x0D, 0x00])"
    using assms(1) by (simp add: t stamp_match_def stamp_ok_def)
  then have "search stamp_match (monitor_frame hdr t info) = Some (info @ [0x0D, 0x0D, 0x00])"
    unfolding monitor_frame_def search_skip [OF skip] by simp
  then show ?thesis by (simp add: extract_binary_info_def strip_tail_def)
qed

lemma strip_tail_id: "info = [] \<or> last info \<notin> {0x0D, 0x00} \<Longrightarrow> strip_tail info = info"
  by (cases info rule: rev_cases) (auto simp: strip_tail_def)

lemma strip_tail_suffix:
  assumes "y \<in> set ys" and "y \<notin> {0x0D, 0x00}" and "last ys \<in> {0x0D, 0x00}"
  obtains zs where "strip_tail (xs @ ys) = xs @ zs" and "length zs < length ys"
proof -
  let ?P = "\<lambda>b :: byte. b = 0x0D \<or> b = 0x00"
  have "dropWhile ?P (rev ys @ rev xs) = dropWhile ?P (rev ys) @ rev xs"
    by (rule dropWhile_append1 [of y]) (use assms(1,2) in auto)
  then have "strip_tail (xs @ ys) = xs @ rev (dropWhile ?P (rev ys))"
    by (simp add: strip_tail_def)
  moreover have "length (dropWhile ?P (rev ys)) < length ys"
  proof -
    have "ys \<noteq> []" using assms(1) by auto
    then obtain y' ys' where "ys = ys' @ [y']" by (cases ys rule: rev_cases) auto
    then show ?thesis
      using assms(3) length_dropWhile_le [of ?P "rev ys'"] by (simp add: less_Suc_eq_le)
  qed
  ultimately show ?thesis using that by simp
qed

lemma shift_char_visible: "is_call_char c \<Longrightarrow> shift_char c \<notin> {0x0D, 0x00}"
proof -
  assume c: "is_call_char c"
  have w: "wire_char (shift_char c) = ord_of c" using c by (intro wire_shift_char) auto
  have "48 \<le> unat (ord_of c)" using c by (auto simp: unat_ord_of char_class_defs)
  moreover have "unat (wire_char 0x0D) < 48" "unat (wire_char 0x00) < 48" by code_simp+
  ultimately show ?thesis using w by auto
qed

lemma enc_all_append:
  "enc_all enc (xs @ ys) = Option.bind (enc_all enc xs) (\<lambda>a. map_option (\<lambda>b. a @ b) (enc_all enc ys))"
proof (induction xs)
  case Nil
  show ?case by (cases "enc_all enc ys") auto
next
  case (Cons x xs)
  then show ?case by (cases "enc x"; cases "enc_all enc xs"; cases "enc_all enc ys") auto
qed

lemma encode_node_entry_shape:
  assumes "entry_ok e"
  obtains y ys where "encode_node_entry e = Some (ys @ [low_byte (ne_quality e)])"
    and "length ys = 20" and "y \<in> set ys" and "y \<notin> {0x0D, 0x00}"
proof -
  have dc: "canonical (ne_dest_call e)" and nc: "canonical (ne_neighbor_call e)"
    using assms by (auto simp: entry_ok_def)
  from dc obtain c n where c: "valid_call c" "0 \<le> n" "n \<le> 15" "format_addr c n = Some (ne_dest_call e)"
    by (rule canonicalE)
  obtain nb where nb: "encode_wire_call (ne_neighbor_call e) = Some nb" "length nb = 7"
    using nc by (auto elim: wire.encE)
  obtain x xs where x: "c = x # xs" "is_call_char x"
    using c(1) by (cases c) (auto simp: valid_call_def)
  let ?ys = "wire_bytes c n @ encode_alias (ne_alias e) @ nb"
  have "encode_node_entry e = Some (?ys @ [low_byte (ne_quality e)])"
    by (simp add: encode_node_entry_def encode_wire_call_format [OF c] nb)
  moreover have "length ?ys = 20" using c(1) nb by simp
  moreover have "shift_char x \<in> set ?ys" by (simp add: wire_bytes_def x(1) ljust_def)
  ultimately show ?thesis using shift_char_visible [OF x(2)] that by blast
qed

text \<open>A routing broadcast read back from the monitor line that carried it.\<close>

lemma monitored_nodes:
  assumes "alias_ok a" and "list_all entry_ok es"
    and "encode_nodes_broadcast a es = Some bs"
  shows "es \<noteq> [] \<Longrightarrow> ne_quality (last es) \<notin> {0x0D, 0x00} \<Longrightarrow> strip_tail bs = bs"
    and "es \<noteq> [] \<Longrightarrow> ne_quality (last es) \<in> {0x0D, 0x00} \<Longrightarrow>
      decode_nodes_broadcast src (strip_tail bs) =
        Some (Some \<lparr>nf_source_call = src, nf_source_alias = a, nf_entries = butlast es\<rparr>)"
proof -
  obtain body where body: "enc_all encode_node_entry es = Some body"
    and bs: "bs = [0xFF] @ encode_alias a @ body"
    using assms(3) by (auto simp: encode_nodes_broadcast_def bind_eq_Some_conv)
  have split: "\<exists>pre y ys. enc_all encode_node_entry (butlast es) = Some pre
      \<and> body = pre @ ys @ [low_byte (ne_quality (last es))]
      \<and> length ys = 20 \<and> y \<in> set ys \<and> y \<notin> {0x0D, 0x00}" if ne: "es \<noteq> []"
  proof -
    have es: "es = butlast es @ [last es]" using ne by simp
    have "entry_ok (last es)" using assms(2) ne by (auto simp: list_all_iff)
    then obtain y ys where y: "encode_node_entry (last es) = Some (ys @ [low_byte (ne_quality (last es))])"
      "length ys = 20" "y \<in> set ys" "y \<notin> {0x0D, 0x00}" by (rule encode_node_entry_shape)
    from body y(1) obtain pre where "enc_all encode_node_entry (butlast es) = Some pre"
      "body = pre @ ys @ [low_byte (ne_quality (last es))]"
      by (subst (asm) es, subst (asm) enc_all_append) (auto simp: bind_eq_Some_conv)
    with y show ?thesis by blast
  qed
  have q: "0 \<le> ne_quality (last es) \<and> ne_quality (last es) < 256" if "es \<noteq> []"
    using that assms(2) by (auto simp: list_all_iff entry_ok_def)
  have low: "low_byte n \<in> {0x0D, 0x00} \<longleftrightarrow> n \<in> {0x0D, 0x00}" if "0 \<le> n" "n < 256" for n
  proof -
    have "uint (low_byte n) = n" using that by (simp add: uint_low_byte)
    then show ?thesis by (auto simp: low_byte_def)
  qed
  show "strip_tail bs = bs" if "es \<noteq> []" and "ne_quality (last es) \<notin> {0x0D, 0x00}"
  proof (rule strip_tail_id)
    have "low_byte (ne_quality (last es)) \<notin> {0x0D, 0x00}"
      using that(2) low [of "ne_quality (last es)"] q [OF that(1)] by simp
    with split [OF that(1)] show "bs = [] \<or> last bs \<notin> {0x0D, 0x00}" by (auto simp: bs)
  qed
  show "decode_nodes_broadcast src (strip_tail bs) =
      Some (Some \<lparr>nf_source_call = src, nf_source_alias = a, nf_entries = butlast es\<rparr>)"
    if ne: "es \<noteq> []" and z: "ne_quality (last es) \<in> {0x0D, 0x00}"
  proof -
    obtain pre y ys where s: "enc_all encode_node_entry (butlast es) = Some pre"
      "body = pre @ ys @ [low_byte (ne_quality (last es))]" "length ys = 20" "y \<in> set ys"
      "y \<notin> {0x0D, 0x00}"
      using split [OF ne] by blast
    obtain zs where zs: "strip_tail (([0xFF] @ encode_alias a @ pre) @ ys @ [low_byte (ne_quality (last es))])
        = ([0xFF] @ encode_alias a @ pre) @ zs" "length zs < 21"
    proof (rule strip_tail_suffix [of y "ys @ [low_byte (ne_quality (last es))]"
          "[0xFF] @ encode_alias a @ pre"])
      show "last (ys @ [low_byte (ne_quality (last es))]) \<in> {0x0D, 0x00}"
        using z low [of "ne_quality (last es)"] q [OF ne] by simp
    qed (use s(3-5) in auto)
    have "encode_nodes_broadcast a (butlast es) = Some ([0xFF] @ encode_alias a @ pre)"
      using s(1) by (simp add: encode_nodes_broadcast_def)
    moreover have "list_all entry_ok (butlast es)"
      using assms(2) by (auto simp: list_all_iff dest: in_set_butlastD)
    ultimately show ?thesis
      using nodes_round_trip [OF assms(1), of "butlast es" zs src] zs by (simp add: bs s(2) netrom_lens)
  qed
qed

end
