(* ===== verification/Agwpe.thy ===== *)
theory Agwpe
  imports Agwpe_Frame Circuit_Manager
begin

text \<open>
  \<open>bbs/transport/agwpe.py\<close>, \<open>AGWPETransport\<close>: the sessions multiplexed over one AGWPE socket. Session
  objects live in \<open>ag_store\<close> under an object number, because a session task keeps its reader and
  writer after the tables have dropped the session; the dictionaries hold object numbers, futures are
  numbers into \<open>ag_futures\<close>. \<open>ag_out\<close> is what was written to the current socket and \<open>ag_epoch\<close> counts
  the sockets, so that a writer of an earlier connection writes nowhere. A session that is a NET/ROM
  crosslink holds the manager of \<open>Circuit_Manager\<close>; what that manager writes to its link becomes
  \<open>D\<close> frames with PID 0xCF. Observers and the connection callback are the lists of their calls.
\<close>

type_synonym session_key = "int \<times> callsign"

record agw_cfg =
  ac_local_call :: callsign
  ac_node_call :: callsign
  ac_node_alias :: callsign
  ac_agw_port :: int
  ac_password :: string
  ac_beacon_text :: string
  ac_beacon_dest :: string
  ac_beacon_interval :: int
  ac_beacon_path :: "callsign list"
  ac_nodes_interval :: int
  ac_signal_quality :: bool
  ac_crosslink_enabled :: bool
  ac_neighbor_check :: "(callsign \<Rightarrow> bool) option"
  ac_info_mtu :: int
  ac_link_idle_timeout :: rat
  ac_extra_callsigns :: "callsign list"
  ac_heard_observer :: bool
  ac_netrom_observer :: bool
  ac_state_path :: bool

record agw_writer =
  aw_local :: callsign
  aw_remote :: callsign
  aw_port :: int
  aw_closing :: bool
  aw_suppress_close :: bool
  aw_muted :: bool
  aw_pid :: int

datatype task_state = NoTask | Running | Cancelled | Ended

record agw_session =
  as_remote_call :: callsign
  as_port :: int
  as_epoch :: nat
  as_writer :: agw_writer
  as_manager :: "manager option"
  as_link_closed :: bool
  as_reader :: "bytes list"
  as_reader_eof :: bool
  as_detached :: bool
  as_hop_count :: nat
  as_task :: task_state

datatype future = FPending | FResult nat | FFailed | FCancelled

record agw_heard =
  gh_src :: callsign
  gh_dest :: callsign
  gh_via :: "string list"
  gh_time :: int
  gh_info :: string
  gh_signal :: "(byte \<times> byte \<times> byte \<times> byte) option"
  gh_count_it :: bool
  gh_log_signal :: bool

record agw_state =
  ag_epoch :: nat
  ag_connected :: bool
  ag_out :: "bytes list"
  ag_registered :: bool
  ag_monitoring_on :: bool
  ag_ext_sig_active :: bool
  ag_store :: "(nat, agw_session) dict"
  ag_next_oid :: nat
  ag_sessions :: "(session_key, nat) dict"
  ag_tasks :: "(session_key, nat) dict"
  ag_pending :: "(session_key, nat) dict"
  ag_futures :: "(nat, future) dict"
  ag_next_fut :: nat
  ag_hops :: "(callsign, nat) dict"
  ag_notes :: "(callsign \<times> bool) list"
  ag_heard :: "agw_heard list"
  ag_netrom_frames :: "(callsign \<times> callsign \<times> bytes) list"
  ag_broadcast_state :: "(string, rat) dict"

section \<open>Configuration\<close>

definition agw_init ::
  "string \<Rightarrow> int \<Rightarrow> string \<Rightarrow> string \<Rightarrow> string \<Rightarrow> int \<Rightarrow> string \<Rightarrow> bool \<Rightarrow> agw_cfg option" where
  "agw_init bbs_callsign agw_port password beacon_text beacon_dest beacon_interval beacon_path
     signal_quality = do {
     (call, ssid) \<leftarrow> parse bbs_callsign;
     local_call \<leftarrow> format_addr call ssid;
     let dest = upper (strip beacon_dest);
     Some \<lparr>ac_local_call = local_call, ac_node_call = local_call, ac_node_alias = [],
        ac_agw_port = agw_port, ac_password = password, ac_beacon_text = strip beacon_text,
        ac_beacon_dest = (if dest = [] then ''BEACON'' else dest),
        ac_beacon_interval = max 1 beacon_interval * 60,
        ac_beacon_path = map (\<lambda>p. upper (strip p))
          (filter (\<lambda>p. strip p \<noteq> []) (split_on CHR '','' beacon_path)),
        ac_nodes_interval = 30 * 60, ac_signal_quality = signal_quality,
        ac_crosslink_enabled = False, ac_neighbor_check = None, ac_info_mtu = 108,
        ac_link_idle_timeout = 0, ac_extra_callsigns = [], ac_heard_observer = False,
        ac_netrom_observer = False, ac_state_path = False\<rparr>
   }"

definition agw_state_init :: agw_state where
  "agw_state_init =
     \<lparr>ag_epoch = 0, ag_connected = False, ag_out = [], ag_registered = False, ag_monitoring_on = False,
      ag_ext_sig_active = False, ag_store = [], ag_next_oid = 0, ag_sessions = [], ag_tasks = [],
      ag_pending = [], ag_futures = [], ag_next_fut = 0, ag_hops = [], ag_notes = [], ag_heard = [],
      ag_netrom_frames = [], ag_broadcast_state = []\<rparr>"

definition set_netrom_nodes_interval :: "int \<Rightarrow> agw_cfg \<Rightarrow> agw_cfg" where
  "set_netrom_nodes_interval seconds cfg = cfg\<lparr>ac_nodes_interval := max 60 seconds\<rparr>"

definition set_netrom_crosslink_enabled :: "bool \<Rightarrow> agw_cfg \<Rightarrow> agw_cfg" where
  "set_netrom_crosslink_enabled enabled cfg = cfg\<lparr>ac_crosslink_enabled := enabled\<rparr>"

definition set_netrom_neighbor_check :: "(callsign \<Rightarrow> bool) \<Rightarrow> agw_cfg \<Rightarrow> agw_cfg" where
  "set_netrom_neighbor_check cb cfg = cfg\<lparr>ac_neighbor_check := Some cb\<rparr>"

definition set_netrom_info_mtu :: "int \<Rightarrow> agw_cfg \<Rightarrow> agw_cfg" where
  "set_netrom_info_mtu mtu cfg = cfg\<lparr>ac_info_mtu := max 1 mtu\<rparr>"

definition set_netrom_link_idle_timeout :: "rat \<Rightarrow> agw_cfg \<Rightarrow> agw_cfg" where
  "set_netrom_link_idle_timeout seconds cfg = cfg\<lparr>ac_link_idle_timeout := max 0 seconds\<rparr>"

definition set_netrom_node_call :: "string \<Rightarrow> agw_cfg \<Rightarrow> agw_cfg" where
  "set_netrom_node_call call cfg =
     (let c = strip (upper call) in cfg\<lparr>ac_node_call := (if c \<noteq> [] then c else ac_local_call cfg)\<rparr>)"

definition set_netrom_node_alias :: "string \<Rightarrow> agw_cfg \<Rightarrow> agw_cfg" where
  "set_netrom_node_alias alias cfg = cfg\<lparr>ac_node_alias := strip (upper alias)\<rparr>"

fun extra_loop :: "callsign list \<Rightarrow> string list \<Rightarrow> callsign list" where
  "extra_loop seen [] = []"
| "extra_loop seen (c # cs) =
     (let cu = strip (upper c) in
      if cu \<noteq> [] \<and> cu \<notin> set seen then cu # extra_loop (cu # seen) cs else extra_loop seen cs)"

definition set_extra_callsigns :: "string list \<Rightarrow> agw_cfg \<Rightarrow> agw_cfg" where
  "set_extra_callsigns calls cfg =
     cfg\<lparr>ac_extra_callsigns := extra_loop [upper (ac_local_call cfg), upper (ac_node_call cfg)] calls\<rparr>"

section \<open>Writing to the socket\<close>

definition tcp_send :: "nat \<Rightarrow> bytes \<Rightarrow> agw_state \<Rightarrow> agw_state" where
  "tcp_send epoch frame st =
     (if ag_connected st \<and> ag_epoch st = epoch then st\<lparr>ag_out := ag_out st @ [frame]\<rparr> else st)"

definition put_session :: "nat \<Rightarrow> agw_session \<Rightarrow> agw_state \<Rightarrow> agw_state" where
  "put_session oid s st = st\<lparr>ag_store := AList.update oid s (ag_store st)\<rparr>"

text \<open>The writer in the hands of a session's task.\<close>

definition agw_write :: "nat \<Rightarrow> bytes \<Rightarrow> agw_state \<Rightarrow> agw_state option" where
  "agw_write oid data st = do {
     s \<leftarrow> map_of (ag_store st) oid;
     let w = as_writer s;
     if aw_muted w \<or> aw_closing w \<or> data = [] then Some st
     else map_option (\<lambda>f. tcp_send (as_epoch s) f st)
       (build_frame (aw_port w) CHR ''D'' (aw_local w) (aw_remote w) (aw_pid w) data)
   }"

definition agw_drain_timeout :: "nat \<Rightarrow> agw_state \<Rightarrow> agw_state option" where
  "agw_drain_timeout oid st = do {
     s \<leftarrow> map_of (ag_store st) oid;
     Some (if aw_closing (as_writer s) then st
           else put_session oid (s\<lparr>as_writer := (as_writer s)\<lparr>aw_closing := True\<rparr>\<rparr>) st)
   }"

definition agw_close :: "nat \<Rightarrow> agw_state \<Rightarrow> agw_state option" where
  "agw_close oid st = do {
     s \<leftarrow> map_of (ag_store st) oid;
     let w = as_writer s;
     if aw_closing w \<or> aw_suppress_close w then Some st
     else do {
       let st = put_session oid (s\<lparr>as_writer := w\<lparr>aw_closing := True\<rparr>\<rparr>) st;
       Some (case build_frame (aw_port w) CHR ''d'' (aw_local w) (aw_remote w) 0 [] of
               None \<Rightarrow> st | Some f \<Rightarrow> tcp_send (as_epoch s) f st)
     }
   }"

text \<open>
  The second writer, \<open>_make_netrom_writer\<close>: what the manager has put on its link since the last time
  goes out as \<open>D\<close> frames with PID 0xCF, then the \<open>d\<close> frame of its \<open>close\<close>.
\<close>

definition link_frames :: "agw_writer \<Rightarrow> bytes list \<Rightarrow> bytes list option" where
  "link_frames w datas =
     those (map (build_frame (aw_port w) CHR ''D'' (aw_local w) (aw_remote w) (uint pid_netrom))
       (filter (\<lambda>d. d \<noteq> []) datas))"

definition close_frames :: "agw_writer \<Rightarrow> bytes list" where
  "close_frames w =
     (case build_frame (aw_port w) CHR ''d'' (aw_local w) (aw_remote w) 0 [] of None \<Rightarrow> [] | Some f \<Rightarrow> [f])"

definition put_manager :: "nat \<Rightarrow> agw_session \<Rightarrow> manager \<Rightarrow> agw_state \<Rightarrow> agw_state option" where
  "put_manager oid s mg st = do {
     frames \<leftarrow> link_frames (as_writer s) (lk_out (mg_link mg));
     let closes = lk_closing (mg_link mg) \<and> \<not> as_link_closed s;
     let mg = mg\<lparr>mg_link := (mg_link mg)\<lparr>lk_out := []\<rparr>\<rparr>;
     let st = put_session oid (s\<lparr>as_manager := Some mg, as_link_closed := as_link_closed s \<or> closes\<rparr>) st;
     Some (fold (tcp_send (as_epoch s)) (frames @ (if closes then close_frames (as_writer s) else [])) st)
   }"

definition run_manager :: "nat \<Rightarrow> (manager \<Rightarrow> manager option) \<Rightarrow> agw_state \<Rightarrow> agw_state option" where
  "run_manager oid f st = do {
     s \<leftarrow> map_of (ag_store st) oid;
     mg \<leftarrow> as_manager s;
     mg \<leftarrow> f mg;
     put_manager oid s mg st
   }"

section \<open>Sessions\<close>

definition note_agw_crosslink :: "callsign \<Rightarrow> bool \<Rightarrow> agw_state \<Rightarrow> agw_state" where
  "note_agw_crosslink call alive st = st\<lparr>ag_notes := ag_notes st @ [(upper call, alive)]\<rparr>"

definition session_key_of :: "agw_session \<Rightarrow> session_key" where
  "session_key_of s = (as_port s, upper (as_remote_call s))"

definition new_session :: "callsign \<Rightarrow> callsign \<Rightarrow> int \<Rightarrow> nat \<Rightarrow> agw_session" where
  "new_session remote_call local_call port epoch =
     \<lparr>as_remote_call = remote_call, as_port = port, as_epoch = epoch,
      as_writer = \<lparr>aw_local = local_call, aw_remote = remote_call, aw_port = port, aw_closing = False,
                   aw_suppress_close = False, aw_muted = False, aw_pid = PID_NO_L3\<rparr>,
      as_manager = None, as_link_closed = False, as_reader = [], as_reader_eof = False,
      as_detached = False, as_hop_count = 0, as_task = NoTask\<rparr>"

definition feed_eof :: "agw_session \<Rightarrow> agw_session" where
  "feed_eof s = (if as_detached s then s else s\<lparr>as_reader_eof := True\<rparr>)"

definition cancel_task :: "agw_session \<Rightarrow> agw_session" where
  "cancel_task s = (if as_task s = Running then s\<lparr>as_task := Cancelled\<rparr> else s)"

definition make_manager :: "agw_cfg \<Rightarrow> callsign \<Rightarrow> agw_session \<Rightarrow> manager" where
  "make_manager cfg local_call s =
     manager_init local_call (as_remote_call s) DEFAULT_TTL (ac_info_mtu cfg) (ac_link_idle_timeout cfg)"

text \<open>The end of a registered session: its circuits are shut down and its reader sees EOF.\<close>

definition end_agw_session :: "nat \<Rightarrow> agw_state \<Rightarrow> agw_state" where
  "end_agw_session oid st =
     (case map_of (ag_store st) oid of
        None \<Rightarrow> st
      | Some s \<Rightarrow>
          (case as_manager s of
             None \<Rightarrow> put_session oid (feed_eof s) st
           | Some mg \<Rightarrow>
               note_agw_crosslink (as_remote_call s) False
                 (put_session oid (feed_eof (s\<lparr>as_manager := Some (shutdown mg)\<rparr>)) st)))"

definition add_session :: "agw_session \<Rightarrow> agw_state \<Rightarrow> agw_state" where
  "add_session s st =
     st\<lparr>ag_store := AList.update (ag_next_oid st) s (ag_store st), ag_next_oid := ag_next_oid st + 1,
        ag_sessions := AList.update (session_key_of s) (ag_next_oid st) (ag_sessions st)\<rparr>"

definition resolve :: "nat \<Rightarrow> future \<Rightarrow> agw_state \<Rightarrow> agw_state" where
  "resolve fut v st =
     (if map_of (ag_futures st) fut = Some FPending
      then st\<lparr>ag_futures := AList.update fut v (ag_futures st)\<rparr> else st)"

text \<open>The \<open>C\<close> frame that confirms a connect of ours.\<close>

definition outbound_confirmed :: "agw_cfg \<Rightarrow> nat \<Rightarrow> int \<Rightarrow> callsign \<Rightarrow> agw_state \<Rightarrow> agw_state" where
  "outbound_confirmed cfg fut port call_from st =
     (let st = st\<lparr>ag_pending := AList.delete (port, upper call_from) (ag_pending st)\<rparr>;
          s = new_session call_from (ac_node_call cfg) port (ag_epoch st);
          s = s\<lparr>as_manager := Some (make_manager cfg (ac_node_call cfg) s)\<rparr>;
          oid = ag_next_oid st in
      resolve fut (FResult oid) (note_agw_crosslink call_from True (add_session s st)))"

definition drop_old_session :: "session_key \<Rightarrow> agw_state \<Rightarrow> agw_state" where
  "drop_old_session key st =
     (case map_of (ag_sessions st) key of
        None \<Rightarrow> st
      | Some oid \<Rightarrow>
          (let st = end_agw_session oid (st\<lparr>ag_sessions := AList.delete key (ag_sessions st)\<rparr>) in
           case map_of (ag_tasks st) key of
             None \<Rightarrow> st
           | Some t \<Rightarrow>
               (let st = st\<lparr>ag_tasks := AList.delete key (ag_tasks st)\<rparr> in
                case map_of (ag_store st) t of
                  None \<Rightarrow> st | Some s \<Rightarrow> put_session t (cancel_task s) st)))"

definition is_netrom_caller :: "agw_cfg \<Rightarrow> callsign \<Rightarrow> bool" where
  "is_netrom_caller cfg call \<longleftrightarrow> ac_crosslink_enabled cfg \<and>
     (case ac_neighbor_check cfg of None \<Rightarrow> False | Some cb \<Rightarrow> cb call)"

definition inbound_connect :: "agw_cfg \<Rightarrow> int \<Rightarrow> callsign \<Rightarrow> callsign \<Rightarrow> agw_state \<Rightarrow> agw_state" where
  "inbound_connect cfg port call_from call_to st =
     (let key = (port, upper call_from);
          st = drop_old_session key st;
          hops = (case map_of (ag_hops st) (upper call_from) of None \<Rightarrow> 0 | Some n \<Rightarrow> n);
          st = st\<lparr>ag_hops := AList.delete (upper call_from) (ag_hops st)\<rparr>;
          s = (new_session call_from call_to port (ag_epoch st))\<lparr>as_hop_count := hops\<rparr> in
      if is_netrom_caller cfg call_from then
        note_agw_crosslink call_from True
          (add_session (s\<lparr>as_manager := Some (make_manager cfg (ac_local_call cfg) s)\<rparr>) st)
      else
        (let oid = ag_next_oid st; st = add_session (s\<lparr>as_task := Running\<rparr>) st in
         st\<lparr>ag_tasks := AList.update key oid (ag_tasks st)\<rparr>))"

text \<open>\<open>_promote_to_netrom_crosslink\<close>.\<close>

definition promote :: "agw_cfg \<Rightarrow> session_key \<Rightarrow> nat \<Rightarrow> agw_state \<Rightarrow> agw_state" where
  "promote cfg key oid st =
     (case map_of (ag_store st) oid of
        None \<Rightarrow> st
      | Some s \<Rightarrow>
          (let w = (as_writer s)\<lparr>aw_muted := True, aw_suppress_close := True\<rparr>;
               st = put_session oid (s\<lparr>as_writer := w\<rparr>) st;
               st = (case map_of (ag_tasks st) key of
                       None \<Rightarrow> st
                     | Some t \<Rightarrow>
                         (let st = st\<lparr>ag_tasks := AList.delete key (ag_tasks st)\<rparr> in
                          case map_of (ag_store st) t of
                            None \<Rightarrow> st | Some r \<Rightarrow> put_session t (cancel_task r) st)) in
           case map_of (ag_store st) oid of
             None \<Rightarrow> st
           | Some s \<Rightarrow>
               note_agw_crosslink (as_remote_call s) True
                 (put_session oid ((feed_eof s)\<lparr>as_detached := True,
                    as_manager := Some (make_manager cfg (ac_local_call cfg) s)\<rparr>) st)))"

section \<open>The frame dispatcher\<close>

text \<open>
  A frame whose handling raises is dropped by the read loop: the second component. What the manager
  had changed before the exception is not kept; what the transport had changed is.
\<close>

definition enable_monitoring :: "agw_cfg \<Rightarrow> agw_state \<Rightarrow> agw_state \<times> bool" where
  "enable_monitoring cfg st =
     (if ag_monitoring_on st then (st, False)
      else
        (let st = st\<lparr>ag_monitoring_on := True\<rparr> in
         case build_frame (ac_agw_port cfg) CHR ''m'' [] [] 0 [] of
           None \<Rightarrow> (st, True)
         | Some f \<Rightarrow>
             (let st = tcp_send (ag_epoch st) f st in
              if ac_signal_quality cfg then
                (case build_frame (ac_agw_port cfg) CHR ''q'' [] [] 0 [] of
                   None \<Rightarrow> (st, True)
                 | Some g \<Rightarrow> (tcp_send (ag_epoch st) g st, False))
              else (st, False))))"

definition registration_ack :: "agw_cfg \<Rightarrow> bytes \<Rightarrow> agw_state \<Rightarrow> agw_state \<times> bool" where
  "registration_ack cfg payload st =
     (if payload \<noteq> [] \<and> hd payload = 1 then enable_monitoring cfg (st\<lparr>ag_registered := True\<rparr>)
      else (st, False))"

definition connect_frame :: "agw_cfg \<Rightarrow> int \<Rightarrow> callsign \<Rightarrow> callsign \<Rightarrow> agw_state \<Rightarrow> agw_state" where
  "connect_frame cfg port call_from call_to st =
     (case map_of (ag_pending st) (port, upper call_from) of
        Some fut \<Rightarrow> outbound_confirmed cfg fut port call_from st
      | None \<Rightarrow> inbound_connect cfg port call_from call_to st)"

definition l3_payload :: "nat \<Rightarrow> bytes \<Rightarrow> agw_state \<Rightarrow> agw_state \<times> bool" where
  "l3_payload oid payload st =
     (case decode_l3_frame payload of
        None \<Rightarrow> (st, True)
      | Some None \<Rightarrow> (st, False)
      | Some (Some frame) \<Rightarrow>
          (case run_manager oid (dispatch frame) st of None \<Rightarrow> (st, True) | Some st' \<Rightarrow> (st', False)))"

definition session_feed :: "nat \<Rightarrow> agw_session \<Rightarrow> bytes \<Rightarrow> agw_state \<Rightarrow> agw_state \<times> bool" where
  "session_feed oid s data st =
     (if as_detached s then (st, False)
      else if as_reader_eof s then (st, True)
      else (put_session oid (s\<lparr>as_reader := as_reader s @ [data]\<rparr>) st, False))"

definition data_frame :: "agw_cfg \<Rightarrow> session_key \<Rightarrow> int \<Rightarrow> bytes \<Rightarrow> agw_state \<Rightarrow> agw_state \<times> bool" where
  "data_frame cfg key pid payload st =
     (case map_of (ag_sessions st) key of
        None \<Rightarrow> (st, False)
      | Some oid \<Rightarrow>
          (case map_of (ag_store st) oid of
             None \<Rightarrow> (st, False)
           | Some s \<Rightarrow>
               if payload = [] then (st, False)
               else if as_manager s \<noteq> None then
                 (if pid \<noteq> uint pid_netrom then (st, False) else l3_payload oid payload st)
               else if pid = uint pid_netrom then l3_payload oid payload (promote cfg key oid st)
               else session_feed oid s payload st))"

definition disconnect_frame :: "session_key \<Rightarrow> agw_state \<Rightarrow> agw_state" where
  "disconnect_frame key st =
     (case map_of (ag_pending st) key of
        Some fut \<Rightarrow> resolve fut FFailed (st\<lparr>ag_pending := AList.delete key (ag_pending st)\<rparr>)
      | None \<Rightarrow>
          (case map_of (ag_sessions st) key of
             None \<Rightarrow> st
           | Some oid \<Rightarrow> end_agw_session oid (st\<lparr>ag_sessions := AList.delete key (ag_sessions st)\<rparr>)))"

text \<open>Monitored frames: the NODES observer, the hop-count cache and the heard observer.\<close>

definition signal_of :: "bytes \<Rightarrow> agw_state \<Rightarrow> (byte \<times> byte \<times> byte \<times> byte) option" where
  "signal_of user_reserved st = (if ag_ext_sig_active st then decode_signal user_reserved else None)"

definition heard_from_others :: "agw_cfg \<Rightarrow> callsign \<Rightarrow> bool" where
  "heard_from_others cfg call_from \<longleftrightarrow>
     ac_heard_observer cfg \<and> upper call_from \<noteq> upper (ac_local_call cfg)"

definition note_signal :: "agw_cfg \<Rightarrow> int \<Rightarrow> bool \<Rightarrow> agw_frame \<Rightarrow> agw_state \<Rightarrow> agw_state" where
  "note_signal cfg now log_signal f st =
     (let signal = signal_of (af_reserved f) st in
      if signal \<noteq> None \<and> heard_from_others cfg (af_from f) then
        st\<lparr>ag_heard := ag_heard st @ [\<lparr>gh_src = af_from f, gh_dest = af_to f,
             gh_via = parse_via (decode_ascii (af_data f)), gh_time = now, gh_info = [],
             gh_signal = signal, gh_count_it = False, gh_log_signal = log_signal\<rparr>]\<rparr>
      else st)"

definition is_nodes_broadcast :: "agw_cfg \<Rightarrow> agw_frame \<Rightarrow> bool" where
  "is_nodes_broadcast cfg f \<longleftrightarrow>
     af_kind f = CHR ''U'' \<and> ac_netrom_observer cfg
     \<and> (af_pid f = uint pid_netrom \<or> upper (af_to f) = ''NODES'')"

definition observe_nodes :: "agw_cfg \<Rightarrow> int \<Rightarrow> agw_frame \<Rightarrow> agw_state \<Rightarrow> agw_state" where
  "observe_nodes cfg now f st =
     (let st = (case (if af_data f \<noteq> [] then extract_binary_info (af_data f) else None) of
                  None \<Rightarrow> st
                | Some info \<Rightarrow>
                    st\<lparr>ag_netrom_frames := ag_netrom_frames st @ [(af_from f, af_to f, info)]\<rparr>) in
      note_signal cfg now True f st)"

definition cache_hops :: "agw_cfg \<Rightarrow> agw_frame \<Rightarrow> agw_state \<Rightarrow> agw_state" where
  "cache_hops cfg f st =
     (if af_data f \<noteq> [] \<and> upper (af_to f) = upper (ac_local_call cfg)
        \<and> monitors_sabm (decode_ascii (af_data f)) \<and> length (ag_hops st) < 200
      then st\<lparr>ag_hops := AList.update (upper (af_from f))
             (length (parse_via (decode_ascii (af_data f)))) (ag_hops st)\<rparr>
      else st)"

definition observe_heard :: "agw_cfg \<Rightarrow> int \<Rightarrow> agw_frame \<Rightarrow> agw_state \<Rightarrow> agw_state" where
  "observe_heard cfg now f st =
     (if heard_from_others cfg (af_from f) then
        st\<lparr>ag_heard := ag_heard st @ [\<lparr>gh_src = af_from f, gh_dest = af_to f,
             gh_via = (if af_data f \<noteq> [] then parse_via (decode_ascii (af_data f)) else []),
             gh_time = now,
             gh_info = (if af_data f \<noteq> [] then parse_info (decode_ascii (af_data f)) else []),
             gh_signal = signal_of (af_reserved f) st, gh_count_it = True, gh_log_signal = True\<rparr>]\<rparr>
      else st)"

definition monitored_frame :: "agw_cfg \<Rightarrow> int \<Rightarrow> agw_frame \<Rightarrow> agw_state \<Rightarrow> agw_state" where
  "monitored_frame cfg now f st =
     (if af_from f = ''??????'' then st
      else if is_nodes_broadcast cfg f then observe_nodes cfg now f st
      else
        (let st = cache_hops cfg f st in
         if af_kind f = CHR ''U'' then observe_heard cfg now f st
         else note_signal cfg now False f st))"

definition agw_dispatch :: "agw_cfg \<Rightarrow> int \<Rightarrow> agw_frame \<Rightarrow> agw_state \<Rightarrow> agw_state \<times> bool" where
  "agw_dispatch cfg now f st =
     (let kind = af_kind f; key = (af_port f, upper (af_from f)) in
      if kind = CHR ''X'' then registration_ack cfg (af_data f) st
      else if kind = CHR ''q'' then (st\<lparr>ag_ext_sig_active := True\<rparr>, False)
      else if kind = CHR ''C'' then (connect_frame cfg (af_port f) (af_from f) (af_to f) st, False)
      else if kind = CHR ''D'' then data_frame cfg key (af_pid f) (af_data f) st
      else if kind = CHR ''d'' then (disconnect_frame key st, False)
      else if kind \<in> {CHR ''U'', CHR ''S'', CHR ''I''} then (monitored_frame cfg now f st, False)
      else (st, False))"

definition agw_read_loop :: "agw_cfg \<Rightarrow> int \<Rightarrow> bytes \<times> agw_state \<Rightarrow> bytes \<Rightarrow> bytes \<times> agw_state" where
  "agw_read_loop cfg now s chunk =
     (let (frames, left) = read_frames (fst s @ chunk) in
      (left, fold (\<lambda>f st. fst (agw_dispatch cfg now f st)) frames (snd s)))"

section \<open>The session task\<close>

text \<open>The \<open>finally\<close> of \<open>_run_session\<close> for the task of the session object \<open>oid\<close>.\<close>

definition run_session_ends :: "nat \<Rightarrow> agw_state \<Rightarrow> agw_state option" where
  "run_session_ends oid st = do {
     s \<leftarrow> map_of (ag_store st) oid;
     let key = session_key_of s;
     let st = (if map_of (ag_sessions st) key = Some oid \<and> as_manager s = None
               then st\<lparr>ag_sessions := AList.delete key (ag_sessions st)\<rparr> else st);
     let st = (if map_of (ag_tasks st) key = Some oid
               then st\<lparr>ag_tasks := AList.delete key (ag_tasks st)\<rparr> else st);
     Some (put_session oid (s\<lparr>as_task := Ended\<rparr>) st)
   }"

section \<open>Outbound connects\<close>

datatype connect_start = Reused nat | Waits nat | NotConnected | BadCallsign

definition connect_out :: "agw_cfg \<Rightarrow> callsign \<Rightarrow> agw_state \<Rightarrow> agw_state \<times> connect_start" where
  "connect_out cfg neighbor st =
     (let neighbor_u = upper neighbor; key = (ac_agw_port cfg, neighbor_u);
          crosslink = (case map_of (ag_sessions st) key of
             None \<Rightarrow> None
           | Some oid \<Rightarrow>
               (case map_of (ag_store st) oid of
                  Some s \<Rightarrow> (if as_manager s \<noteq> None then Some oid else None) | None \<Rightarrow> None)) in
      case crosslink of
        Some oid \<Rightarrow> (st, Reused oid)
      | None \<Rightarrow>
          (case map_of (ag_pending st) key of
             Some fut \<Rightarrow> (st, Waits fut)
           | None \<Rightarrow>
               if \<not> ag_connected st then (st, NotConnected)
               else
                 (let fut = ag_next_fut st;
                      st = st\<lparr>ag_futures := AList.update fut FPending (ag_futures st),
                              ag_next_fut := fut + 1,
                              ag_pending := AList.update key fut (ag_pending st)\<rparr> in
                  case build_frame (ac_agw_port cfg) CHR ''C'' (ac_node_call cfg) neighbor_u 0 [] of
                    None \<Rightarrow> (st, BadCallsign)
                  | Some f \<Rightarrow> (tcp_send (ag_epoch st) f st, Waits fut))))"

text \<open>The \<open>except\<close> around the send: what a failing \<open>drain\<close> does.\<close>

definition connect_send_fails :: "agw_cfg \<Rightarrow> callsign \<Rightarrow> nat \<Rightarrow> agw_state \<Rightarrow> agw_state" where
  "connect_send_fails cfg neighbor fut st =
     resolve fut FCancelled
       (st\<lparr>ag_pending := AList.delete (ac_agw_port cfg, upper neighbor) (ag_pending st)\<rparr>)"

text \<open>
  \<open>wait_for\<close> cancels the future when its time is up, and so does a cancelled waiter; only the
  time-out takes the entry out of the table.
\<close>

definition connect_timeout :: "agw_cfg \<Rightarrow> callsign \<Rightarrow> nat \<Rightarrow> agw_state \<Rightarrow> agw_state" where
  "connect_timeout cfg neighbor fut st =
     (let st = resolve fut FCancelled st in
      st\<lparr>ag_pending := AList.delete (ac_agw_port cfg, upper neighbor) (ag_pending st)\<rparr>)"

definition connect_cancelled :: "nat \<Rightarrow> agw_state \<Rightarrow> agw_state" where
  "connect_cancelled fut st = resolve fut FCancelled st"

datatype connect_end = StillWaiting | Linked nat | ConnectionFailed | ConnectCancelled

definition await_future :: "nat \<Rightarrow> agw_state \<Rightarrow> connect_end" where
  "await_future fut st =
     (case map_of (ag_futures st) fut of
        Some (FResult oid) \<Rightarrow> Linked oid
      | Some FFailed \<Rightarrow> ConnectionFailed
      | Some FCancelled \<Rightarrow> ConnectCancelled
      | _ \<Rightarrow> StillWaiting)"

definition fail_pending_connects :: "agw_state \<Rightarrow> agw_state" where
  "fail_pending_connects st = (fold (\<lambda>(key, fut). resolve fut FFailed) (ag_pending st) st)\<lparr>ag_pending := []\<rparr>"

section \<open>The connection to AGWPE\<close>

text \<open>What \<open>start\<close> writes on a new connection: the login and one registration per callsign.\<close>

definition registered_calls :: "agw_cfg \<Rightarrow> callsign list" where
  "registered_calls cfg =
     [ac_local_call cfg]
     @ (if upper (ac_node_call cfg) \<noteq> upper (ac_local_call cfg) then [ac_node_call cfg] else [])
     @ (if ac_node_alias cfg \<noteq> [] \<and> ac_node_alias cfg \<noteq> upper (ac_local_call cfg)
          \<and> ac_node_alias cfg \<noteq> upper (ac_node_call cfg) then [ac_node_alias cfg] else [])
     @ ac_extra_callsigns cfg"

definition login_frames :: "agw_cfg \<Rightarrow> bytes list option" where
  "login_frames cfg = do {
     login \<leftarrow> (if ac_password cfg = [] then Some []
              else if \<not> list_all is_ascii (ac_password cfg) then None
              else map_option (\<lambda>f. [f]) (build_frame 0 CHR ''P'' [] [] 0 (encode_ascii (ac_password cfg))));
     regs \<leftarrow> those (map (\<lambda>c. build_frame (ac_agw_port cfg) CHR ''X'' c [] 0 []) (registered_calls cfg));
     Some (login @ regs)
   }"

definition tcp_connects :: "agw_cfg \<Rightarrow> agw_state \<Rightarrow> agw_state option" where
  "tcp_connects cfg st = do {
     frames \<leftarrow> login_frames cfg;
     Some (st\<lparr>ag_epoch := ag_epoch st + 1, ag_connected := True, ag_out := frames,
              ag_registered := False, ag_monitoring_on := False\<rparr>)
   }"

text \<open>The \<open>finally\<close> of \<open>start\<close>.\<close>

definition cancel_tasks :: "agw_state \<Rightarrow> agw_state" where
  "cancel_tasks st =
     (fold (\<lambda>(key, t) st. case map_of (ag_store st) t of
              None \<Rightarrow> st | Some s \<Rightarrow> put_session t (cancel_task s) st) (ag_tasks st) st)\<lparr>ag_tasks := []\<rparr>"

definition end_sessions :: "agw_state \<Rightarrow> agw_state" where
  "end_sessions st = (fold (\<lambda>(key, oid). end_agw_session oid) (ag_sessions st) st)\<lparr>ag_sessions := []\<rparr>"

definition tcp_drops :: "agw_state \<Rightarrow> agw_state" where
  "tcp_drops st = end_sessions (cancel_tasks (fail_pending_connects (st\<lparr>ag_connected := False\<rparr>)))"

text \<open>The back-off between attempts.\<close>

definition next_retry_delay :: "int \<Rightarrow> int" where
  "next_retry_delay retry_delay = min (retry_delay * 2) 60"

section \<open>Broadcasts\<close>

definition save_broadcast_state :: "agw_cfg \<Rightarrow> string \<Rightarrow> rat \<Rightarrow> agw_state \<Rightarrow> agw_state" where
  "save_broadcast_state cfg key time st =
     (if ac_state_path cfg then st\<lparr>ag_broadcast_state := AList.update key time (ag_broadcast_state st)\<rparr> else st)"

definition initial_broadcast_delay :: "agw_cfg \<Rightarrow> string \<Rightarrow> rat \<Rightarrow> rat \<Rightarrow> agw_state \<Rightarrow> rat" where
  "initial_broadcast_delay cfg key interval now st =
     (let sent = (if ac_state_path cfg then map_of (ag_broadcast_state st) key else None);
          t = (case sent of None \<Rightarrow> 0 | Some t \<Rightarrow> t) in
      max 0 (interval - (now - t)))"

definition beacon_frame :: "agw_cfg \<Rightarrow> bytes option" where
  "beacon_frame cfg =
     (let payload = encode_ascii (ac_beacon_text cfg) in
      if ac_beacon_path cfg \<noteq> [] then
        build_unproto_via_frame (ac_agw_port cfg) (ac_local_call cfg) (ac_beacon_dest cfg)
          (ac_beacon_path cfg) payload
      else build_frame (ac_agw_port cfg) CHR ''M'' (ac_local_call cfg) (ac_beacon_dest cfg) PID_NO_L3 payload)"

definition beacon_turn :: "agw_cfg \<Rightarrow> rat \<Rightarrow> agw_state \<Rightarrow> agw_state" where
  "beacon_turn cfg now st =
     (if ag_sessions st \<noteq> [] then st
      else (case beacon_frame cfg of
              None \<Rightarrow> st
            | Some f \<Rightarrow> save_broadcast_state cfg ''beacon'' now (tcp_send (ag_epoch st) f st)))"

fun send_nodes :: "agw_cfg \<Rightarrow> bytes list \<Rightarrow> agw_state \<Rightarrow> agw_state \<times> bool" where
  "send_nodes cfg [] st = (st, True)"
| "send_nodes cfg (payload # ps) st =
     (case build_frame (ac_agw_port cfg) CHR ''M'' (ac_node_call cfg) ''NODES'' (uint pid_netrom) payload of
        None \<Rightarrow> (st, False)
      | Some f \<Rightarrow> send_nodes cfg ps (tcp_send (ag_epoch st) f st))"

definition nodes_turn :: "agw_cfg \<Rightarrow> bytes list \<Rightarrow> rat \<Rightarrow> agw_state \<Rightarrow> agw_state" where
  "nodes_turn cfg payloads now st =
     (if payloads = [] then st
      else (let (st, sent) = send_nodes cfg payloads st in
            if sent then save_broadcast_state cfg ''nodes'' now st else st))"

definition netrom_circuits_snapshot :: "agw_state \<Rightarrow> circuit list" where
  "netrom_circuits_snapshot st =
     concat (map (\<lambda>(key, oid). case map_of (ag_store st) oid of
         None \<Rightarrow> []
       | Some s \<Rightarrow> (case as_manager s of None \<Rightarrow> [] | Some mg \<Rightarrow> active_circuits mg)) (ag_sessions st))"

section \<open>The step relation\<close>

datatype agw_event =
    FrameRx int agw_frame
  | SessionWrite nat bytes
  | SessionClose nat
  | DrainTimeout nat
  | TaskEnds nat
  | ManagerEvent nat manager_event
  | ConnectOut callsign
  | ConnectTimeout callsign nat
  | ConnectSendFails callsign nat
  | ConnectCancel nat
  | TcpConnects
  | TcpDrops
  | BeaconTimer rat
  | NodesTimer "bytes list" rat

inductive agw_step :: "agw_cfg \<Rightarrow> agw_state \<Rightarrow> agw_event \<Rightarrow> agw_state \<Rightarrow> bool" for cfg where
  frame_rx: "ag_connected st \<Longrightarrow> agw_step cfg st (FrameRx now f) (fst (agw_dispatch cfg now f st))"
| session_write: "agw_write oid data st = Some st' \<Longrightarrow> agw_step cfg st (SessionWrite oid data) st'"
| session_close: "agw_close oid st = Some st' \<Longrightarrow> agw_step cfg st (SessionClose oid) st'"
| drain_timeout: "agw_drain_timeout oid st = Some st' \<Longrightarrow> agw_step cfg st (DrainTimeout oid) st'"
| task_ends: "map_of (ag_store st) oid = Some s \<Longrightarrow> as_task s \<in> {Running, Cancelled} \<Longrightarrow>
    run_session_ends oid st = Some st' \<Longrightarrow> agw_step cfg st (TaskEnds oid) st'"
| manager_event: "map_of (ag_store st) oid = Some s \<Longrightarrow> as_manager s = Some mg \<Longrightarrow>
    manager_step mg e mg' \<Longrightarrow> put_manager oid s mg' st = Some st' \<Longrightarrow>
    agw_step cfg st (ManagerEvent oid e) st'"
| connects_out: "agw_step cfg st (ConnectOut neighbor) (fst (connect_out cfg neighbor st))"
| connect_times_out: "map_of (ag_futures st) fut = Some FPending \<Longrightarrow>
    agw_step cfg st (ConnectTimeout neighbor fut) (connect_timeout cfg neighbor fut st)"
| connect_fails: "agw_step cfg st (ConnectSendFails neighbor fut) (connect_send_fails cfg neighbor fut st)"
| connect_is_cancelled: "agw_step cfg st (ConnectCancel fut) (connect_cancelled fut st)"
| tcp_up: "\<not> ag_connected st \<Longrightarrow> tcp_connects cfg st = Some st' \<Longrightarrow> agw_step cfg st TcpConnects st'"
| tcp_down: "ag_connected st \<Longrightarrow> agw_step cfg st TcpDrops (tcp_drops st)"
| beacon_timer: "ag_connected st \<Longrightarrow> agw_step cfg st (BeaconTimer now) (beacon_turn cfg now st)"
| nodes_timer: "ag_connected st \<Longrightarrow> agw_step cfg st (NodesTimer payloads now) (nodes_turn cfg payloads now st)"

inductive agw_steps :: "agw_cfg \<Rightarrow> agw_state \<Rightarrow> agw_event list \<Rightarrow> agw_state \<Rightarrow> bool" for cfg where
  agw_none: "agw_steps cfg st [] st"
| agw_more: "agw_step cfg st e st' \<Longrightarrow> agw_steps cfg st' es st'' \<Longrightarrow> agw_steps cfg st (e # es) st''"

inductive_cases agw_stepE: "agw_step cfg st e st'"

section \<open>Lemmas: what an operation leaves alone\<close>

definition is_toggle :: "bytes \<Rightarrow> bool" where
  "is_toggle f \<longleftrightarrow> f ! 4 = ord_of CHR ''m''"

definition toggles :: "agw_state \<Rightarrow> nat" where
  "toggles st = length (filter is_toggle (ag_out st))"

lemma build_frame_kind:
  assumes "build_frame port kind cf ct pid data = Some f" shows "f ! 4 = ord_of kind"
  using assms by (elim build_frame_bytes) simp

lemma ord_of_inject [simp]: "ord_of c = ord_of d \<longleftrightarrow> c = d"
  by (metis chr_ord)

lemma built_toggle: "build_frame port kind cf ct pid data = Some f \<Longrightarrow> is_toggle f \<longleftrightarrow> kind = CHR ''m''"
  by (simp add: is_toggle_def build_frame_kind)

lemma tcp_send_fields [simp]:
  "ag_epoch (tcp_send e f st) = ag_epoch st" "ag_connected (tcp_send e f st) = ag_connected st"
  "ag_monitoring_on (tcp_send e f st) = ag_monitoring_on st" "ag_store (tcp_send e f st) = ag_store st"
  "ag_next_oid (tcp_send e f st) = ag_next_oid st" "ag_sessions (tcp_send e f st) = ag_sessions st"
  "ag_tasks (tcp_send e f st) = ag_tasks st" "ag_pending (tcp_send e f st) = ag_pending st"
  "ag_futures (tcp_send e f st) = ag_futures st" "ag_next_fut (tcp_send e f st) = ag_next_fut st"
  "ag_hops (tcp_send e f st) = ag_hops st" "ag_notes (tcp_send e f st) = ag_notes st"
  by (simp_all add: tcp_send_def)

lemma toggles_tcp_send: "\<not> is_toggle f \<Longrightarrow> toggles (tcp_send e f st) = toggles st"
  by (simp add: toggles_def tcp_send_def)

lemma fold_tcp_send_fields [simp]:
  "ag_epoch (fold (tcp_send e) fs st) = ag_epoch st" "ag_connected (fold (tcp_send e) fs st) = ag_connected st"
  "ag_monitoring_on (fold (tcp_send e) fs st) = ag_monitoring_on st"
  "ag_store (fold (tcp_send e) fs st) = ag_store st"
  "ag_next_oid (fold (tcp_send e) fs st) = ag_next_oid st"
  "ag_sessions (fold (tcp_send e) fs st) = ag_sessions st"
  "ag_tasks (fold (tcp_send e) fs st) = ag_tasks st" "ag_pending (fold (tcp_send e) fs st) = ag_pending st"
  "ag_futures (fold (tcp_send e) fs st) = ag_futures st" "ag_next_fut (fold (tcp_send e) fs st) = ag_next_fut st"
  "ag_hops (fold (tcp_send e) fs st) = ag_hops st" "ag_notes (fold (tcp_send e) fs st) = ag_notes st"
  by (induction fs arbitrary: st) simp_all

lemma toggles_fold_send: "list_all (\<lambda>f. \<not> is_toggle f) fs \<Longrightarrow> toggles (fold (tcp_send e) fs st) = toggles st"
  by (induction fs arbitrary: st) (simp_all add: toggles_tcp_send)

lemma put_session_fields [simp]:
  "ag_epoch (put_session i s st) = ag_epoch st" "ag_connected (put_session i s st) = ag_connected st"
  "ag_monitoring_on (put_session i s st) = ag_monitoring_on st"
  "map_of (ag_store (put_session i s st)) = (map_of (ag_store st))(i \<mapsto> s)"
  "ag_next_oid (put_session i s st) = ag_next_oid st" "ag_sessions (put_session i s st) = ag_sessions st"
  "ag_tasks (put_session i s st) = ag_tasks st" "ag_pending (put_session i s st) = ag_pending st"
  "ag_futures (put_session i s st) = ag_futures st" "ag_next_fut (put_session i s st) = ag_next_fut st"
  "ag_hops (put_session i s st) = ag_hops st" "ag_notes (put_session i s st) = ag_notes st"
  "toggles (put_session i s st) = toggles st" "ag_out (put_session i s st) = ag_out st"
  by (simp_all add: put_session_def toggles_def)

lemma note_fields [simp]:
  "ag_epoch (note_agw_crosslink c u st) = ag_epoch st" "ag_connected (note_agw_crosslink c u st) = ag_connected st"
  "ag_monitoring_on (note_agw_crosslink c u st) = ag_monitoring_on st"
  "ag_store (note_agw_crosslink c u st) = ag_store st"
  "ag_next_oid (note_agw_crosslink c u st) = ag_next_oid st"
  "ag_sessions (note_agw_crosslink c u st) = ag_sessions st"
  "ag_tasks (note_agw_crosslink c u st) = ag_tasks st" "ag_pending (note_agw_crosslink c u st) = ag_pending st"
  "ag_futures (note_agw_crosslink c u st) = ag_futures st"
  "ag_next_fut (note_agw_crosslink c u st) = ag_next_fut st"
  "ag_hops (note_agw_crosslink c u st) = ag_hops st"
  "ag_notes (note_agw_crosslink c u st) = ag_notes st @ [(upper c, u)]"
  "toggles (note_agw_crosslink c u st) = toggles st" "ag_out (note_agw_crosslink c u st) = ag_out st"
  by (simp_all add: note_agw_crosslink_def toggles_def)

lemma resolve_fields [simp]:
  "ag_epoch (resolve fut v st) = ag_epoch st" "ag_connected (resolve fut v st) = ag_connected st"
  "ag_monitoring_on (resolve fut v st) = ag_monitoring_on st" "ag_store (resolve fut v st) = ag_store st"
  "ag_next_oid (resolve fut v st) = ag_next_oid st" "ag_sessions (resolve fut v st) = ag_sessions st"
  "ag_tasks (resolve fut v st) = ag_tasks st" "ag_pending (resolve fut v st) = ag_pending st"
  "ag_next_fut (resolve fut v st) = ag_next_fut st" "ag_hops (resolve fut v st) = ag_hops st"
  "ag_notes (resolve fut v st) = ag_notes st" "toggles (resolve fut v st) = toggles st"
  "ag_out (resolve fut v st) = ag_out st"
  by (simp_all add: resolve_def toggles_def)

lemma add_session_fields [simp]:
  "ag_epoch (add_session s st) = ag_epoch st" "ag_connected (add_session s st) = ag_connected st"
  "ag_monitoring_on (add_session s st) = ag_monitoring_on st"
  "map_of (ag_store (add_session s st)) = (map_of (ag_store st))(ag_next_oid st \<mapsto> s)"
  "ag_next_oid (add_session s st) = ag_next_oid st + 1"
  "ag_sessions (add_session s st) = AList.update (session_key_of s) (ag_next_oid st) (ag_sessions st)"
  "ag_tasks (add_session s st) = ag_tasks st" "ag_pending (add_session s st) = ag_pending st"
  "ag_futures (add_session s st) = ag_futures st" "ag_next_fut (add_session s st) = ag_next_fut st"
  "ag_hops (add_session s st) = ag_hops st" "ag_notes (add_session s st) = ag_notes st"
  "toggles (add_session s st) = toggles st" "ag_out (add_session s st) = ag_out st"
  by (simp_all add: add_session_def toggles_def)

lemma end_agw_session_fields [simp]:
  "ag_epoch (end_agw_session i st) = ag_epoch st" "ag_connected (end_agw_session i st) = ag_connected st"
  "ag_monitoring_on (end_agw_session i st) = ag_monitoring_on st"
  "ag_next_oid (end_agw_session i st) = ag_next_oid st" "ag_sessions (end_agw_session i st) = ag_sessions st"
  "ag_tasks (end_agw_session i st) = ag_tasks st" "ag_pending (end_agw_session i st) = ag_pending st"
  "ag_futures (end_agw_session i st) = ag_futures st" "ag_next_fut (end_agw_session i st) = ag_next_fut st"
  "ag_hops (end_agw_session i st) = ag_hops st" "toggles (end_agw_session i st) = toggles st"
  by (simp_all add: end_agw_session_def split: option.split)

section \<open>Lemmas: the invariant\<close>

text \<open>
  Every object is numbered and its manager sound; a registered session has the key it is registered
  under and the current socket, and its reader, unless it is a crosslink, has not seen EOF; a
  registered task is the running task of a session with that key; a pending connect has a future of
  its own that has no result yet; the hop cache is bounded; monitoring is toggled at most once.
\<close>

definition store_ok :: "agw_state \<Rightarrow> bool" where
  "store_ok st \<longleftrightarrow> (\<forall>oid s. map_of (ag_store st) oid = Some s \<longrightarrow>
     oid < ag_next_oid st \<and> (\<forall>mg. as_manager s = Some mg \<longrightarrow> manager_inv mg))"

definition live :: "agw_session \<Rightarrow> bool" where
  "live s \<longleftrightarrow> (as_manager s = None \<longrightarrow> \<not> as_reader_eof s \<and> \<not> as_detached s)"

definition sessions_ok :: "agw_state \<Rightarrow> bool" where
  "sessions_ok st \<longleftrightarrow> distinct (map fst (ag_sessions st)) \<and> (ag_sessions st \<noteq> [] \<longrightarrow> ag_connected st)
     \<and> (\<forall>key oid. map_of (ag_sessions st) key = Some oid \<longrightarrow>
          (\<exists>s. map_of (ag_store st) oid = Some s \<and> session_key_of s = key
             \<and> as_epoch s = ag_epoch st \<and> live s))"

definition tasks_ok :: "agw_state \<Rightarrow> bool" where
  "tasks_ok st \<longleftrightarrow> distinct (map fst (ag_tasks st))
     \<and> (\<forall>key t. map_of (ag_tasks st) key = Some t \<longrightarrow>
          (\<exists>s. map_of (ag_store st) t = Some s \<and> session_key_of s = key \<and> as_task s = Running))"

definition pending_ok :: "agw_state \<Rightarrow> bool" where
  "pending_ok st \<longleftrightarrow> distinct (map fst (ag_pending st))
     \<and> (\<forall>key fut. map_of (ag_pending st) key = Some fut \<longrightarrow>
          map_of (ag_futures st) fut \<in> {Some FPending, Some FCancelled})
     \<and> (\<forall>key key' fut. map_of (ag_pending st) key = Some fut \<longrightarrow>
          map_of (ag_pending st) key' = Some fut \<longrightarrow> key = key')
     \<and> (\<forall>fut v. map_of (ag_futures st) fut = Some v \<longrightarrow> fut < ag_next_fut st)"

definition hops_ok :: "agw_state \<Rightarrow> bool" where
  "hops_ok st \<longleftrightarrow> distinct (map fst (ag_hops st)) \<and> length (ag_hops st) \<le> 200"

definition toggles_ok :: "agw_state \<Rightarrow> bool" where
  "toggles_ok st \<longleftrightarrow> toggles st \<le> 1 \<and> (toggles st \<noteq> 0 \<longrightarrow> ag_monitoring_on st)"

definition agw_inv :: "agw_state \<Rightarrow> bool" where
  "agw_inv st \<longleftrightarrow> store_ok st \<and> sessions_ok st \<and> tasks_ok st \<and> pending_ok st \<and> hops_ok st \<and> toggles_ok st"

definition cfg_ok :: "agw_cfg \<Rightarrow> bool" where
  "cfg_ok cfg \<longleftrightarrow> encodable (ac_local_call cfg) \<and> encodable (ac_node_call cfg)"

lemma sessionsE:
  assumes "sessions_ok st" and "map_of (ag_sessions st) key = Some oid"
  obtains s where "map_of (ag_store st) oid = Some s" and "session_key_of s = key"
    and "as_epoch s = ag_epoch st" and "live s"
  using assms unfolding sessions_ok_def by blast

lemma tasksE:
  assumes "tasks_ok st" and "map_of (ag_tasks st) key = Some t"
  obtains s where "map_of (ag_store st) t = Some s" and "session_key_of s = key" and "as_task s = Running"
  using assms unfolding tasks_ok_def by blast

lemma store_managerD:
  "store_ok st \<Longrightarrow> map_of (ag_store st) oid = Some s \<Longrightarrow> as_manager s = Some mg \<Longrightarrow> manager_inv mg"
  unfolding store_ok_def by blast

text \<open>Replacing a stored session by one with the same key.\<close>

lemma put_ok:
  assumes "map_of (ag_store st) oid = Some s" and "session_key_of s' = session_key_of s"
    and "as_epoch s' = as_epoch s"
  shows "store_ok st \<Longrightarrow> (\<And>mg. as_manager s' = Some mg \<Longrightarrow> manager_inv mg) \<Longrightarrow> store_ok (put_session oid s' st)"
    and "sessions_ok st \<Longrightarrow> (map_of (ag_sessions st) (session_key_of s) = Some oid \<Longrightarrow> live s') \<Longrightarrow>
      sessions_ok (put_session oid s' st)"
    and "tasks_ok st \<Longrightarrow> (map_of (ag_tasks st) (session_key_of s) = Some oid \<Longrightarrow> as_task s' = Running) \<Longrightarrow>
      tasks_ok (put_session oid s' st)"
  subgoal using assms(1) by (simp add: store_ok_def)
  subgoal premises h
    unfolding sessions_ok_def
  proof (intro conjI allI impI)
    fix key i assume "map_of (ag_sessions (put_session oid s' st)) key = Some i"
    then have i: "map_of (ag_sessions st) key = Some i" by simp
    then obtain r where r: "map_of (ag_store st) i = Some r" "session_key_of r = key"
      "as_epoch r = ag_epoch st" "live r"
      using h(1) by (auto elim: sessionsE)
    then show "\<exists>s. map_of (ag_store (put_session oid s' st)) i = Some s \<and> session_key_of s = key
        \<and> as_epoch s = ag_epoch (put_session oid s' st) \<and> live s"
      using assms h(2) i by (cases "i = oid") auto
  qed (use h(1) in \<open>auto simp: sessions_ok_def\<close>)
  subgoal premises h
    unfolding tasks_ok_def
  proof (intro conjI allI impI)
    fix key i assume "map_of (ag_tasks (put_session oid s' st)) key = Some i"
    then have i: "map_of (ag_tasks st) key = Some i" by simp
    then obtain r where r: "map_of (ag_store st) i = Some r" "session_key_of r = key" "as_task r = Running"
      using h(1) by (auto elim: tasksE)
    then show "\<exists>s. map_of (ag_store (put_session oid s' st)) i = Some s \<and> session_key_of s = key
        \<and> as_task s = Running"
      using assms h(2) i by (cases "i = oid") auto
  qed (use h(1) in \<open>auto simp: tasks_ok_def\<close>)
  done

lemma put_other [simp]:
  "pending_ok (put_session oid s st) = pending_ok st" "hops_ok (put_session oid s st) = hops_ok st"
  "toggles_ok (put_session oid s st) = toggles_ok st"
  by (simp_all add: pending_ok_def hops_ok_def toggles_ok_def)

lemma note_ok [simp]:
  "store_ok (note_agw_crosslink c u st) = store_ok st" "sessions_ok (note_agw_crosslink c u st) = sessions_ok st"
  "tasks_ok (note_agw_crosslink c u st) = tasks_ok st" "pending_ok (note_agw_crosslink c u st) = pending_ok st"
  "hops_ok (note_agw_crosslink c u st) = hops_ok st" "toggles_ok (note_agw_crosslink c u st) = toggles_ok st"
  by (simp_all add: store_ok_def sessions_ok_def tasks_ok_def pending_ok_def hops_ok_def toggles_ok_def)

lemma tcp_send_ok [simp]:
  "store_ok (tcp_send e f st) = store_ok st" "sessions_ok (tcp_send e f st) = sessions_ok st"
  "tasks_ok (tcp_send e f st) = tasks_ok st" "pending_ok (tcp_send e f st) = pending_ok st"
  "hops_ok (tcp_send e f st) = hops_ok st"
  by (simp_all add: store_ok_def sessions_ok_def tasks_ok_def pending_ok_def hops_ok_def)

lemma fold_send_ok [simp]:
  "store_ok (fold (tcp_send e) fs st) = store_ok st" "sessions_ok (fold (tcp_send e) fs st) = sessions_ok st"
  "tasks_ok (fold (tcp_send e) fs st) = tasks_ok st" "pending_ok (fold (tcp_send e) fs st) = pending_ok st"
  "hops_ok (fold (tcp_send e) fs st) = hops_ok st"
  by (simp_all add: store_ok_def sessions_ok_def tasks_ok_def pending_ok_def hops_ok_def)

lemma toggles_ok_send: "\<not> is_toggle f \<Longrightarrow> toggles_ok (tcp_send e f st) = toggles_ok st"
  by (simp add: toggles_ok_def toggles_tcp_send)

lemma resolve_ok [simp]:
  "store_ok (resolve fut v st) = store_ok st" "sessions_ok (resolve fut v st) = sessions_ok st"
  "tasks_ok (resolve fut v st) = tasks_ok st" "hops_ok (resolve fut v st) = hops_ok st"
  "toggles_ok (resolve fut v st) = toggles_ok st"
  by (simp_all add: store_ok_def sessions_ok_def tasks_ok_def hops_ok_def toggles_ok_def)

lemma pending_resolve:
  assumes "pending_ok st" and "v = FCancelled \<or> (\<forall>key. map_of (ag_pending st) key \<noteq> Some fut)"
  shows "pending_ok (resolve fut v st)"
  using assms by (auto simp: pending_ok_def resolve_def)

lemma delete_ok:
  "store_ok (st\<lparr>ag_sessions := ds\<rparr>) = store_ok st" "tasks_ok (st\<lparr>ag_sessions := ds\<rparr>) = tasks_ok st"
  "pending_ok (st\<lparr>ag_sessions := ds\<rparr>) = pending_ok st" "hops_ok (st\<lparr>ag_sessions := ds\<rparr>) = hops_ok st"
  "toggles_ok (st\<lparr>ag_sessions := ds\<rparr>) = toggles_ok st"
  "store_ok (st\<lparr>ag_tasks := dt\<rparr>) = store_ok st" "sessions_ok (st\<lparr>ag_tasks := dt\<rparr>) = sessions_ok st"
  "pending_ok (st\<lparr>ag_tasks := dt\<rparr>) = pending_ok st" "hops_ok (st\<lparr>ag_tasks := dt\<rparr>) = hops_ok st"
  "toggles_ok (st\<lparr>ag_tasks := dt\<rparr>) = toggles_ok st"
  "store_ok (st\<lparr>ag_pending := dp\<rparr>) = store_ok st" "sessions_ok (st\<lparr>ag_pending := dp\<rparr>) = sessions_ok st"
  "tasks_ok (st\<lparr>ag_pending := dp\<rparr>) = tasks_ok st" "hops_ok (st\<lparr>ag_pending := dp\<rparr>) = hops_ok st"
  "toggles_ok (st\<lparr>ag_pending := dp\<rparr>) = toggles_ok st"
  "store_ok (st\<lparr>ag_hops := dh\<rparr>) = store_ok st" "sessions_ok (st\<lparr>ag_hops := dh\<rparr>) = sessions_ok st"
  "tasks_ok (st\<lparr>ag_hops := dh\<rparr>) = tasks_ok st" "pending_ok (st\<lparr>ag_hops := dh\<rparr>) = pending_ok st"
  "toggles_ok (st\<lparr>ag_hops := dh\<rparr>) = toggles_ok st"
  "sessions_ok st \<Longrightarrow> sessions_ok (st\<lparr>ag_sessions := AList.delete key (ag_sessions st)\<rparr>)"
  "tasks_ok st \<Longrightarrow> tasks_ok (st\<lparr>ag_tasks := AList.delete key (ag_tasks st)\<rparr>)"
  "pending_ok st \<Longrightarrow> pending_ok (st\<lparr>ag_pending := AList.delete key (ag_pending st)\<rparr>)"
  by (auto simp: store_ok_def sessions_ok_def tasks_ok_def pending_ok_def hops_ok_def toggles_ok_def toggles_def)

lemma add_session_ok:
  assumes "store_ok st"
  shows "(\<And>mg. as_manager s = Some mg \<Longrightarrow> manager_inv mg) \<Longrightarrow> store_ok (add_session s st)"
    and "sessions_ok st \<Longrightarrow> ag_connected st \<Longrightarrow> as_epoch s = ag_epoch st \<Longrightarrow> live s \<Longrightarrow>
      sessions_ok (add_session s st)"
    and "tasks_ok st \<Longrightarrow> tasks_ok (add_session s st)"
    and "pending_ok (add_session s st) = pending_ok st" and "hops_ok (add_session s st) = hops_ok st"
    and "toggles_ok (add_session s st) = toggles_ok st"
  using assms
  by (fastforce simp: store_ok_def sessions_ok_def tasks_ok_def pending_ok_def hops_ok_def toggles_ok_def)+

lemma key_shape [simp]:
  "session_key_of (s\<lparr>as_reader_eof := e\<rparr>) = session_key_of s"
  "session_key_of (s\<lparr>as_manager := m\<rparr>) = session_key_of s" "session_key_of (s\<lparr>as_writer := w\<rparr>) = session_key_of s"
  "session_key_of (s\<lparr>as_task := t\<rparr>) = session_key_of s"
  "session_key_of (s\<lparr>as_detached := d\<rparr>) = session_key_of s"
  "session_key_of (s\<lparr>as_reader := r\<rparr>) = session_key_of s"
  "session_key_of (s\<lparr>as_link_closed := lc\<rparr>) = session_key_of s"
  "session_key_of (feed_eof s) = session_key_of s" "as_epoch (feed_eof s) = as_epoch s"
  "as_manager (feed_eof s) = as_manager s" "as_task (feed_eof s) = as_task s"
  "session_key_of (cancel_task s) = session_key_of s" "as_epoch (cancel_task s) = as_epoch s"
  "as_manager (cancel_task s) = as_manager s" "as_remote_call (feed_eof s) = as_remote_call s"
  "live (cancel_task s) = live s"
  by (simp_all add: feed_eof_def cancel_task_def session_key_of_def live_def)

lemma crosslink_shutdown_inv: "manager_inv mg \<Longrightarrow> manager_inv (shutdown mg)"
  using manager_step_inv [OF link_drops] .

lemma make_manager_inv: "encodable c \<Longrightarrow> manager_inv (make_manager cfg c s)"
  by (simp add: make_manager_def manager_init_inv)

text \<open>Ending a session that has left the table.\<close>

lemma end_session_ok:
  assumes "\<And>s. map_of (ag_store st) oid = Some s \<Longrightarrow> map_of (ag_sessions st) (session_key_of s) \<noteq> Some oid"
  shows "store_ok st \<Longrightarrow> store_ok (end_agw_session oid st)"
    and "sessions_ok st \<Longrightarrow> sessions_ok (end_agw_session oid st)"
    and "tasks_ok st \<Longrightarrow> tasks_ok (end_agw_session oid st)"
    and "pending_ok (end_agw_session oid st) = pending_ok st" and "hops_ok (end_agw_session oid st) = hops_ok st"
    and "toggles_ok (end_agw_session oid st) = toggles_ok st"
proof -
  have shape: "session_key_of (feed_eof (s\<lparr>as_manager := m\<rparr>)) = session_key_of s" for s m
    by (simp add: session_key_of_def feed_eof_def)
  show "store_ok st \<Longrightarrow> store_ok (end_agw_session oid st)"
    using assms by (auto simp: end_agw_session_def shape split: option.split
        intro!: put_ok(1) crosslink_shutdown_inv intro: store_managerD)
  have running: "as_task s = Running" if "tasks_ok st" "map_of (ag_store st) oid = Some s"
    "map_of (ag_tasks st) (session_key_of s) = Some oid" for s
    using that by (auto elim: tasksE)
  show "sessions_ok st \<Longrightarrow> sessions_ok (end_agw_session oid st)"
    using assms by (auto simp: end_agw_session_def shape split: option.split intro!: put_ok(2))
  show "tasks_ok st \<Longrightarrow> tasks_ok (end_agw_session oid st)"
    using running by (auto simp: end_agw_session_def shape split: option.split intro!: put_ok(3))
qed (simp_all add: end_agw_session_def split: option.split)

lemma unregistered:
  assumes "sessions_ok st" and "map_of (ag_sessions st) key = Some oid"
    and "map_of (ag_store st) oid = Some s"
  shows "map_of (AList.delete key (ag_sessions st)) (session_key_of s) \<noteq> Some oid"
  using assms by (auto elim: sessionsE)

lemma end_registered_ok:
  assumes "map_of (ag_sessions st) key = Some oid" and "sessions_ok st"
  defines "st' \<equiv> end_agw_session oid (st\<lparr>ag_sessions := AList.delete key (ag_sessions st)\<rparr>)"
  shows "store_ok st \<Longrightarrow> store_ok st'" and "sessions_ok st'" and "tasks_ok st \<Longrightarrow> tasks_ok st'"
    and "pending_ok st' = pending_ok st" and "hops_ok st' = hops_ok st" and "toggles_ok st' = toggles_ok st"
proof -
  have "map_of (ag_sessions (st\<lparr>ag_sessions := AList.delete key (ag_sessions st)\<rparr>)) (session_key_of s) \<noteq> Some oid"
    if "map_of (ag_store (st\<lparr>ag_sessions := AList.delete key (ag_sessions st)\<rparr>)) oid = Some s" for s
    using unregistered [OF assms(2,1)] that by simp
  note e = end_session_ok [where oid = oid and st = "st\<lparr>ag_sessions := AList.delete key (ag_sessions st)\<rparr>", OF this]
  show "store_ok st \<Longrightarrow> store_ok st'" "sessions_ok st'" "tasks_ok st \<Longrightarrow> tasks_ok st'"
    "pending_ok st' = pending_ok st" "hops_ok st' = hops_ok st" "toggles_ok st' = toggles_ok st"
    using e assms(2) by (simp_all add: st'_def delete_ok)
qed

lemma cancel_listed_ok:
  assumes "map_of (ag_tasks st) key = Some t" and "tasks_ok st"
  defines "st' \<equiv> (case map_of (ag_store (st\<lparr>ag_tasks := AList.delete key (ag_tasks st)\<rparr>)) t of
     None \<Rightarrow> st\<lparr>ag_tasks := AList.delete key (ag_tasks st)\<rparr>
   | Some s \<Rightarrow> put_session t (cancel_task s) (st\<lparr>ag_tasks := AList.delete key (ag_tasks st)\<rparr>))"
  shows "store_ok st \<Longrightarrow> store_ok st'" and "sessions_ok st \<Longrightarrow> sessions_ok st'" and "tasks_ok st'"
    and "pending_ok st' = pending_ok st" and "hops_ok st' = hops_ok st" and "toggles_ok st' = toggles_ok st"
    and "ag_next_oid st' = ag_next_oid st" and "ag_epoch st' = ag_epoch st"
    and "ag_connected st' = ag_connected st" and "ag_sessions st' = ag_sessions st"
    and "ag_tasks st' = AList.delete key (ag_tasks st)" and "ag_hops st' = ag_hops st"
    and "ag_pending st' = ag_pending st" and "ag_notes st' = ag_notes st"
    and "map_of (ag_store st') = (\<lambda>i. if i = t then map_option cancel_task (map_of (ag_store st) t) else map_of (ag_store st) i)"
proof -
  obtain s where s: "map_of (ag_store st) t = Some s" "session_key_of s = key" "as_task s = Running"
    using assms(2,1) by (rule tasksE)
  let ?d = "st\<lparr>ag_tasks := AList.delete key (ag_tasks st)\<rparr>"
  have st': "st' = put_session t (cancel_task s) ?d" by (simp add: st'_def s)
  have d: "map_of (ag_store ?d) t = Some s" using s by simp
  note p = put_ok [OF d, of "cancel_task s"]
  show "store_ok st \<Longrightarrow> store_ok st'"
    unfolding st' by (rule p(1)) (use s in \<open>auto simp: delete_ok intro: store_managerD\<close>)
  show "sessions_ok st \<Longrightarrow> sessions_ok st'"
    unfolding st' by (rule p(2)) (use s in \<open>auto simp: delete_ok elim: sessionsE\<close>)
  show "tasks_ok st'"
    unfolding st' by (rule p(3)) (use s assms(2) in \<open>auto simp: delete_ok\<close>)
qed (simp_all add: st'_def delete_ok fun_eq_iff split: option.split)

definition core_ok :: "agw_state \<Rightarrow> bool" where
  "core_ok st \<longleftrightarrow> store_ok st \<and> sessions_ok st \<and> tasks_ok st"

lemma drop_old_ok:
  assumes "core_ok st"
  shows "core_ok (drop_old_session key st)"
    and "pending_ok (drop_old_session key st) = pending_ok st"
    and "hops_ok (drop_old_session key st) = hops_ok st"
    and "toggles_ok (drop_old_session key st) = toggles_ok st"
    and "ag_epoch (drop_old_session key st) = ag_epoch st"
    and "ag_connected (drop_old_session key st) = ag_connected st"
    and "ag_hops (drop_old_session key st) = ag_hops st"
    and "ag_sessions (drop_old_session key st) = AList.delete key (ag_sessions st)"
proof -
  have "core_ok (drop_old_session key st)
    \<and> pending_ok (drop_old_session key st) = pending_ok st \<and> hops_ok (drop_old_session key st) = hops_ok st
    \<and> toggles_ok (drop_old_session key st) = toggles_ok st
    \<and> ag_epoch (drop_old_session key st) = ag_epoch st
    \<and> ag_connected (drop_old_session key st) = ag_connected st
    \<and> ag_hops (drop_old_session key st) = ag_hops st
    \<and> ag_sessions (drop_old_session key st) = AList.delete key (ag_sessions st)"
  proof (cases "map_of (ag_sessions st) key")
    case None
    then have "AList.delete key (ag_sessions st) = ag_sessions st"
      by (simp add: map_of_eq_None_iff)
    with None assms show ?thesis by (simp add: drop_old_session_def)
  next
    case (Some oid)
    define st1 where "st1 = end_agw_session oid (st\<lparr>ag_sessions := AList.delete key (ag_sessions st)\<rparr>)"
    have ok: "store_ok st" "sessions_ok st" "tasks_ok st" using assms by (auto simp: core_ok_def)
    note e = end_registered_ok [OF Some ok(2), folded st1_def]
    have f: "ag_tasks st1 = ag_tasks st" "ag_epoch st1 = ag_epoch st" "ag_connected st1 = ag_connected st"
      "ag_hops st1 = ag_hops st" "ag_sessions st1 = AList.delete key (ag_sessions st)"
      by (simp_all add: st1_def)
    show ?thesis
    proof (cases "map_of (ag_tasks st1) key")
      case None
      then have "drop_old_session key st = st1"
        using Some by (simp add: drop_old_session_def Let_def st1_def)
      then show ?thesis using e ok f by (simp add: core_ok_def)
    next
      case (Some t)
      note c = cancel_listed_ok [OF Some e(3) [OF ok(3)]]
      have "drop_old_session key st = (case map_of (ag_store (st1\<lparr>ag_tasks := AList.delete key (ag_tasks st1)\<rparr>)) t of
         None \<Rightarrow> st1\<lparr>ag_tasks := AList.delete key (ag_tasks st1)\<rparr>
       | Some s \<Rightarrow> put_session t (cancel_task s) (st1\<lparr>ag_tasks := AList.delete key (ag_tasks st1)\<rparr>))"
        using Some \<open>map_of (ag_sessions st) key = Some oid\<close>
        by (simp add: drop_old_session_def Let_def flip: st1_def)
      then show ?thesis using c e ok f by (simp add: core_ok_def)
    qed
  qed
  then show "core_ok (drop_old_session key st)"
    "pending_ok (drop_old_session key st) = pending_ok st"
    "hops_ok (drop_old_session key st) = hops_ok st"
    "toggles_ok (drop_old_session key st) = toggles_ok st"
    "ag_epoch (drop_old_session key st) = ag_epoch st"
    "ag_connected (drop_old_session key st) = ag_connected st"
    "ag_hops (drop_old_session key st) = ag_hops st"
    "ag_sessions (drop_old_session key st) = AList.delete key (ag_sessions st)" by simp_all
qed

section \<open>Lemmas: the operations keep the invariant\<close>

lemma hops_ok_update:
  assumes "hops_ok st" and "length (ag_hops st) < 200"
  shows "hops_ok (st\<lparr>ag_hops := AList.update c n (ag_hops st)\<rparr>)"
proof -
  have "length (AList.update c n d) \<le> Suc (length d)" for d :: "(callsign, nat) dict"
    by (induction d) auto
  from this [of "ag_hops st"] assms show ?thesis by (simp add: hops_ok_def)
qed

lemma hops_ok_delete: "hops_ok st \<Longrightarrow> hops_ok (st\<lparr>ag_hops := AList.delete c (ag_hops st)\<rparr>)"
proof -
  have "length (AList.delete c d) \<le> length d" for d :: "(callsign, nat) dict"
    by (simp add: AList.delete_eq)
  from this [of "ag_hops st"] show "hops_ok st \<Longrightarrow> ?thesis" by (auto simp: hops_ok_def)
qed

lemma new_session_simps [simp]:
  "as_manager (new_session r l p e) = None" "as_epoch (new_session r l p e) = e"
  "session_key_of (new_session r l p e) = (p, upper r)" "live (new_session r l p e)"
  "as_remote_call (new_session r l p e) = r"
  "as_port (new_session r l p e) = p"
  by (simp_all add: new_session_def session_key_of_def live_def)

lemma live_crosslink [simp]: "live (s\<lparr>as_manager := Some mg\<rparr>)" "live (s\<lparr>as_task := t\<rparr>) = live s"
  "live (s\<lparr>as_hop_count := n\<rparr>) = live s" "session_key_of (s\<lparr>as_hop_count := n\<rparr>) = session_key_of s"
  "live (s\<lparr>as_writer := w\<rparr>) = live s" "live (s\<lparr>as_reader := r\<rparr>) = live s"
  by (simp_all add: live_def session_key_of_def)

lemma pending_fresh:
  assumes "pending_ok st" and "map_of (ag_pending st) k = Some fut"
  shows "map_of (ag_pending (st\<lparr>ag_pending := AList.delete k (ag_pending st)\<rparr>)) key \<noteq> Some fut"
proof
  assume "map_of (ag_pending (st\<lparr>ag_pending := AList.delete k (ag_pending st)\<rparr>)) key = Some fut"
  then have "key \<noteq> k" "map_of (ag_pending st) key = Some fut" by (auto split: if_splits)
  with assms show False unfolding pending_ok_def by blast
qed

lemma outbound_confirmed_inv:
  assumes "agw_inv st" and "cfg_ok cfg" and "ag_connected st"
    and "map_of (ag_pending st) (port, upper call_from) = Some fut"
  shows "agw_inv (outbound_confirmed cfg fut port call_from st)"
proof -
  define st1 where "st1 = st\<lparr>ag_pending := AList.delete (port, upper call_from) (ag_pending st)\<rparr>"
  define s0 where "s0 = new_session call_from (ac_node_call cfg) port (ag_epoch st)"
  define s where "s = s0\<lparr>as_manager := Some (make_manager cfg (ac_node_call cfg) s0)\<rparr>"
  have i: "store_ok st1" "sessions_ok st1" "tasks_ok st1" "pending_ok st1" "hops_ok st1" "toggles_ok st1"
    "ag_connected st1" "ag_epoch st1 = ag_epoch st"
    using assms(1,3) by (simp_all add: agw_inv_def st1_def delete_ok)
  have s: "live s" "as_epoch s = ag_epoch st1" "\<And>mg. as_manager s = Some mg \<Longrightarrow> manager_inv mg"
    using assms(2) make_manager_inv by (auto simp: s_def s0_def i(8) cfg_ok_def)
  note a = add_session_ok [OF i(1), of s]
  have "map_of (ag_pending st1) key \<noteq> Some fut" for key
    unfolding st1_def by (rule pending_fresh) (use assms(1,4) in \<open>simp_all add: agw_inv_def\<close>)
  then have "pending_ok (resolve fut (FResult (ag_next_oid st1)) (note_agw_crosslink call_from True (add_session s st1)))"
    using i(4) a(4) by (intro pending_resolve) simp_all
  moreover have "outbound_confirmed cfg fut port call_from st =
      resolve fut (FResult (ag_next_oid st1)) (note_agw_crosslink call_from True (add_session s st1))"
    by (simp add: outbound_confirmed_def Let_def st1_def s_def s0_def)
  ultimately show ?thesis
    using a i s by (simp add: agw_inv_def)
qed

lemma inbound_connect_inv:
  assumes "agw_inv st" and "cfg_ok cfg" and "ag_connected st"
  shows "agw_inv (inbound_connect cfg port call_from call_to st)"
proof -
  let ?key = "(port, upper call_from)"
  have core: "core_ok st" using assms(1) by (simp add: agw_inv_def core_ok_def)
  note d = drop_old_ok [OF core, of ?key]
  define st1 where "st1 = (drop_old_session ?key st)\<lparr>ag_hops :=
    AList.delete (upper call_from) (ag_hops (drop_old_session ?key st))\<rparr>"
  have i: "store_ok st1" "sessions_ok st1" "tasks_ok st1" "pending_ok st1" "hops_ok st1" "toggles_ok st1"
    "ag_connected st1"
    using d(1-6) assms hops_ok_delete [of "drop_old_session ?key st"]
    by (simp_all add: st1_def delete_ok core_ok_def agw_inv_def)
  define s where "s = (new_session call_from call_to port (ag_epoch st1))\<lparr>as_hop_count :=
     (case map_of (ag_hops (drop_old_session ?key st)) (upper call_from) of None \<Rightarrow> 0 | Some n \<Rightarrow> n)\<rparr>"
  have s: "live s" "as_epoch s = ag_epoch st1" "as_manager s = None" "session_key_of s = ?key"
    by (simp_all add: s_def)
  define mg where "mg = make_manager cfg (ac_local_call cfg) s"
  have mg: "manager_inv mg" using assms(2) make_manager_inv by (simp add: mg_def cfg_ok_def)
  note a = add_session_ok [OF i(1)]
  show ?thesis
  proof (cases "is_netrom_caller cfg call_from")
    case True
    have "inbound_connect cfg port call_from call_to st =
        note_agw_crosslink call_from True (add_session (s\<lparr>as_manager := Some mg\<rparr>) st1)"
      using True by (simp add: inbound_connect_def Let_def mg_def s_def st1_def)
    then show ?thesis using a [of "s\<lparr>as_manager := Some mg\<rparr>"] i s mg by (simp add: agw_inv_def)
  next
    case False
    define st2 where "st2 = add_session (s\<lparr>as_task := Running\<rparr>) st1"
    note b = a [of "s\<lparr>as_task := Running\<rparr>", folded st2_def]
    have "tasks_ok (st2\<lparr>ag_tasks := AList.update ?key (ag_next_oid st1) (ag_tasks st2)\<rparr>)"
      using b(3) [OF i(3)] s(4) by (auto simp: tasks_ok_def st2_def)
    moreover have "inbound_connect cfg port call_from call_to st =
        st2\<lparr>ag_tasks := AList.update ?key (ag_next_oid st1) (ag_tasks st2)\<rparr>"
      using False by (simp add: inbound_connect_def Let_def s_def st1_def st2_def)
    ultimately show ?thesis using b i s by (simp add: agw_inv_def delete_ok)
  qed
qed

lemma connect_frame_inv:
  "agw_inv st \<Longrightarrow> cfg_ok cfg \<Longrightarrow> ag_connected st \<Longrightarrow> agw_inv (connect_frame cfg port cf ct st)"
  by (auto simp: connect_frame_def intro: outbound_confirmed_inv inbound_connect_inv split: option.split)

lemma disconnect_frame_inv:
  assumes "agw_inv st" shows "agw_inv (disconnect_frame key st)"
proof (cases "map_of (ag_pending st) key")
  case None
  show ?thesis
  proof (cases "map_of (ag_sessions st) key")
    case (Some oid)
    have "sessions_ok st" using assms by (simp add: agw_inv_def)
    from end_registered_ok [OF Some this] show ?thesis
      using assms None Some by (simp add: disconnect_frame_def agw_inv_def)
  qed (use assms None in \<open>simp add: disconnect_frame_def\<close>)
next
  case (Some fut)
  let ?st = "st\<lparr>ag_pending := AList.delete key (ag_pending st)\<rparr>"
  have "map_of (ag_pending ?st) k \<noteq> Some fut" for k
    by (rule pending_fresh) (use assms Some in \<open>simp_all add: agw_inv_def\<close>)
  then have "pending_ok (resolve fut FFailed ?st)"
    using assms by (intro pending_resolve) (auto simp: agw_inv_def delete_ok)
  with assms Some show ?thesis by (simp add: disconnect_frame_def agw_inv_def delete_ok)
qed

lemma built_not_toggle: "build_frame p k cf ct pid data = Some f \<Longrightarrow> k \<noteq> CHR ''m'' \<Longrightarrow> \<not> is_toggle f"
  by (simp add: built_toggle)

lemma those_all: "those (map f xs) = Some ys \<Longrightarrow> (\<And>x y. f x = Some y \<Longrightarrow> P y) \<Longrightarrow> list_all P ys"
proof (induction xs arbitrary: ys)
  case (Cons x xs)
  from Cons.prems(1) obtain y ys' where "f x = Some y" "those (map f xs) = Some ys'" "ys = y # ys'"
    by (auto split: option.splits)
  then show ?case using Cons.IH [of ys'] Cons.prems(2) by simp
qed simp

lemma link_frames_quiet: "link_frames w ds = Some fs \<Longrightarrow> list_all (\<lambda>f. \<not> is_toggle f) fs"
  unfolding link_frames_def by (erule those_all) (auto dest: built_not_toggle)

lemma close_frames_quiet: "list_all (\<lambda>f. \<not> is_toggle f) (close_frames w)"
  by (auto simp: close_frames_def dest: built_not_toggle split: option.split)

lemma manager_inv_link: "manager_inv (mg\<lparr>mg_link := lk\<rparr>) = manager_inv mg"
  by (simp add: manager_ok_def tables_ok_def)

lemma put_manager_inv:
  assumes "agw_inv st" and "map_of (ag_store st) oid = Some s" and "as_manager s = Some mg"
    and "manager_inv mg'" and "put_manager oid s mg' st = Some st'"
  shows "agw_inv st'"
proof -
  obtain frames where fr: "link_frames (as_writer s) (lk_out (mg_link mg')) = Some frames"
    using assms(5) by (auto simp: put_manager_def bind_eq_Some_conv)
  define closes where "closes \<longleftrightarrow> lk_closing (mg_link mg') \<and> \<not> as_link_closed s"
  define s' where "s' = s\<lparr>as_manager := Some (mg'\<lparr>mg_link := (mg_link mg')\<lparr>lk_out := []\<rparr>\<rparr>),
    as_link_closed := as_link_closed s \<or> closes\<rparr>"
  have st': "st' = fold (tcp_send (as_epoch s))
      (frames @ (if closes then close_frames (as_writer s) else [])) (put_session oid s' st)"
    using assms(5) fr by (simp add: put_manager_def Let_def closes_def s'_def)
  have quiet: "list_all (\<lambda>f. \<not> is_toggle f) (frames @ (if closes then close_frames (as_writer s) else []))"
    using link_frames_quiet [OF fr] close_frames_quiet by simp
  have s': "session_key_of s' = session_key_of s" "as_epoch s' = as_epoch s" "live s'" "as_task s' = as_task s"
    by (simp_all add: s'_def live_def)
  note p = put_ok [OF assms(2) s'(1,2)]
  have ok: "store_ok st" "sessions_ok st" "tasks_ok st" using assms(1) by (auto simp: agw_inv_def)
  have "store_ok (put_session oid s' st)"
    using p(1) [OF ok(1)] assms(4) by (simp add: s'_def manager_inv_link)
  moreover have "sessions_ok (put_session oid s' st)" using p(2) [OF ok(2)] s'(3) by simp
  moreover have "tasks_ok (put_session oid s' st)"
    by (rule p(3) [OF ok(3)]) (use ok(3) s'(4) assms(2) in \<open>auto elim: tasksE\<close>)
  moreover have "toggles_ok (fold (tcp_send (as_epoch s))
      (frames @ (if closes then close_frames (as_writer s) else [])) (put_session oid s' st)) = toggles_ok st"
    unfolding toggles_ok_def by (subst toggles_fold_send [OF quiet])+ simp
  ultimately show ?thesis
    using assms(1) unfolding st' agw_inv_def by (simp del: fold_append)
qed

lemma promote_inv:
  assumes "agw_inv st" and "cfg_ok cfg" and "map_of (ag_sessions st) key = Some oid"
    and "map_of (ag_store st) oid = Some s"
  shows "agw_inv (promote cfg key oid st)" and "ag_sessions (promote cfg key oid st) = ag_sessions st"
    and "ag_connected (promote cfg key oid st) = ag_connected st"
    and "ag_notes (promote cfg key oid st) = ag_notes st @ [(upper (as_remote_call s), True)]"
proof -
  have ok: "store_ok st" "sessions_ok st" "tasks_ok st" using assms(1) by (auto simp: agw_inv_def)
  have s: "session_key_of s = key" "live s" using ok(2) assms(3,4) by (auto elim: sessionsE)
  define s1 where "s1 = s\<lparr>as_writer := (as_writer s)\<lparr>aw_muted := True, aw_suppress_close := True\<rparr>\<rparr>"
  define st1 where "st1 = put_session oid s1 st"
  have s1: "session_key_of s1 = key" "as_epoch s1 = as_epoch s" "live s1" "as_manager s1 = as_manager s"
    "as_task s1 = as_task s" "as_remote_call s1 = as_remote_call s"
    using s by (simp_all add: s1_def)
  note p = put_ok [OF assms(4), of s1, folded st1_def]
  have i1: "store_ok st1" "sessions_ok st1" "tasks_ok st1"
    subgoal by (rule p(1)) (use s s1 ok(1) assms(4) in \<open>auto intro: store_managerD\<close>)
    subgoal by (rule p(2)) (use s s1 ok(2) in auto)
    subgoal by (rule p(3)) (use s s1 ok(3) assms(4) in \<open>auto elim: tasksE\<close>)
    done
  have f1: "ag_sessions st1 = ag_sessions st" "ag_connected st1 = ag_connected st"
    "pending_ok st1 = pending_ok st" "hops_ok st1 = hops_ok st" "toggles_ok st1 = toggles_ok st"
    "ag_notes st1 = ag_notes st" "ag_tasks st1 = ag_tasks st" "map_of (ag_store st1) oid = Some s1"
    by (simp_all add: st1_def)
  define st2 where "st2 = (case map_of (ag_tasks st1) key of None \<Rightarrow> st1 | Some t \<Rightarrow>
     (case map_of (ag_store (st1\<lparr>ag_tasks := AList.delete key (ag_tasks st1)\<rparr>)) t of
        None \<Rightarrow> st1\<lparr>ag_tasks := AList.delete key (ag_tasks st1)\<rparr>
      | Some r \<Rightarrow> put_session t (cancel_task r) (st1\<lparr>ag_tasks := AList.delete key (ag_tasks st1)\<rparr>)))"
  have st2: "store_ok st2 \<and> sessions_ok st2 \<and> tasks_ok st2 \<and> ag_sessions st2 = ag_sessions st
    \<and> ag_connected st2 = ag_connected st \<and> pending_ok st2 = pending_ok st \<and> hops_ok st2 = hops_ok st
    \<and> toggles_ok st2 = toggles_ok st \<and> ag_notes st2 = ag_notes st \<and> map_of (ag_tasks st2) key = None
    \<and> (map_of (ag_store st2) oid = Some s1 \<or> map_of (ag_store st2) oid = Some (cancel_task s1))"
  proof (cases "map_of (ag_tasks st1) key")
    case None
    then show ?thesis using i1 f1 by (simp add: st2_def)
  next
    case (Some t)
    note c = cancel_listed_ok [OF Some i1(3)]
    have "map_of (ag_tasks (case map_of (ag_store (st1\<lparr>ag_tasks := AList.delete key (ag_tasks st1)\<rparr>)) t of
        None \<Rightarrow> st1\<lparr>ag_tasks := AList.delete key (ag_tasks st1)\<rparr>
      | Some r \<Rightarrow> put_session t (cancel_task r) (st1\<lparr>ag_tasks := AList.delete key (ag_tasks st1)\<rparr>))) key = None"
      unfolding c(11) by simp
    then show ?thesis
      unfolding st2_def Some option.case
      using c(1-6) c(9,10,14,15) i1 f1 by (cases "oid = t") simp_all
  qed
  obtain s2 where s2: "map_of (ag_store st2) oid = Some s2" "session_key_of s2 = key"
    "as_remote_call s2 = as_remote_call s"
    using st2 s1 by (auto simp: cancel_task_def)
  define s3 where "s3 = (feed_eof s2)\<lparr>as_detached := True,
    as_manager := Some (make_manager cfg (ac_local_call cfg) s2)\<rparr>"
  have s3: "session_key_of s3 = session_key_of s2" "as_epoch s3 = as_epoch s2" "live s3"
    by (simp_all add: s3_def feed_eof_def live_def)
  have eq: "promote cfg key oid st = note_agw_crosslink (as_remote_call s2) True (put_session oid s3 st2)"
    unfolding promote_def assms(4) option.case Let_def s1_def [symmetric] st1_def [symmetric]
      st2_def [symmetric] s2(1) s3_def by (rule refl)
  note q = put_ok [OF s2(1) s3(1,2)]
  have "store_ok (put_session oid s3 st2)"
    by (rule q(1)) (use st2 assms(2) make_manager_inv in \<open>auto simp: s3_def cfg_ok_def\<close>)
  moreover have "sessions_ok (put_session oid s3 st2)" by (rule q(2)) (use st2 s3 in auto)
  moreover have "tasks_ok (put_session oid s3 st2)" by (rule q(3)) (use st2 s2 in auto)
  ultimately show "agw_inv (promote cfg key oid st)"
    using st2 assms(1) by (simp add: eq agw_inv_def)
  show "ag_sessions (promote cfg key oid st) = ag_sessions st"
    "ag_connected (promote cfg key oid st) = ag_connected st"
    "ag_notes (promote cfg key oid st) = ag_notes st @ [(upper (as_remote_call s), True)]"
    using st2 s2 by (simp_all add: eq)
qed

lemma l3_payload_inv:
  assumes "agw_inv st" shows "agw_inv (fst (l3_payload oid payload st))"
proof (cases "\<exists>f st'. decode_l3_frame payload = Some (Some f) \<and> run_manager oid (dispatch f) st = Some st'")
  case False
  then have "fst (l3_payload oid payload st) = st"
    by (auto simp: l3_payload_def split: option.split)
  with assms show ?thesis by simp
next
  case True
  then obtain f st' where f: "decode_l3_frame payload = Some (Some f)"
    "run_manager oid (dispatch f) st = Some st'" by blast
  then obtain s mg mg' where s: "map_of (ag_store st) oid = Some s" "as_manager s = Some mg"
    "dispatch f mg = Some mg'" "put_manager oid s mg' st = Some st'"
    by (auto simp: run_manager_def bind_eq_Some_conv)
  have "manager_inv mg" using assms s by (auto simp: agw_inv_def intro: store_managerD)
  then have "manager_inv mg'" using manager_step_inv [OF frame_in [OF f(1) s(3)]] by blast
  from put_manager_inv [OF assms s(1,2) this s(4)] show ?thesis
    using f by (simp add: l3_payload_def)
qed

lemma session_feed_inv:
  assumes "agw_inv st" and "map_of (ag_store st) oid = Some s"
  shows "agw_inv (fst (session_feed oid s data st))"
proof -
  let ?s' = "s\<lparr>as_reader := as_reader s @ [data]\<rparr>"
  have ok: "store_ok st" "sessions_ok st" "tasks_ok st" using assms(1) by (auto simp: agw_inv_def)
  note p = put_ok [OF assms(2), of ?s']
  have "store_ok (put_session oid ?s' st)"
    by (rule p(1)) (use ok assms(2) in \<open>auto intro: store_managerD\<close>)
  moreover have "sessions_ok (put_session oid ?s' st)"
    by (rule p(2)) (use ok assms(2) in \<open>auto elim: sessionsE\<close>)
  moreover have "tasks_ok (put_session oid ?s' st)"
    by (rule p(3)) (use ok assms(2) in \<open>auto elim: tasksE\<close>)
  ultimately show ?thesis using assms(1) by (simp add: session_feed_def agw_inv_def)
qed

lemma data_frame_inv:
  assumes "agw_inv st" and "cfg_ok cfg" shows "agw_inv (fst (data_frame cfg key pid payload st))"
  using assms l3_payload_inv promote_inv(1) session_feed_inv
  by (auto simp: data_frame_def split: option.split)

lemma state_parts [simp]:
  "agw_inv (st\<lparr>ag_registered := b\<rparr>) = agw_inv st" "agw_inv (st\<lparr>ag_ext_sig_active := b\<rparr>) = agw_inv st"
  "agw_inv (st\<lparr>ag_heard := hs\<rparr>) = agw_inv st" "agw_inv (st\<lparr>ag_netrom_frames := ns\<rparr>) = agw_inv st"
  "agw_inv (st\<lparr>ag_broadcast_state := bs\<rparr>) = agw_inv st"
  by (simp_all add: agw_inv_def store_ok_def sessions_ok_def tasks_ok_def pending_ok_def hops_ok_def
      toggles_ok_def toggles_def)

lemma toggles_send_le: "toggles (tcp_send e f st) \<le> Suc (toggles st)"
  by (simp add: toggles_def tcp_send_def)

lemma agw_inv_send: "\<not> is_toggle f \<Longrightarrow> agw_inv (tcp_send e f st) = agw_inv st"
  by (simp add: agw_inv_def toggles_ok_send)

lemma enable_monitoring_inv:
  assumes "agw_inv st" shows "agw_inv (fst (enable_monitoring cfg st))"
proof (cases "ag_monitoring_on st")
  case False
  let ?st = "st\<lparr>ag_monitoring_on := True\<rparr>"
  have t: "toggles st = 0" using assms False by (simp add: agw_inv_def toggles_ok_def)
  have rest: "store_ok ?st" "sessions_ok ?st" "tasks_ok ?st" "pending_ok ?st" "hops_ok ?st"
    using assms by (simp_all add: agw_inv_def store_ok_def sessions_ok_def tasks_ok_def pending_ok_def hops_ok_def)
  have "agw_inv ?st" using rest t by (simp add: agw_inv_def toggles_ok_def toggles_def)
  moreover have "agw_inv (tcp_send e f ?st)" for e f
    using rest toggles_send_le [of e f ?st] t by (simp add: agw_inv_def toggles_ok_def toggles_def)
  ultimately show ?thesis
    using False by (auto simp: enable_monitoring_def Let_def agw_inv_send built_not_toggle split: option.split)
qed (use assms in \<open>simp add: enable_monitoring_def\<close>)

lemma monitored_frame_inv:
  assumes "agw_inv st" shows "agw_inv (monitored_frame cfg now f st)"
proof -
  have "agw_inv (cache_hops cfg f st)"
    using assms hops_ok_update by (auto simp: cache_hops_def agw_inv_def delete_ok)
  then show ?thesis
    using assms by (simp add: monitored_frame_def observe_nodes_def note_signal_def observe_heard_def
        Let_def split: option.split)
qed

lemma agw_dispatch_inv:
  assumes "agw_inv st" and "cfg_ok cfg" and "ag_connected st"
  shows "agw_inv (fst (agw_dispatch cfg now f st))"
  using assms by (simp add: agw_dispatch_def Let_def registration_ack_def enable_monitoring_inv
      connect_frame_inv data_frame_inv disconnect_frame_inv monitored_frame_inv)

lemma put_same_ok:
  assumes "agw_inv st" and "map_of (ag_store st) oid = Some s" and "session_key_of s' = session_key_of s"
    and "as_epoch s' = as_epoch s" and "as_manager s' = as_manager s" and "as_reader_eof s' = as_reader_eof s"
    and "as_detached s' = as_detached s" and "as_task s' = as_task s"
  shows "agw_inv (put_session oid s' st)"
proof -
  have ok: "store_ok st" "sessions_ok st" "tasks_ok st" using assms(1) by (auto simp: agw_inv_def)
  note p = put_ok [OF assms(2-4)]
  have l: "live s' = live s" using assms(5-7) by (simp add: live_def)
  have "store_ok (put_session oid s' st)"
    by (rule p(1)) (use ok assms(2,5) in \<open>auto intro: store_managerD\<close>)
  moreover have "sessions_ok (put_session oid s' st)"
    by (rule p(2)) (use ok assms(2) l in \<open>auto elim: sessionsE\<close>)
  moreover have "tasks_ok (put_session oid s' st)"
    by (rule p(3)) (use ok assms(2,8) in \<open>auto elim: tasksE\<close>)
  ultimately show ?thesis using assms(1) by (simp add: agw_inv_def)
qed

lemma agw_write_inv: "agw_write oid data st = Some st' \<Longrightarrow> agw_inv st \<Longrightarrow> agw_inv st'"
  by (auto simp: agw_write_def Let_def bind_eq_Some_conv agw_inv_send built_not_toggle split: if_splits)

lemma agw_close_inv:
  assumes "agw_close oid st = Some st'" and "agw_inv st" shows "agw_inv st'"
proof -
  obtain s where s: "map_of (ag_store st) oid = Some s"
    using assms(1) by (auto simp: agw_close_def bind_eq_Some_conv)
  have "agw_inv (put_session oid (s\<lparr>as_writer := (as_writer s)\<lparr>aw_closing := True\<rparr>\<rparr>) st)"
    by (rule put_same_ok [OF assms(2) s]) simp_all
  with assms s show ?thesis
    by (auto simp: agw_close_def Let_def agw_inv_send built_not_toggle split: if_splits option.splits)
qed

lemma agw_drain_timeout_inv:
  assumes "agw_drain_timeout oid st = Some st'" and "agw_inv st" shows "agw_inv st'"
proof -
  obtain s where s: "map_of (ag_store st) oid = Some s"
    using assms(1) by (auto simp: agw_drain_timeout_def bind_eq_Some_conv)
  have "agw_inv (put_session oid (s\<lparr>as_writer := (as_writer s)\<lparr>aw_closing := True\<rparr>\<rparr>) st)"
    by (rule put_same_ok [OF assms(2) s]) simp_all
  with assms s show ?thesis by (auto simp: agw_drain_timeout_def split: if_splits)
qed

lemma run_session_ends_inv:
  assumes "run_session_ends oid st = Some st'" and "agw_inv st" shows "agw_inv st'"
proof -
  obtain s where s: "map_of (ag_store st) oid = Some s"
    using assms(1) by (auto simp: run_session_ends_def bind_eq_Some_conv)
  let ?key = "session_key_of s"
  define st1 where "st1 = (if map_of (ag_sessions st) ?key = Some oid \<and> as_manager s = None
    then st\<lparr>ag_sessions := AList.delete ?key (ag_sessions st)\<rparr> else st)"
  define st2 where "st2 = (if map_of (ag_tasks st1) ?key = Some oid
    then st1\<lparr>ag_tasks := AList.delete ?key (ag_tasks st1)\<rparr> else st1)"
  have st': "st' = put_session oid (s\<lparr>as_task := Ended\<rparr>) st2"
    using assms(1) unfolding run_session_ends_def s Option.bind.simps Let_def
      st1_def [symmetric] st2_def [symmetric] by simp
  have "agw_inv st1" using assms(2) by (simp add: st1_def agw_inv_def delete_ok)
  then have i2: "agw_inv st2" by (simp add: st2_def agw_inv_def delete_ok)
  have s2: "map_of (ag_store st2) oid = Some s" using s by (simp add: st1_def st2_def)
  have t: "map_of (ag_tasks st2) ?key \<noteq> Some oid" by (simp add: st2_def)
  have ok: "store_ok st2" "sessions_ok st2" "tasks_ok st2" using i2 by (auto simp: agw_inv_def)
  note p = put_ok [OF s2, of "s\<lparr>as_task := Ended\<rparr>"]
  have "store_ok st'" unfolding st'
    by (rule p(1)) (use ok s2 in \<open>auto intro: store_managerD\<close>)
  moreover have "sessions_ok st'" unfolding st'
    by (rule p(2)) (use ok s2 in \<open>auto elim: sessionsE\<close>)
  moreover have "tasks_ok st'" unfolding st' by (rule p(3)) (use ok t in auto)
  ultimately show ?thesis using i2 by (simp add: st' agw_inv_def)
qed

lemma resolve_cancel_inv: "agw_inv st \<Longrightarrow> agw_inv (resolve fut FCancelled st)"
  using pending_resolve [of st FCancelled fut] by (simp add: agw_inv_def)

lemma delete_pending_inv:
  "agw_inv st \<Longrightarrow> agw_inv (st\<lparr>ag_pending := AList.delete key (ag_pending st)\<rparr>)"
  by (simp add: agw_inv_def delete_ok)

lemma connect_out_inv:
  assumes "agw_inv st" shows "agw_inv (fst (connect_out cfg neighbor st))"
proof -
  let ?key = "(ac_agw_port cfg, upper neighbor)" let ?fut = "ag_next_fut st"
  let ?st = "st\<lparr>ag_futures := AList.update ?fut FPending (ag_futures st), ag_next_fut := ?fut + 1,
                ag_pending := AList.update ?key ?fut (ag_pending st)\<rparr>"
  have fresh: "map_of (ag_futures st) ?fut = None"
  proof (rule ccontr)
    assume "map_of (ag_futures st) ?fut \<noteq> None"
    then obtain v where "map_of (ag_futures st) ?fut = Some v" by blast
    then have "?fut < ag_next_fut st" using assms unfolding agw_inv_def pending_ok_def by blast
    then show False by simp
  qed
  have p: "pending_ok st" using assms by (simp add: agw_inv_def)
  have nofut: "map_of (ag_pending st) k \<noteq> Some ?fut" for k
  proof
    assume "map_of (ag_pending st) k = Some ?fut"
    then have "map_of (ag_futures st) ?fut \<in> {Some FPending, Some FCancelled}"
      using p unfolding pending_ok_def by blast
    with fresh show False by simp
  qed
  have pf: "map_of (ag_pending st) k = Some f \<Longrightarrow> map_of (ag_futures st) f \<in> {Some FPending, Some FCancelled}"
    for k f using p unfolding pending_ok_def by blast
  have inj: "map_of (ag_pending st) k = Some f \<Longrightarrow> map_of (ag_pending st) k' = Some f \<Longrightarrow> k = k'"
    for k k' f using p unfolding pending_ok_def by blast
  have "pending_ok ?st"
    unfolding pending_ok_def
  proof (intro conjI allI impI)
    show "distinct (map fst (ag_pending ?st))" using p by (simp add: pending_ok_def)
  next
    fix k f assume "map_of (ag_pending ?st) k = Some f"
    then show "map_of (ag_futures ?st) f \<in> {Some FPending, Some FCancelled}"
      using pf nofut by (auto split: if_splits simp del: map_of_eq_Some_iff)
  next
    fix k k' f assume "map_of (ag_pending ?st) k = Some f" "map_of (ag_pending ?st) k' = Some f"
    then show "k = k'"
      using inj nofut by (auto split: if_splits simp del: map_of_eq_Some_iff)
  next
    fix f v assume "map_of (ag_futures ?st) f = Some v"
    then show "f < ag_next_fut ?st" using p unfolding pending_ok_def by (simp split: if_splits) force+
  qed
  then have "agw_inv ?st"
    using assms by (simp add: agw_inv_def store_ok_def sessions_ok_def tasks_ok_def hops_ok_def
        toggles_ok_def toggles_def)
  then show ?thesis
    using assms by (simp add: connect_out_def Let_def agw_inv_send built_not_toggle split: option.split)
qed

lemma login_frames_quiet: "login_frames cfg = Some fs \<Longrightarrow> filter is_toggle fs = []"
proof -
  assume "login_frames cfg = Some fs"
  then obtain login regs where *: "fs = login @ regs"
    "(if ac_password cfg = [] then Some []
      else if \<not> list_all is_ascii (ac_password cfg) then None
      else map_option (\<lambda>f. [f]) (build_frame 0 CHR ''P'' [] [] 0 (encode_ascii (ac_password cfg)))) = Some login"
    "those (map (\<lambda>c. build_frame (ac_agw_port cfg) CHR ''X'' c [] 0 []) (registered_calls cfg)) = Some regs"
    by (auto simp: login_frames_def bind_eq_Some_conv)
  have "list_all (\<lambda>f. \<not> is_toggle f) regs"
    using *(3) by (rule those_all) (auto dest: built_not_toggle)
  moreover have "list_all (\<lambda>f. \<not> is_toggle f) login"
    using *(2) by (auto dest: built_not_toggle split: if_splits)
  ultimately show ?thesis by (simp add: *(1) list_all_iff)
qed

lemma fail_pending_fields:
  "ag_store (fail_pending_connects st) = ag_store st" "ag_next_oid (fail_pending_connects st) = ag_next_oid st"
  "ag_tasks (fail_pending_connects st) = ag_tasks st" "ag_sessions (fail_pending_connects st) = ag_sessions st"
  "ag_hops (fail_pending_connects st) = ag_hops st" "ag_pending (fail_pending_connects st) = []"
  "ag_notes (fail_pending_connects st) = ag_notes st" "toggles (fail_pending_connects st) = toggles st"
  "ag_monitoring_on (fail_pending_connects st) = ag_monitoring_on st"
  "ag_epoch (fail_pending_connects st) = ag_epoch st"
  "ag_connected (fail_pending_connects st) = ag_connected st"
proof -
  have f: "ag_store (fold (\<lambda>(k, f). resolve f FFailed) ps st) = ag_store st
    \<and> ag_next_oid (fold (\<lambda>(k, f). resolve f FFailed) ps st) = ag_next_oid st
    \<and> ag_tasks (fold (\<lambda>(k, f). resolve f FFailed) ps st) = ag_tasks st
    \<and> ag_sessions (fold (\<lambda>(k, f). resolve f FFailed) ps st) = ag_sessions st
    \<and> ag_hops (fold (\<lambda>(k, f). resolve f FFailed) ps st) = ag_hops st
    \<and> ag_notes (fold (\<lambda>(k, f). resolve f FFailed) ps st) = ag_notes st
    \<and> toggles (fold (\<lambda>(k, f). resolve f FFailed) ps st) = toggles st
    \<and> ag_monitoring_on (fold (\<lambda>(k, f). resolve f FFailed) ps st) = ag_monitoring_on st
    \<and> ag_epoch (fold (\<lambda>(k, f). resolve f FFailed) ps st) = ag_epoch st
    \<and> ag_connected (fold (\<lambda>(k, f). resolve f FFailed) ps st) = ag_connected st" for ps
    by (induction ps arbitrary: st) (auto simp: case_prod_beta)
  show "ag_store (fail_pending_connects st) = ag_store st" "ag_next_oid (fail_pending_connects st) = ag_next_oid st"
    "ag_tasks (fail_pending_connects st) = ag_tasks st" "ag_sessions (fail_pending_connects st) = ag_sessions st"
    "ag_hops (fail_pending_connects st) = ag_hops st" "ag_pending (fail_pending_connects st) = []"
    "ag_notes (fail_pending_connects st) = ag_notes st" "toggles (fail_pending_connects st) = toggles st"
    "ag_monitoring_on (fail_pending_connects st) = ag_monitoring_on st"
    "ag_epoch (fail_pending_connects st) = ag_epoch st"
    "ag_connected (fail_pending_connects st) = ag_connected st"
    using f [of "ag_pending st"] by (simp_all add: fail_pending_connects_def toggles_def)
qed

lemma store_ok_cong:
  "ag_store st' = ag_store st \<Longrightarrow> ag_next_oid st' = ag_next_oid st \<Longrightarrow> store_ok st' = store_ok st"
  by (simp add: store_ok_def)

lemma store_ok_put:
  "store_ok st \<Longrightarrow> map_of (ag_store st) oid = Some s \<Longrightarrow> (\<And>mg. as_manager s' = Some mg \<Longrightarrow> manager_inv mg) \<Longrightarrow>
     store_ok (put_session oid s' st)"
  by (auto simp: store_ok_def)

definition cancel_entry :: "session_key \<times> nat \<Rightarrow> agw_state \<Rightarrow> agw_state" where
  "cancel_entry = (\<lambda>(key, t) st. case map_of (ag_store st) t of
     None \<Rightarrow> st | Some s \<Rightarrow> put_session t (cancel_task s) st)"

definition end_entry :: "session_key \<times> nat \<Rightarrow> agw_state \<Rightarrow> agw_state" where
  "end_entry = (\<lambda>(key, oid). end_agw_session oid)"

lemma cancel_entry_facts:
  "store_ok st \<Longrightarrow> store_ok (cancel_entry e st)" "ag_next_oid (cancel_entry e st) = ag_next_oid st"
  "ag_sessions (cancel_entry e st) = ag_sessions st" "ag_hops (cancel_entry e st) = ag_hops st"
  "ag_pending (cancel_entry e st) = ag_pending st" "ag_futures (cancel_entry e st) = ag_futures st"
  "ag_next_fut (cancel_entry e st) = ag_next_fut st" "toggles (cancel_entry e st) = toggles st"
  "ag_monitoring_on (cancel_entry e st) = ag_monitoring_on st" "ag_notes (cancel_entry e st) = ag_notes st"
  "ag_connected (cancel_entry e st) = ag_connected st" "ag_tasks (cancel_entry e st) = ag_tasks st"
  by (auto simp: cancel_entry_def case_prod_beta split: option.split intro!: store_ok_put
      intro: store_managerD)

lemma end_entry_facts:
  "store_ok st \<Longrightarrow> store_ok (end_entry e st)" "ag_next_oid (end_entry e st) = ag_next_oid st"
  "ag_sessions (end_entry e st) = ag_sessions st" "ag_hops (end_entry e st) = ag_hops st"
  "ag_pending (end_entry e st) = ag_pending st" "ag_futures (end_entry e st) = ag_futures st"
  "ag_next_fut (end_entry e st) = ag_next_fut st" "toggles (end_entry e st) = toggles st"
  "ag_monitoring_on (end_entry e st) = ag_monitoring_on st" "ag_tasks (end_entry e st) = ag_tasks st"
  "ag_connected (end_entry e st) = ag_connected st"
proof -
  show "store_ok st \<Longrightarrow> store_ok (end_entry e st)"
    by (auto simp: end_entry_def end_agw_session_def case_prod_beta split: option.split
        intro!: store_ok_put crosslink_shutdown_inv intro: store_managerD)
qed (simp_all add: end_entry_def case_prod_beta)

lemma fold_entries:
  "store_ok st \<Longrightarrow> store_ok (fold cancel_entry es st)" "ag_next_oid (fold cancel_entry es st) = ag_next_oid st"
  "ag_sessions (fold cancel_entry es st) = ag_sessions st" "ag_hops (fold cancel_entry es st) = ag_hops st"
  "ag_pending (fold cancel_entry es st) = ag_pending st" "ag_futures (fold cancel_entry es st) = ag_futures st"
  "ag_next_fut (fold cancel_entry es st) = ag_next_fut st" "toggles (fold cancel_entry es st) = toggles st"
  "ag_monitoring_on (fold cancel_entry es st) = ag_monitoring_on st"
  "ag_notes (fold cancel_entry es st) = ag_notes st" "ag_connected (fold cancel_entry es st) = ag_connected st"
  "store_ok st \<Longrightarrow> store_ok (fold end_entry es st)" "ag_next_oid (fold end_entry es st) = ag_next_oid st"
  "ag_sessions (fold end_entry es st) = ag_sessions st" "ag_hops (fold end_entry es st) = ag_hops st"
  "ag_pending (fold end_entry es st) = ag_pending st" "ag_futures (fold end_entry es st) = ag_futures st"
  "ag_next_fut (fold end_entry es st) = ag_next_fut st" "toggles (fold end_entry es st) = toggles st"
  "ag_monitoring_on (fold end_entry es st) = ag_monitoring_on st" "ag_tasks (fold end_entry es st) = ag_tasks st"
  "ag_connected (fold end_entry es st) = ag_connected st"
  by (induction es arbitrary: st) (simp_all add: cancel_entry_facts end_entry_facts)

lemma tcp_drops_eq:
  "tcp_drops st =
     (fold end_entry (ag_sessions st)
        ((fold cancel_entry (ag_tasks st) (fail_pending_connects (st\<lparr>ag_connected := False\<rparr>)))
           \<lparr>ag_tasks := []\<rparr>))\<lparr>ag_sessions := []\<rparr>"
  by (simp add: tcp_drops_def end_sessions_def cancel_tasks_def fold_entries fail_pending_fields
      flip: cancel_entry_def end_entry_def)

lemma fail_pending_futures:
  assumes "pending_ok st"
  shows "pending_ok (fail_pending_connects st)"
    and "map_of (ag_pending st) key = Some fut \<Longrightarrow>
      map_of (ag_futures (fail_pending_connects st)) fut \<in> {Some FFailed, Some FCancelled}"
proof -
  let ?f = "\<lambda>(k :: session_key, f). resolve f FFailed"
  have dom: "(\<exists>v. map_of (ag_futures (fold ?f ps s)) fut = Some v) \<longleftrightarrow> (\<exists>v. map_of (ag_futures s) fut = Some v)
    \<and> True" for ps s fut
    by (induction ps arbitrary: s) (auto simp: resolve_def case_prod_beta)
  have nf: "ag_next_fut (fold ?f ps s) = ag_next_fut s" for ps s
    by (induction ps arbitrary: s) (auto simp: case_prod_beta)
  show "pending_ok (fail_pending_connects st)"
    using assms dom [of "ag_pending st" st] nf [of "ag_pending st" st]
    unfolding pending_ok_def fail_pending_connects_def by auto
  have keep: "map_of (ag_futures s) fut \<in> {Some FFailed, Some FCancelled} \<Longrightarrow>
      map_of (ag_futures (fold ?f ps s)) fut = map_of (ag_futures s) fut" for ps s fut
    by (induction ps arbitrary: s) (auto simp: resolve_def case_prod_beta)
  have res: "(k, fut) \<in> set ps \<Longrightarrow> map_of (ag_futures s) fut \<in> {Some FPending, Some FFailed, Some FCancelled} \<Longrightarrow>
      map_of (ag_futures (fold ?f ps s)) fut \<in> {Some FFailed, Some FCancelled}" for k ps s fut
  proof (induction ps arbitrary: s)
    case (Cons p ps)
    let ?s = "?f p s"
    have m: "map_of (ag_futures ?s) fut \<in> {Some FPending, Some FFailed, Some FCancelled}"
      using Cons.prems(2) by (auto simp: resolve_def case_prod_beta)
    show ?case
    proof (cases "snd p = fut")
      case True
      then have "map_of (ag_futures ?s) fut \<in> {Some FFailed, Some FCancelled}"
        using Cons.prems(2) by (auto simp: resolve_def case_prod_beta)
      then show ?thesis using keep [of ?s fut ps] by simp
    next
      case False
      then have "(k, fut) \<in> set ps" using Cons.prems(1) by auto
      from Cons.IH [OF this m] show ?thesis by simp
    qed
  qed simp
  show "map_of (ag_futures (fail_pending_connects st)) fut \<in> {Some FFailed, Some FCancelled}"
    if k: "map_of (ag_pending st) key = Some fut"
  proof -
    have "map_of (ag_futures st) fut \<in> {Some FPending, Some FCancelled}"
      using assms k unfolding pending_ok_def by blast
    with res [OF map_of_SomeD [OF k], of st] show ?thesis by (auto simp: fail_pending_connects_def)
  qed
qed

lemma tcp_drops_inv:
  assumes "agw_inv st" shows "agw_inv (tcp_drops st)"
proof -
  define st1 where "st1 = fail_pending_connects (st\<lparr>ag_connected := False\<rparr>)"
  have "pending_ok (st\<lparr>ag_connected := False\<rparr>)" using assms by (simp add: agw_inv_def pending_ok_def)
  from fail_pending_futures(1) [OF this] have p: "pending_ok st1" by (simp add: st1_def)
  have f: "store_ok st1" "ag_hops st1 = ag_hops st" "toggles st1 = toggles st" "ag_pending st1 = []"
    "ag_monitoring_on st1 = ag_monitoring_on st"
    subgoal using assms by (simp add: st1_def fail_pending_fields agw_inv_def store_ok_def)
    subgoal by (simp add: st1_def fail_pending_fields)
    subgoal unfolding st1_def fail_pending_fields by (simp add: toggles_def)
    subgoal by (simp add: st1_def fail_pending_fields)
    subgoal by (simp add: st1_def fail_pending_fields)
    done
  have "store_ok (tcp_drops st)"
    unfolding tcp_drops_eq st1_def [symmetric] using fold_entries(1) [OF f(1)]
    by (simp add: delete_ok fold_entries(12))
  moreover have "pending_ok (tcp_drops st)"
    using p by (simp add: tcp_drops_eq st1_def [symmetric] pending_ok_def fold_entries)
  moreover have "hops_ok (tcp_drops st)"
    using assms by (simp add: tcp_drops_eq st1_def [symmetric] hops_ok_def fold_entries f agw_inv_def)
  moreover have "toggles_ok (tcp_drops st)"
  proof -
    have "toggles (s\<lparr>ag_sessions := xs\<rparr>) = toggles s" "toggles (s\<lparr>ag_tasks := ys\<rparr>) = toggles s" for s xs ys
      by (simp_all add: toggles_def)
    then show ?thesis
      using assms by (simp add: tcp_drops_eq st1_def [symmetric] toggles_ok_def fold_entries f agw_inv_def)
  qed
  moreover have "sessions_ok (tcp_drops st)" "tasks_ok (tcp_drops st)"
    by (simp_all add: tcp_drops_eq sessions_ok_def tasks_ok_def fold_entries)
  ultimately show ?thesis by (simp add: agw_inv_def)
qed

lemma tcp_connects_inv:
  assumes "tcp_connects cfg st = Some st'" and "agw_inv st" and "\<not> ag_connected st"
  shows "agw_inv st'"
proof -
  obtain fs where fs: "login_frames cfg = Some fs" "st' = st\<lparr>ag_epoch := ag_epoch st + 1,
      ag_connected := True, ag_out := fs, ag_registered := False, ag_monitoring_on := False\<rparr>"
    using assms(1) by (auto simp: tcp_connects_def bind_eq_Some_conv)
  have "ag_sessions st = []" using assms(2,3) by (auto simp: agw_inv_def sessions_ok_def)
  then have "sessions_ok st'" by (simp add: fs sessions_ok_def)
  moreover have "toggles_ok st'"
    by (simp add: fs toggles_ok_def toggles_def login_frames_quiet [OF fs(1)])
  ultimately show ?thesis
    using assms(2) by (simp add: fs(2) agw_inv_def store_ok_def tasks_ok_def pending_ok_def hops_ok_def)
qed

lemma beacon_frame_quiet: "beacon_frame cfg = Some f \<Longrightarrow> \<not> is_toggle f"
  by (auto simp: beacon_frame_def build_unproto_via_frame_def Let_def bind_eq_Some_conv built_toggle
      split: if_splits)

lemma beacon_turn_inv: "agw_inv st \<Longrightarrow> agw_inv (beacon_turn cfg now st)"
  by (auto simp: beacon_turn_def save_broadcast_state_def agw_inv_send beacon_frame_quiet split: option.split)

lemma send_nodes_inv: "agw_inv st \<Longrightarrow> agw_inv (fst (send_nodes cfg ps st))"
  by (induction cfg ps st rule: send_nodes.induct) (auto simp: agw_inv_send built_not_toggle split: option.split)

lemma nodes_turn_inv: "agw_inv st \<Longrightarrow> agw_inv (nodes_turn cfg ps now st)"
  using send_nodes_inv [of st cfg ps]
  by (simp add: nodes_turn_def save_broadcast_state_def case_prod_beta)

lemma agw_step_inv:
  assumes "agw_step cfg st e st'" and "agw_inv st" and "cfg_ok cfg"
  shows "agw_inv st'"
  using assms(1)
proof (cases rule: agw_step.cases)
  case (frame_rx now f)
  then show ?thesis using agw_dispatch_inv assms(2,3) by simp
next
  case (session_write oid data)
  then show ?thesis using agw_write_inv assms(2) by blast
next
  case (session_close oid)
  then show ?thesis using agw_close_inv assms(2) by blast
next
  case (drain_timeout oid)
  then show ?thesis using agw_drain_timeout_inv assms(2) by blast
next
  case (task_ends oid s)
  then show ?thesis using run_session_ends_inv assms(2) by blast
next
  case (manager_event oid s mg me mg')
  have "manager_inv mg" using manager_event assms(2) by (auto simp: agw_inv_def intro: store_managerD)
  with manager_event have "manager_inv mg'" using manager_step_inv by blast
  with manager_event show ?thesis using put_manager_inv [OF assms(2)] by blast
next
  case (connects_out neighbor)
  then show ?thesis using connect_out_inv assms(2) by simp
next
  case (connect_times_out fut neighbor)
  then show ?thesis
    using delete_pending_inv [OF resolve_cancel_inv [OF assms(2)]] by (simp add: connect_timeout_def)
next
  case (connect_fails neighbor fut)
  then show ?thesis
    using resolve_cancel_inv [OF delete_pending_inv [OF assms(2)]] by (simp add: connect_send_fails_def)
next
  case (connect_is_cancelled fut)
  then show ?thesis using resolve_cancel_inv [OF assms(2)] by (simp add: connect_cancelled_def)
next
  case tcp_up
  then show ?thesis using tcp_connects_inv assms(2) by blast
next
  case tcp_down
  then show ?thesis using tcp_drops_inv assms(2) by simp
next
  case (beacon_timer now)
  then show ?thesis using beacon_turn_inv assms(2) by simp
next
  case (nodes_timer payloads now)
  then show ?thesis using nodes_turn_inv assms(2) by simp
qed

lemma agw_steps_inv: "agw_steps cfg st es st' \<Longrightarrow> agw_inv st \<Longrightarrow> cfg_ok cfg \<Longrightarrow> agw_inv st'"
  by (induction rule: agw_steps.induct) (auto intro: agw_step_inv)

lemma agw_init_inv: "agw_inv agw_state_init"
  by (simp add: agw_inv_def agw_state_init_def store_ok_def sessions_ok_def tasks_ok_def pending_ok_def
      hops_ok_def toggles_ok_def toggles_def)

section \<open>Lemmas: losing the connection\<close>

lemma cancel_entry_store:
  "map_of (ag_store (cancel_entry (k, t) st)) = (\<lambda>i. if i = t then map_option cancel_task (map_of (ag_store st) i)
     else map_of (ag_store st) i)"
  by (auto simp: cancel_entry_def fun_eq_iff split: option.split)

text \<open>After the drop: which readers have EOF, which tasks run, which managers are shut down.\<close>

definition ended :: "agw_session \<Rightarrow> bool" where
  "ended s \<longleftrightarrow> (case as_manager s of
      None \<Rightarrow> as_detached s \<or> as_reader_eof s
    | Some mg \<Rightarrow> mg_closed mg \<and> mg_by_local mg = [] \<and> mg_by_remote mg = [])"

lemma end_entry_store:
  "map_of (ag_store (end_entry (k, i) st)) j = (if j = i then
     map_option (\<lambda>s. case as_manager s of None \<Rightarrow> feed_eof s
       | Some mg \<Rightarrow> feed_eof (s\<lparr>as_manager := Some (shutdown mg)\<rparr>)) (map_of (ag_store st) j)
     else map_of (ag_store st) j)"
  by (auto simp: end_entry_def end_agw_session_def split: option.split)

lemma shutdown_tables: "mg_closed (shutdown mg)" "mg_by_local (shutdown mg) = []" "mg_by_remote (shutdown mg) = []"
  by (simp_all add: shutdown_def cancel_idle_timer_def Let_def)

lemma ended_after:
  "ended (case as_manager r of None \<Rightarrow> feed_eof r | Some mg \<Rightarrow> feed_eof (r\<lparr>as_manager := Some (shutdown mg)\<rparr>))"
  by (cases "as_manager r") (simp_all add: ended_def shutdown_tables, simp add: feed_eof_def)

lemma ended_end_entry:
  assumes "map_of (ag_store (end_entry (k, i) st)) j = Some s"
  shows "(i = j \<longrightarrow> ended s) \<and> (\<forall>r. map_of (ag_store st) j = Some r \<and> ended r \<longrightarrow> ended s)"
proof (cases "i = j")
  case True
  then obtain r where "s = (case as_manager r of None \<Rightarrow> feed_eof r
      | Some mg \<Rightarrow> feed_eof (r\<lparr>as_manager := Some (shutdown mg)\<rparr>))"
    using assms by (auto simp: end_entry_store)
  then show ?thesis using ended_after [of r] by simp
next
  case False
  then show ?thesis using assms by (simp add: end_entry_store)
qed

lemma cancel_task_not_running [simp]: "as_task (cancel_task q) \<noteq> Running"
  by (simp add: cancel_task_def)

lemma ended_fold:
  assumes "map_of (ag_store (fold end_entry es st)) j = Some s"
  shows "(j \<in> snd ` set es \<longrightarrow> ended s) \<and> (\<forall>r. map_of (ag_store st) j = Some r \<and> ended r \<longrightarrow> ended s)"
  using assms
proof (induction es arbitrary: st)
  case (Cons e es)
  obtain k i where e: "e = (k, i)" by fastforce
  have IH: "(j \<in> snd ` set es \<longrightarrow> ended s)
      \<and> (\<forall>r. map_of (ag_store (end_entry e st)) j = Some r \<and> ended r \<longrightarrow> ended s)"
    using Cons.IH [of "end_entry e st"] Cons.prems by simp
  have dom: "map_of (ag_store (fold end_entry es st)) j \<noteq> None \<longleftrightarrow> map_of (ag_store st) j \<noteq> None" for es st
    by (induction es arbitrary: st) (auto simp: end_entry_store split: if_splits)
  have "map_of (ag_store (end_entry e st)) j \<noteq> None"
    using Cons.prems dom [of es "end_entry e st"] by simp
  then obtain r where r: "map_of (ag_store (end_entry e st)) j = Some r" by blast
  from ended_end_entry [of k i st j r] r IH show ?case by (auto simp: e)
qed simp

lemma not_running_fold:
  assumes "map_of (ag_store (fold cancel_entry es st)) j = Some s"
  shows "(j \<in> snd ` set es \<longrightarrow> as_task s \<noteq> Running)
    \<and> (\<forall>r. map_of (ag_store st) j = Some r \<and> as_task r \<noteq> Running \<longrightarrow> as_task s \<noteq> Running)"
  using assms
proof (induction es arbitrary: st)
  case (Cons e es)
  obtain k i where e: "e = (k, i)" by fastforce
  have IH: "(j \<in> snd ` set es \<longrightarrow> as_task s \<noteq> Running)
      \<and> (\<forall>r. map_of (ag_store (cancel_entry e st)) j = Some r \<and> as_task r \<noteq> Running \<longrightarrow> as_task s \<noteq> Running)"
    using Cons.IH [of "cancel_entry e st"] Cons.prems by simp
  have dom: "map_of (ag_store (fold cancel_entry es st)) j \<noteq> None \<longleftrightarrow> map_of (ag_store st) j \<noteq> None" for es st
    by (induction es arbitrary: st) (auto simp: cancel_entry_store split: prod.splits if_splits)
  have "map_of (ag_store (cancel_entry e st)) j \<noteq> None"
    using Cons.prems dom [of es "cancel_entry e st"] by simp
  then obtain r where r: "map_of (ag_store (cancel_entry e st)) j = Some r" by blast
  have "i = j \<longrightarrow> as_task r \<noteq> Running" and "\<forall>q. map_of (ag_store st) j = Some q \<and> as_task q \<noteq> Running \<longrightarrow> as_task r \<noteq> Running"
    using r by (auto simp: e cancel_entry_store split: if_splits)
  with r IH show ?case by (auto simp: e)
qed simp

section \<open>Lemmas: what the adjacency observer has been told\<close>

definition told_up :: "(callsign \<times> bool) list \<Rightarrow> callsign set" where
  "told_up nts = fold (\<lambda>(c, alive) S. if alive then insert c S else S - {c}) nts {}"

definition mgr :: "agw_state \<Rightarrow> nat \<Rightarrow> bool option" where
  "mgr st i = map_option (\<lambda>s. as_manager s \<noteq> None) (map_of (ag_store st) i)"

definition crosslink_at :: "agw_state \<Rightarrow> session_key \<Rightarrow> bool" where
  "crosslink_at st key \<longleftrightarrow> (\<exists>oid. map_of (ag_sessions st) key = Some oid \<and> mgr st oid = Some True)"

definition one_port :: "int \<Rightarrow> agw_state \<Rightarrow> bool" where
  "one_port p st \<longleftrightarrow> (\<forall>key \<in> fst ` set (ag_sessions st). fst key = p)"

definition agree :: "int \<Rightarrow> agw_state \<Rightarrow> bool" where
  "agree p st \<longleftrightarrow> one_port p st \<and> (\<forall>c. c \<in> told_up (ag_notes st) \<longleftrightarrow> crosslink_at st (p, c))"

lemma told_up_snoc: "told_up (nts @ [(c, alive)]) = (if alive then insert c (told_up nts) else told_up nts - {c})"
  by (simp add: told_up_def)

lemma mgr_simps [simp]:
  "mgr (put_session i s st) = (mgr st)(i := Some (as_manager s \<noteq> None))"
  "mgr (tcp_send e f st) = mgr st" "mgr (fold (tcp_send e) fs st) = mgr st"
  "mgr (note_agw_crosslink c u st) = mgr st" "mgr (resolve fut v st) = mgr st"
  "mgr (add_session s st) = (mgr st)(ag_next_oid st := Some (as_manager s \<noteq> None))"
  "mgr (st\<lparr>ag_sessions := ds\<rparr>) = mgr st" "mgr (st\<lparr>ag_tasks := dt\<rparr>) = mgr st"
  "mgr (st\<lparr>ag_pending := dp\<rparr>) = mgr st" "mgr (st\<lparr>ag_hops := dh\<rparr>) = mgr st"
  by (simp_all add: mgr_def fun_eq_iff)

lemma mgr_end_session [simp]: "mgr (end_agw_session i st) = mgr st"
  by (auto simp: end_agw_session_def fun_eq_iff split: option.split) (simp_all add: mgr_def)

lemma mgr_put_same: "map_of (ag_store st) i = Some s \<Longrightarrow> (as_manager s' = None \<longleftrightarrow> as_manager s = None) \<Longrightarrow>
    mgr (put_session i s' st) = mgr st"
  by (auto simp: fun_eq_iff mgr_def)

lemma agree_cong:
  "ag_sessions st' = ag_sessions st \<Longrightarrow> ag_notes st' = ag_notes st \<Longrightarrow> mgr st' = mgr st \<Longrightarrow> agree p st' = agree p st"
  by (simp add: agree_def one_port_def crosslink_at_def)

lemma agree_same [simp]:
  "agree p (st\<lparr>ag_tasks := dt\<rparr>) = agree p st" "agree p (st\<lparr>ag_pending := dp\<rparr>) = agree p st"
  "agree p (st\<lparr>ag_hops := dh\<rparr>) = agree p st" "agree p (st\<lparr>ag_registered := b\<rparr>) = agree p st"
  "agree p (st\<lparr>ag_monitoring_on := b\<rparr>) = agree p st" "agree p (st\<lparr>ag_ext_sig_active := b\<rparr>) = agree p st"
  "agree p (st\<lparr>ag_heard := hs\<rparr>) = agree p st" "agree p (st\<lparr>ag_netrom_frames := ns\<rparr>) = agree p st"
  "agree p (st\<lparr>ag_broadcast_state := bs\<rparr>) = agree p st" "agree p (tcp_send e f st) = agree p st"
  "agree p (st\<lparr>ag_connected := b\<rparr>) = agree p st"
  "agree p (fold (tcp_send e) fs st) = agree p st" "agree p (resolve fut v st) = agree p st"
  by (simp_all add: agree_def one_port_def crosslink_at_def mgr_def)

lemma agree_put:
  assumes "map_of (ag_store st) i = Some s" and "as_manager s' = None \<longleftrightarrow> as_manager s = None"
  shows "agree p (put_session i s' st) = agree p st"
  using mgr_put_same [OF assms] by (intro agree_cong) (simp_all del: mgr_simps(1))

lemma agree_end_registered:
  assumes "agree p st" and "sessions_ok st" and "map_of (ag_sessions st) key = Some oid"
  shows "agree p (end_agw_session oid (st\<lparr>ag_sessions := AList.delete key (ag_sessions st)\<rparr>))"
proof -
  obtain s where s: "map_of (ag_store st) oid = Some s" "session_key_of s = key"
    using assms(2,3) by (auto elim: sessionsE)
  have "key \<in> fst ` set (ag_sessions st)" using assms(3) by (force dest: map_of_SomeD)
  with assms(1) have k: "key = (p, upper (as_remote_call s))"
    using s(2) by (auto simp: agree_def one_port_def session_key_of_def)
  let ?st = "st\<lparr>ag_sessions := AList.delete key (ag_sessions st)\<rparr>"
  have nts: "ag_notes (end_agw_session oid ?st) = ag_notes st @
      (if as_manager s = None then [] else [(upper (as_remote_call s), False)])"
    using s(1) by (auto simp: end_agw_session_def split: option.split)
  have cl: "crosslink_at (end_agw_session oid ?st) (p, c) \<longleftrightarrow> (p, c) \<noteq> key \<and> crosslink_at st (p, c)" for c
    by (auto simp: crosslink_at_def)
  have was: "crosslink_at st key \<longleftrightarrow> as_manager s \<noteq> None"
    using assms(3) s(1) by (auto simp: crosslink_at_def mgr_def)
  show ?thesis
    unfolding agree_def
  proof (intro conjI allI)
    show "one_port p (end_agw_session oid ?st)" using assms(1) by (auto simp: agree_def one_port_def)
    fix c show "c \<in> told_up (ag_notes (end_agw_session oid ?st)) \<longleftrightarrow> crosslink_at (end_agw_session oid ?st) (p, c)"
      using assms(1) was unfolding cl nts by (auto simp: agree_def told_up_snoc k)
  qed
qed

lemma agree_add_session:
  assumes "agree p st" and "store_ok st" and "sessions_ok st" and "session_key_of s = (p, c)"
    and "\<not> crosslink_at st (p, c) \<or> as_manager s \<noteq> None"
  shows "agree p (if as_manager s = None then add_session s st
     else note_agw_crosslink (as_remote_call s) True (add_session s st))"
proof -
  have c: "c = upper (as_remote_call s)" using assms(4) by (simp add: session_key_of_def)
  have old: "i \<noteq> ag_next_oid st" if h: "map_of (ag_sessions st) k = Some i" for k i
  proof -
    obtain r where "map_of (ag_store st) i = Some r" using sessionsE [OF assms(3) h] by blast
    then show ?thesis using assms(2) unfolding store_ok_def by blast
  qed
  have cl: "crosslink_at (add_session s st) (p, d) \<longleftrightarrow>
      (if d = c then as_manager s \<noteq> None else crosslink_at st (p, d))" for d
    using old [of "(p, d)"] assms(4) by (auto simp: crosslink_at_def)
  have cl2: "crosslink_at (note_agw_crosslink x u (add_session s st)) (p, d) = crosslink_at (add_session s st) (p, d)" for x u d
    by (simp add: crosslink_at_def)
  have op: "one_port p (add_session s st)" using assms(1,4) by (auto simp: agree_def one_port_def)
  have op2: "one_port p (note_agw_crosslink x u (add_session s st))" for x u
    using op by (simp add: one_port_def)
  have told: "d \<in> told_up (ag_notes st) \<longleftrightarrow> crosslink_at st (p, d)" for d
    using assms(1) by (simp add: agree_def)
  show ?thesis
  proof (cases "as_manager s")
    case None
    have "d \<in> told_up (ag_notes st) \<longleftrightarrow> crosslink_at (add_session s st) (p, d)" for d
      using assms(5) None unfolding cl told by auto
    then show ?thesis using None op by (simp add: agree_def)
  next
    case (Some mg)
    have "d \<in> told_up (ag_notes st @ [(c, True)]) \<longleftrightarrow> crosslink_at (add_session s st) (p, d)" for d
      using Some unfolding cl told_up_snoc by (simp add: told)
    then show ?thesis using Some op2 cl2 by (simp add: agree_def c)
  qed
qed

lemma agree_drop_old:
  assumes "agree p st" and "core_ok st"
  shows "agree p (drop_old_session key st)"
proof (cases "map_of (ag_sessions st) key")
  case None
  with assms show ?thesis by (simp add: drop_old_session_def)
next
  case (Some oid)
  define st1 where "st1 = end_agw_session oid (st\<lparr>ag_sessions := AList.delete key (ag_sessions st)\<rparr>)"
  have "agree p st1"
    using agree_end_registered [OF assms(1) _ Some] assms(2) by (simp add: st1_def core_ok_def)
  moreover have "agree p (case map_of (ag_tasks st1) key of None \<Rightarrow> st1 | Some t \<Rightarrow>
      (let st = st1\<lparr>ag_tasks := AList.delete key (ag_tasks st1)\<rparr> in
       case map_of (ag_store st) t of None \<Rightarrow> st | Some s \<Rightarrow> put_session t (cancel_task s) st)) = agree p st1"
    by (auto simp: Let_def agree_put split: option.split)
  ultimately show ?thesis
    using Some by (simp add: drop_old_session_def Let_def flip: st1_def)
qed

lemma agree_connect_frame:
  assumes "agree p st" and "agw_inv st" shows "agree p (connect_frame cfg p cf ct st)"
proof (cases "map_of (ag_pending st) (p, upper cf)")
  case (Some fut)
  define st1 where "st1 = st\<lparr>ag_pending := AList.delete (p, upper cf) (ag_pending st)\<rparr>"
  define s0 where "s0 = new_session cf (ac_node_call cfg) p (ag_epoch st)"
  define s where "s = s0\<lparr>as_manager := Some (make_manager cfg (ac_node_call cfg) s0)\<rparr>"
  have a1: "agree p st1" using assms(1) by (simp add: st1_def)
  have "store_ok st1" "sessions_ok st1" using assms(2) by (simp_all add: st1_def agw_inv_def delete_ok)
  from agree_add_session [OF a1 this, of s "upper cf"]
  have "agree p (note_agw_crosslink cf True (add_session s st1))" by (simp add: s_def s0_def)
  moreover have "connect_frame cfg p cf ct st =
      resolve fut (FResult (ag_next_oid st1)) (note_agw_crosslink cf True (add_session s st1))"
    using Some by (simp add: connect_frame_def outbound_confirmed_def Let_def st1_def s_def s0_def)
  ultimately show ?thesis by simp
next
  case None
  let ?key = "(p, upper cf)"
  have core: "core_ok st" using assms(2) by (simp add: agw_inv_def core_ok_def)
  note d = drop_old_ok [OF core, of ?key]
  define st1 where "st1 = (drop_old_session ?key st)\<lparr>ag_hops :=
    AList.delete (upper cf) (ag_hops (drop_old_session ?key st))\<rparr>"
  define s where "s = (new_session cf ct p (ag_epoch st1))\<lparr>as_hop_count :=
     (case map_of (ag_hops (drop_old_session ?key st)) (upper cf) of None \<Rightarrow> 0 | Some n \<Rightarrow> n)\<rparr>"
  define mg where "mg = make_manager cfg (ac_local_call cfg) s"
  have a1: "agree p st1" using agree_drop_old [OF assms(1) core] by (simp add: st1_def)
  have ok: "store_ok st1" "sessions_ok st1" using d(1) by (simp_all add: st1_def delete_ok core_ok_def)
  have gone: "\<not> crosslink_at st1 ?key" by (simp add: st1_def crosslink_at_def d(8))
  have sk: "session_key_of s = ?key" "as_manager s = None" "as_remote_call s = cf" by (simp_all add: s_def)
  show ?thesis
  proof (cases "is_netrom_caller cfg cf")
    case True
    have "connect_frame cfg p cf ct st = note_agw_crosslink cf True (add_session (s\<lparr>as_manager := Some mg\<rparr>) st1)"
      using None True by (simp add: connect_frame_def inbound_connect_def Let_def mg_def s_def st1_def)
    then show ?thesis
      using agree_add_session [OF a1 ok, of "s\<lparr>as_manager := Some mg\<rparr>" "upper cf"] sk by simp
  next
    case False
    define st2 where "st2 = add_session (s\<lparr>as_task := Running\<rparr>) st1"
    have "agree p st2"
      using agree_add_session [OF a1 ok, of "s\<lparr>as_task := Running\<rparr>" "upper cf"] sk gone by (simp add: st2_def)
    moreover have "connect_frame cfg p cf ct st =
        st2\<lparr>ag_tasks := AList.update ?key (ag_next_oid st1) (ag_tasks st2)\<rparr>"
      using None False by (simp add: connect_frame_def inbound_connect_def Let_def s_def st1_def st2_def)
    ultimately show ?thesis by simp
  qed
qed

lemma agree_disconnect:
  assumes "agree p st" and "agw_inv st" shows "agree p (disconnect_frame key st)"
  using assms agree_end_registered
  by (auto simp: disconnect_frame_def agw_inv_def split: option.split)

lemma agree_promote:
  assumes "agree p st" and "agw_inv st" and "cfg_ok cfg" and "map_of (ag_sessions st) key = Some oid"
    and "map_of (ag_store st) oid = Some s"
  shows "agree p (promote cfg key oid st)"
proof -
  note pr = promote_inv [OF assms(2-5)]
  have "session_key_of s = key" using assms(2,4,5) by (auto simp: agw_inv_def elim: sessionsE)
  moreover have "key \<in> fst ` set (ag_sessions st)" using assms(4) by (force dest: map_of_SomeD)
  ultimately have k: "key = (p, upper (as_remote_call s))"
    using assms(1) by (auto simp: agree_def one_port_def session_key_of_def)
  have uniq: "j = oid \<Longrightarrow> k' = key" if "map_of (ag_sessions st) k' = Some j" for k' j
    using that assms(2,4) unfolding agw_inv_def by (metis sessionsE option.inject)
  have m: "mgr (promote cfg key oid st) = (mgr st)(oid := Some True)"
  proof -
    define s1 where "s1 = s\<lparr>as_writer := (as_writer s)\<lparr>aw_muted := True, aw_suppress_close := True\<rparr>\<rparr>"
    define st1 where "st1 = put_session oid s1 st"
    define st2 where "st2 = (case map_of (ag_tasks st1) key of None \<Rightarrow> st1 | Some t \<Rightarrow>
      (case map_of (ag_store (st1\<lparr>ag_tasks := AList.delete key (ag_tasks st1)\<rparr>)) t of
          None \<Rightarrow> st1\<lparr>ag_tasks := AList.delete key (ag_tasks st1)\<rparr>
        | Some r \<Rightarrow> put_session t (cancel_task r) (st1\<lparr>ag_tasks := AList.delete key (ag_tasks st1)\<rparr>)))"
    have "mgr st1 = mgr st" unfolding st1_def by (rule mgr_put_same [OF assms(5)]) (simp add: s1_def)
    moreover have "mgr st2 = mgr st1"
      by (auto simp: st2_def fun_eq_iff mgr_def split: option.split)
    moreover have "\<exists>s2. map_of (ag_store st2) oid = Some s2"
      by (auto simp: st2_def st1_def split: option.split)
    moreover have "promote cfg key oid st = (case map_of (ag_store st2) oid of None \<Rightarrow> st2 | Some s \<Rightarrow>
        note_agw_crosslink (as_remote_call s) True (put_session oid ((feed_eof s)\<lparr>as_detached := True,
          as_manager := Some (make_manager cfg (ac_local_call cfg) s)\<rparr>) st2))"
      unfolding promote_def assms(5) option.case Let_def s1_def [symmetric] st1_def [symmetric]
        st2_def [symmetric] by (rule refl)
    ultimately show ?thesis by auto
  qed
  have cl: "crosslink_at (promote cfg key oid st) (p, c) \<longleftrightarrow> (p, c) = key \<or> crosslink_at st (p, c)" for c
    using uniq [of "(p, c)"] assms(4) by (auto simp: crosslink_at_def pr(2) m)
  have "one_port p (promote cfg key oid st)" using assms(1) by (simp add: agree_def one_port_def pr(2))
  then show ?thesis
    using assms(1) unfolding agree_def cl pr(4) by (auto simp: told_up_snoc k)
qed

lemma agree_put_manager:
  assumes "put_manager oid s mg' st = Some st'" and "map_of (ag_store st) oid = Some s"
    and "as_manager s \<noteq> None"
  shows "agree p st' = agree p st"
  using assms by (auto simp: put_manager_def Let_def bind_eq_Some_conv agree_put simp del: fold_append)

lemma agree_l3_payload: "agree p (fst (l3_payload oid payload st)) = agree p st"
  by (auto simp: l3_payload_def run_manager_def bind_eq_Some_conv split: option.split
      dest!: agree_put_manager)

lemma agree_data_frame:
  assumes "agree p st" and "agw_inv st" and "cfg_ok cfg"
  shows "agree p (fst (data_frame cfg key pid payload st))"
  using assms agree_promote
  by (auto simp: data_frame_def session_feed_def agree_l3_payload agree_put split: option.split)

lemma agree_dispatch:
  assumes "agree p st" and "agw_inv st" and "cfg_ok cfg" and "af_port f = p"
  shows "agree p (fst (agw_dispatch cfg now f st))"
proof -
  have "agree p (fst (enable_monitoring cfg st))" if "agree p st" for st
    using that by (simp add: enable_monitoring_def Let_def split: option.split)
  moreover have "agree p (monitored_frame cfg now f st)"
    using assms(1) by (simp add: monitored_frame_def observe_nodes_def note_signal_def observe_heard_def
        cache_hops_def Let_def split: option.split)
  ultimately show ?thesis
    using assms agree_connect_frame [OF assms(1,2), of cfg] agree_data_frame [OF assms(1-3)]
      agree_disconnect [OF assms(1,2)]
    by (simp add: agw_dispatch_def Let_def registration_ack_def)
qed

lemma agree_session_ends:
  assumes "run_session_ends oid st = Some st'" and "agree p st" and "agw_inv st"
  shows "agree p st'"
proof -
  obtain s where s: "map_of (ag_store st) oid = Some s"
    using assms(1) by (auto simp: run_session_ends_def bind_eq_Some_conv)
  let ?key = "session_key_of s"
  define st1 where "st1 = (if map_of (ag_sessions st) ?key = Some oid \<and> as_manager s = None
    then st\<lparr>ag_sessions := AList.delete ?key (ag_sessions st)\<rparr> else st)"
  define st2 where "st2 = (if map_of (ag_tasks st1) ?key = Some oid
    then st1\<lparr>ag_tasks := AList.delete ?key (ag_tasks st1)\<rparr> else st1)"
  have st': "st' = put_session oid (s\<lparr>as_task := Ended\<rparr>) st2"
    using assms(1) unfolding run_session_ends_def s Option.bind.simps Let_def
      st1_def [symmetric] st2_def [symmetric] by simp
  have "agree p st1"
  proof (cases "map_of (ag_sessions st) ?key = Some oid \<and> as_manager s = None")
    case True
    then have "\<not> crosslink_at st ?key" using s by (auto simp: crosslink_at_def mgr_def)
    then have "crosslink_at (st\<lparr>ag_sessions := AList.delete ?key (ag_sessions st)\<rparr>) k \<longleftrightarrow> crosslink_at st k" for k
      by (auto simp: crosslink_at_def)
    then show ?thesis using assms(2) True by (auto simp: st1_def agree_def one_port_def)
  next
    case False
    then have "st1 = st" by (simp only: st1_def if_False)
    with assms(2) show ?thesis by simp
  qed
  then have "agree p st2" by (simp add: st2_def)
  moreover have "map_of (ag_store st2) oid = Some s" using s by (simp add: st1_def st2_def)
  ultimately show ?thesis by (simp add: st' agree_put)
qed

definition crosslink_call :: "agw_state \<Rightarrow> nat \<Rightarrow> callsign option" where
  "crosslink_call st i = Option.bind (map_of (ag_store st) i)
     (\<lambda>s. if as_manager s \<noteq> None then Some (upper (as_remote_call s)) else None)"

lemma crosslink_call_same:
  "crosslink_call (end_entry e st) = crosslink_call st" "crosslink_call (cancel_entry e st) = crosslink_call st"
proof -
  obtain k i where e: "e = (k, i)" by fastforce
  show "crosslink_call (end_entry e st) = crosslink_call st"
  proof
    fix j show "crosslink_call (end_entry e st) j = crosslink_call st j"
    proof (cases "map_of (ag_store st) j")
      case (Some r)
      then show ?thesis
        by (cases "j = i"; cases "as_manager r") (simp_all add: e crosslink_call_def end_entry_store)
    qed (auto simp: e crosslink_call_def end_entry_store)
  qed
  have "as_remote_call (cancel_task s) = as_remote_call s" for s by (simp add: cancel_task_def)
  then show "crosslink_call (cancel_entry e st) = crosslink_call st"
    by (cases "map_of (ag_store st) i") (auto simp: e crosslink_call_def fun_eq_iff cancel_entry_store)
qed

lemma told_end_entry:
  "told_up (ag_notes (end_entry (k, i) st)) = told_up (ag_notes st) - {c. crosslink_call st i = Some c}"
  by (auto simp: end_entry_def end_agw_session_def crosslink_call_def told_up_snoc split: option.split)

lemma told_fold_end:
  "told_up (ag_notes (fold end_entry es st)) = told_up (ag_notes st) - {c. \<exists>i \<in> snd ` set es. crosslink_call st i = Some c}"
proof (induction es arbitrary: st)
  case (Cons e es)
  obtain k i where e: "e = (k, i)" by fastforce
  show ?case unfolding fold_simps comp_apply Cons.IH crosslink_call_same e told_end_entry by auto
qed simp

lemma agree_tcp_drops:
  assumes "agree p st" and "agw_inv st" shows "agree p (tcp_drops st)"
proof -
  define st1 where "st1 = (fold cancel_entry (ag_tasks st)
    (fail_pending_connects (st\<lparr>ag_connected := False\<rparr>)))\<lparr>ag_tasks := []\<rparr>"
  have call: "crosslink_call (fold cancel_entry es s) = crosslink_call s" for es s
    by (induction es arbitrary: s) (simp_all add: crosslink_call_same)
  have st1: "crosslink_call st1 = crosslink_call st" "ag_notes st1 = ag_notes st"
  proof -
    have "crosslink_call (st\<lparr>ag_tasks := []\<rparr>) = crosslink_call st" for st by (simp add: crosslink_call_def fun_eq_iff)
    moreover have "crosslink_call (fail_pending_connects (st\<lparr>ag_connected := False\<rparr>)) = crosslink_call st"
      by (simp add: crosslink_call_def fun_eq_iff fail_pending_fields)
    ultimately show "crosslink_call st1 = crosslink_call st" by (simp add: st1_def call)
    show "ag_notes st1 = ag_notes st" by (simp add: st1_def fold_entries fail_pending_fields)
  qed
  have "told_up (ag_notes (tcp_drops st)) = {}"
  proof -
    have "\<exists>i \<in> snd ` set (ag_sessions st). crosslink_call st i = Some c" if "c \<in> told_up (ag_notes st)" for c
    proof -
      have "crosslink_at st (p, c)" using assms(1) that by (simp add: agree_def)
      then obtain oid where o: "map_of (ag_sessions st) (p, c) = Some oid" "mgr st oid = Some True"
        by (auto simp: crosslink_at_def)
      obtain s where s: "map_of (ag_store st) oid = Some s" "session_key_of s = (p, c)"
        using assms(2) o(1) by (auto simp: agw_inv_def elim: sessionsE)
      have "crosslink_call st oid = Some c"
        using o(2) s by (auto simp: mgr_def crosslink_call_def session_key_of_def)
      with o(1) show ?thesis by (force dest: map_of_SomeD)
    qed
    then have "told_up (ag_notes (fold end_entry (ag_sessions st) st1)) = {}"
      unfolding told_fold_end st1 by blast
    then show ?thesis by (simp add: tcp_drops_eq flip: st1_def)
  qed
  moreover have "ag_sessions (tcp_drops st) = []" by (simp add: tcp_drops_eq)
  ultimately show ?thesis by (simp add: agree_def one_port_def crosslink_at_def)
qed

definition port_event :: "int \<Rightarrow> agw_event \<Rightarrow> bool" where
  "port_event p e \<longleftrightarrow> (case e of FrameRx now f \<Rightarrow> af_port f = p | _ \<Rightarrow> True)"

lemma agree_step:
  assumes "agw_step cfg st e st'" and "agree p st" and "agw_inv st" and "cfg_ok cfg" and "port_event p e"
  shows "agree p st'"
  using assms(1)
proof (cases rule: agw_step.cases)
  case (frame_rx now f)
  with assms show ?thesis by (simp add: agree_dispatch port_event_def)
next
  case (session_write oid data)
  with assms(2) show ?thesis by (auto simp: agw_write_def Let_def bind_eq_Some_conv split: if_splits)
next
  case (session_close oid)
  with assms(2) show ?thesis
    by (auto simp: agw_close_def Let_def bind_eq_Some_conv agree_put split: if_splits option.splits)
next
  case (drain_timeout oid)
  with assms(2) show ?thesis by (auto simp: agw_drain_timeout_def bind_eq_Some_conv agree_put split: if_splits)
next
  case (task_ends oid s)
  with assms show ?thesis using agree_session_ends by blast
next
  case (manager_event oid s mg me mg')
  with assms(2) show ?thesis using agree_put_manager [of oid s mg' st st' p] by simp
next
  case (connects_out neighbor)
  have "agree p (st\<lparr>ag_futures := fs, ag_next_fut := n, ag_pending := ps\<rparr>) = agree p st" for fs n ps
    by (simp add: agree_def one_port_def crosslink_at_def mgr_def)
  with connects_out assms(2) show ?thesis by (simp add: connect_out_def Let_def split: option.split)
next
  case (tcp_down)
  with assms show ?thesis by (simp add: agree_tcp_drops)
next
  case tcp_up
  have "agree p (st\<lparr>ag_epoch := n, ag_connected := b, ag_out := fs, ag_registered := r, ag_monitoring_on := m\<rparr>)
      = agree p st" for n b fs r m
    by (simp add: agree_def one_port_def crosslink_at_def mgr_def)
  with tcp_up assms(2) show ?thesis by (auto simp: tcp_connects_def bind_eq_Some_conv)
next
  case (beacon_timer now)
  with assms(2) show ?thesis by (simp add: beacon_turn_def save_broadcast_state_def split: option.split)
next
  case (nodes_timer payloads now)
  have "agree p (fst (send_nodes cfg ps st)) = agree p st" for ps st
    by (induction cfg ps st rule: send_nodes.induct) (auto split: option.split)
  with nodes_timer assms(2) show ?thesis
    by (simp add: nodes_turn_def save_broadcast_state_def case_prod_beta)
qed (use assms(2) in \<open>simp_all add: connect_timeout_def connect_send_fails_def connect_cancelled_def\<close>)

lemma agree_steps:
  assumes "agw_steps cfg st es st'" and "agree p st" and "agw_inv st" and "cfg_ok cfg" and "list_all (port_event p) es"
  shows "agree p st'"
  using assms by (induction rule: agw_steps.induct) (auto intro: agree_step agw_step_inv)

lemma agree_init: "agree p agw_state_init"
  by (simp add: agree_def one_port_def crosslink_at_def agw_state_init_def told_up_def)

end
