(* ===== verification/Agwpe_Properties.thy ===== *)
theory Agwpe_Properties
  imports Agwpe
begin

text \<open>Properties of the AGWPE transport.\<close>

section \<open>The frame stream\<close>

text \<open>
  C24. Frames written one after another are read back, each with its port, kind, PID, callsigns and
  payload, however the TCP stream cuts the bytes into reads; the callsigns are those that fit the
  10-byte field.
\<close>

theorem agw_frames_read_back:
  assumes "list_all spec_ok specs" and "those (map build_spec specs) = Some wires"
    and "concat reads = concat wires"
  shows "feed_all read_frames [] reads = (map spec_frame specs, [])"
proof -
  have "read_frame [] = None" by (simp add: read_frame_def HEADER_SIZE_def)
  from read_frames_built [OF assms(1,2) this] show ?thesis
    by (simp add: agw_stream.feed_all_batch assms(3))
qed

definition demo_specs :: "frame_spec list" where
  "demo_specs = [(0, CHR ''C'', ''K1ABC-7'', ''W6ELA-1'', 0, []),
                 (0, CHR ''D'', ''K1ABC-7'', ''W6ELA-1'', 0xF0, [0x68, 0x69])]"

theorem agw_frames_read_back_witness:
  "\<exists>wires. those (map build_spec demo_specs) = Some wires
     \<and> feed_all read_frames [] (map (\<lambda>b. [b]) (concat wires)) = (map spec_frame demo_specs, [])"
proof -
  have ok: "list_all spec_ok demo_specs" by code_simp
  have "those (map build_spec demo_specs) \<noteq> None" by code_simp
  then obtain wires where w: "those (map build_spec demo_specs) = Some wires" by blast
  have "concat (map (\<lambda>b. [b]) (concat wires)) = concat wires"
    using concat_map_singleton [of "\<lambda>x. x" "concat wires"] by simp
  from agw_frames_read_back [OF ok w this] w show ?thesis by blast
qed

section \<open>Heard frames\<close>

text \<open>
  C29. A routing broadcast carried by a monitor line is recovered from it, except for one case:
  because trailing 0x0D and 0x00 bytes are stripped as line ends, a last route of quality 13 or 0
  is cut short and lost.
\<close>

theorem heard_broadcast_loses_last_route:
  assumes "alias_ok a" and "list_all entry_ok es" and "es \<noteq> []"
    and "encode_nodes_broadcast a es = Some bs" and "stamp_ok t" and "0x3E \<notin> set hdr"
  shows "\<exists>info. extract_binary_info (monitor_frame hdr t bs) = Some info
     \<and> decode_nodes_broadcast src info = Some (Some \<lparr>nf_source_call = src, nf_source_alias = a,
         nf_entries = (if ne_quality (last es) \<in> {13, 0} then butlast es else es)\<rparr>)"
proof (intro exI conjI)
  show "extract_binary_info (monitor_frame hdr t bs) = Some (strip_tail bs)"
    by (rule extract_monitor_frame [OF assms(5,6)])
  show "decode_nodes_broadcast src (strip_tail bs) = Some (Some \<lparr>nf_source_call = src, nf_source_alias = a,
         nf_entries = (if ne_quality (last es) \<in> {13, 0} then butlast es else es)\<rparr>)"
  proof (cases "ne_quality (last es) \<in> {13, 0}")
    case True
    then show ?thesis using monitored_nodes(2) [OF assms(1,2,4,3)] by auto
  next
    case False
    then have "strip_tail bs = bs" using monitored_nodes(1) [OF assms(1,2,4,3)] by auto
    moreover have "decode_nodes_broadcast src bs =
        Some (Some \<lparr>nf_source_call = src, nf_source_alias = a, nf_entries = es\<rparr>)"
      using nodes_round_trip [OF assms(1,2), of "[]" src] assms(4) by (simp add: netrom_lens)
    ultimately show ?thesis using False by auto
  qed
qed

definition demo_route :: node_entry where
  "demo_route = \<lparr>ne_dest_call = ''W6OAK-4'', ne_alias = ''OAK'', ne_neighbor_call = ''K6FB-5'', ne_quality = 13\<rparr>"

theorem heard_broadcast_loses_last_route_witness:
  "\<exists>bs info. encode_nodes_broadcast ''PALO'' [demo_route] = Some bs
     \<and> extract_binary_info (monitor_frame [0x31, 0x3A] [0x31, 0x32, 0x3A, 0x33, 0x34, 0x3A, 0x35, 0x36] bs) = Some info
     \<and> decode_nodes_broadcast ''K6FB-5'' info =
         Some (Some \<lparr>nf_source_call = ''K6FB-5'', nf_source_alias = ''PALO'', nf_entries = []\<rparr>)"
proof -
  have a: "alias_ok ''PALO''" and e: "list_all entry_ok [demo_route]"
    and t: "stamp_ok [0x31, 0x32, 0x3A, 0x33, 0x34, 0x3A, 0x35, 0x36]"
    and "encode_nodes_broadcast ''PALO'' [demo_route] \<noteq> None"
    by code_simp+
  then obtain bs where bs: "encode_nodes_broadcast ''PALO'' [demo_route] = Some bs" by blast
  have q: "ne_quality demo_route = 13" by (simp add: demo_route_def)
  from heard_broadcast_loses_last_route [OF a e _ bs t, of "[0x31, 0x3A]" "''K6FB-5''"] bs q
  show ?thesis by auto
qed

text \<open>
  The hop count of a caller is the length of the digipeater path its SABM was monitored with:
  when the transport hears a SABM for its call through a path and then the connect of that station,
  the session it opens has the path's length as hop count (as long as the cache has room).
\<close>

theorem hop_count_is_path_length:
  fixes now :: int
  assumes "agw_inv st" and "length (ag_hops st) < 200"
    and "af_kind f = CHR ''S''" and "upper (af_to f) = upper (ac_local_call cfg)"
    and "af_from f \<noteq> ''??????''" and "af_data f \<noteq> []"
    and "decode_ascii (af_data f) = pre @ '' Via '' @ join '','' vs @ '' <'' @ rest"
    and "monitors_sabm (pre @ '' Via '' @ join '','' vs @ '' <'' @ rest)"
    and "no_via (pre @ [CHR 0x20])" and "vs \<noteq> []"
    and "list_all (\<lambda>v. v \<noteq> [] \<and> list_all (\<lambda>c. path_char c \<and> c \<noteq> CHR '','') v) vs"
    and "af_kind g = CHR ''C''" and "af_from g = af_from f"
    and "map_of (ag_pending st) (af_port g, upper (af_from g)) = None"
  defines "st' \<equiv> fst (agw_dispatch cfg now g (fst (agw_dispatch cfg now f st)))"
  shows "\<exists>s. map_of (ag_sessions st') (af_port g, upper (af_from g)) = Some (ag_next_oid st)
     \<and> map_of (ag_store st') (ag_next_oid st) = Some s \<and> as_hop_count s = length vs"
proof -
  define st1 where "st1 = st\<lparr>ag_hops := AList.update (upper (af_from f)) (length vs) (ag_hops st)\<rparr>"
  have "parse_via (decode_ascii (af_data f)) = vs"
    unfolding assms(7) by (rule parse_via_path [OF assms(9-11)])
  then have "cache_hops cfg f st = st1"
    using assms(2,4,6-8) by (simp add: cache_hops_def st1_def)
  moreover have "agw_dispatch cfg now f st = (note_signal cfg now False f (cache_hops cfg f st), False)"
    using assms(3,5) by (simp add: agw_dispatch_def monitored_frame_def is_nodes_broadcast_def Let_def)
  ultimately have d1: "fst (agw_dispatch cfg now f st) = note_signal cfg now False f st1" by simp
  define st2 where "st2 = note_signal cfg now False f st1"
  have f2: "ag_pending st2 = ag_pending st" "ag_hops st2 = ag_hops st1" "ag_sessions st2 = ag_sessions st"
    "ag_store st2 = ag_store st" "ag_tasks st2 = ag_tasks st" "ag_next_oid st2 = ag_next_oid st"
    by (simp_all add: st2_def note_signal_def st1_def Let_def)
  let ?key = "(af_port g, upper (af_from g))"
  have core: "core_ok st2"
    using assms(1) by (simp add: core_ok_def agw_inv_def store_ok_def sessions_ok_def tasks_ok_def f2)
      (simp add: st2_def note_signal_def st1_def Let_def)
  note d = drop_old_ok [OF core, of ?key]
  have nxt: "ag_next_oid (drop_old_session ?key st2) = ag_next_oid st"
    by (simp add: drop_old_session_def Let_def f2 split: option.split)
  have st': "st' = inbound_connect cfg (af_port g) (af_from g) (af_to g) st2"
    using assms(12,14) by (simp add: st'_def d1 flip: st2_def)
      (simp add: agw_dispatch_def Let_def connect_frame_def f2)
  have hop: "map_of (ag_hops (drop_old_session ?key st2)) (upper (af_from g)) = Some (length vs)"
    unfolding d(7) f2(2) st1_def by (simp add: assms(13))
  show ?thesis
    unfolding st' inbound_connect_def Let_def hop option.case
    by (simp add: nxt)
qed

definition demo_agw_cfg :: agw_cfg where
  "demo_agw_cfg = the (agw_init ''W6ELA-1'' 0 [] ''BBS'' ''BEACON'' 20 [] True)"

definition demo_sabm :: agw_frame where
  "demo_sabm = \<lparr>af_port = 0, af_kind = CHR ''S'', af_pid = 0, af_from = ''K1ABC'', af_to = ''W6ELA-1'',
     af_data = encode_ascii ''1:Fm K1ABC To W6ELA-1 Via KROCK*,KJOHN <SABM PF=1 >'',
     af_reserved = [0, 0, 0, 0]\<rparr>"

definition demo_connect :: agw_frame where
  "demo_connect = \<lparr>af_port = 0, af_kind = CHR ''C'', af_pid = 0, af_from = ''K1ABC'', af_to = ''W6ELA-1'',
     af_data = [], af_reserved = [0, 0, 0, 0]\<rparr>"

theorem hop_count_is_path_length_witness:
  "\<exists>s. map_of (ag_sessions (fst (agw_dispatch demo_agw_cfg 0 demo_connect
           (fst (agw_dispatch demo_agw_cfg 0 demo_sabm agw_state_init))))) (0, ''K1ABC'') = Some 0
     \<and> map_of (ag_store (fst (agw_dispatch demo_agw_cfg 0 demo_connect
           (fst (agw_dispatch demo_agw_cfg 0 demo_sabm agw_state_init))))) 0 = Some s
     \<and> as_hop_count s = 2"
proof -
  have 1: "length (ag_hops agw_state_init) < 200" "af_kind demo_sabm = CHR ''S''"
    "upper (af_to demo_sabm) = upper (ac_local_call demo_agw_cfg)" "af_from demo_sabm \<noteq> ''??????''"
    "af_data demo_sabm \<noteq> []" by code_simp+
  have 2: "decode_ascii (af_data demo_sabm) = ''1:Fm K1ABC To W6ELA-1'' @ '' Via '' @
      join '','' [''KROCK*'', ''KJOHN''] @ '' <'' @ ''SABM PF=1 >''"
    "monitors_sabm (''1:Fm K1ABC To W6ELA-1'' @ '' Via '' @
      join '','' [''KROCK*'', ''KJOHN''] @ '' <'' @ ''SABM PF=1 >'')"
    "no_via (''1:Fm K1ABC To W6ELA-1'' @ [CHR 0x20])" "[''KROCK*'', ''KJOHN''] \<noteq> []"
    "list_all (\<lambda>v. v \<noteq> [] \<and> list_all (\<lambda>c. path_char c \<and> c \<noteq> CHR '','') v) [''KROCK*'', ''KJOHN'']"
    by code_simp+
  have 3: "af_kind demo_connect = CHR ''C''" "af_from demo_connect = af_from demo_sabm"
    "map_of (ag_pending agw_state_init) (af_port demo_connect, upper (af_from demo_connect)) = None"
    "af_port demo_connect = 0" "upper (af_from demo_connect) = ''K1ABC''" "ag_next_oid agw_state_init = 0"
    by code_simp+
  from hop_count_is_path_length [OF agw_init_inv 1 2 3(1-3), of 0] show ?thesis
    by (simp add: 3(4-6) numeral_2_eq_2)
qed

section \<open>The session table\<close>

text \<open>
  C8. Whatever frames arrive and whatever sessions, timers, connects and connection losses do, in
  any order: a registered session is stored under its own port and call and belongs to the current
  socket, and its reader has not seen EOF unless it is a NET/ROM crosslink; every crosslink's
  circuit manager keeps its own invariant; registered tasks run; the futures of pending connects are
  distinct and without a result; the hop cache holds at most 200 calls; and the toggling monitor
  command has been sent at most once on the connection.
\<close>

theorem agw_tables_sound:
  assumes "agw_steps cfg agw_state_init es st" and "cfg_ok cfg"
  shows "agw_inv st"
  using agw_steps_inv [OF assms(1) agw_init_inv assms(2)] .

lemma demo_cfg_ok: "cfg_ok demo_agw_cfg"
  by code_simp

definition demo_up :: agw_state where
  "demo_up = the (tcp_connects demo_agw_cfg agw_state_init)"

lemma demo_run: "agw_steps demo_agw_cfg agw_state_init [TcpConnects, FrameRx 0 demo_connect]
    (fst (agw_dispatch demo_agw_cfg 0 demo_connect demo_up))"
proof -
  have "tcp_connects demo_agw_cfg agw_state_init \<noteq> None" by code_simp
  then have "tcp_connects demo_agw_cfg agw_state_init = Some demo_up" by (auto simp: demo_up_def)
  moreover have "\<not> ag_connected agw_state_init" "ag_connected demo_up" by code_simp+
  ultimately show ?thesis by (metis agw_more [OF tcp_up agw_more [OF frame_rx agw_none]])
qed

theorem agw_tables_sound_witness:
  "agw_inv (fst (agw_dispatch demo_agw_cfg 0 demo_connect demo_up))"
  by (rule agw_tables_sound [OF demo_run demo_cfg_ok])

text \<open>
  C14. What the router has been told about crosslinks is what the session table holds: as long as all
  frames come from one radio port, a call was last reported up exactly when a NET/ROM crosslink
  with it is registered.
\<close>

theorem crosslink_reports_match_table:
  assumes "agw_steps cfg agw_state_init es st" and "cfg_ok cfg" and "list_all (port_event p) es"
  shows "c \<in> told_up (ag_notes st) \<longleftrightarrow> crosslink_at st (p, c)"
  using agree_steps [OF assms(1) agree_init agw_init_inv assms(2,3)] by (simp add: agree_def)

theorem crosslink_reports_match_table_witness:
  "''K1ABC'' \<in> told_up (ag_notes (fst (agw_dispatch demo_agw_cfg 0 demo_connect demo_up)))
     \<longleftrightarrow> crosslink_at (fst (agw_dispatch demo_agw_cfg 0 demo_connect demo_up)) (0, ''K1ABC'')"
proof (rule crosslink_reports_match_table [OF demo_run demo_cfg_ok])
  show "list_all (port_event 0) [TcpConnects, FrameRx 0 demo_connect]" by code_simp
qed

lemma connection_loss:
  assumes "agw_steps cfg agw_state_init es st" and "cfg_ok cfg"
  shows "ag_sessions (tcp_drops st) = [] \<and> ag_tasks (tcp_drops st) = [] \<and> ag_pending (tcp_drops st) = []"
    and "map_of (ag_sessions st) key = Some oid \<Longrightarrow> map_of (ag_store (tcp_drops st)) oid = Some s \<Longrightarrow> ended s"
    and "map_of (ag_tasks st) key = Some oid \<Longrightarrow> map_of (ag_store (tcp_drops st)) oid = Some s \<Longrightarrow>
      as_task s \<noteq> Running"
    and "map_of (ag_pending st) key = Some fut \<Longrightarrow> await_future fut (tcp_drops st) \<in> {ConnectionFailed, ConnectCancelled}"
proof -
  have inv: "agw_inv st" by (rule agw_steps_inv [OF assms(1) agw_init_inv assms(2)])
  define st0 where "st0 = fail_pending_connects (st\<lparr>ag_connected := False\<rparr>)"
  define st1 where "st1 = (fold cancel_entry (ag_tasks st) st0)\<lparr>ag_tasks := []\<rparr>"
  have eq: "tcp_drops st = (fold end_entry (ag_sessions st) st1)\<lparr>ag_sessions := []\<rparr>"
    by (simp add: tcp_drops_eq st1_def st0_def)
  have in_range: "map_of d k = Some i \<Longrightarrow> i \<in> snd ` set d" for d :: "(session_key, nat) dict" and k i
    by (force dest: map_of_SomeD)
  show "ag_sessions (tcp_drops st) = [] \<and> ag_tasks (tcp_drops st) = [] \<and> ag_pending (tcp_drops st) = []"
    by (simp add: eq st1_def st0_def fold_entries fail_pending_fields)
  show "ended s" if "map_of (ag_sessions st) key = Some oid" "map_of (ag_store (tcp_drops st)) oid = Some s"
    using that ended_fold [of "ag_sessions st" st1 oid s] in_range by (simp add: eq)
  show "as_task s \<noteq> Running" if t: "map_of (ag_tasks st) key = Some oid"
    and s: "map_of (ag_store (tcp_drops st)) oid = Some s"
  proof -
    have task: "map_of (ag_store (fold end_entry es x)) j = Some s \<Longrightarrow>
        \<exists>r. map_of (ag_store x) j = Some r \<and> as_task r = as_task s" for es x j s
    proof (induction es arbitrary: x)
      case (Cons e es)
      obtain k i where e: "e = (k, i)" by fastforce
      from Cons.IH Cons.prems obtain r where r: "map_of (ag_store (end_entry e x)) j = Some r"
        "as_task r = as_task s" by auto
      then show ?case by (auto simp: e end_entry_store split: if_splits option.splits)
    qed simp
    from s have "map_of (ag_store (fold end_entry (ag_sessions st) st1)) oid = Some s" by (simp add: eq)
    from task [OF this] obtain r where "map_of (ag_store (fold cancel_entry (ag_tasks st) st0)) oid = Some r"
      "as_task r = as_task s" by (auto simp: st1_def)
    with not_running_fold [of "ag_tasks st" st0 oid r] in_range [OF t] show ?thesis by simp
  qed
  show "await_future fut (tcp_drops st) \<in> {ConnectionFailed, ConnectCancelled}"
    if "map_of (ag_pending st) key = Some fut"
  proof -
    have "pending_ok (st\<lparr>ag_connected := False\<rparr>)" using inv by (simp add: agw_inv_def pending_ok_def)
    from fail_pending_futures(2) [OF this, of key fut] that
    have "map_of (ag_futures (tcp_drops st)) fut \<in> {Some FFailed, Some FCancelled}"
      by (simp add: eq st1_def st0_def fold_entries)
    then show ?thesis by (auto simp: await_future_def)
  qed
qed



section \<open>Outbound connects\<close>

text \<open>
  A connect whose waiter is cancelled leaves its cancelled future in the table: from then on
  every \<open>connect_out\<close> to that neighbour joins it and ends in a CancelledError at once, until a frame
  from the neighbour or a lost connection clears the entry.
\<close>

theorem cancelled_connect_blocks_neighbor:
  assumes "connect_out cfg neighbor st = (st1, Waits fut)" and "map_of (ag_futures st1) fut = Some FPending"
  shows "connect_out cfg neighbor (connect_cancelled fut st1) = (connect_cancelled fut st1, Waits fut)
     \<and> await_future fut (connect_cancelled fut st1) = ConnectCancelled"
proof -
  let ?key = "(ac_agw_port cfg, upper neighbor)"
  define cl where "cl st = (case map_of (ag_sessions st) ?key of None \<Rightarrow> None | Some oid \<Rightarrow>
     (case map_of (ag_store st) oid of
        Some s \<Rightarrow> (if as_manager s \<noteq> None then Some oid else None) | None \<Rightarrow> None))" for st :: agw_state
  have co: "connect_out cfg neighbor st = (st, Waits f)"
    if "cl st = None" "map_of (ag_pending st) ?key = Some f" for st f
    using that by (simp add: connect_out_def Let_def cl_def)
  have "cl st1 = None \<and> map_of (ag_pending st1) ?key = Some fut"
    using assms(1) by (auto simp: connect_out_def Let_def cl_def split: option.splits if_splits)
  moreover have "cl (connect_cancelled fut st1) = cl st1"
    "ag_pending (connect_cancelled fut st1) = ag_pending st1"
    by (simp_all add: cl_def connect_cancelled_def cong: option.case_cong)
  ultimately have "connect_out cfg neighbor (connect_cancelled fut st1) = (connect_cancelled fut st1, Waits fut)"
    by (intro co) simp_all
  moreover have "await_future fut (connect_cancelled fut st1) = ConnectCancelled"
    using assms(2) by (simp add: await_future_def connect_cancelled_def resolve_def)
  ultimately show ?thesis by simp
qed

theorem cancelled_connect_blocks_neighbor_witness:
  "await_future 0 (fst (connect_out demo_agw_cfg ''K6FB-5''
     (connect_cancelled 0 (fst (connect_out demo_agw_cfg ''K6FB-5'' demo_up))))) = ConnectCancelled"
proof -
  have "snd (connect_out demo_agw_cfg ''K6FB-5'' demo_up) = Waits 0"
    "map_of (ag_futures (fst (connect_out demo_agw_cfg ''K6FB-5'' demo_up))) 0 = Some FPending"
    by code_simp+
  then show ?thesis
    using cancelled_connect_blocks_neighbor [of demo_agw_cfg "''K6FB-5''" demo_up
        "fst (connect_out demo_agw_cfg ''K6FB-5'' demo_up)" 0] by (simp add: prod_eq_iff)
qed

end
