(* ===== verification/Terminal.thy ===== *)
theory Terminal
  imports Interfaces
begin

text \<open>
  The terminal of one session, \<open>core/terminal.py\<close>: styled text, buffered output, paging, menus and
  the line editor.

  The reader is asyncio's \<open>StreamReader\<close>. Its future is a list of arrivals: bytes, and silences in
  milliseconds; the end of the list is the end of the stream, which has arrived once no silence is
  left. A read with a timeout shortens the silence it waits in. \<open>feed_data\<close> puts bytes behind those
  that have arrived, and asserts that the end of the stream has not.

  The writer is a parameter of the state: \<open>t_drain\<close> says of the chunks handed over so far whether
  waiting for them to drain returns in time (when it does not, \<open>flush\<close> raises). An operation is a
  function from the terminal to its result and the terminal after it, \<open>None\<close> where it raises.
\<close>

section \<open>Escape sequences\<close>

datatype color_mode = OFF | ANSI16 | TRUECOLOR

datatype color_arg = Mode color_mode | Name string | No_mode

definition color_mode_of :: "color_arg \<Rightarrow> color_mode" where
  "color_mode_of a = (case a of
       Mode m \<Rightarrow> m
     | No_mode \<Rightarrow> OFF
     | Name s \<Rightarrow> (let v = lower (strip (if s = [] then ''off'' else s)) in
         if v = ''off'' then OFF else if v = ''ansi16'' then ANSI16
         else if v = ''truecolor'' then TRUECOLOR else OFF))"

definition ESC :: char where "ESC = CHR 0x1B"
definition CSI :: string where "CSI = [ESC, CHR 0x5B]"
definition RESET :: string where "RESET = CSI @ ''0m''"
definition BOLD :: string where "BOLD = CSI @ ''1m''"
definition UNDERLINE :: string where "UNDERLINE = CSI @ ''4m''"
definition REVERSE :: string where "REVERSE = CSI @ ''7m''"

text \<open>\<open>fg\<close> and \<open>bg\<close> raise ValueError outside 0 to 15; the calls in the class are on constants inside.\<close>

definition fg_code :: "nat \<Rightarrow> string" where
  "fg_code c = CSI @ nat_str ((if c < 8 then 30 else 90) + c mod 8) @ ''m''"

definition fg :: "int \<Rightarrow> string option" where
  "fg c = (if 0 \<le> c \<and> c \<le> 15 then Some (fg_code (nat c)) else None)"

definition bg_code :: "nat \<Rightarrow> string" where
  "bg_code c = CSI @ nat_str ((if c < 8 then 40 else 100) + c mod 8) @ ''m''"

definition bg :: "int \<Rightarrow> string option" where
  "bg c = (if 0 \<le> c \<and> c \<le> 15 then Some (bg_code (nat c)) else None)"

definition fg_rgb :: "nat \<Rightarrow> nat \<Rightarrow> nat \<Rightarrow> string" where
  "fg_rgb r g b = CSI @ ''38;2;'' @ nat_str r @ '';'' @ nat_str g @ '';'' @ nat_str b @ ''m''"

definition bg_rgb :: "nat \<Rightarrow> nat \<Rightarrow> nat \<Rightarrow> string" where
  "bg_rgb r g b = CSI @ ''48;2;'' @ nat_str r @ '';'' @ nat_str g @ '';'' @ nat_str b @ ''m''"

definition move_to :: "nat \<Rightarrow> nat \<Rightarrow> string" where
  "move_to row col = CSI @ nat_str row @ '';'' @ nat_str col @ ''H''"

definition clear_screen :: string where
  "clear_screen = CSI @ ''2J'' @ CSI @ ''H''"

definition clear_line :: string where
  "clear_line = CSI @ ''2K''"

definition is_letter :: "char \<Rightarrow> bool" where
  "is_letter c \<longleftrightarrow> is_upper c \<or> is_lower c"

text \<open>\<open>_RE_CSI.sub("", text)\<close>: the leftmost CSI, the shortest run up to a letter, then the rest.\<close>

function strip_csi :: "string \<Rightarrow> string" where
  "strip_csi [] = []"
| "strip_csi (c # cs) =
     (if c = ESC \<and> cs \<noteq> [] \<and> hd cs = CHR 0x5B then
        (case dropWhile (\<lambda>d. \<not> is_letter d) (tl cs) of
           [] \<Rightarrow> c # strip_csi cs
         | _ # rest \<Rightarrow> strip_csi rest)
      else c # strip_csi cs)"
  by pat_completeness auto
termination
proof (relation "measure length", goal_cases)
  case (3 c cs d rest)
  have "length (dropWhile (\<lambda>d. \<not> is_letter d) (tl cs)) \<le> length (tl cs)"
    by (rule length_dropWhile_le)
  with 3 show ?case by simp
qed auto

text \<open>\<open>_RE_ESC.sub("", text)\<close>: \<open>.\<close> does not match a newline.\<close>

fun strip_esc :: "string \<Rightarrow> string" where
  "strip_esc [] = []"
| "strip_esc [c] = [c]"
| "strip_esc (c # d # cs) =
     (if c = ESC \<and> d \<noteq> CHR 0x0A then strip_esc cs else c # strip_esc (d # cs))"

definition visible :: "string \<Rightarrow> string" where
  "visible s = strip_esc (strip_csi s)"

definition visible_len :: "string \<Rightarrow> nat" where
  "visible_len s = length (visible s)"

section \<open>The terminal\<close>

datatype arrival = Byte byte | Silence nat

record terminal =
  t_mode :: color_mode
  t_width :: int
  t_height :: int
  t_echo :: bool
  t_must_echo :: bool
  t_eol :: string
  t_buf :: bytes
  t_menus :: "string set"
  t_sent :: "bytes list"
  t_in :: "arrival list"
  t_clock :: nat
  t_drain :: "bytes list \<Rightarrow> bool"

type_synonym 'a io = "terminal \<Rightarrow> ('a \<times> terminal) option"

definition MAX_CHUNK :: nat where "MAX_CHUNK = 256"

definition terminal_init ::
  "arrival list \<Rightarrow> (bytes list \<Rightarrow> bool) \<Rightarrow> color_arg \<Rightarrow> int \<Rightarrow> int \<Rightarrow> bool \<Rightarrow> bool \<Rightarrow> string \<Rightarrow> terminal" where
  "terminal_init input drain mode width height echo must_echo eol =
     \<lparr>t_mode = color_mode_of mode, t_width = width, t_height = height, t_echo = echo,
      t_must_echo = must_echo, t_eol = eol, t_buf = [], t_menus = {}, t_sent = [], t_in = input,
      t_clock = 0, t_drain = drain\<rparr>"

definition term_set_color_mode :: "color_arg \<Rightarrow> terminal \<Rightarrow> terminal" where
  "term_set_color_mode a t = t\<lparr>t_mode := color_mode_of a\<rparr>"

definition ansi :: "terminal \<Rightarrow> bool" where
  "ansi t \<longleftrightarrow> t_mode t \<noteq> OFF"

definition supports_truecolor :: "terminal \<Rightarrow> bool" where
  "supports_truecolor t \<longleftrightarrow> t_mode t = TRUECOLOR"

section \<open>Styled text\<close>

definition term_encode :: "terminal \<Rightarrow> string \<Rightarrow> bytes" where
  "term_encode t s = encode_ascii (if t_mode t = OFF then visible s else s)"

definition key_style :: "terminal \<Rightarrow> string \<Rightarrow> string" where
  "key_style t key =
     (if supports_truecolor t then ''['' @ BOLD @ fg_rgb 110 223 255 @ key @ RESET @ '']''
      else if ansi t then ''['' @ BOLD @ fg_code 14 @ key @ RESET @ '']''
      else ''['' @ key @ '']'')"

definition palette :: "terminal \<Rightarrow> (string, string) dict" where
  "palette t =
     (if supports_truecolor t then
        [(''accent'', fg_rgb 110 223 255), (''meta'', fg_rgb 170 195 220), (''success'', fg_rgb 118 214 130),
         (''warning'', fg_rgb 241 198 92), (''orange'', fg_rgb 210 140 60), (''error'', fg_rgb 239 122 122)]
      else
        [(''accent'', fg_code 14), (''meta'', fg_code 13), (''success'', fg_code 10),
         (''warning'', fg_code 11), (''orange'', fg_code 3), (''error'', fg_code 9)])"

definition style :: "terminal \<Rightarrow> string \<Rightarrow> string \<Rightarrow> bool \<Rightarrow> string" where
  "style t text tone bold =
     (if text = [] \<or> \<not> ansi t then text
      else let prefix = (case map_of (palette t) tone of None \<Rightarrow> [] | Some p \<Rightarrow> p) @ (if bold then BOLD else [])
        in if prefix \<noteq> [] then prefix @ text @ RESET else text)"

definition label :: "terminal \<Rightarrow> string \<Rightarrow> string \<Rightarrow> string" where
  "label t text tone = style t text tone True"

definition prompt :: "terminal \<Rightarrow> string \<Rightarrow> string" where
  "prompt t text = style t text ''accent'' True"

definition note_text :: "terminal \<Rightarrow> string \<Rightarrow> string" where
  "note_text t text = style t text ''meta'' False"

definition ok_text :: "terminal \<Rightarrow> string \<Rightarrow> string" where
  "ok_text t text = style t text ''success'' True"

definition warn :: "terminal \<Rightarrow> string \<Rightarrow> string" where
  "warn t text = style t text ''warning'' True"

definition error_text :: "terminal \<Rightarrow> string \<Rightarrow> string" where
  "error_text t text = style t text ''error'' True"

definition field :: "terminal \<Rightarrow> string \<Rightarrow> string \<Rightarrow> string \<Rightarrow> string" where
  "field t lab val tone = label t lab tone @ '' '' @ val"

definition more_style :: "terminal \<Rightarrow> string" where
  "more_style t =
     (let text = ''[Enter=More  Q=Stop]'' in
      if supports_truecolor t then BOLD @ bg_rgb 34 47 62 @ fg_rgb 245 248 252 @ text @ RESET @ '' ''
      else if ansi t then BOLD @ bg_code 4 @ fg_code 15 @ text @ RESET @ '' ''
      else text @ '' '')"

section \<open>Output\<close>

definition term_write :: "string \<Rightarrow> terminal \<Rightarrow> terminal" where
  "term_write s t = t\<lparr>t_buf := t_buf t @ term_encode t s\<rparr>"

definition term_writeln :: "string \<Rightarrow> terminal \<Rightarrow> terminal" where
  "term_writeln s t = term_write (s @ t_eol t) t"

function term_flush :: "unit io" where
  "term_flush t =
     (if t_buf t = [] then Some ((), t)
      else let sent = t_sent t @ [take MAX_CHUNK (t_buf t)];
               t' = t\<lparr>t_buf := drop MAX_CHUNK (t_buf t), t_sent := sent\<rparr>
        in if t_drain t sent then term_flush t' else None)"
  by pat_completeness auto
termination
  by (relation "measure (\<lambda>t. length (t_buf t))") (auto simp: MAX_CHUNK_def)

declare term_flush.simps [simp del]

definition send :: "string \<Rightarrow> unit io" where
  "send s t = term_flush (term_write s t)"

definition sendln :: "string \<Rightarrow> unit io" where
  "sendln s t = term_flush (term_writeln s t)"

definition send_bold :: "string \<Rightarrow> unit io" where
  "send_bold s t = send (BOLD @ s @ RESET) t"

text \<open>\<open>str.center\<close> puts the odd blank on the left exactly when the width is odd.\<close>

definition center :: "int \<Rightarrow> string \<Rightarrow> string" where
  "center width s =
     (let pad = width - int (length s) in
      if pad \<le> 0 then s
      else let left = pad div 2 + (if odd pad \<and> odd width then 1 else 0)
        in replicate (nat left) CHR 0x20 @ s @ replicate (nat (pad - left)) CHR 0x20)"

definition send_header :: "string \<Rightarrow> unit io" where
  "send_header s t =
     (let padded = center (t_width t) s in
      if supports_truecolor t then
        send (BOLD @ bg_rgb 24 48 78 @ fg_rgb 245 248 252 @ padded @ RESET @ t_eol t) t
      else if ansi t then send (BOLD @ bg_code 4 @ fg_code 15 @ padded @ RESET @ t_eol t) t
      else sendln padded t)"

definition send_separator :: "char \<Rightarrow> unit io" where
  "send_separator c t = sendln (replicate (nat (t_width t)) c) t"

section \<open>Reading\<close>

datatype got = Got byte | At_eof | Timed_out

text \<open>The bytes still to come, and the bytes that have arrived already.\<close>

fun bytes_of :: "arrival list \<Rightarrow> bytes" where
  "bytes_of [] = []"
| "bytes_of (Byte b # i) = b # bytes_of i"
| "bytes_of (Silence w # i) = bytes_of i"

fun waiting_for :: "arrival list \<Rightarrow> nat" where
  "waiting_for [] = 0"
| "waiting_for (Byte b # i) = waiting_for i"
| "waiting_for (Silence w # i) = w + waiting_for i"

text \<open>\<open>reader.read(1)\<close>, under \<open>wait_for\<close> where a timeout in milliseconds is given: the byte, the clock
  and the arrivals left.\<close>

fun read1 :: "nat option \<Rightarrow> nat \<Rightarrow> arrival list \<Rightarrow> got \<times> nat \<times> arrival list" where
  "read1 d now [] = (At_eof, now, [])"
| "read1 d now (Byte b # i) = (Got b, now, i)"
| "read1 None now (Silence w # i) = read1 None (now + w) i"
| "read1 (Some d) now (Silence w # i) =
     (if w < d then read1 (Some (d - w)) (now + w) i
      else (Timed_out, now + d, Silence (w - d) # i))"

definition term_read :: "nat option \<Rightarrow> terminal \<Rightarrow> got \<times> terminal" where
  "term_read d t = (case read1 d (t_clock t) (t_in t) of (g, now, i) \<Rightarrow> (g, t\<lparr>t_clock := now, t_in := i\<rparr>))"

text \<open>\<open>reader.feed_data\<close>: behind the bytes that have arrived; the end of the stream must not have.\<close>

definition is_byte :: "arrival \<Rightarrow> bool" where
  "is_byte a = (case a of Byte _ \<Rightarrow> True | Silence _ \<Rightarrow> False)"

definition feed_back :: "byte \<Rightarrow> unit io" where
  "feed_back b t =
     (if list_all is_byte (t_in t) then None
      else Some ((), t\<lparr>t_in := takeWhile is_byte (t_in t) @ [Byte b] @ dropWhile is_byte (t_in t)\<rparr>))"

definition at_eof :: "terminal \<Rightarrow> bool" where
  "at_eof t \<longleftrightarrow> t_in t = []"

lemma read1_bytes:
  "read1 d now i = (g, now', i') \<Longrightarrow>
     bytes_of i = (case g of Got b \<Rightarrow> b # bytes_of i' | _ \<Rightarrow> bytes_of i') \<and> (g = At_eof \<longrightarrow> i' = [])"
  by (induction d now i rule: read1.induct) (auto split: if_splits)

lemma term_read_bytes:
  "term_read d t = (Got b, t') \<Longrightarrow> bytes_of (t_in t) = b # bytes_of (t_in t')"
  "term_read d t = (At_eof, t') \<Longrightarrow> bytes_of (t_in t) = bytes_of (t_in t')"
  "term_read d t = (Timed_out, t') \<Longrightarrow> bytes_of (t_in t) = bytes_of (t_in t')"
  by (auto simp: term_read_def split: prod.splits dest: read1_bytes)

text \<open>The subnegotiation of Telnet, up to IAC SE; it gives up at a pause of a second or the end.\<close>

function skip_subnegotiation :: "byte \<Rightarrow> terminal \<Rightarrow> terminal" where
  "skip_subnegotiation prev t = (case term_read (Some 1000) t of
       (Got b, t') \<Rightarrow> if prev = 0xFF \<and> b = 0xF0 then t' else skip_subnegotiation b t'
     | (_, t') \<Rightarrow> t')"
  by pat_completeness auto
termination
  by (relation "measure (\<lambda>(prev, t). length (bytes_of (t_in t)))") (auto dest!: sym [THEN term_read_bytes(1)])

declare skip_subnegotiation.simps [simp del]

lemma skip_subnegotiation_bytes:
  "length (bytes_of (t_in (skip_subnegotiation prev t))) \<le> length (bytes_of (t_in t))"
proof (induction prev t rule: skip_subnegotiation.induct)
  case (1 prev t)
  show ?case
  proof (cases "term_read (Some 1000) t")
    case (Pair g t')
    show ?thesis
    proof (cases g)
      case (Got b)
      note r = term_read_bytes(1) [OF Pair [unfolded Got]]
      show ?thesis
      proof (cases "prev = 0xFF \<and> b = 0xF0")
        case True
        then show ?thesis using r Pair Got by (subst skip_subnegotiation.simps) simp
      next
        case False
        from "1.IH" [OF Pair [symmetric] Got False] r Pair Got False show ?thesis
          by (subst skip_subnegotiation.simps) simp
      qed
    next
      case At_eof
      then show ?thesis using Pair term_read_bytes(2) [of "Some 1000" t t']
        by (subst skip_subnegotiation.simps) simp
    next
      case Timed_out
      then show ?thesis using Pair term_read_bytes(3) [of "Some 1000" t t']
        by (subst skip_subnegotiation.simps) simp
    qed
  qed
qed

text \<open>
  \<open>readchar\<close>: one character, \<open>None\<close> standing for the empty string (end, timeout). Bytes from 128 on
  decode to the replacement character, except 0xFF, which starts a Telnet command.
\<close>

definition wait_opt :: "nat option \<Rightarrow> nat option" where
  "wait_opt d = (if d = Some 0 then None else d)"

function readchar :: "nat option \<Rightarrow> terminal \<Rightarrow> char option \<times> terminal" where
  "readchar timeout t = (case term_read (wait_opt timeout) t of
       (Got b, t1) \<Rightarrow>
         if b \<noteq> 0xFF then (Some (if b < 128 then chr_of b else replacement), t1)
         else (case term_read (Some 1000) t1 of
             (Got cmd, t2) \<Rightarrow>
               if cmd \<in> {0xFB, 0xFC, 0xFD, 0xFE} then readchar timeout (snd (term_read (Some 1000) t2))
               else if cmd = 0xFA then readchar timeout (skip_subnegotiation 0 t2)
               else readchar timeout t2
           | (_, t2) \<Rightarrow> (None, t2))
     | (_, t1) \<Rightarrow> (None, t1))"
  by pat_completeness auto

lemma term_read_le: "length (bytes_of (t_in (snd (term_read d t)))) \<le> length (bytes_of (t_in t))"
proof (cases "term_read d t")
  case (Pair g t')
  then show ?thesis by (cases g) (auto dest: term_read_bytes)
qed

termination readchar
proof (relation "measure (\<lambda>(timeout, t). length (bytes_of (t_in t)))", goal_cases)
  case (2 timeout t g t1 b g2 t2 cmd)
  with term_read_bytes(1) [of "wait_opt timeout" t b t1] term_read_bytes(1) [of "Some 1000" t1 cmd t2]
    term_read_le [of "Some 1000" t2]
  show ?case by simp
next
  case (3 timeout t g t1 b g2 t2 cmd)
  with term_read_bytes(1) [of "wait_opt timeout" t b t1] term_read_bytes(1) [of "Some 1000" t1 cmd t2]
    skip_subnegotiation_bytes [of 0 t2]
  show ?case by simp
next
  case (4 timeout t g t1 b g2 t2 cmd)
  with term_read_bytes(1) [of "wait_opt timeout" t b t1] term_read_bytes(1) [of "Some 1000" t1 cmd t2]
  show ?case by simp
qed simp

declare readchar.simps [simp del]

text \<open>What reading leaves alone.\<close>

definition reads :: "terminal \<Rightarrow> terminal \<Rightarrow> bool" where
  "reads t t' \<longleftrightarrow> t\<lparr>t_in := t_in t', t_clock := t_clock t'\<rparr> = t'"

lemma reads_refl [simp]: "reads t t"
  by (simp add: reads_def)

lemma reads_trans: "reads t u \<Longrightarrow> reads u v \<Longrightarrow> reads t v"
  unfolding reads_def by (cases t; cases u; cases v) simp

lemma term_read_reads: "reads t (snd (term_read d t))"
  by (simp add: reads_def term_read_def split: prod.split)

section \<open>The line editor\<close>

definition when_io :: "bool \<Rightarrow> unit io \<Rightarrow> unit io" where
  "when_io b m t = (if b then m t else Some ((), t))"

text \<open>After a CR (or LF): take the complement if it comes within 50 ms, put anything else back.\<close>

definition peek_complement :: "byte \<Rightarrow> unit io" where
  "peek_complement c t = (case term_read (Some 50) t of
       (Got b, t') \<Rightarrow> if b \<noteq> c then feed_back b t' else Some ((), t')
     | (_, t') \<Rightarrow> Some ((), t'))"

text \<open>\<open>ch.isprintable()\<close>.\<close>

definition is_printable :: "char \<Rightarrow> bool" where
  "is_printable c \<longleftrightarrow> (32 \<le> code c \<and> code c \<le> 126) \<or> (161 \<le> code c \<and> code c \<noteq> 173)"

abbreviation (input) CR :: char where "CR \<equiv> CHR 0x0D"
abbreviation (input) LF :: char where "LF \<equiv> CHR 0x0A"
abbreviation (input) BS :: char where "BS \<equiv> CHR 0x08"
abbreviation (input) DEL :: char where "DEL \<equiv> CHR 0x7F"
abbreviation (input) ETX :: char where "ETX \<equiv> CHR 0x03"

lemma readchar_bytes:
  "readchar d t = (Some c, t') \<Longrightarrow> length (bytes_of (t_in t')) < length (bytes_of (t_in t))"
proof (induction d t arbitrary: c t' rule: readchar.induct)
  case (1 d t)
  from "1.prems" show ?case
  proof (subst (asm) readchar.simps, cases "term_read (wait_opt d) t")
    case (Pair g t1)
    show ?thesis
    proof (cases g)
      case (Got b)
      note r = term_read_bytes(1) [OF Pair [unfolded Got]]
      show ?thesis
      proof (cases "b = 0xFF")
        case False
        then show ?thesis using Pair Got r "1.prems"
          by (subst (asm) readchar.simps) auto
      next
        case True
        obtain g2 t2 where p2: "term_read (Some 1000) t1 = (g2, t2)" by (cases "term_read (Some 1000) t1")
        show ?thesis
        proof (cases g2)
          case (Got cmd)
          note r2 = term_read_bytes(1) [OF p2 [unfolded Got]]
          have b': "\<not> b \<noteq> 0xFF" using True by simp
          note ih = "1.IH" [OF Pair [symmetric] \<open>g = Got b\<close> b' p2 [symmetric] Got]
          show ?thesis
            using "1.prems" Pair \<open>g = Got b\<close> True p2 Got r r2 ih(1) [of c t'] ih(2) [of c t'] ih(3) [of c t']
              term_read_le [of "Some 1000" t2] skip_subnegotiation_bytes [of 0 t2]
            by (subst (asm) readchar.simps) (auto split: if_splits)
        qed (use "1.prems" Pair \<open>g = Got b\<close> True p2 in \<open>subst (asm) readchar.simps, simp\<close>)+
      qed
    qed (use "1.prems" Pair in \<open>subst (asm) readchar.simps, simp\<close>)+
  qed
qed

text \<open>Sending touches neither the arrivals nor the clock.\<close>

lemma term_flush_frame:
  "term_flush t = Some (u, t') \<Longrightarrow> t\<lparr>t_buf := [], t_sent := t_sent t'\<rparr> = t'"
proof (induction t rule: term_flush.induct)
  case (1 t)
  show ?case
  proof (cases "t_buf t = []")
    case True
    then show ?thesis using "1.prems" by (subst (asm) term_flush.simps) simp
  next
    case False
    then show ?thesis using "1.prems" "1.IH" [OF False refl refl]
      by (subst (asm) term_flush.simps) (auto simp: Let_def split: if_splits)
  qed
qed

lemma send_view_frame: "send s t = Some (u, t') \<Longrightarrow> t\<lparr>t_buf := [], t_sent := t_sent t'\<rparr> = t'"
  by (auto simp: send_def term_write_def dest!: term_flush_frame)

lemma sendln_frame: "sendln s t = Some (u, t') \<Longrightarrow> t\<lparr>t_buf := [], t_sent := t_sent t'\<rparr> = t'"
  by (auto simp: sendln_def term_writeln_def term_write_def dest!: term_flush_frame)

lemma send_in [simp]: "send s t = Some (u, t') \<Longrightarrow> t_in t' = t_in t \<and> t_clock t' = t_clock t"
  by (drule send_view_frame, cases t, cases t') simp

lemma when_send_in: "when_io b (send s) t = Some (u, t') \<Longrightarrow> t_in t' = t_in t \<and> t_clock t' = t_clock t"
  by (auto simp: when_io_def split: if_splits)

text \<open>The loop's body for one character: the line so far, and whether to stop.\<close>

definition edit_char :: "nat \<Rightarrow> bool \<Rightarrow> char \<Rightarrow> string \<Rightarrow> (string \<times> bool) io" where
  "edit_char max_len echo c buf t =
     (if c = CR \<or> c = LF then do {
        (_, t1) \<leftarrow> when_io (c = CR) (peek_complement 0x0A) t;
        (_, t2) \<leftarrow> when_io echo (send [CR, LF]) t1;
        Some ((buf, True), t2) }
      else if c = BS \<or> c = DEL then
        (if buf \<noteq> [] then do {
           (_, t1) \<leftarrow> when_io echo (send [BS, CHR 0x20, BS]) t;
           Some ((butlast buf, False), t1) }
         else Some ((buf, False), t))
      else if c = ETX then Some (([], True), t)
      else if length buf < max_len \<and> is_printable c then do {
        (_, t1) \<leftarrow> when_io echo (send [c]) t;
        Some ((buf @ [c], False), t1) }
      else Some ((buf, False), t))"

lemma edit_char_in:
  "edit_char n e c buf t = Some ((s, False), t') \<Longrightarrow> t_in t' = t_in t \<and> t_clock t' = t_clock t"
  by (auto simp: edit_char_def split: if_splits bind_splits dest!: when_send_in)

function readline_loop :: "nat \<Rightarrow> bool \<Rightarrow> nat option \<Rightarrow> string \<Rightarrow> string io" where
  "readline_loop max_len echo deadline buf t =
     (if (case deadline of None \<Rightarrow> False | Some d \<Rightarrow> d \<le> t_clock t) then Some (buf, t)
      else (case readchar (map_option (\<lambda>d. d - t_clock t) deadline) t of
          (None, t1) \<Rightarrow> Some (buf, t1)
        | (Some c, t1) \<Rightarrow> do {
            (res, t2) \<leftarrow> edit_char max_len echo c buf t1;
            if snd res then Some (fst res, t2) else readline_loop max_len echo deadline (fst res) t2 }))"
  by pat_completeness auto
termination
  by (relation "measure (\<lambda>(max_len, echo, deadline, buf, t). length (bytes_of (t_in t)))")
    (auto dest!: sym [THEN readchar_bytes] edit_char_in)

declare readline_loop.simps [simp del]

text \<open>Induction over the characters the editor takes.\<close>

lemma readline_loop_cases:
  assumes "readline_loop n e d buf t = Some (s, t')"
  obtains (late) "case d of None \<Rightarrow> False | Some x \<Rightarrow> x \<le> t_clock t" and "s = buf" and "t' = t"
  | (stop) w where "readchar w t = (None, t')" and "s = buf"
  | (finish) w c t1 where "readchar w t = (Some c, t1)" and "edit_char n e c buf t1 = Some ((s, True), t')"
  | (step) w c t1 buf' t2 where "readchar w t = (Some c, t1)"
      and "edit_char n e c buf t1 = Some ((buf', False), t2)"
      and "readline_loop n e d buf' t2 = Some (s, t')"
      and "length (bytes_of (t_in t2)) < length (bytes_of (t_in t))"
proof (cases "case d of None \<Rightarrow> False | Some x \<Rightarrow> x \<le> t_clock t")
  case True
  then show ?thesis using assms by (intro late) (subst (asm) readline_loop.simps, simp)+
next
  case False
  define w where "w = map_option (\<lambda>x. x - t_clock t) d"
  obtain r t1 where p: "readchar w t = (r, t1)" by (cases "readchar w t")
  note st = assms [unfolded readline_loop.simps [of n e d buf t] if_not_P [OF False] w_def [symmetric] p prod.case]
  show ?thesis
  proof (cases r)
    case None
    then show ?thesis using st p by (intro stop) auto
  next
    case (Some c)
    obtain buf' fin t2 where ed: "edit_char n e c buf t1 = Some ((buf', fin), t2)"
      using st Some by (cases "edit_char n e c buf t1") auto
    show ?thesis
    proof (cases fin)
      case True
      then show ?thesis using st Some ed p by (intro finish) auto
    next
      case False
      then have "t_in t2 = t_in t1" using edit_char_in [of n e c buf t1 buf' t2] ed by simp
      then show ?thesis
        using False st Some ed p readchar_bytes [of w t c t1]
        by (intro step [of w c t1 buf' t2]) auto
    qed
  qed
qed

text \<open>Induction over the characters the editor takes.\<close>

lemma readline_loop_induct [consumes 1, case_names late stop last step]:
  assumes run: "readline_loop n e d buf t = Some (s, t')"
    and late: "\<And>buf t. (case d of None \<Rightarrow> False | Some x \<Rightarrow> x \<le> t_clock t) \<Longrightarrow> P buf t buf t"
    and stop: "\<And>buf t w t1. readchar w t = (None, t1) \<Longrightarrow> P buf t buf t1"
    and last: "\<And>buf t w c t1 s t'. readchar w t = (Some c, t1) \<Longrightarrow>
      edit_char n e c buf t1 = Some ((s, True), t') \<Longrightarrow> P buf t s t'"
    and step: "\<And>buf t w c t1 buf' t2 s t'. readchar w t = (Some c, t1) \<Longrightarrow>
      edit_char n e c buf t1 = Some ((buf', False), t2) \<Longrightarrow> P buf' t2 s t' \<Longrightarrow> P buf t s t'"
  shows "P buf t s t'"
  using run
proof (induction "length (bytes_of (t_in t))" arbitrary: buf t rule: less_induct)
  case less
  from less.prems show ?case
  proof (cases rule: readline_loop_cases)
    case late
    then show ?thesis using assms(2) by blast
  next
    case (stop w)
    then show ?thesis using assms(3) by blast
  next
    case (finish w c t1)
    then show ?thesis using assms(4) by blast
  next
    case (step w c t1 buf' t2)
    then show ?thesis using less.hyps assms(5) by blast
  qed
qed

definition readline :: "nat \<Rightarrow> bool option \<Rightarrow> nat option \<Rightarrow> string io" where
  "readline max_len echo timeout t =
     readline_loop max_len ((case echo of None \<Rightarrow> t_echo t | Some e \<Rightarrow> e) \<or> t_must_echo t)
       (map_option (\<lambda>s. t_clock t + s) (wait_opt timeout)) [] t"

definition readline_password :: "string \<Rightarrow> string io" where
  "readline_password text t = do {
     (_, t1) \<leftarrow> send text t;
     (result, t2) \<leftarrow> readline 128 (Some False) None t1;
     (_, t3) \<leftarrow> sendln [] t2;
     Some (result, t3) }"

section \<open>Paging\<close>

text \<open>The trailing ENTER of a command character: at most a CR and an LF.\<close>

fun swallow_eol :: "nat \<Rightarrow> unit io" where
  "swallow_eol 0 t = Some ((), t)"
| "swallow_eol (Suc n) t = (case term_read (Some 50) t of
       (Got b, t') \<Rightarrow> if b = 0x0D \<or> b = 0x0A then swallow_eol n t' else feed_back b t'
     | (_, t') \<Rightarrow> Some ((), t'))"

definition swallow_trailing_eol :: "unit io" where
  "swallow_trailing_eol = swallow_eol 2"

fun paginate_loop :: "int \<Rightarrow> nat option \<Rightarrow> int \<Rightarrow> string list \<Rightarrow> bool io" where
  "paginate_loop ph timeout cnt [] t = do { (_, t1) \<leftarrow> term_flush t; Some (True, t1) }"
| "paginate_loop ph timeout cnt (l # ls) t =
     (let t1 = term_writeln l t in
      if ph \<le> cnt + 1 then do {
        (_, t2) \<leftarrow> term_flush t1;
        (_, t3) \<leftarrow> send (more_style t2) t2;
        (case readchar timeout t3 of
           (None, t4) \<Rightarrow> do { (_, t5) \<leftarrow> sendln [] t4; Some (False, t5) }
         | (Some c, t4) \<Rightarrow> do {
             (_, t5) \<leftarrow> (if c = CR then peek_complement 0x0A t4
                        else if c = LF then peek_complement 0x0D t4
                        else swallow_trailing_eol t4);
             (_, t6) \<leftarrow> sendln [] t5;
             if up c = CHR 0x51 then Some (False, t6) else paginate_loop ph timeout 0 ls t6 }) }
      else paginate_loop ph timeout (cnt + 1) ls t1)"

definition paginate :: "string list \<Rightarrow> int option \<Rightarrow> nat option \<Rightarrow> bool io" where
  "paginate ls page_height timeout t =
     paginate_loop (case page_height of None \<Rightarrow> t_height t - 2 | Some h \<Rightarrow> if h = 0 then t_height t - 2 else h)
       timeout 0 ls t"

section \<open>Menus\<close>

definition reset_menu_state :: "string option \<Rightarrow> terminal \<Rightarrow> terminal" where
  "reset_menu_state title t =
     (case title of None \<Rightarrow> t\<lparr>t_menus := {}\<rparr> | Some x \<Rightarrow> t\<lparr>t_menus := t_menus t - {x}\<rparr>)"

definition menu_scope :: "'a io \<Rightarrow> 'a io" where
  "menu_scope body t = do {
     (x, t') \<leftarrow> body (t\<lparr>t_menus := {}\<rparr>);
     Some (x, t'\<lparr>t_menus := t_menus t\<rparr>) }"

type_synonym menu_item = "string \<times> string"

text \<open>The two columns: \<open>zip(left, right + [("", "")] * (half - len(right)))\<close>.\<close>

definition menu_rows :: "menu_item list \<Rightarrow> (menu_item \<times> menu_item) list" where
  "menu_rows items =
     (let half = (length items + 1) div 2; left = take half items; right = drop half items
      in zip left (right @ replicate (half - length right) ([], [])))"

definition menu_cell :: "terminal \<Rightarrow> menu_item \<Rightarrow> string" where
  "menu_cell t item = (if ansi t then key_style t (fst item) @ '' '' @ snd item
     else ''['' @ fst item @ ''] '' @ snd item)"

definition menu_line :: "terminal \<Rightarrow> menu_item \<times> menu_item \<Rightarrow> string" where
  "menu_line t row =
     (let lcell = menu_cell t (fst row);
          rcell = (if fst (snd row) \<noteq> [] then menu_cell t (snd row) else []);
          pad = nat (t_width t div 2 - 2 - int (visible_len lcell))
      in ''  '' @ lcell @ replicate pad CHR 0x20 @ ''  '' @ rcell)"

fun write_rows :: "(menu_item \<times> menu_item) list \<Rightarrow> terminal \<Rightarrow> terminal" where
  "write_rows [] t = t"
| "write_rows (r # rs) t = write_rows rs (term_writeln (menu_line t r) t)"

definition send_menu :: "string \<Rightarrow> menu_item list \<Rightarrow> string \<Rightarrow> bool \<Rightarrow> unit io" where
  "send_menu title items text enter_hint t =
     (if title \<notin> t_menus t then do {
        (_, t1) \<leftarrow> sendln [] t;
        (_, t2) \<leftarrow> (if ansi t1 then send_header ('' '' @ title @ '' '') t1
                   else sendln (''=== '' @ title @ '' ==='') t1);
        (_, t3) \<leftarrow> sendln [] (write_rows (menu_rows items) t2);
        (_, t4) \<leftarrow> send text t3;
        Some ((), t4\<lparr>t_menus := insert title (t_menus t4)\<rparr>) }
      else do {
        let keys = join '', '' (filter (\<lambda>k. k \<noteq> []) (map fst items));
        (_, t1) \<leftarrow> sendln [] t;
        (_, t2) \<leftarrow> (if enter_hint then sendln (keys @ '' | '' @ note_text t1 ''ENTER'' @ '' to redraw'') t1
                   else sendln keys t1);
        send text t2 })"

text \<open>
  \<open>prompt_menu\<close> asks until a choice is not blank. Every answer uses up input, so the loop ends: the
  weight of the arrivals left goes down, or the stream is at its end and the code raises.
\<close>

fun weight :: "arrival list \<Rightarrow> nat" where
  "weight [] = 0"
| "weight (Byte b # i) = Suc (weight i)"
| "weight (Silence w # i) = Suc w + weight i"

lemma weight_append [simp]: "weight (i @ j) = weight i + weight j"
  by (induction i rule: weight.induct) auto

lemma weight_eq_0 [simp]: "weight i = 0 \<longleftrightarrow> i = []"
  by (cases i rule: weight.cases) auto

lemma read1_weight:
  "read1 d now i = (g, now', i') \<Longrightarrow> d \<noteq> Some 0 \<Longrightarrow> (i = [] \<and> i' = []) \<or> weight i' < weight i"
  by (induction d now i rule: read1.induct) (auto split: if_splits)

lemma read1_weight_le: "read1 d now i = (g, now', i') \<Longrightarrow> weight i' \<le> weight i"
  by (induction d now i rule: read1.induct) (auto split: if_splits)

lemma term_read_weight:
  "d \<noteq> Some 0 \<Longrightarrow> (t_in t = [] \<and> t_in (snd (term_read d t)) = []) \<or> weight (t_in (snd (term_read d t))) < weight (t_in t)"
  by (auto simp: term_read_def split: prod.split dest: read1_weight)

lemma term_read_weight_le: "weight (t_in (snd (term_read d t))) \<le> weight (t_in t)"
  by (auto simp: term_read_def split: prod.split dest: read1_weight_le)

lemma skip_subnegotiation_weight: "weight (t_in (skip_subnegotiation prev t)) \<le> weight (t_in t)"
proof (induction prev t rule: skip_subnegotiation.induct)
  case (1 prev t)
  obtain g t' where r: "term_read (Some 1000) t = (g, t')" by (cases "term_read (Some 1000) t")
  have le: "weight (t_in t') \<le> weight (t_in t)" using term_read_weight_le [of "Some 1000" t] r by simp
  show ?case
  proof (cases g)
    case (Got b)
    then show ?thesis using "1.IH" [OF r [symmetric] Got] le r
      by (subst skip_subnegotiation.simps) (auto intro: le_trans)
  qed (use le r in \<open>subst skip_subnegotiation.simps, simp\<close>)+
qed

lemma readchar_weight:
  "readchar d t = (r, t') \<Longrightarrow>
     (r = None \<and> t_in t = [] \<and> t_in t' = []) \<or> weight (t_in t') < weight (t_in t)"
proof (induction d t arbitrary: r t' rule: readchar.induct)
  case (1 d t)
  obtain g t1 where p: "term_read (wait_opt d) t = (g, t1)" by (cases "term_read (wait_opt d) t")
  have w: "(t_in t = [] \<and> t_in t1 = []) \<or> weight (t_in t1) < weight (t_in t)"
    using term_read_weight [of "wait_opt d" t] p by (auto simp: wait_opt_def)
  show ?case
  proof (cases g)
    case (Got b)
    have w1: "weight (t_in t1) < weight (t_in t)"
      using w term_read_bytes(1) [OF p [unfolded Got]] by auto
    show ?thesis
    proof (cases "b = 0xFF")
      case False
      then show ?thesis using p Got w1 "1.prems" by (subst (asm) readchar.simps) auto
    next
      case True
      obtain g2 t2 where p2: "term_read (Some 1000) t1 = (g2, t2)" by (cases "term_read (Some 1000) t1")
      have w2: "weight (t_in t2) \<le> weight (t_in t1)"
        using term_read_weight_le [of "Some 1000" t1] p2 by simp
      show ?thesis
      proof (cases g2)
        case (Got cmd)
        have b': "\<not> b \<noteq> 0xFF" using True by simp
        note ih = "1.IH" [OF p [symmetric] \<open>g = Got b\<close> b' p2 [symmetric] Got]
        define t3 where "t3 = (if cmd \<in> {0xFB, 0xFC, 0xFD, 0xFE} then snd (term_read (Some 1000) t2)
            else if cmd = 0xFA then skip_subnegotiation 0 t2 else t2)"
        have w3: "weight (t_in t3) \<le> weight (t_in t2)"
          using term_read_weight_le [of "Some 1000" t2] skip_subnegotiation_weight [of 0 t2]
          by (simp add: t3_def)
        have "readchar d t = readchar d t3"
          using p \<open>g = Got b\<close> True p2 Got
          by (subst readchar.simps) (simp add: t3_def del: insert_iff)
        then have "readchar d t3 = (r, t')" using "1.prems" by simp
        then have "(r = None \<and> t_in t3 = [] \<and> t_in t' = []) \<or> weight (t_in t') < weight (t_in t3)"
          using ih(1) [of r t'] ih(2) [of r t'] ih(3) [of r t'] by (auto simp: t3_def split: if_splits)
        then show ?thesis using w1 w2 w3 by (auto dest: le_trans)
      qed (use "1.prems" p \<open>g = Got b\<close> True p2 w1 w2 in \<open>subst (asm) readchar.simps, simp\<close>)+
    qed
  qed (use "1.prems" p w in \<open>subst (asm) readchar.simps, auto\<close>)+
qed

lemma feed_back_weight: "feed_back b t = Some (u, t') \<Longrightarrow> weight (t_in t') = Suc (weight (t_in t))"
proof -
  assume "feed_back b t = Some (u, t')"
  then have "t_in t' = takeWhile is_byte (t_in t) @ [Byte b] @ dropWhile is_byte (t_in t)"
    by (auto simp: feed_back_def split: if_splits)
  then have "weight (t_in t') = Suc (weight (takeWhile is_byte (t_in t)) + weight (dropWhile is_byte (t_in t)))"
    by simp
  also have "\<dots> = Suc (weight (takeWhile is_byte (t_in t) @ dropWhile is_byte (t_in t)))"
    by (simp only: weight_append)
  finally show ?thesis by simp
qed

lemma peek_complement_weight:
  assumes "peek_complement c t = Some (u, t')" shows "weight (t_in t') \<le> weight (t_in t)"
proof -
  obtain g t1 where p: "term_read (Some 50) t = (g, t1)" by (cases "term_read (Some 50) t")
  have le: "weight (t_in t1) \<le> weight (t_in t)" using term_read_weight_le [of "Some 50" t] p by simp
  have less: "g = Got b \<Longrightarrow> weight (t_in t1) < weight (t_in t)" for b
    using term_read_weight [of "Some 50" t] term_read_bytes(1) [of "Some 50" t b t1] p by auto
  show ?thesis
  proof (cases g)
    case (Got b)
    then show ?thesis using assms p le less [OF Got] feed_back_weight [of b t1 u t']
      by (auto simp: peek_complement_def split: if_splits)
  qed (use assms p le in \<open>simp_all add: peek_complement_def\<close>)
qed

lemma edit_char_weight:
  assumes "edit_char n e c buf t = Some ((s, fin), t')"
  shows "weight (t_in t') \<le> weight (t_in t)"
proof (cases "c = CR \<or> c = LF")
  case True
  then obtain t1 where t1: "when_io (c = CR) (peek_complement 0x0A) t = Some ((), t1)"
      and t2: "when_io e (send [CR, LF]) t1 = Some ((), t')"
    using assms by (auto simp: edit_char_def split: bind_splits)
  have "weight (t_in t1) \<le> weight (t_in t)"
    using t1 peek_complement_weight [of "0x0A" t "()" t1] by (auto simp: when_io_def split: if_splits)
  then show ?thesis using when_send_in [OF t2] by simp
next
  case False
  then show ?thesis using assms by (auto simp: edit_char_def split: if_splits bind_splits dest!: when_send_in)
qed

lemma readline_loop_weight_le:
  "readline_loop n e d buf t = Some (s, t') \<Longrightarrow> weight (t_in t') \<le> weight (t_in t)"
proof (induction rule: readline_loop_induct)
  case (stop buf t w t1)
  then show ?case using readchar_weight [OF stop] by auto
next
  case (last buf t w c t1 s t')
  then show ?case using readchar_weight [OF last(1)] edit_char_weight [OF last(2)] by simp
next
  case (step buf t w c t1 buf' t2 s t')
  then show ?case using readchar_weight [OF step(1)] edit_char_weight [OF step(2)] by simp
qed simp

lemma readline_loop_weight:
  assumes "readline_loop n e d buf t = Some (s, t')"
    and "case d of None \<Rightarrow> True | Some x \<Rightarrow> t_clock t < x"
  shows "t_in t' = [] \<or> weight (t_in t') < weight (t_in t)"
  using assms(1)
proof (cases rule: readline_loop_cases)
  case late
  with assms(2) show ?thesis by (auto split: option.splits)
next
  case (stop w)
  then show ?thesis using readchar_weight [OF stop(1)] by auto
next
  case (finish w c t1)
  then show ?thesis using readchar_weight [OF finish(1)] edit_char_weight [OF finish(2)] by simp
next
  case (step w c t1 buf' t2)
  then show ?thesis
    using readchar_weight [OF step(1)] edit_char_weight [OF step(2)] readline_loop_weight_le [OF step(3)] by simp
qed

lemma readline_progress:
  assumes "readline n e d t = Some (s, t')"
  shows "at_eof t' \<or> weight (t_in t') < weight (t_in t)"
proof -
  have "case map_option (\<lambda>s. t_clock t + s) (wait_opt d) of None \<Rightarrow> True | Some x \<Rightarrow> t_clock t < x"
    by (auto simp: wait_opt_def split: option.split)
  then show ?thesis
    using readline_loop_weight [OF assms [unfolded readline_def]] by (simp add: at_eof_def)
qed

lemma sendln_in: "sendln s t = Some (u, t') \<Longrightarrow> t_in t' = t_in t"
  by (drule sendln_frame, cases t, cases t') simp

lemma send_header_in: "send_header s t = Some (u, t') \<Longrightarrow> t_in t' = t_in t"
  by (auto simp: send_header_def Let_def split: if_splits dest: sendln_in dest!: send_in)

lemma write_rows_in [simp]: "t_in (write_rows rs t) = t_in t"
  by (induction rs arbitrary: t) (simp_all add: term_writeln_def term_write_def)

lemma send_menu_in: "send_menu title items text h t = Some (u, t') \<Longrightarrow> t_in t' = t_in t"
  by (auto simp: send_menu_def Let_def split: if_splits bind_splits
      dest!: sendln_in send_header_in send_in)

function prompt_menu :: "string \<Rightarrow> menu_item list \<Rightarrow> string \<Rightarrow> nat \<Rightarrow> nat option \<Rightarrow> string io" where
  "prompt_menu title items text max_len timeout t = do {
     (_, t1) \<leftarrow> send_menu title items text True t;
     (line, t2) \<leftarrow> readline max_len None timeout t1;
     if upper (strip line) = [] then
       (if at_eof t2 then None
        else prompt_menu title items text max_len timeout (reset_menu_state (Some title) t2))
     else Some (upper (strip line), t2) }"
  by pat_completeness auto
termination
  by (relation "measure (\<lambda>(title, items, text, max_len, timeout, t). weight (t_in t))")
    (auto simp: reset_menu_state_def dest!: send_menu_in readline_progress)

declare prompt_menu.simps [simp del]

end
