(* ===== verification/Terminal_Properties.thy ===== *)
theory Terminal_Properties
  imports Terminal
begin

text \<open>
  Properties of the terminal: colour does not change what is shown, output leaves in order and in
  small chunks, the line editor against a reference editor, telnet negotiation, paging and menus.
\<close>

section \<open>Escape sequences\<close>

lemma strip_csi_plain: "ESC \<notin> set p \<Longrightarrow> strip_csi (p @ s) = p @ strip_csi s"
  by (induction p) auto

lemma strip_csi_sequence:
  assumes "list_all (\<lambda>c. \<not> is_letter c) p" and "is_letter l"
  shows "strip_csi (CSI @ p @ l # s) = strip_csi s"
proof -
  have "dropWhile (\<lambda>c. \<not> is_letter c) (p @ l # s) = l # s"
    using dropWhile_all [OF assms(1), of "l # s"] assms(2) by simp
  then show ?thesis by (simp add: CSI_def)
qed

lemma strip_esc_plain: "ESC \<notin> set p \<Longrightarrow> strip_esc p = p"
  by (induction p rule: strip_esc.induct) auto

lemma ESC_code: "code ESC = 27"
  by (simp add: ESC_def code_def)

lemma digit_not_letter: "is_digit c \<Longrightarrow> \<not> is_letter c"
  by (auto simp: is_letter_def char_class_defs)

lemma nat_str_no_letter: "list_all (\<lambda>c. \<not> is_letter c) (nat_str n)"
  using nat_str_digits [of n] by (auto simp: list_all_iff digit_not_letter)

lemma letter_m: "is_letter CHR ''m''" and semicolon_no_letter: "\<not> is_letter CHR '';''"
  by (simp_all add: is_letter_def char_class_defs code_def)

lemma digits_no_letter: "list_all (\<lambda>c. \<not> is_letter c) ''38;2;'' \<and> list_all (\<lambda>c. \<not> is_letter c) ''48;2;''
    \<and> list_all (\<lambda>c. \<not> is_letter c) ''0'' \<and> list_all (\<lambda>c. \<not> is_letter c) ''1''"
  by (simp add: is_letter_def char_class_defs code_def)

lemma strip_csi_bold [simp]: "strip_csi (BOLD @ s) = strip_csi s"
  using strip_csi_sequence [of "''1''" "CHR ''m''" s] letter_m digits_no_letter
  by (simp add: BOLD_def)

lemma strip_csi_reset [simp]: "strip_csi (RESET @ s) = strip_csi s"
  using strip_csi_sequence [of "''0''" "CHR ''m''" s] letter_m digits_no_letter
  by (simp add: RESET_def)

lemma strip_csi_fg_code [simp]: "strip_csi (fg_code c @ s) = strip_csi s"
  using strip_csi_sequence [of "nat_str ((if c < 8 then 30 else 90) + c mod 8)" "CHR ''m''" s]
    letter_m nat_str_no_letter by (simp add: fg_code_def)

lemma strip_csi_bg_code [simp]: "strip_csi (bg_code c @ s) = strip_csi s"
  using strip_csi_sequence [of "nat_str ((if c < 8 then 40 else 100) + c mod 8)" "CHR ''m''" s]
    letter_m nat_str_no_letter by (simp add: bg_code_def)

lemma rgb_no_letter:
  "list_all (\<lambda>c. \<not> is_letter c) (nat_str r @ '';'' @ nat_str g @ '';'' @ nat_str b)"
  using nat_str_no_letter semicolon_no_letter by simp

lemma strip_csi_fg_rgb [simp]: "strip_csi (fg_rgb r g b @ s) = strip_csi s"
  using strip_csi_sequence [of "''38;2;'' @ nat_str r @ '';'' @ nat_str g @ '';'' @ nat_str b" "CHR ''m''" s]
    letter_m rgb_no_letter digits_no_letter by (simp add: fg_rgb_def)

lemma strip_csi_bg_rgb [simp]: "strip_csi (bg_rgb r g b @ s) = strip_csi s"
  using strip_csi_sequence [of "''48;2;'' @ nat_str r @ '';'' @ nat_str g @ '';'' @ nat_str b" "CHR ''m''" s]
    letter_m rgb_no_letter digits_no_letter by (simp add: bg_rgb_def)

text \<open>A text made of escape sequences and plain pieces shows the plain pieces.\<close>

definition shows_as :: "string \<Rightarrow> string \<Rightarrow> bool" where
  "shows_as s p \<longleftrightarrow> ESC \<notin> set p \<and> (\<forall>r. strip_csi (s @ r) = p @ strip_csi r)"

lemma shows_as_visible: "shows_as s p \<Longrightarrow> visible s = p"
proof -
  assume s: "shows_as s p"
  then have "strip_csi (s @ []) = p @ strip_csi []" unfolding shows_as_def by blast
  then show ?thesis using s by (simp add: visible_def strip_esc_plain shows_as_def)
qed

lemma shows_as_plain [intro]: "ESC \<notin> set p \<Longrightarrow> shows_as p p"
  by (simp add: shows_as_def strip_csi_plain)

lemma shows_as_append [intro]: "shows_as s p \<Longrightarrow> shows_as t q \<Longrightarrow> shows_as (s @ t) (p @ q)"
  by (simp add: shows_as_def)

lemma shows_as_codes [simp]:
  "shows_as BOLD []" "shows_as RESET []" "shows_as (fg_code c) []" "shows_as (bg_code c) []"
  "shows_as (fg_rgb r g b) []" "shows_as (bg_rgb r g b) []" "shows_as [] []"
  by (simp_all add: shows_as_def)

lemma shows_as_wrap: "shows_as s p \<Longrightarrow> shows_as a [] \<Longrightarrow> shows_as b [] \<Longrightarrow> shows_as (a @ s @ b) p"
  using shows_as_append [of a "[]" "s @ b" "p @ []"] shows_as_append [of s p b "[]"] by simp

lemma palette_codes: "map_of (palette t) tone = Some p \<Longrightarrow> shows_as p []"
  by (auto dest!: map_of_SomeD simp: palette_def split: if_splits)

lemma style_shows: "ESC \<notin> set s \<Longrightarrow> shows_as (style t s tone bold) s"
proof -
  assume s: "ESC \<notin> set s"
  define p where "p = (case map_of (palette t) tone of None \<Rightarrow> [] | Some p \<Rightarrow> p)"
  have p: "shows_as p []" by (auto simp: p_def palette_codes split: option.split)
  have q: "shows_as (p @ (if bold then BOLD else [])) []"
    using shows_as_append [OF p, of "if bold then BOLD else []" "[]"] by simp
  show ?thesis
    using s shows_as_wrap [OF shows_as_plain [OF s] q, of RESET]
    by (auto simp: style_def Let_def p_def [symmetric])
qed

lemma key_style_shows: "ESC \<notin> set k \<Longrightarrow> shows_as (key_style t k) (''['' @ k @ '']'')"
proof -
  assume k: "ESC \<notin> set k"
  have a: "shows_as ''['' ''[''" "shows_as '']'' '']''" by (auto simp: ESC_def)
  have w: "shows_as (''['' @ ((BOLD @ c) @ k @ RESET) @ '']'') (''['' @ k @ '']'')" if c: "shows_as c []" for c
  proof (intro shows_as_append a)
    show "shows_as ((BOLD @ c) @ k @ RESET) k"
      using shows_as_append [of BOLD "[]" c "[]"] c by (intro shows_as_wrap shows_as_plain k) auto
  qed
  show ?thesis
    using w [of "fg_rgb 110 223 255"] w [of "fg_code 14"] shows_as_append [OF a(1) shows_as_append [OF shows_as_plain [OF k] a(2)]]
    by (auto simp: key_style_def)
qed

text \<open>Menu cells and lines: what is shown does not depend on the mode.\<close>

definition plain_cell :: "menu_item \<Rightarrow> string" where
  "plain_cell item = ''['' @ fst item @ ''] '' @ snd item"

lemma menu_cell_shows: "ESC \<notin> set (fst i) \<Longrightarrow> ESC \<notin> set (snd i) \<Longrightarrow> shows_as (menu_cell t i) (plain_cell i)"
proof -
  assume i: "ESC \<notin> set (fst i)" "ESC \<notin> set (snd i)"
  have p: "shows_as (plain_cell i) (plain_cell i)"
    using i by (intro shows_as_plain) (auto simp: plain_cell_def ESC_def)
  have b: "shows_as ('' '' @ snd i) ('' '' @ snd i)"
    using i by (intro shows_as_plain) (auto simp: ESC_def)
  show ?thesis
    using p shows_as_append [OF key_style_shows [OF i(1)] b] by (simp add: menu_cell_def plain_cell_def)
qed

definition clean_item :: "menu_item \<Rightarrow> bool" where
  "clean_item i \<longleftrightarrow> ESC \<notin> set (fst i) \<and> ESC \<notin> set (snd i)"

definition plain_line :: "int \<Rightarrow> menu_item \<times> menu_item \<Rightarrow> string" where
  "plain_line width row =
     ''  '' @ plain_cell (fst row)
       @ replicate (nat (width div 2 - 2 - int (length (plain_cell (fst row))))) CHR 0x20
       @ ''  '' @ (if fst (snd row) \<noteq> [] then plain_cell (snd row) else [])"

lemma blanks_show: "shows_as (replicate n CHR 0x20) (replicate n CHR 0x20)" "shows_as ''  '' ''  ''"
  by (auto intro!: shows_as_plain simp: ESC_def)

lemma menu_line_shows:
  assumes "clean_item (fst row)" and "clean_item (snd row)"
  shows "shows_as (menu_line t row) (plain_line (t_width t) row)"
proof -
  have l: "shows_as (menu_cell t (fst row)) (plain_cell (fst row))"
    using assms(1) by (intro menu_cell_shows) (auto simp: clean_item_def)
  have r: "shows_as (menu_cell t (snd row)) (plain_cell (snd row))"
    using assms(2) by (intro menu_cell_shows) (auto simp: clean_item_def)
  then have r': "shows_as (if fst (snd row) \<noteq> [] then menu_cell t (snd row) else [])
      (if fst (snd row) \<noteq> [] then plain_cell (snd row) else [])"
    by simp
  show ?thesis
    unfolding menu_line_def plain_line_def Let_def visible_len_def shows_as_visible [OF l]
    by (intro shows_as_append l r' blanks_show)
qed

text \<open>No item is lost in the two columns, and none is added but blank ones.\<close>

lemma menu_rows_columns:
  "map fst (menu_rows items) @ take (length items div 2) (map snd (menu_rows items)) = items"
proof -
  define half where "half = (length items + 1) div 2"
  have len: "half = length (take half items)"
    "length (drop half items @ replicate (half - length (drop half items)) ([], [])) = half"
    by (simp_all add: half_def)
  have r: "menu_rows items = zip (take half items)
      (drop half items @ replicate (half - length (drop half items)) ([], []))"
    by (simp add: menu_rows_def half_def Let_def)
  have h: "length items div 2 = length (drop half items)" by (simp add: half_def)
  show ?thesis
    unfolding r using len by (simp add: h)
qed

text \<open>
  Colour never changes what a menu shows: in every colour mode a menu line shows exactly the
  plain line (two cells, the left one padded to the column), and the two columns hold every item of
  the menu once, in order.
\<close>

theorem menu_shows_same_in_every_mode:
  assumes "list_all clean_item items"
  shows "map (visible \<circ> menu_line t) (menu_rows items) = map (plain_line (t_width t)) (menu_rows items)
    \<and> map fst (menu_rows items) @ take (length items div 2) (map snd (menu_rows items)) = items"
proof -
  have "clean_item (fst row) \<and> clean_item (snd row)" if "row \<in> set (menu_rows items)" for row
  proof -
    obtain x y where row: "row = (x, y)" by (cases row)
    have "x \<in> set items \<and> (y \<in> set items \<or> y = ([], []))"
      using that [unfolded row menu_rows_def Let_def]
      by (elim in_set_zipE) (auto dest: in_set_takeD in_set_dropD)
    then show ?thesis using assms row by (auto simp: list_all_iff clean_item_def)
  qed
  then show ?thesis
    using menu_rows_columns by (auto intro!: shows_as_visible menu_line_shows)
qed

lemma menu_shows_same_in_every_mode_witness:
  "visible (menu_line ((terminal_init [] (\<lambda>_. True) (Mode TRUECOLOR) 20 24 True False [CR, LF])) ((''B'', ''News''), (''C'', ''Chat'')))
     = ''  [B] News  [C] Chat''"
proof -
  define t where "t = terminal_init [] (\<lambda>_. True) (Mode TRUECOLOR) 20 24 True False [CR, LF]"
  have i: "list_all clean_item [(''B'', ''News''), (''C'', ''Chat'')]" by code_simp
  have r: "menu_rows [(''B'', ''News''), (''C'', ''Chat'')] = [((''B'', ''News''), (''C'', ''Chat''))]" by code_simp
  have "t_width t = 20" by (simp add: t_def terminal_init_def)
  then have "plain_line (t_width t) ((''B'', ''News''), (''C'', ''Chat'')) = ''  [B] News  [C] Chat''"
    by (simp add: plain_line_def plain_cell_def)
  then show ?thesis
    using menu_shows_same_in_every_mode [OF i, of t] by (simp add: r t_def)
qed

section \<open>Output\<close>

text \<open>The drain returns in time after each of these chunks.\<close>

definition drains :: "terminal \<Rightarrow> bytes list \<Rightarrow> bool" where
  "drains t cs \<longleftrightarrow> (\<forall>k < length cs. t_drain t (t_sent t @ take (Suc k) cs))"

lemma drains_Nil [simp]: "drains t []"
  by (simp add: drains_def)

lemma drains_Cons:
  "drains t (c # cs) \<longleftrightarrow> t_drain t (t_sent t @ [c]) \<and> drains (t\<lparr>t_buf := b, t_sent := t_sent t @ [c]\<rparr>) cs"
  by (auto simp: drains_def less_Suc_eq_0_disj)

lemma flush_fragments:
  "term_flush t =
     (if drains t (fragments MAX_CHUNK (t_buf t))
      then Some ((), t\<lparr>t_buf := [], t_sent := t_sent t @ fragments MAX_CHUNK (t_buf t)\<rparr>) else None)"
proof (induction t rule: term_flush.induct)
  case (1 t)
  show ?case
  proof (cases "t_buf t = []")
    case True
    then show ?thesis by (subst term_flush.simps) (simp add: fragments.simps)
  next
    case False
    have f: "fragments MAX_CHUNK (t_buf t) = take MAX_CHUNK (t_buf t) # fragments MAX_CHUNK (drop MAX_CHUNK (t_buf t))"
      using False by (subst fragments.simps) (simp add: MAX_CHUNK_def)
    show ?thesis
    proof (cases "t_drain t (t_sent t @ [take MAX_CHUNK (t_buf t)])")
      case True
      note ih = "1.IH" [OF False refl refl True]
      show ?thesis
        using False True ih
        by (subst term_flush.simps)
          (simp add: f drains_Cons [where b = "drop MAX_CHUNK (t_buf t)"] Let_def)
    next
      case drain: False
      then show ?thesis
        using False by (subst term_flush.simps)
          (simp add: f drains_Cons [where b = "drop MAX_CHUNK (t_buf t)"] Let_def)
    qed
  qed
qed

text \<open>
  A flush sends exactly what was buffered: the chunks it hands to the writer are not empty, at
  most 256 bytes long, and together the buffered bytes in order; it returns exactly when the writer
  drained after each of them, and raises otherwise.
\<close>

theorem flush_sends_buffer:
  "(term_flush t = None \<longleftrightarrow> \<not> drains t (fragments MAX_CHUNK (t_buf t)))
   \<and> (\<forall>u t'. term_flush t = Some (u, t') \<longrightarrow>
       (\<exists>chunks. t_sent t' = t_sent t @ chunks \<and> concat chunks = t_buf t
         \<and> list_all (\<lambda>c. c \<noteq> [] \<and> length c \<le> 256) chunks) \<and> t_buf t' = [])"
proof -
  have "list_all (\<lambda>c. c \<noteq> [] \<and> length c \<le> 256) (fragments MAX_CHUNK (t_buf t))"
    using fragments_length [of _ MAX_CHUNK "t_buf t"] by (auto simp: list_all_iff MAX_CHUNK_def)
  moreover have "concat (fragments MAX_CHUNK (t_buf t)) = t_buf t"
    by (rule concat_fragments) (simp add: MAX_CHUNK_def)
  ultimately show ?thesis
    by (auto simp: flush_fragments split: if_splits)
qed

definition terminal_example :: "arrival list \<Rightarrow> terminal" where
  "terminal_example i = terminal_init i (\<lambda>_. True) No_mode 80 24 True False [CR, LF]"

lemma flush_sends_buffer_witness:
  "\<exists>u t'. term_flush (term_writeln ''Hi'' (terminal_example [])) = Some (u, t')
     \<and> t_sent t' = [[0x48, 0x69, 0x0D, 0x0A]]"
proof -
  define t where "t = term_writeln ''Hi'' (terminal_example [])"
  have buf: "t_buf t = [0x48, 0x69, 0x0D, 0x0A]" "t_sent t = []" "t_drain t = (\<lambda>_. True)"
    by (simp_all add: t_def terminal_example_def terminal_init_def term_writeln_def term_write_def term_encode_def
      color_mode_of_def visible_def encode_ascii_def is_ascii_def ord_of_def code_def ESC_def)
  have fr: "fragments MAX_CHUNK (t_buf t) = [[0x48, 0x69, 0x0D, 0x0A]]"
    unfolding buf by (simp add: fragments.simps MAX_CHUNK_def)
  have "term_flush t \<noteq> None"
    using flush_sends_buffer [of t] by (simp add: fr drains_def buf)
  then show ?thesis
    unfolding t_def [symmetric] using fr buf by (auto simp: flush_fragments split: if_splits)
qed

section \<open>The line editor\<close>

text \<open>A drain that never fails, and what is sent then.\<close>

definition always_drains :: "terminal \<Rightarrow> bool" where
  "always_drains t \<longleftrightarrow> (\<forall>cs. t_drain t cs)"

lemma send_always:
  "always_drains t \<Longrightarrow>
     send s t = Some ((), t\<lparr>t_buf := [], t_sent := t_sent t @ fragments MAX_CHUNK (t_buf t @ term_encode t s)\<rparr>)"
  by (simp add: send_def flush_fragments drains_def always_drains_def term_write_def)

text \<open>The reference editor: one key after the other, on the line typed so far.\<close>

definition key :: "nat \<Rightarrow> string \<Rightarrow> char \<Rightarrow> string" where
  "key n buf c = (if c = BS \<or> c = DEL then butlast buf
     else if length buf < n \<and> is_printable c then buf @ [c] else buf)"

definition typed :: "nat \<Rightarrow> string \<Rightarrow> string \<Rightarrow> string" where
  "typed n buf cs = foldl (key n) buf cs"

text \<open>What the editor echoes for these keys.\<close>

fun echoed :: "nat \<Rightarrow> string \<Rightarrow> string \<Rightarrow> string" where
  "echoed n buf [] = []"
| "echoed n buf (c # cs) =
     (if c = BS \<or> c = DEL then (if buf \<noteq> [] then [BS, CHR 0x20, BS] else [])
      else if length buf < n \<and> is_printable c then [c] else []) @ echoed n (key n buf c) cs"

text \<open>A byte a user types inside a line: none that ends it, no Ctrl-C, no telnet command.\<close>

definition plain_key :: "byte \<Rightarrow> bool" where
  "plain_key b \<longleftrightarrow> b \<noteq> 0x0D \<and> b \<noteq> 0x0A \<and> b \<noteq> 0x03 \<and> b \<noteq> 0xFF"

lemma readchar_plain:
  assumes "t_in t = Byte b # j" and "b \<noteq> 0xFF"
  shows "readchar None t = (Some (if b < 128 then chr_of b else replacement), t\<lparr>t_in := j\<rparr>)"
  using assms by (subst readchar.simps) (simp add: wait_opt_def term_read_def)

lemma term_read_silence:
  "t_in t = Silence w # j \<Longrightarrow> term_read None t = term_read None (t\<lparr>t_in := j, t_clock := t_clock t + w\<rparr>)"
  by (simp add: term_read_def split: prod.split)

lemma readchar_silence:
  "t_in t = Silence w # j \<Longrightarrow> readchar None t = readchar None (t\<lparr>t_in := j, t_clock := t_clock t + w\<rparr>)"
  by (subst (1 2) readchar.simps) (simp only: wait_opt_def term_read_silence option.simps if_False)

lemma decode_Cons: "decode_ascii (b # bs) = (if b < 128 then chr_of b else replacement) # decode_ascii bs"
  by (simp add: decode_ascii_def)

lemma chr_of_eq_iff: "chr_of b = c \<longleftrightarrow> b = ord_of c"
  by (metis chr_ord ord_chr)

definition key_char :: "byte \<Rightarrow> char" where
  "key_char b = (if b < 128 then chr_of b else replacement)"

lemma decode_ascii_key: "decode_ascii bs = map key_char bs"
  by (simp add: decode_ascii_def key_char_def)

lemma plain_key_char:
  assumes "plain_key b" shows "key_char b \<noteq> CR" "key_char b \<noteq> LF" "key_char b \<noteq> ETX"
  using assms
  by (simp_all add: plain_key_def key_char_def chr_of_eq_iff replacement_def ord_of_def code_def)

lemma printable_not_ESC: "is_printable c \<Longrightarrow> c \<noteq> ESC"
  by (auto simp: is_printable_def ESC_code)

lemma encode_plain: "ESC \<notin> set s \<Longrightarrow> term_encode t s = encode_ascii s"
  using shows_as_visible [OF shows_as_plain, of s] by (simp add: term_encode_def)

lemma when_send_always:
  assumes "always_drains t" and "t_buf t = []" and "ESC \<notin> set s"
  obtains chunks where "when_io e (send s) t = Some ((), t\<lparr>t_sent := t_sent t @ chunks\<rparr>)"
    and "concat chunks = (if e then encode_ascii s else [])"
proof (rule that)
  show "when_io e (send s) t = Some ((), t\<lparr>t_sent := t_sent t @ (if e then fragments MAX_CHUNK (encode_ascii s) else [])\<rparr>)"
    using assms by (simp add: when_io_def send_always encode_plain)
  show "concat (if e then fragments MAX_CHUNK (encode_ascii s) else []) = (if e then encode_ascii s else [])"
    by (simp add: concat_fragments MAX_CHUNK_def)
qed

text \<open>One key that does not end the line.\<close>

lemma edit_char_key:
  assumes "always_drains t" and "t_buf t = []" and "c \<noteq> CR" and "c \<noteq> LF" and "c \<noteq> ETX"
  obtains chunks where
    "edit_char n e c buf t = Some ((key n buf c, False), t\<lparr>t_sent := t_sent t @ chunks\<rparr>)"
    and "concat chunks = (if e then encode_ascii (echoed n buf [c]) else [])"
proof (cases "c = BS \<or> c = DEL")
  case True
  show ?thesis
  proof (cases "buf = []")
    case True
    with \<open>c = BS \<or> c = DEL\<close> show ?thesis
      by (intro that [of "[]"]) (auto simp: edit_char_def key_def encode_ascii_def)
  next
    case False
    obtain chunks where "when_io e (send [BS, CHR 0x20, BS]) t = Some ((), t\<lparr>t_sent := t_sent t @ chunks\<rparr>)"
      "concat chunks = (if e then encode_ascii [BS, CHR 0x20, BS] else [])"
      using when_send_always [OF assms(1,2), of "[BS, CHR 0x20, BS]" e] by (auto simp: ESC_def)
    with True False show ?thesis
      by (intro that [of chunks]) (auto simp: edit_char_def key_def)
  qed
next
  case nbs: False
  show ?thesis
  proof (cases "length buf < n \<and> is_printable c")
    case True
    obtain chunks where "when_io e (send [c]) t = Some ((), t\<lparr>t_sent := t_sent t @ chunks\<rparr>)"
      "concat chunks = (if e then encode_ascii [c] else [])"
      using when_send_always [OF assms(1,2), of "[c]" e] printable_not_ESC [of c] True by auto
    with True nbs assms show ?thesis
      by (intro that [of chunks]) (auto simp: edit_char_def key_def)
  next
    case False
    with nbs assms show ?thesis
      by (intro that [of "[]"]) (auto simp: edit_char_def key_def encode_ascii_def)
  qed
qed

lemma echoed_Cons: "echoed n buf (c # cs) = echoed n buf [c] @ echoed n (key n buf c) cs"
  by simp

lemma encode_append: "encode_ascii (s @ t) = encode_ascii s @ encode_ascii t"
  by (simp add: encode_ascii_def)

text \<open>All the keys before a point of the input, whatever the pauses between them.\<close>

lemma readline_loop_keys:
  assumes "t_in t = i @ r" and "list_all plain_key (bytes_of i)" and "always_drains t" and "t_buf t = []"
  shows "\<exists>chunks. concat chunks = (if e then encode_ascii (echoed n buf (decode_ascii (bytes_of i))) else [])
    \<and> readline_loop n e None buf t = readline_loop n e None (typed n buf (decode_ascii (bytes_of i)))
        (t\<lparr>t_in := r, t_clock := t_clock t + waiting_for i, t_sent := t_sent t @ chunks\<rparr>)"
  using assms
proof (induction i arbitrary: buf t rule: bytes_of.induct)
  case 1
  then have "t\<lparr>t_in := r, t_clock := t_clock t + waiting_for [], t_sent := t_sent t @ []\<rparr> = t"
    by simp
  then show ?case by (intro exI [of _ "[]"]) (simp add: typed_def decode_ascii_def encode_ascii_def)
next
  case (2 b i)
  have b: "plain_key b" "list_all plain_key (bytes_of i)" using 2 by simp_all
  define t1 where "t1 = t\<lparr>t_in := i @ r\<rparr>"
  have rc: "readchar None t = (Some (key_char b), t1)"
    using readchar_plain [of t b "i @ r"] 2 b by (simp add: key_char_def plain_key_def t1_def)
  have t1: "always_drains t1" "t_buf t1 = []" using 2 by (simp_all add: t1_def always_drains_def)
  obtain chunks where ed: "edit_char n e (key_char b) buf t1 =
      Some ((key n buf (key_char b), False), t1\<lparr>t_sent := t_sent t1 @ chunks\<rparr>)"
    and ch: "concat chunks = (if e then encode_ascii (echoed n buf [key_char b]) else [])"
    by (rule edit_char_key [OF t1 plain_key_char [OF b(1)]])
  define t2 where "t2 = t1\<lparr>t_sent := t_sent t1 @ chunks\<rparr>"
  have t2: "t_in t2 = i @ r" "always_drains t2" "t_buf t2 = []"
    using t1 by (simp_all add: t2_def t1_def always_drains_def)
  obtain chunks' where ch': "concat chunks' = (if e then encode_ascii (echoed n (key n buf (key_char b)) (decode_ascii (bytes_of i))) else [])"
    and ih: "readline_loop n e None (key n buf (key_char b)) t2 =
      readline_loop n e None (typed n (key n buf (key_char b)) (decode_ascii (bytes_of i)))
        (t2\<lparr>t_in := r, t_clock := t_clock t2 + waiting_for i, t_sent := t_sent t2 @ chunks'\<rparr>)"
    using "2.IH" [OF t2(1) b(2) t2(2,3)] by blast
  have "readline_loop n e None buf t = readline_loop n e None (key n buf (key_char b)) t2"
    by (subst readline_loop.simps) (simp add: rc ed t2_def)
  with ih have "readline_loop n e None buf t =
      readline_loop n e None (typed n buf (decode_ascii (bytes_of (Byte b # i))))
        (t\<lparr>t_in := r, t_clock := t_clock t + waiting_for (Byte b # i), t_sent := t_sent t @ chunks @ chunks'\<rparr>)"
    by (simp add: typed_def decode_ascii_key t2_def t1_def)
  moreover have "concat (chunks @ chunks') =
      (if e then encode_ascii (echoed n buf (decode_ascii (bytes_of (Byte b # i)))) else [])"
  proof -
    have "decode_ascii (bytes_of (Byte b # i)) = key_char b # decode_ascii (bytes_of i)"
      by (simp add: decode_ascii_key)
    then show ?thesis
      using ch ch' echoed_Cons [of n buf "key_char b" "decode_ascii (bytes_of i)"]
      by (cases e) (simp_all only: concat_append encode_append if_True if_False append_Nil)
  qed
  ultimately show ?case by blast
next
  case (3 w i)
  define t1 where "t1 = t\<lparr>t_in := i @ r, t_clock := t_clock t + w\<rparr>"
  have t1: "t_in t1 = i @ r" "always_drains t1" "t_buf t1 = []"
    using 3 by (simp_all add: t1_def always_drains_def)
  have "readchar None t = readchar None t1"
    using readchar_silence [of t w "i @ r"] 3 by (simp add: t1_def)
  then have "readline_loop n e None buf t = readline_loop n e None buf t1"
    by (simp add: readline_loop.simps [of n e None buf t] readline_loop.simps [of n e None buf t1])
  moreover have "list_all plain_key (bytes_of i)" using "3.prems" by simp
  note "3.IH" [OF t1(1) this t1(2,3), of buf]
  ultimately show ?case
    by (cases e) (simp_all add: t1_def add.assoc)
qed

text \<open>The byte that comes within 50 ms, if one does.\<close>

definition next_soon :: "arrival list \<Rightarrow> byte option" where
  "next_soon r = (case read1 (Some 50) 0 r of (Got b, _) \<Rightarrow> Some b | _ \<Rightarrow> None)"

lemma read1_now: "fst (read1 d now i) = fst (read1 d 0 i)" "snd (snd (read1 d now i)) = snd (snd (read1 d 0 i))"
proof -
  have "fst (read1 d now i) = fst (read1 d m i) \<and> snd (snd (read1 d now i)) = snd (snd (read1 d m i))" for m
  proof (induction d now i arbitrary: m rule: read1.induct)
    case (3 now w i)
    show ?case unfolding read1.simps by (rule 3)
  next
    case (4 d now w i)
    show ?case
    proof (cases "w < d")
      case True
      show ?thesis unfolding read1.simps if_P [OF True] by (rule 4 [OF True])
    qed simp
  qed simp_all
  from this [of 0] show "fst (read1 d now i) = fst (read1 d 0 i)" "snd (snd (read1 d now i)) = snd (snd (read1 d 0 i))"
    by simp_all
qed

lemma next_soon_read:
  assumes "read1 (Some 50) m i = (g, m', j)"
  shows "next_soon i = (case g of Got b \<Rightarrow> Some b | _ \<Rightarrow> None)"
proof -
  have "fst (read1 (Some 50) 0 i) = g" using read1_now(1) [of "Some 50" m i] assms by simp
  then show ?thesis by (cases "read1 (Some 50) 0 i") (simp add: next_soon_def split: got.split)
qed

lemma peek_complement_next:
  assumes "next_soon (t_in t) = None \<or> next_soon (t_in t) = Some c"
  obtains j m where "peek_complement c t = Some ((), t\<lparr>t_in := j, t_clock := m\<rparr>)"
    and "bytes_of (t_in t) = (if next_soon (t_in t) = None then bytes_of j else c # bytes_of j)"
proof -
  obtain g m j where r: "read1 (Some 50) (t_clock t) (t_in t) = (g, m, j)"
    by (cases "read1 (Some 50) (t_clock t) (t_in t)")
  note n = next_soon_read [OF r] and b = read1_bytes [OF r]
  show ?thesis
    by (rule that [of m j]; cases g) (use assms n b r in \<open>auto simp: peek_complement_def term_read_def\<close>)
qed

text \<open>The keys of a line, then the key that ends it.\<close>

lemma readline_until:
  assumes "t_in t = i @ Byte b # r" and "b \<noteq> 0xFF" and "list_all plain_key (bytes_of i)"
    and "always_drains t" and "t_buf t = []"
  obtains t1 where "readline n echo None t = (do {
      (res, t2) \<leftarrow> edit_char n ((case echo of None \<Rightarrow> t_echo t | Some e \<Rightarrow> e) \<or> t_must_echo t)
        (key_char b) (typed n [] (decode_ascii (bytes_of i))) t1;
      if snd res then Some (fst res, t2)
      else readline_loop n ((case echo of None \<Rightarrow> t_echo t | Some e \<Rightarrow> e) \<or> t_must_echo t) None (fst res) t2 })"
    and "t_in t1 = r" and "always_drains t1" and "t_buf t1 = []"
    and "concat (t_sent t1) = concat (t_sent t)
      @ (if (case echo of None \<Rightarrow> t_echo t | Some e \<Rightarrow> e) \<or> t_must_echo t
         then encode_ascii (echoed n [] (decode_ascii (bytes_of i))) else [])"
proof -
  define e where "e = ((case echo of None \<Rightarrow> t_echo t | Some e \<Rightarrow> e) \<or> t_must_echo t)"
  obtain chunks where ch: "concat chunks = (if e then encode_ascii (echoed n [] (decode_ascii (bytes_of i))) else [])"
    and run: "readline_loop n e None [] t = readline_loop n e None (typed n [] (decode_ascii (bytes_of i)))
        (t\<lparr>t_in := Byte b # r, t_clock := t_clock t + waiting_for i, t_sent := t_sent t @ chunks\<rparr>)"
    using readline_loop_keys [OF assms(1,3,4,5), of e n "[]"] by blast
  define t0 where "t0 = t\<lparr>t_in := Byte b # r, t_clock := t_clock t + waiting_for i, t_sent := t_sent t @ chunks\<rparr>"
  define t1 where "t1 = t0\<lparr>t_in := r\<rparr>"
  have "readchar None t0 = (Some (key_char b), t1)"
    using readchar_plain [of t0 b r] assms(2) by (simp add: t0_def t1_def key_char_def)
  then have "readline n echo None t = (do {
      (res, t2) \<leftarrow> edit_char n e (key_char b) (typed n [] (decode_ascii (bytes_of i))) t1;
      if snd res then Some (fst res, t2) else readline_loop n e None (fst res) t2 })"
    using run by (simp add: readline_def e_def [symmetric] wait_opt_def t0_def [symmetric] readline_loop.simps [of n e None _ t0])
  moreover have "t_in t1 = r" "always_drains t1" "t_buf t1 = []"
      "concat (t_sent t1) = concat (t_sent t) @ (if e then encode_ascii (echoed n [] (decode_ascii (bytes_of i))) else [])"
    using assms ch by (simp_all add: t1_def t0_def always_drains_def)
  ultimately show ?thesis by (rule that [of t1, folded e_def])
qed

lemma line_editor:
  assumes "t_in t = i @ Byte b # r" and "b = 0x0A \<or> b = 0x0D" and "list_all plain_key (bytes_of i)"
    and "b = 0x0D \<longrightarrow> next_soon r = None \<or> next_soon r = Some 0x0A"
    and "always_drains t" and "t_buf t = []"
  shows "\<exists>t'. readline n echo None t = Some (typed n [] (decode_ascii (bytes_of i)), t')
    \<and> bytes_of (t_in t') = (if b = 0x0D \<and> next_soon r = Some 0x0A then tl (bytes_of r) else bytes_of r)
    \<and> concat (t_sent t') = concat (t_sent t)
      @ (if (case echo of None \<Rightarrow> t_echo t | Some e \<Rightarrow> e) \<or> t_must_echo t
         then encode_ascii (echoed n [] (decode_ascii (bytes_of i)) @ [CR, LF]) else [])"
proof -
  define e where "e = ((case echo of None \<Rightarrow> t_echo t | Some e \<Rightarrow> e) \<or> t_must_echo t)"
  define s where "s = typed n [] (decode_ascii (bytes_of i))"
  have b: "b \<noteq> 0xFF" and kc: "key_char b = (if b = 0x0D then CR else LF)"
    using assms(2) by (auto simp: key_char_def chr_of_eq_iff ord_of_def code_def)
  obtain t1 where run: "readline n echo None t = (do {
      (res, t2) \<leftarrow> edit_char n e (key_char b) s t1;
      if snd res then Some (fst res, t2) else readline_loop n e None (fst res) t2 })"
    and t1: "t_in t1 = r" "always_drains t1" "t_buf t1 = []"
      "concat (t_sent t1) = concat (t_sent t) @ (if e then encode_ascii (echoed n [] (decode_ascii (bytes_of i))) else [])"
    by (rule readline_until [OF assms(1) b assms(3,5,6), of n echo, folded e_def s_def])
  obtain j m where pk: "when_io (key_char b = CR) (peek_complement 0x0A) t1 = Some ((), t1\<lparr>t_in := j, t_clock := m\<rparr>)"
    and j: "bytes_of j = (if b = 0x0D \<and> next_soon r = Some 0x0A then tl (bytes_of r) else bytes_of r)"
  proof (cases "b = 0x0D")
    case False
    show ?thesis by (rule that [of "t_clock t1" r]) (use False kc t1(1) in \<open>simp_all add: when_io_def\<close>)
  next
    case True
    obtain j m where "peek_complement 0x0A t1 = Some ((), t1\<lparr>t_in := j, t_clock := m\<rparr>)"
      and "bytes_of (t_in t1) = (if next_soon (t_in t1) = None then bytes_of j else 0x0A # bytes_of j)"
      by (rule peek_complement_next [of t1 "0x0A"]) (use assms(4) True t1(1) in auto)
    then show ?thesis
      using assms(4) True kc t1(1) by (intro that [of m j]) (auto simp: when_io_def)
  qed
  define t2 where "t2 = t1\<lparr>t_in := j, t_clock := m\<rparr>"
  have t2: "always_drains t2" "t_buf t2 = []" "t_in t2 = j" "t_sent t2 = t_sent t1"
    using t1 by (simp_all add: t2_def always_drains_def)
  obtain chunks where snd: "when_io e (send [CR, LF]) t2 = Some ((), t2\<lparr>t_sent := t_sent t2 @ chunks\<rparr>)"
    and ch: "concat chunks = (if e then encode_ascii [CR, LF] else [])"
    using when_send_always [OF t2(1,2), of "[CR, LF]" e] by (auto simp: ESC_def)
  have nl: "key_char b = CR \<or> key_char b = LF" using kc by simp
  have "edit_char n e (key_char b) s t1 = Some ((s, True), t2\<lparr>t_sent := t_sent t2 @ chunks\<rparr>)"
    using pk snd nl by (simp add: edit_char_def t2_def [symmetric])
  with run have "readline n echo None t = Some (s, t2\<lparr>t_sent := t_sent t2 @ chunks\<rparr>)" by simp
  then show ?thesis
    unfolding e_def [symmetric] s_def [symmetric]
    using t2 t1(4) ch j by (auto simp: encode_append)
qed

text \<open>
  C30. The line editor is the reference editor: whatever the pauses between keys, a line typed
  without telnet commands and Ctrl-C, ended by LF, CR LF or CR and a pause, is returned as the
  reference editor's line (backspace removes, keys past the limit and keys that do not print are
  dropped); the rest of the input is left for the next read; and with echo on, exactly the reference
  echo and a line end were sent.
\<close>

theorem readline_is_line_editor:
  assumes "t_in t = i @ Byte b # r" and "b = 0x0A \<or> b = 0x0D" and "list_all plain_key (bytes_of i)"
    and "b = 0x0D \<longrightarrow> next_soon r = None \<or> next_soon r = Some 0x0A"
    and "always_drains t" and "t_buf t = []"
  shows "\<exists>t'. readline n echo None t = Some (typed n [] (decode_ascii (bytes_of i)), t')
    \<and> bytes_of (t_in t') = (if b = 0x0D \<and> next_soon r = Some 0x0A then tl (bytes_of r) else bytes_of r)
    \<and> concat (t_sent t') = concat (t_sent t)
      @ (if (case echo of None \<Rightarrow> t_echo t | Some e \<Rightarrow> e) \<or> t_must_echo t
         then encode_ascii (echoed n [] (decode_ascii (bytes_of i)) @ [CR, LF]) else [])"
  using assms by (rule line_editor)

lemma readline_is_line_editor_witness:
  "\<exists>t'. readline 80 None None (terminal_example (map Byte [0x48, 0x65, 0x78] @ [Silence 300] @ map Byte [0x08, 0x79, 0x0D, 0x0A, 0x51]))
      = Some (''Hey'', t')
    \<and> bytes_of (t_in t') = [0x51]
    \<and> concat (t_sent t') = encode_ascii [CHR ''H'', CHR ''e'', CHR ''x'', BS, CHR 0x20, BS, CHR ''y'', CR, LF]"
proof -
  define i where "i = map Byte [0x48, 0x65, 0x78] @ [Silence 300] @ map Byte [0x08, 0x79]"
  have b: "bytes_of i = [0x48, 0x65, 0x78, 0x08, 0x79]" by (simp add: i_def)
  have d: "decode_ascii (bytes_of i) = [CHR ''H'', CHR ''e'', CHR ''x'', BS, CHR ''y'']"
    unfolding b by code_simp
  have ty: "typed 80 [] (decode_ascii (bytes_of i)) = ''Hey''"
    unfolding d by code_simp
  have ec: "echoed 80 [] (decode_ascii (bytes_of i)) = [CHR ''H'', CHR ''e'', CHR ''x'', BS, CHR 0x20, BS, CHR ''y'']"
    unfolding d by code_simp
  have t: "t_echo (terminal_example j) = True" "t_buf (terminal_example j) = []" "t_sent (terminal_example j) = []"
    "always_drains (terminal_example j)" "t_in (terminal_example j) = j" for j
    by (simp_all add: terminal_example_def terminal_init_def always_drains_def)
  have n: "next_soon [Byte 0x0A, Byte 0x51] = Some 0x0A" by (simp add: next_soon_def)
  have "list_all plain_key (bytes_of i)" unfolding b by code_simp
  then show ?thesis
    using readline_is_line_editor [of "terminal_example (i @ Byte 0x0D # map Byte [0x0A, 0x51])" i "0x0D"
      "map Byte [0x0A, 0x51]" 80 None]
    by (simp add: t n ty ec) (simp add: i_def)
qed

text \<open>
  Whatever arrives (telnet commands, control characters, timeouts, the end of the stream), a
  line returned is at most as long as the limit and holds printable characters only.
\<close>

theorem readline_bounded:
  assumes "readline n echo d t = Some (s, t')"
  shows "length s \<le> n \<and> list_all is_printable s"
proof -
  have key: "edit_char n e c buf t = Some ((s, fin), t') \<Longrightarrow>
      length buf \<le> n \<and> list_all is_printable buf \<Longrightarrow> length s \<le> n \<and> list_all is_printable s"
    for e c buf t s fin t'
    by (auto simp: edit_char_def list_all_iff dest: in_set_butlastD split: if_splits bind_splits)
  have "length buf \<le> n \<and> list_all is_printable buf \<longrightarrow> length s \<le> n \<and> list_all is_printable s"
    if "readline_loop n e d buf t = Some (s, t')" for e d buf t s t'
    using that
  proof (induction rule: readline_loop_induct)
    case (last buf t w c t1 s t')
    then show ?case using key by blast
  next
    case (step buf t w c t1 buf' t2 s t')
    then show ?case using key by blast
  qed auto
  from this [OF assms [unfolded readline_def]] show ?thesis by simp
qed

lemma readline_bounded_witness:
  "\<exists>s t'. readline 2 (Some False) None (terminal_example (map Byte [0x48, 0x49, 0x1B, 0x4A])) = Some (s, t') \<and> length s \<le> 2"
proof -
  have "readline 2 (Some False) None (terminal_example (map Byte [0x48, 0x49, 0x1B, 0x4A])) \<noteq> None"
    by (simp add: readline_def readline_loop.simps readchar.simps wait_opt_def term_read_def terminal_example_def
      terminal_init_def edit_char_def when_io_def is_printable_def code_def chr_of_def char_of_def)
  then obtain s t' where "readline 2 (Some False) None (terminal_example (map Byte [0x48, 0x49, 0x1B, 0x4A])) = Some (s, t')"
    by force
  with readline_bounded [OF this] show ?thesis by blast
qed

text \<open>A printing terminal: backspace moves the cursor left, anything else overwrites.\<close>

fun paint :: "bytes \<times> nat \<Rightarrow> byte \<Rightarrow> bytes \<times> nat" where
  "paint (row, cursor) b =
     (if b = 0x08 then (row, cursor - 1) else (take cursor row @ [b] @ drop (Suc cursor) row, Suc cursor))"

lemma paint_printable:
  "is_printable c \<Longrightarrow> \<exists>k'. foldl paint (encode_ascii buf @ replicate k 0x20, length buf) (encode_ascii [c])
     = (encode_ascii (buf @ [c]) @ replicate k' 0x20, length (buf @ [c]))"
proof -
  assume c: "is_printable c"
  then have "encode_ascii [c] = [hd (encode_ascii [c])]" "hd (encode_ascii [c]) \<noteq> 0x08"
    by (auto simp: encode_ascii_def is_printable_def word_eq_iff_unsigned unat_ord_of word_unat_eq_iff)
  then obtain b where b: "encode_ascii [c] = [b]" "b \<noteq> 0x08" by metis
  show ?thesis
    by (rule exI [of _ "k - 1"]) (simp add: b encode_append drop_Suc)
qed

lemma encode_butlast: "encode_ascii (butlast s) = butlast (encode_ascii s)"
  by (simp add: encode_ascii_def map_butlast)

lemma paint_backspace:
  assumes "buf \<noteq> []"
  shows "\<exists>k'. foldl paint (encode_ascii buf @ replicate k 0x20, length buf) (encode_ascii [BS, CHR 0x20, BS])
     = (encode_ascii (butlast buf) @ replicate k' 0x20, length (butlast buf))"
proof (rule exI [of _ "Suc k"])
  obtain s c where buf: "buf = s @ [c]" using assms by (cases buf rule: rev_cases) auto
  have e: "encode_ascii [BS, CHR 0x20, BS] = [0x08, 0x20, 0x08]" by code_simp
  show "foldl paint (encode_ascii buf @ replicate k 0x20, length buf) (encode_ascii [BS, CHR 0x20, BS])
     = (encode_ascii (butlast buf) @ replicate (Suc k) 0x20, length (butlast buf))"
    by (simp add: e buf encode_append)
qed

lemma paint_echo:
  "\<exists>blanks. foldl paint ([], 0) (encode_ascii (echoed n [] keys))
     = (encode_ascii (typed n [] keys) @ replicate blanks 0x20, length (typed n [] keys))"
proof -
  have "\<exists>k'. foldl paint (encode_ascii buf @ replicate k 0x20, length buf) (encode_ascii (echoed n buf keys))
      = (encode_ascii (typed n buf keys) @ replicate k' 0x20, length (typed n buf keys))" for buf k
  proof (induction keys arbitrary: buf k)
    case Nil
    then show ?case by (auto simp: typed_def encode_ascii_def)
  next
    case (Cons c keys)
    have "\<exists>k'. foldl paint (encode_ascii buf @ replicate k 0x20, length buf) (encode_ascii (echoed n buf [c]))
        = (encode_ascii (key n buf c) @ replicate k' 0x20, length (key n buf c))"
      using paint_backspace [of buf k] paint_printable [of c buf k]
      by (auto simp: key_def simp del: foldl_Cons) (simp_all add: encode_ascii_def)
    then obtain k' where k': "foldl paint (encode_ascii buf @ replicate k 0x20, length buf) (encode_ascii (echoed n buf [c]))
        = (encode_ascii (key n buf c) @ replicate k' 0x20, length (key n buf c))" ..
    have "typed n buf (c # keys) = typed n (key n buf c) keys" by (simp add: typed_def)
    then show ?case
      unfolding echoed_Cons [of n buf c keys] encode_append foldl_append k' using Cons.IH by simp
  qed
  from this [of "[]" 0] show ?thesis by (simp add: encode_ascii_def)
qed

text \<open>
  What the user sees is what the program gets: with echo on, the bytes the line editor sends while
  a line is typed (backspaces included), painted on an empty row, leave exactly the line it returns
  there (a character that is not ASCII shows as a question mark), followed only by blanks, with the
  cursor at its end; then comes a line end.
\<close>

theorem echo_shows_line:
  assumes "t_in t = i @ Byte b # r" and "b = 0x0A \<or> b = 0x0D" and "list_all plain_key (bytes_of i)"
    and "b = 0x0D \<longrightarrow> next_soon r = None \<or> next_soon r = Some 0x0A"
    and "always_drains t" and "t_buf t = []"
  shows "\<exists>s t' shown blanks. readline n (Some True) None t = Some (s, t')
    \<and> concat (t_sent t') = concat (t_sent t) @ shown @ [0x0D, 0x0A]
    \<and> foldl paint ([], 0) shown = (encode_ascii s @ replicate blanks 0x20, length s)"
proof -
  define keys where "keys = decode_ascii (bytes_of i)"
  obtain t' where "readline n (Some True) None t = Some (typed n [] keys, t')"
      "concat (t_sent t') = concat (t_sent t) @ encode_ascii (echoed n [] keys @ [CR, LF])"
    using line_editor [OF assms, of n "Some True"] by (auto simp: keys_def)
  moreover have "encode_ascii [CR, LF] = [0x0D, 0x0A]" by code_simp
  moreover obtain blanks where "foldl paint ([], 0) (encode_ascii (echoed n [] keys))
      = (encode_ascii (typed n [] keys) @ replicate blanks 0x20, length (typed n [] keys))"
    using paint_echo by blast
  ultimately show ?thesis
    by (intro exI [of _ "typed n [] keys"] exI [of _ t'] exI [of _ "encode_ascii (echoed n [] keys)"] exI [of _ blanks])
      (simp add: encode_append)
qed

lemma echo_shows_line_witness:
  "\<exists>s t' shown blanks. readline 4 (Some True) None (terminal_example (map Byte [0x61, 0x62, 0x08, 0x63, 0x0A])) = Some (s, t')
    \<and> concat (t_sent t') = shown @ [0x0D, 0x0A]
    \<and> foldl paint ([], 0) shown = (encode_ascii s @ replicate blanks 0x20, length s)"
proof -
  have "list_all plain_key (bytes_of (map Byte [0x61, 0x62, 0x08, 0x63]))" by code_simp
  then show ?thesis
    using echo_shows_line [of "terminal_example (map Byte [0x61, 0x62, 0x08, 0x63, 0x0A])" "map Byte [0x61, 0x62, 0x08, 0x63]" "0x0A" "[]" 4]
    by (simp add: terminal_example_def terminal_init_def always_drains_def)
qed

text \<open>
  C33. A line typed ahead after a bare CR is reordered: the byte read after the CR goes behind the
  bytes that have arrived, not in front of them, so the next lines start without it; and when the end
  of the stream has arrived too, putting it back raises, and the line just typed is lost.
\<close>

theorem typeahead_reordered:
  assumes "t_in t = i @ map Byte (0x0D # c # cs) @ q" and "c \<noteq> 0x0A" and "list_all plain_key (bytes_of i)"
    and "q = [] \<or> (\<exists>w q'. q = Silence w # q')" and "always_drains t" and "t_buf t = []"
  shows "if q = [] then readline n echo None t = None
    else \<exists>t'. readline n echo None t = Some (typed n [] (decode_ascii (bytes_of i)), t')
      \<and> t_in t' = map Byte (cs @ [c]) @ q"
proof -
  define e where "e = ((case echo of None \<Rightarrow> t_echo t | Some e \<Rightarrow> e) \<or> t_must_echo t)"
  define s where "s = typed n [] (decode_ascii (bytes_of i))"
  have tin: "t_in t = i @ Byte 0x0D # map Byte (c # cs) @ q" using assms(1) by simp
  have kc: "key_char 0x0D = CR" by code_simp
  obtain t1 where run: "readline n echo None t = (do {
      (res, t2) \<leftarrow> edit_char n e (key_char 0x0D) s t1;
      if snd res then Some (fst res, t2) else readline_loop n e None (fst res) t2 })"
    and t1: "t_in t1 = map Byte (c # cs) @ q" "always_drains t1" "t_buf t1 = []"
    by (rule readline_until [OF tin _ assms(3,5,6), of n echo, folded e_def s_def]) auto
  define t2 where "t2 = t1\<lparr>t_in := map Byte cs @ q\<rparr>"
  have pk: "peek_complement 0x0A t1 = feed_back c t2"
    using t1(1) assms(2) by (simp add: peek_complement_def term_read_def t2_def)
  have allb: "list_all is_byte (map Byte cs)" by (simp add: list_all_iff is_byte_def)
  show ?thesis
  proof (cases "q = []")
    case True
    then have "feed_back c t2 = None" using allb by (simp add: feed_back_def t2_def)
    then show ?thesis
      using True run kc pk by (simp add: edit_char_def when_io_def)
  next
    case False
    then obtain w q' where q: "q = Silence w # q'" using assms(4) by auto
    define t3 where "t3 = t2\<lparr>t_in := map Byte (cs @ [c]) @ q\<rparr>"
    have "takeWhile is_byte (map Byte cs @ q) = map Byte cs" "dropWhile is_byte (map Byte cs @ q) = q"
      using takeWhile_all [OF allb, of q] dropWhile_all [OF allb, of q] by (simp_all add: q is_byte_def)
    moreover have "\<not> list_all is_byte (map Byte cs @ q)" by (simp add: q is_byte_def)
    ultimately have fb: "feed_back c t2 = Some ((), t3)"
      by (simp add: feed_back_def t2_def t3_def)
    have t3: "always_drains t3" "t_buf t3 = []" using t1 by (simp_all add: t3_def t2_def always_drains_def)
    obtain chunks where snd: "when_io e (send [CR, LF]) t3 = Some ((), t3\<lparr>t_sent := t_sent t3 @ chunks\<rparr>)"
      using when_send_always [OF t3, of "[CR, LF]" e] by (auto simp: ESC_def)
    have "edit_char n e (key_char 0x0D) s t1 = Some ((s, True), t3\<lparr>t_sent := t_sent t3 @ chunks\<rparr>)"
      using pk fb snd kc by (simp add: edit_char_def when_io_def [of True] when_io_def [of "CR = CR"])
    with run have "readline n echo None t = Some (s, t3\<lparr>t_sent := t_sent t3 @ chunks\<rparr>)" by simp
    with False show ?thesis by (simp add: s_def t3_def)
  qed
qed

lemma typeahead_reordered_witness:
  "\<exists>t'. readline 80 (Some False) None (terminal_example (map Byte [0x61, 0x0D, 0x78, 0x79, 0x7A, 0x0D] @ [Silence 900])) = Some (''a'', t')
    \<and> t_in t' = map Byte [0x79, 0x7A, 0x0D, 0x78] @ [Silence 900]"
proof -
  have "typed 80 [] (decode_ascii (bytes_of (map Byte [0x61]))) = ''a''" by code_simp
  moreover have "list_all plain_key (bytes_of (map Byte [0x61]))" by code_simp
  ultimately show ?thesis
    using typeahead_reordered [of "terminal_example (map Byte [0x61, 0x0D, 0x78, 0x79, 0x7A, 0x0D] @ [Silence 900])"
      "map Byte [0x61]" "0x78" "[0x79, 0x7A, 0x0D]" "[Silence 900]" 80 "Some False"]
    by (simp add: terminal_example_def terminal_init_def always_drains_def)
qed

section \<open>Telnet commands\<close>

text \<open>The reference: a stream of bytes without its telnet commands.\<close>

fun after_se :: "byte \<Rightarrow> bytes \<Rightarrow> bytes" where
  "after_se prev [] = []"
| "after_se prev (b # bs) = (if prev = 0xFF \<and> b = 0xF0 then bs else after_se b bs)"

lemma after_se_length: "length (after_se prev bs) \<le> length bs"
  by (induction prev bs rule: after_se.induct) auto

function strip_iac :: "bytes \<Rightarrow> bytes" where
  "strip_iac [] = []"
| "strip_iac (b # bs) =
     (if b \<noteq> 0xFF then b # strip_iac bs
      else (case bs of [] \<Rightarrow> []
        | c # cs \<Rightarrow> if c \<in> {0xFB, 0xFC, 0xFD, 0xFE} then strip_iac (tl cs)
            else if c = 0xFA then strip_iac (after_se 0 cs)
            else strip_iac cs))"
  by pat_completeness auto
termination
proof (relation "measure length", goal_cases)
  case (4 b bs c cs)
  then show ?case using after_se_length [of 0 cs] by simp
qed auto

function read_all :: "terminal \<Rightarrow> string" where
  "read_all t = (case readchar None t of (None, _) \<Rightarrow> [] | (Some c, t') \<Rightarrow> c # read_all t')"
  by pat_completeness auto
termination
  by (relation "measure (\<lambda>t. length (bytes_of (t_in t)))") (auto dest!: sym [THEN readchar_bytes])

declare read_all.simps [simp del]

lemma term_read_bytes_only:
  "term_read d (t\<lparr>t_in := []\<rparr>) = (At_eof, t\<lparr>t_in := []\<rparr>)"
  "term_read d (t\<lparr>t_in := Byte b # j\<rparr>) = (Got b, t\<lparr>t_in := j\<rparr>)"
  by (simp_all add: term_read_def)

lemma skip_subnegotiation_bytes_only:
  "skip_subnegotiation prev (t\<lparr>t_in := map Byte bs\<rparr>) = t\<lparr>t_in := map Byte (after_se prev bs)\<rparr>"
  by (induction prev bs rule: after_se.induct; subst skip_subnegotiation.simps; simp add: term_read_bytes_only)

lemma readchar_bytes_only:
  "case strip_iac bs of
     [] \<Rightarrow> fst (readchar d (t\<lparr>t_in := map Byte bs\<rparr>)) = None
   | b # r \<Rightarrow> \<exists>bs'. readchar d (t\<lparr>t_in := map Byte bs\<rparr>) = (Some (key_char b), t\<lparr>t_in := map Byte bs'\<rparr>) \<and> strip_iac bs' = r"
proof (induction bs rule: strip_iac.induct)
  case 1
  then show ?case by (subst readchar.simps) (simp add: term_read_bytes_only)
next
  case (2 b bs)
  show ?case
  proof (cases "b = 0xFF")
    case False
    then have "readchar d (t\<lparr>t_in := map Byte (b # bs)\<rparr>) = (Some (key_char b), t\<lparr>t_in := map Byte bs\<rparr>)"
      by (subst readchar.simps) (simp add: term_read_bytes_only key_char_def)
    with False show ?thesis by auto
  next
    case True
    show ?thesis
    proof (cases bs)
      case Nil
      then show ?thesis using True by (subst readchar.simps) (simp add: term_read_bytes_only)
    next
      case (Cons c cs)
      define cs' where "cs' = (if c \<in> {0xFB, 0xFC, 0xFD, 0xFE} then tl cs else if c = 0xFA then after_se 0 cs else cs)"
      have r: "readchar d (t\<lparr>t_in := map Byte (b # bs)\<rparr>) = readchar d (t\<lparr>t_in := map Byte cs'\<rparr>)"
        using skip_subnegotiation_bytes_only [where prev = 0 and t = t and bs = cs]
        by (subst readchar.simps) (cases cs; simp add: True Cons term_read_bytes_only cs'_def)
      have s: "strip_iac (b # bs) = strip_iac cs'"
        by (simp add: True Cons cs'_def)
      have "case strip_iac cs' of
         [] \<Rightarrow> fst (readchar d (t\<lparr>t_in := map Byte cs'\<rparr>)) = None
       | b # r \<Rightarrow> \<exists>bs'. readchar d (t\<lparr>t_in := map Byte cs'\<rparr>) = (Some (key_char b), t\<lparr>t_in := map Byte bs'\<rparr>) \<and> strip_iac bs' = r"
        unfolding cs'_def using "2.IH"(2-4) [OF _ Cons] True by auto
      then show ?thesis unfolding r s .
    qed
  qed
qed

text \<open>
  The characters read from a connection are those of the stream without its telnet commands:
  option negotiations, subnegotiations and single commands never reach the program.
\<close>

theorem telnet_commands_invisible:
  assumes "t_in t = map Byte bs"
  shows "read_all t = map key_char (strip_iac bs)"
proof -
  have "read_all (t\<lparr>t_in := map Byte bs\<rparr>) = map key_char (strip_iac bs)" for bs
  proof (induction "length bs" arbitrary: bs rule: less_induct)
    case less
    define u where "u = t\<lparr>t_in := map Byte bs\<rparr>"
    note rc = readchar_bytes_only [where bs = bs and d = None and t = t, folded u_def]
    show ?case
    proof (cases "strip_iac bs")
      case Nil
      then show ?thesis using rc by (cases "readchar None u") (simp add: read_all.simps [of u] u_def [symmetric])
    next
      case (Cons b r)
      then obtain bs' where r: "readchar None u = (Some (key_char b), t\<lparr>t_in := map Byte bs'\<rparr>)" "strip_iac bs' = r"
        using rc by auto
      have bb: "bytes_of (map Byte xs) = xs" for xs by (induction xs) auto
      have "length bs' < length bs" using readchar_bytes [OF r(1)] by (simp add: u_def bb)
      then show ?thesis using less r Cons by (simp add: read_all.simps [of u] u_def [symmetric])
    qed
  qed
  from this [of bs] show ?thesis using assms by (metis terminal.surjective terminal.update_convs(10))
qed

lemma telnet_commands_invisible_witness:
  "read_all (terminal_example (map Byte [0xFF, 0xFB, 0x18, 0x48, 0xFF, 0xFA, 0x18, 0x00, 0xFF, 0xF0, 0x69])) = ''Hi''"
proof -
  have "map key_char (strip_iac [0xFF, 0xFB, 0x18, 0x48, 0xFF, 0xFA, 0x18, 0x00, 0xFF, 0xF0, 0x69]) = ''Hi''"
    by code_simp
  then show ?thesis
    using telnet_commands_invisible
      [of "terminal_example (map Byte [0xFF, 0xFB, 0x18, 0x48, 0xFF, 0xFA, 0x18, 0x00, 0xFF, 0xF0, 0x69])"]
    by (simp add: terminal_example_def terminal_init_def del: list.map)
qed

section \<open>Menus and pages\<close>

text \<open>A step that only sends: the input stays, the buffer is empty afterwards.\<close>

definition sends :: "terminal \<Rightarrow> terminal \<Rightarrow> bool" where
  "sends t t' \<longleftrightarrow> t_in t' = t_in t \<and> t_clock t' = t_clock t \<and> t_drain t' = t_drain t \<and> t_buf t' = []
     \<and> t_mode t' = t_mode t \<and> t_eol t' = t_eol t \<and> t_height t' = t_height t"

lemma send_ok: "always_drains t \<Longrightarrow> \<exists>t'. send s t = Some ((), t') \<and> sends t t'"
  by (simp add: send_always sends_def)

lemma sendln_send: "sendln s t = send (s @ t_eol t) t"
  by (simp add: sendln_def send_def term_writeln_def)

lemma sends_drains: "sends t t' \<Longrightarrow> always_drains t' = always_drains t"
  by (simp add: sends_def always_drains_def)

lemma write_rows_frame [simp]:
  "t_drain (write_rows rs t) = t_drain t" "t_clock (write_rows rs t) = t_clock t"
  "t_mode (write_rows rs t) = t_mode t" "t_eol (write_rows rs t) = t_eol t" "t_height (write_rows rs t) = t_height t"
  by (induction rs arbitrary: t) (simp_all add: term_writeln_def term_write_def)

lemma send_header_ok: "always_drains t \<Longrightarrow> \<exists>t'. send_header s t = Some ((), t') \<and> sends t t'"
  unfolding send_header_def Let_def sendln_send by (auto intro: send_ok)

lemma sends_trans: "sends t u \<Longrightarrow> sends u v \<Longrightarrow> sends t v"
  by (simp add: sends_def)

lemma send_menu_ok:
  assumes "always_drains t"
  shows "\<exists>t'. send_menu title items text hint t = Some ((), t') \<and> sends t t'"
proof (cases "title \<in> t_menus t")
  case True
  obtain t1 where t1: "sendln [] t = Some ((), t1)" "sends t t1"
    using send_ok [OF assms] unfolding sendln_send by blast
  have d1: "always_drains t1" using sends_drains [OF t1(2)] assms by simp
  define keys where "keys = join '', '' (filter (\<lambda>k. k \<noteq> []) (map fst items))"
  obtain t2 where t2: "(if hint then sendln (keys @ '' | '' @ note_text t1 ''ENTER'' @ '' to redraw'') t1 else sendln keys t1) = Some ((), t2)"
    "sends t1 t2"
    using send_ok [OF d1] unfolding sendln_send by (cases hint) auto
  obtain t3 where t3: "send text t2 = Some ((), t3)" "sends t2 t3"
    using send_ok sends_drains [OF t2(2)] d1 by blast
  have "send_menu title items text hint t = Some ((), t3)"
    using True t1(1) t2(1) t3(1) by (simp add: send_menu_def keys_def [symmetric])
  then show ?thesis using sends_trans [OF t1(2) sends_trans [OF t2(2) t3(2)]] by blast
next
  case False
  obtain t1 where t1: "sendln [] t = Some ((), t1)" "sends t t1"
    using send_ok [OF assms] unfolding sendln_send by blast
  have d1: "always_drains t1" using sends_drains [OF t1(2)] assms by simp
  obtain t2 where t2: "(if ansi t1 then send_header ('' '' @ title @ '' '') t1
      else sendln (''=== '' @ title @ '' ==='') t1) = Some ((), t2)" "sends t1 t2"
    using send_ok [OF d1] send_header_ok [OF d1] unfolding sendln_send by (cases "ansi t1") auto
  have d2: "always_drains (write_rows (menu_rows items) t2)"
    using sends_drains [OF t2(2)] d1 by (simp add: always_drains_def)
  obtain t3 where t3: "sendln [] (write_rows (menu_rows items) t2) = Some ((), t3)"
    "sends (write_rows (menu_rows items) t2) t3"
    using send_ok [OF d2] unfolding sendln_send by blast
  obtain t4 where t4: "send text t3 = Some ((), t4)" "sends t3 t4"
    using send_ok sends_drains [OF t3(2)] d2 by blast
  have "send_menu title items text hint t = Some ((), t4\<lparr>t_menus := insert title (t_menus t4)\<rparr>)"
    using False t1 t2 t3 t4 by (simp add: send_menu_def)
  moreover have "sends t (t4\<lparr>t_menus := insert title (t_menus t4)\<rparr>)"
    using t1(2) t2(2) t3(2) t4(2) by (simp add: sends_def)
  ultimately show ?thesis by blast
qed

lemma readline_blank:
  assumes "t_in t = Byte 0x0A # r" and "always_drains t" and "t_buf t = []"
  obtains t' where "readline n echo None t = Some ([], t')" and "t_in t' = r" and "always_drains t'"
proof -
  define e where "e = ((case echo of None \<Rightarrow> t_echo t | Some e \<Rightarrow> e) \<or> t_must_echo t)"
  have ty: "typed n [] (decode_ascii (bytes_of [])) = []" by (simp add: typed_def decode_ascii_def)
  have kc: "key_char 0x0A = LF" by code_simp
  obtain t1 where run: "readline n echo None t = (do {
      (res, t2) \<leftarrow> edit_char n e LF [] t1;
      if snd res then Some (fst res, t2) else readline_loop n e None (fst res) t2 })"
    and t1: "t_in t1 = r" "always_drains t1" "t_buf t1 = []"
    by (rule readline_until [of t "[]" "0x0A" r n echo, folded e_def, unfolded ty kc])
      (use assms in auto)
  obtain chunks where "when_io e (send [CR, LF]) t1 = Some ((), t1\<lparr>t_sent := t_sent t1 @ chunks\<rparr>)"
    using when_send_always [OF t1(2,3), of "[CR, LF]" e] by (auto simp: ESC_def)
  then have "edit_char n e LF [] t1 = Some (([], True), t1\<lparr>t_sent := t_sent t1 @ chunks\<rparr>)"
    by (simp add: edit_char_def when_io_def)
  with run t1 show ?thesis by (intro that [of "t1\<lparr>t_sent := t_sent t1 @ chunks\<rparr>"]) (simp_all add: always_drains_def)
qed



text \<open>Reading changes nothing but the arrivals and the clock.\<close>

lemma reads_iff: "reads t t' \<longleftrightarrow> (\<exists>i m. t' = t\<lparr>t_in := i, t_clock := m\<rparr>)"
  by (auto simp: reads_def) metis

lemma reads_term_read: "term_read d t = (g, t') \<Longrightarrow> reads t t'"
  using term_read_reads [of t d] by simp

lemma reads_skip: "reads t (skip_subnegotiation prev t)"
proof (induction prev t rule: skip_subnegotiation.induct)
  case (1 prev t)
  obtain g t' where r: "term_read (Some 1000) t = (g, t')" by (cases "term_read (Some 1000) t")
  show ?case
    using "1.IH" [OF r [symmetric]] reads_term_read [OF r] reads_trans r
    by (subst skip_subnegotiation.simps) (auto split: got.split)
qed

lemma reads_readchar: "readchar d t = (c, t') \<Longrightarrow> reads t t'"
proof (induction d t arbitrary: c t' rule: readchar.induct)
  case (1 d t)
  obtain g t1 where p: "term_read (wait_opt d) t = (g, t1)" by (cases "term_read (wait_opt d) t")
  obtain g2 t2 where p2: "term_read (Some 1000) t1 = (g2, t2)" by (cases "term_read (Some 1000) t1")
  have r: "reads t t1" "reads t1 t2" using reads_term_read p p2 by blast+
  note r2 = reads_trans [OF r]
  show ?case
  proof (cases "\<exists>b cmd. g = Got b \<and> b = 0xFF \<and> g2 = Got cmd")
    case False
    then show ?thesis using "1.prems" p p2 r(1) r2
      by (subst (asm) readchar.simps) (auto split: got.splits if_splits)
  next
    case True
    then obtain cmd where g: "g = Got 0xFF" and g2: "g2 = Got cmd" by blast
    note ih = "1.IH" [OF p [symmetric] g _ p2 [symmetric] g2]
    define t3 where "t3 = (if cmd \<in> {0xFB, 0xFC, 0xFD, 0xFE} then snd (term_read (Some 1000) t2)
        else if cmd = 0xFA then skip_subnegotiation 0 t2 else t2)"
    have "reads t2 t3" using term_read_reads reads_skip by (simp add: t3_def)
    moreover have "readchar d t = readchar d t3"
      using p p2 g g2 by (subst readchar.simps) (simp add: t3_def del: insert_iff)
    then have "readchar d t3 = (c, t')" using "1.prems" by simp
    then have "reads t3 t'" using ih by (auto simp: t3_def split: if_splits)
    ultimately show ?thesis using r2 reads_trans by blast
  qed
qed

lemma reads_feed_back: "feed_back b t = Some (u, t') \<Longrightarrow> reads t t'"
  by (auto simp: feed_back_def reads_iff split: if_splits) (metis terminal.surjective terminal.update_convs(11))

lemma reads_peek: "peek_complement c t = Some (u, t') \<Longrightarrow> reads t t'"
proof -
  assume a: "peek_complement c t = Some (u, t')"
  obtain g t1 where r: "term_read (Some 50) t = (g, t1)" by (cases "term_read (Some 50) t")
  show ?thesis using a r reads_term_read [OF r] reads_feed_back reads_trans
    by (auto simp: peek_complement_def split: got.splits if_splits)
qed

lemma reads_swallow: "swallow_eol n t = Some (u, t') \<Longrightarrow> reads t t'"
proof (induction n arbitrary: t)
  case (Suc n)
  obtain g t1 where r: "term_read (Some 50) t = (g, t1)" by (cases "term_read (Some 50) t")
  show ?case using Suc r reads_term_read [OF r] reads_feed_back reads_trans
    by (auto split: got.splits if_splits)
qed simp

text \<open>What paging puts on the screen for some lines: a prompt and a line end after each full page.\<close>

fun paged :: "terminal \<Rightarrow> int \<Rightarrow> int \<Rightarrow> string list \<Rightarrow> bytes" where
  "paged t ph cnt [] = []"
| "paged t ph cnt (l # ls) = term_encode t (l @ t_eol t)
     @ (if ph \<le> cnt + 1 then term_encode t (more_style t) @ term_encode t (t_eol t) @ paged t ph 0 ls
        else paged t ph (cnt + 1) ls)"

definition same_view :: "terminal \<Rightarrow> terminal \<Rightarrow> bool" where
  "same_view t u \<longleftrightarrow> t_mode u = t_mode t \<and> t_eol u = t_eol t \<and> t_drain u = t_drain t"

lemma more_style_mode: "t_mode u = t_mode t \<Longrightarrow> more_style u = more_style t"
  by (simp add: more_style_def supports_truecolor_def ansi_def Let_def)

lemma same_view_paged: "same_view t u \<Longrightarrow> paged u ph cnt ls = paged t ph cnt ls"
  by (induction ls arbitrary: cnt)
    (simp_all add: same_view_def term_encode_def more_style_mode [of u t])

definition shown_out :: "terminal \<Rightarrow> bytes" where
  "shown_out t = concat (t_sent t) @ t_buf t"

lemma reads_view: "reads t u \<Longrightarrow> same_view t u \<and> shown_out u = shown_out t"
  by (auto simp: reads_iff same_view_def shown_out_def)

lemma send_view:
  "always_drains t \<Longrightarrow> \<exists>u. send s t = Some ((), u) \<and> same_view t u \<and> shown_out u = shown_out t @ term_encode t s \<and> t_buf u = []"
  by (simp add: send_always same_view_def shown_out_def concat_fragments MAX_CHUNK_def)

lemma same_view_trans: "same_view t u \<Longrightarrow> same_view u v \<Longrightarrow> same_view t v"
  by (simp add: same_view_def)

lemma same_view_drains: "same_view t u \<Longrightarrow> always_drains u = always_drains t"
  by (simp add: same_view_def always_drains_def)

lemma same_view_encode: "same_view t u \<Longrightarrow> term_encode u s = term_encode t s"
  by (simp add: same_view_def term_encode_def)

lemma writeln_view: "same_view t (term_writeln l t)" "shown_out (term_writeln l t) = shown_out t @ term_encode t (l @ t_eol t)"
  by (simp_all add: term_writeln_def term_write_def same_view_def shown_out_def)

lemma flush_view:
  "always_drains t \<Longrightarrow> \<exists>u. term_flush t = Some ((), u) \<and> same_view t u \<and> shown_out u = shown_out t \<and> t_buf u = []"
  by (simp add: flush_fragments drains_def always_drains_def same_view_def shown_out_def concat_fragments MAX_CHUNK_def)

lemma paginate_prefix:
  assumes "always_drains t" and "paginate_loop ph d cnt ls t = Some (b, t')"
  shows "\<exists>m \<le> length ls. shown_out t' = shown_out t @ paged t ph cnt (take m ls)
    \<and> t_buf t' = [] \<and> (if b then m = length ls else 0 < m)"
  using assms
proof (induction ls arbitrary: cnt t)
  case Nil
  obtain u where "term_flush t = Some ((), u)" "same_view t u" "shown_out u = shown_out t" "t_buf u = []"
    using flush_view [OF Nil(1)] by blast
  with Nil show ?case by auto
next
  case (Cons l ls)
  define t1 where "t1 = term_writeln l t"
  have v1: "same_view t t1" "shown_out t1 = shown_out t @ term_encode t (l @ t_eol t)"
    using writeln_view by (simp_all add: t1_def)
  have d1: "always_drains t1" using same_view_drains [OF v1(1)] Cons.prems(1) by simp
  show ?case
  proof (cases "ph \<le> cnt + 1")
    case False
    then have "paginate_loop ph d (cnt + 1) ls t1 = Some (b, t')"
      using Cons.prems(2) by (simp add: t1_def Let_def)
    from Cons.IH [OF d1 this] obtain m where m: "m \<le> length ls" "t_buf t' = []"
        "shown_out t' = shown_out t1 @ paged t1 ph (cnt + 1) (take m ls)" "if b then m = length ls else 0 < m"
      by blast
    show ?thesis
      by (rule exI [of _ "Suc m"]) (use m False v1 same_view_paged [OF v1(1)] in auto)
  next
    case True
    obtain t2 where t2: "term_flush t1 = Some ((), t2)" "same_view t1 t2" "shown_out t2 = shown_out t1"
      using flush_view [OF d1] by blast
    have v2: "same_view t t2" using same_view_trans [OF v1(1) t2(2)] .
    have d2: "always_drains t2" using same_view_drains [OF v2] Cons.prems(1) by simp
    obtain t3 where t3: "send (more_style t2) t2 = Some ((), t3)" "same_view t2 t3"
        "shown_out t3 = shown_out t2 @ term_encode t2 (more_style t2)"
      using send_view [OF d2] by blast
    obtain c t4 where t4: "readchar d t3 = (c, t4)" by (cases "readchar d t3")
    note r4 = reads_view [OF reads_readchar [OF t4]]
    have v4: "same_view t t4" using v2 t3(2) r4 same_view_trans by blast
    have o4: "shown_out t4 = shown_out t1 @ term_encode t (more_style t)"
      using r4 t3(3) t2(3) same_view_encode [OF v2] more_style_mode [of t2 t] v2 by (simp add: same_view_def)
    have "\<exists>t5 t6. reads t4 t5 \<and> sendln [] t5 = Some ((), t6) \<and>
        ((b = False \<and> t' = t6) \<or> paginate_loop ph d 0 ls t6 = Some (b, t'))"
    proof (cases c)
      case None
      then have "reads t4 t4 \<and> sendln [] t4 = Some ((), t') \<and> (b = False \<and> t' = t')"
        using Cons.prems(2) True t2(1) t3(1) t4
        by (auto simp: t1_def [symmetric] Let_def split: bind_splits)
      then show ?thesis by blast
    next
      case (Some ch)
      obtain t5 where t5: "(if ch = CR then peek_complement 0x0A t4 else if ch = LF then peek_complement 0x0D t4
          else swallow_trailing_eol t4) = Some ((), t5)"
        and rest: "(do { (_, t6) \<leftarrow> sendln [] t5;
             if up ch = CHR 0x51 then Some (False, t6) else paginate_loop ph d 0 ls t6 }) = Some (b, t')"
        using Cons.prems(2) True t2(1) t3(1) t4 Some by (auto simp: t1_def [symmetric] Let_def split: bind_splits)
      have "reads t4 t5"
        using t5 reads_peek reads_swallow by (auto simp: swallow_trailing_eol_def split: if_splits)
      with rest show ?thesis by (auto split: bind_splits if_splits)
    qed
    then obtain t5 t6 where t5: "reads t4 t5" and t6: "sendln [] t5 = Some ((), t6)"
      and fin: "(b = False \<and> t' = t6) \<or> paginate_loop ph d 0 ls t6 = Some (b, t')"
      by blast
    have v5: "same_view t t5" "shown_out t5 = shown_out t4"
      using reads_view [OF t5] v4 same_view_trans by blast+
    have d5: "always_drains t5" using same_view_drains [OF v5(1)] Cons.prems(1) by simp
    obtain u where u: "send (t_eol t5) t5 = Some ((), u)" "same_view t5 u"
        "shown_out u = shown_out t5 @ term_encode t5 (t_eol t5)" "t_buf u = []"
      using send_view [OF d5] by blast
    have t6u: "t6 = u" using t6 u(1) by (simp add: sendln_send)
    have v6: "same_view t t6" using same_view_trans [OF v5(1) u(2)] t6u by simp
    have o6: "shown_out t6 = shown_out t @ term_encode t (l @ t_eol t) @ term_encode t (more_style t) @ term_encode t (t_eol t)"
      using u(3) v5 o4 v1(2) same_view_encode [OF v5(1)] by (simp add: t6u same_view_def)
    from fin show ?thesis
    proof
      assume "b = False \<and> t' = t6"
      then show ?thesis
        by (intro exI [of _ 1]) (use True o6 u(4) t6u in auto)
    next
      assume run: "paginate_loop ph d 0 ls t6 = Some (b, t')"
      have d6: "always_drains t6" using same_view_drains [OF v6] Cons.prems(1) by simp
      from Cons.IH [OF d6 run] obtain m where m: "m \<le> length ls" "t_buf t' = []"
          "shown_out t' = shown_out t6 @ paged t6 ph 0 (take m ls)" "if b then m = length ls else 0 < m"
        by blast
      show ?thesis
        by (rule exI [of _ "Suc m"]) (use m True o6 same_view_paged [OF v6] in auto)
    qed
  qed
qed



end
