(* ===== verification/Chat.thy ===== *)
theory Chat
  imports Interfaces Users
begin

text \<open>
  The chat plugin, \<open>plugins/chat/chat.py\<close>: rooms, whispers, scrollback, and the commands of a
  chat session.

  Rooms and queues are objects that several tables and sessions refer to, so both live in stores and
  are named by their position: a session keeps the queue it joined with, and the room it entered
  first, after the tables have moved on. A queue holds lines, or \<open>None\<close> for the sentinel of a deleted
  room. The two tables of the plugin's database are lists of rows in the order of their ids. Persisting
  a line is a task of its own that runs later (\<open>ch_tasks\<close>).

  Clock texts, the users table and the bulletins plugin's \<open>post_private_message\<close> are an environment.
  What a session prints is a list of lines with their style; an arrow in a line is not ASCII.
\<close>

section \<open>Rooms\<close>

definition MAX_MSG_LEN :: nat where "MAX_MSG_LEN = 160"

definition QUEUE_SIZE :: nat where "QUEUE_SIZE = 100"

record chat_room =
  cr_name :: string
  cr_description :: string
  cr_members :: "(callsign, nat) dict"
  cr_history :: "string list"
  cr_history_size :: int
  cr_persist :: bool

type_synonym queue = "string option list"

record chat_row =
  hr_id :: nat
  hr_room :: string
  hr_ts :: int
  hr_line :: string

record offline_row =
  or_id :: nat
  or_to :: callsign
  or_from :: callsign
  or_room :: string
  or_ts :: int
  or_text :: string

record chat_state =
  ch_objs :: "chat_room list"
  ch_queues :: "queue list"
  ch_rooms :: "(string, nat) dict"
  ch_whisper :: "(callsign, callsign) dict"
  ch_history_lines :: int
  ch_rows :: "chat_row list"
  ch_next_row :: nat
  ch_offline :: "offline_row list"
  ch_next_offline :: nat
  ch_tasks :: "(string \<times> string) list"
  ch_db_path :: bool
  ch_msg_area :: string

definition chat_init :: chat_state where
  "chat_init = \<lparr>ch_objs = [], ch_queues = [], ch_rooms = [], ch_whisper = [], ch_history_lines = 20,
     ch_rows = [], ch_next_row = 1, ch_offline = [], ch_next_offline = 1, ch_tasks = [],
     ch_db_path = False, ch_msg_area = []\<rparr>"

record chat_env =
  ce_hhmm :: string
  ce_now :: int
  ce_utc :: string
  ce_local :: "int \<Rightarrow> string"
  ce_users :: users_db
  ce_post :: "callsign \<Rightarrow> callsign \<Rightarrow> string \<Rightarrow> string \<Rightarrow> string option \<Rightarrow> (nat \<times> string) option"

definition room_at :: "nat \<Rightarrow> chat_state \<Rightarrow> chat_room" where
  "room_at i st = ch_objs st ! i"

definition new_room :: "string \<Rightarrow> string \<Rightarrow> int \<Rightarrow> chat_room" where
  "new_room name description limit = \<lparr>cr_name = lower name, cr_description = description, cr_members = [],
     cr_history = [], cr_history_size = limit, cr_persist = False\<rparr>"

definition set_room :: "nat \<Rightarrow> (chat_room \<Rightarrow> chat_room) \<Rightarrow> chat_state \<Rightarrow> chat_state" where
  "set_room i f st = st\<lparr>ch_objs := (ch_objs st)[i := f (ch_objs st ! i)]\<rparr>"

text \<open>\<open>q.put_nowait(x)\<close>; a full queue raises QueueFull, which every caller catches and drops.\<close>

definition queue_full :: "nat \<Rightarrow> queue list \<Rightarrow> bool" where
  "queue_full q qs \<longleftrightarrow> QUEUE_SIZE \<le> length (qs ! q)"

definition put_nowait :: "nat \<Rightarrow> string option \<Rightarrow> queue list \<Rightarrow> queue list" where
  "put_nowait q x qs = (if queue_full q qs then qs else qs[q := qs ! q @ [x]])"

definition excluded :: "callsign option \<Rightarrow> callsign \<Rightarrow> bool" where
  "excluded exclude call = (case exclude of None \<Rightarrow> False | Some e \<Rightarrow> e \<noteq> [] \<and> call = upper e)"

fun deliver :: "string \<Rightarrow> callsign option \<Rightarrow> (callsign, nat) dict \<Rightarrow> queue list \<Rightarrow> queue list" where
  "deliver line exclude [] qs = qs"
| "deliver line exclude ((call, q) # ms) qs =
     deliver line exclude ms (if excluded exclude call then qs else put_nowait q (Some line) qs)"

definition room_broadcast :: "nat \<Rightarrow> string \<Rightarrow> callsign option \<Rightarrow> chat_state \<Rightarrow> chat_state" where
  "room_broadcast i line exclude st =
     (let r = room_at i st;
          hist = cr_history r @ [line];
          hist = (if cr_history_size r < int (length hist) then tl hist else hist);
          st = set_room i (\<lambda>r. r\<lparr>cr_history := hist\<rparr>) st;
          st = (if cr_persist r then st\<lparr>ch_tasks := ch_tasks st @ [(cr_name r, line)]\<rparr> else st)
      in st\<lparr>ch_queues := deliver line exclude (cr_members r) (ch_queues st)\<rparr>)"

definition room_join :: "nat \<Rightarrow> callsign \<Rightarrow> chat_state \<Rightarrow> chat_state \<times> nat" where
  "room_join i call st =
     (let q = length (ch_queues st);
          st = st\<lparr>ch_queues := ch_queues st @ [[]]\<rparr>;
          st = set_room i (\<lambda>r. r\<lparr>cr_members := AList.update (upper call) q (cr_members r)\<rparr>) st
      in (room_broadcast i (''*** '' @ call @ '' joined '' @ cr_name (room_at i st) @ '' ***'') (Some call) st, q))"

definition room_leave :: "nat \<Rightarrow> callsign \<Rightarrow> chat_state \<Rightarrow> chat_state" where
  "room_leave i call st =
     (let st = set_room i (\<lambda>r. r\<lparr>cr_members := AList.delete (upper call) (cr_members r)\<rparr>) st
      in room_broadcast i (''*** '' @ call @ '' left '' @ cr_name (room_at i st) @ '' ***'') (Some call) st)"

definition say :: "chat_env \<Rightarrow> nat \<Rightarrow> callsign \<Rightarrow> string \<Rightarrow> chat_state \<Rightarrow> chat_state" where
  "say env i call text st = room_broadcast i (''['' @ ce_hhmm env @ ''] '' @ call @ '': '' @ text) None st"

definition arrow :: string where "arrow = [replacement]"

definition private_msg :: "chat_env \<Rightarrow> nat \<Rightarrow> callsign \<Rightarrow> callsign \<Rightarrow> string \<Rightarrow> chat_state \<Rightarrow> chat_state \<times> bool" where
  "private_msg env i from_call to_call text st =
     (case map_of (cr_members (room_at i st)) (upper to_call) of
        None \<Rightarrow> (st, False)
      | Some q \<Rightarrow>
          if queue_full q (ch_queues st) then (st, False)
          else
            (let line = ''['' @ ce_hhmm env @ ''] *'' @ from_call @ arrow @ to_call @ ''*: '' @ text in
             (st\<lparr>ch_queues := put_nowait q (Some line) (ch_queues st),
                 ch_whisper := AList.update (upper to_call) (upper from_call) (ch_whisper st)\<rparr>, True)))"

text \<open>\<open>sorted(members)\<close>: strings in code point order.\<close>

definition room_who :: "nat \<Rightarrow> chat_state \<Rightarrow> callsign list" where
  "room_who i st = sort_key (map code) (map fst (cr_members (room_at i st)))"

definition get_history :: "nat \<Rightarrow> chat_state \<Rightarrow> string list" where
  "get_history i st = cr_history (room_at i st)"

definition member_count :: "nat \<Rightarrow> chat_state \<Rightarrow> nat" where
  "member_count i st = length (cr_members (room_at i st))"

definition get_or_create_room :: "string \<Rightarrow> string \<Rightarrow> chat_state \<Rightarrow> chat_state \<times> nat" where
  "get_or_create_room name description st =
     (case map_of (ch_rooms st) (lower name) of
        Some i \<Rightarrow> (st, i)
      | None \<Rightarrow>
          (let i = length (ch_objs st) in
           (st\<lparr>ch_objs := ch_objs st @ [new_room name description (ch_history_lines st)],
               ch_rooms := AList.update (lower name) i (ch_rooms st)\<rparr>, i)))"

definition find_member_room :: "callsign \<Rightarrow> chat_state \<Rightarrow> nat option" where
  "find_member_room call st =
     map_option snd (find (\<lambda>(_, i). upper call \<in> fst ` set (cr_members (room_at i st))) (ch_rooms st))"

section \<open>Scrollback\<close>

text \<open>
  \<open>_JOIN_LEAVE_RE\<close>: the callsign of a join or leave notice. Everything after the verb must end in
  blank, three stars and blanks, with at least one character before, and hold no line end (one at the
  very end of the line aside).
\<close>

definition drop_final_nl :: "string \<Rightarrow> string" where
  "drop_final_nl s = (if s \<noteq> [] \<and> last s = CHR 0x0A then butlast s else s)"

definition notice_tail :: "string \<Rightarrow> bool" where
  "notice_tail s =
     (let t = rev (dropWhile (\<lambda>c. c = CHR 0x20) (rev (drop_final_nl s))) in
      4 < length t \<and> drop (length t - 4) t = '' ***'' \<and> CHR 0x0A \<notin> set (drop_final_nl s))"

definition join_leave_call :: "string \<Rightarrow> string option" where
  "join_leave_call line =
     (if take 4 line = ''*** '' then
        (let rest = drop 4 line;
             call = takeWhile (\<lambda>c. \<not> is_space c) rest;
             more = dropWhile (\<lambda>c. \<not> is_space c) rest
         in if call = [] then None
            else if take 8 more = '' joined '' then (if notice_tail (drop 8 more) then Some call else None)
            else if take 6 more = '' left '' then (if notice_tail (drop 6 more) then Some call else None)
            else None)
      else None)"

definition visited_line :: "string list \<Rightarrow> string" where
  "visited_line visitors = ''*** visited: '' @ join '', '' visitors @ '' ***''"

definition flush_visitors :: "string list \<Rightarrow> (nat option \<times> string) list" where
  "flush_visitors visitors = (if visitors = [] then [] else [(None, visited_line visitors)])"

fun compact_loop :: "string option \<Rightarrow> string list \<Rightarrow> (nat \<times> string) list \<Rightarrow> (nat option \<times> string) list" where
  "compact_loop skip visitors [] = flush_visitors visitors"
| "compact_loop skip visitors ((row_id, line) # rows) =
     (case join_leave_call line of
        Some call \<Rightarrow>
          compact_loop skip (if Some (upper call) \<noteq> skip \<and> call \<notin> set visitors then visitors @ [call] else visitors) rows
      | None \<Rightarrow> flush_visitors visitors @ (Some row_id, line) # compact_loop skip [] rows)"

definition compact_history :: "(nat \<times> string) list \<Rightarrow> callsign option \<Rightarrow> (nat option \<times> string) list" where
  "compact_history rows exclude =
     compact_loop (case exclude of None \<Rightarrow> None | Some e \<Rightarrow> if e = [] then None else Some (upper e)) [] rows"

section \<open>The database\<close>

text \<open>The last \<open>n\<close> rows of a room in the order of their ids; SQL reads a negative limit as none.\<close>

definition last_n :: "int \<Rightarrow> 'a list \<Rightarrow> 'a list" where
  "last_n n xs = (if n < 0 then xs else drop (length xs - nat n) xs)"

definition recent_rows :: "string \<Rightarrow> int \<Rightarrow> chat_row list \<Rightarrow> chat_row list" where
  "recent_rows room n rows = last_n n (filter (\<lambda>r. hr_room r = room) rows)"

text \<open>One run of a persist task: insert the row, trim the room to the limit, commit.\<close>

definition persist_line :: "chat_env \<Rightarrow> string \<Rightarrow> string \<Rightarrow> chat_state \<Rightarrow> chat_state" where
  "persist_line env room line st =
     (let rows = ch_rows st @ [\<lparr>hr_id = ch_next_row st, hr_room = room, hr_ts = ce_now env, hr_line = line\<rparr>];
          keep = map hr_id (recent_rows room (ch_history_lines st) rows)
      in st\<lparr>ch_rows := filter (\<lambda>r. \<not> (hr_room r = room \<and> hr_id r \<notin> set keep)) rows,
            ch_next_row := ch_next_row st + 1\<rparr>)"

definition run_task :: "chat_env \<Rightarrow> nat \<Rightarrow> chat_state \<Rightarrow> chat_state" where
  "run_task env k st =
     (if k < length (ch_tasks st) then
        (case ch_tasks st ! k of (room, line) \<Rightarrow>
           persist_line env room line (st\<lparr>ch_tasks := take k (ch_tasks st) @ drop (Suc k) (ch_tasks st)\<rparr>))
      else st)"

text \<open>\<open>initialize\<close>: the configured rooms, the rooms of the history table, their scrollback.\<close>

fun create_rooms :: "(string \<times> string) list \<Rightarrow> chat_state \<Rightarrow> chat_state" where
  "create_rooms [] st = st"
| "create_rooms ((name, description) # cfg) st = create_rooms cfg (fst (get_or_create_room name description st))"

fun restore_rooms :: "(string \<times> nat) list \<Rightarrow> chat_state \<Rightarrow> chat_state" where
  "restore_rooms [] st = st"
| "restore_rooms ((_, i) # rooms) st =
     restore_rooms rooms (set_room i (\<lambda>r. r\<lparr>cr_history_size := ch_history_lines st,
       cr_history := map hr_line (recent_rows (cr_name r) (ch_history_lines st) (ch_rows st)),
       cr_persist := True\<rparr>) st)"

definition initialize :: "int \<Rightarrow> string \<Rightarrow> (string \<times> string) list \<Rightarrow> chat_state \<Rightarrow> chat_state" where
  "initialize history_lines msg_area cfg st =
     (let st = st\<lparr>ch_history_lines := history_lines, ch_db_path := True, ch_msg_area := strip msg_area\<rparr>;
          st = create_rooms cfg st;
          st = create_rooms (map (\<lambda>room. (room, [])) (rev (remdups (rev (map hr_room (ch_rows st)))))) st
      in restore_rooms (ch_rooms st) st)"

text \<open>
  \<open>_delete_message\<close>: the row, and the first line of the room's scrollback that reads the same.
\<close>

definition delete_message :: "string \<Rightarrow> nat \<Rightarrow> chat_state \<Rightarrow> chat_state \<times> string option" where
  "delete_message room_name msg_id st =
     (if \<not> ch_db_path st then (st, None)
      else (case find (\<lambda>r. hr_id r = msg_id \<and> hr_room r = room_name) (ch_rows st) of
          None \<Rightarrow> (st, None)
        | Some row \<Rightarrow>
            (let st = st\<lparr>ch_rows := filter (\<lambda>r. hr_id r \<noteq> msg_id) (ch_rows st)\<rparr> in
             case map_of (ch_rooms st) room_name of
               None \<Rightarrow> (st, Some (hr_line row))
             | Some i \<Rightarrow> (set_room i (\<lambda>r. r\<lparr>cr_history := remove1 (hr_line row) (cr_history r)\<rparr>) st, Some (hr_line row)))))"

fun put_sentinels :: "(callsign, nat) dict \<Rightarrow> queue list \<Rightarrow> queue list" where
  "put_sentinels [] qs = qs"
| "put_sentinels ((_, q) # ms) qs = put_sentinels ms (put_nowait q None qs)"

definition delete_room :: "string \<Rightarrow> chat_state \<Rightarrow> chat_state \<times> bool" where
  "delete_room room_name st =
     (if \<not> ch_db_path st then (st, False)
      else
        (let st = st\<lparr>ch_rows := filter (\<lambda>r. hr_room r \<noteq> room_name) (ch_rows st)\<rparr> in
         case map_of (ch_rooms st) room_name of
           None \<Rightarrow> (st, False)
         | Some i \<Rightarrow>
             (let st = st\<lparr>ch_rooms := AList.delete room_name (ch_rooms st)\<rparr>;
                  st = room_broadcast i (''*** Room '' @ room_name @
                    '' has been deleted by the sysop. Use /JOIN to switch rooms. ***'') None st
              in (st\<lparr>ch_queues := put_sentinels (cr_members (room_at i st)) (ch_queues st)\<rparr>, True))))"

section \<open>Whispers for the absent\<close>

definition for_call :: "callsign \<Rightarrow> offline_row \<Rightarrow> bool" where
  "for_call call r \<longleftrightarrow> upper (or_to r) = upper call"

definition pending_notice :: "callsign \<Rightarrow> chat_state \<Rightarrow> string option" where
  "pending_notice call st =
     (if \<not> ch_db_path st \<or> call = [] then None
      else (let n = length (filter (for_call call) (ch_offline st)) in
        if n = 0 then None
        else Some (''You have '' @ nat_str n @ '' chat message'' @ (if n \<noteq> 1 then ''s'' else [])
          @ '' waiting '' @ [replacement] @ '' C to read.'')))"

definition store_offline_msg ::
  "chat_env \<Rightarrow> callsign \<Rightarrow> callsign \<Rightarrow> string \<Rightarrow> string \<Rightarrow> chat_state \<Rightarrow> chat_state \<times> bool" where
  "store_offline_msg env from_call to_call room_name text st =
     (if \<not> ch_db_path st then (st, False)
      else (st\<lparr>ch_offline := ch_offline st @ [\<lparr>or_id = ch_next_offline st, or_to = upper to_call,
                or_from = upper from_call, or_room = room_name, or_ts = ce_now env, or_text = text\<rparr>],
              ch_next_offline := ch_next_offline st + 1\<rparr>, True))"

definition is_known_user :: "chat_env \<Rightarrow> callsign \<Rightarrow> bool" where
  "is_known_user env call \<longleftrightarrow> select_callsign call (ce_users env) \<noteq> None"

definition post_offline_bulletin ::
  "chat_env \<Rightarrow> nat \<Rightarrow> callsign \<Rightarrow> callsign \<Rightarrow> string \<Rightarrow> chat_state \<Rightarrow> (nat \<times> string) option" where
  "post_offline_bulletin env i from_call dest text st =
     ce_post env from_call dest (''Chat msg from '' @ from_call)
       (text @ [CHR 0x0A, CHR 0x0A] @ ''-- sent from chat room '' @ [CHR 0x27] @ cr_name (room_at i st) @ [CHR 0x27] @ '' at '' @ ce_utc env @ '' UTC'')
       (if ch_msg_area st = [] then None else Some (ch_msg_area st))"

text \<open>What a session prints, by style; \<open>Asked\<close> is the prompt.\<close>

datatype chat_out = Plain string | Note string | Warn string | Okay string | Field string string
  | Asked string | Labelled string string

record chat_session =
  cs_call :: callsign
  cs_sysop :: bool
  cs_entered :: nat
  cs_room :: nat
  cs_inbox :: nat
  cs_reader_done :: bool
  cs_out :: "chat_out list"

definition put_out :: "chat_out list \<Rightarrow> chat_session \<Rightarrow> chat_session" where
  "put_out ls se = se\<lparr>cs_out := cs_out se @ ls\<rparr>"

text \<open>The whispers held for a station, oldest first, cleared as they are shown.\<close>

definition flush_offline_msgs :: "chat_env \<Rightarrow> callsign \<Rightarrow> chat_state \<Rightarrow> chat_state \<times> chat_out list" where
  "flush_offline_msgs env call st =
     (let rows = filter (for_call call) (ch_offline st) in
      if \<not> ch_db_path st \<or> rows = [] then (st, [])
      else
        (st\<lparr>ch_offline := filter (\<lambda>r. \<not> for_call call r) (ch_offline st),
            ch_whisper := AList.update (upper call) (upper (or_from (last rows))) (ch_whisper st)\<rparr>,
         [Note (''--- '' @ nat_str (length rows) @ '' message(s) left for you ---'')]
         @ map (\<lambda>r. Plain (''['' @ ce_local env (or_ts r) @ ''] *'' @ or_from r @ arrow @ ''you* ('' @ or_room r @ ''): '' @ or_text r)) rows
         @ [Note ''--- end ---'']))"

definition show_row :: "bool \<Rightarrow> nat option \<times> string \<Rightarrow> chat_out" where
  "show_row is_sysop row = (case row of
       (None, line) \<Rightarrow> Note line
     | (Some i, line) \<Rightarrow> if is_sysop \<and> i \<noteq> 0 then Labelled (''['' @ nat_str i @ '']'') line else Plain line)"

definition replay_history :: "nat \<Rightarrow> callsign \<Rightarrow> bool \<Rightarrow> chat_state \<Rightarrow> chat_out list" where
  "replay_history i call is_sysop st =
     (let db_history = (if ch_db_path st then recent_rows (cr_name (room_at i st)) (ch_history_lines st) (ch_rows st) else []);
          plain = get_history i st;
          rows = (if db_history \<noteq> [] then map (\<lambda>r. (hr_id r, hr_line r)) db_history
                  else map (\<lambda>l. (0, l)) (last_n 10 plain));
          compacted = compact_history rows (Some call)
      in if db_history = [] \<and> plain = [] then []
         else if compacted = [] then []
         else [Note ''--- recent ---''] @ map (show_row is_sysop) compacted @ [Note ''--- end ---''])"

section \<open>A chat session\<close>

definition users_here :: "nat \<Rightarrow> chat_state \<Rightarrow> string" where
  "users_here i st = join '', '' (room_who i st)"

text \<open>\<open>handle_session\<close> up to its loop: the first room of the table, or a new \<open>main\<close>.\<close>

definition enter_chat :: "chat_env \<Rightarrow> callsign \<Rightarrow> bool \<Rightarrow> chat_state \<Rightarrow> chat_state \<times> chat_session" where
  "enter_chat env call is_sysop st =
     (let (st, i) = (case ch_rooms st of [] \<Rightarrow> get_or_create_room ''main'' [] st | (_, i) # _ \<Rightarrow> (st, i));
          (st, q) = room_join i call st;
          shown = [Labelled ''Entered chat room:'' (cr_name (room_at i st)), Field ''Users here:'' (users_here i st)]
            @ replay_history i call is_sysop st
            @ [Labelled ''Commands:'' (''/WHO  /MSG <call> <text>  /R <text>  /JOIN <room>  /ROOMS /QUIT''
                @ (if is_sysop then ''  /HIST  /DEL <id>  /DELROOM <room>'' else []))];
          (st, held) = flush_offline_msgs env call st
      in (st, \<lparr>cs_call = call, cs_sysop = is_sysop, cs_entered = i, cs_room = i, cs_inbox = q,
               cs_reader_done = False, cs_out = shown @ held @ [Plain []]\<rparr>))"

text \<open>
  The \<open>finally\<close> of \<open>handle_session\<close>: it leaves the room the session entered, which its loop's \<open>/JOIN\<close>
  (a local variable of \<open>_chat_loop\<close>) does not change.
\<close>

definition leave_chat :: "chat_session \<Rightarrow> chat_state \<Rightarrow> chat_state" where
  "leave_chat se st = room_leave (cs_entered se) (cs_call se) st"

text \<open>One turn of the reader task: the queue is the session's present one; it ends at the sentinel,
  which it puts back.\<close>

definition reader_turn :: "chat_session \<Rightarrow> chat_state \<Rightarrow> chat_state \<times> chat_session" where
  "reader_turn se st =
     (if cs_reader_done se then (st, se)
      else (case ch_queues st ! cs_inbox se of
          [] \<Rightarrow> (st, se)
        | Some line # rest \<Rightarrow> (st\<lparr>ch_queues := (ch_queues st)[cs_inbox se := rest]\<rparr>, put_out [Plain line] se)
        | None # rest \<Rightarrow>
            (st\<lparr>ch_queues := put_nowait (cs_inbox se) None ((ch_queues st)[cs_inbox se := rest])\<rparr>,
             se\<lparr>cs_reader_done := True\<rparr>)))"

text \<open>\<open>s.split(None, n)\<close>.\<close>

fun split_ws :: "nat \<Rightarrow> string \<Rightarrow> string list" where
  "split_ws 0 s = (if lstrip s = [] then [] else [lstrip s])"
| "split_ws (Suc n) s = (if lstrip s = [] then []
     else takeWhile (\<lambda>c. \<not> is_space c) (lstrip s) # split_ws n (dropWhile (\<lambda>c. \<not> is_space c) (lstrip s)))"

definition deliver_private_msg ::
  "chat_env \<Rightarrow> nat \<Rightarrow> callsign \<Rightarrow> callsign \<Rightarrow> string \<Rightarrow> chat_state \<Rightarrow> chat_state \<times> chat_out list" where
  "deliver_private_msg env i from_call dest text st =
     (if dest = upper from_call then (st, [Warn ''You cannot /MSG yourself.''])
      else
        (let target = (if dest \<in> fst ` set (cr_members (room_at i st)) then Some i else find_member_room dest st);
             (st, sent) = (case target of None \<Rightarrow> (st, False) | Some k \<Rightarrow> private_msg env k from_call dest text st)
         in if sent then
              (st, [Note (''['' @ ce_hhmm env @ ''] *you'' @ arrow @ dest
                 @ (if target = Some i then [] else '' (in '' @ cr_name (room_at (the target) st) @ '')'') @ ''*: '' @ text)])
            else if \<not> is_known_user env dest then
              (st, [Warn (dest @ '' is not in chat and is not a known user here '' @ [replacement] @ '' nothing sent.'')])
            else (case post_offline_bulletin env i from_call dest text st of
                Some (n, area) \<Rightarrow>
                  (st, [Okay (dest @ '' is not in chat '' @ [replacement] @ '' saved as '' @ area @ '' message #''
                     @ nat_str n @ '' addressed to them.'')])
              | None \<Rightarrow>
                  (let (st, ok) = store_offline_msg env from_call dest (cr_name (room_at i st)) text st in
                   if ok then (st, [Okay (dest @ '' is not in chat '' @ [replacement] @ '' held, and shown when they next join.'')])
                   else (st, [Warn (dest @ '' is not in chat and the message could not be stored.'')])))))"

definition join_room :: "callsign \<Rightarrow> chat_session \<Rightarrow> chat_state \<Rightarrow> chat_state \<times> chat_session" where
  "join_room name se st =
     (let (st, k) = get_or_create_room (lower name) [] st;
          st = (if \<not> cr_persist (room_at k st) \<and> ch_db_path st
                then set_room k (\<lambda>r. r\<lparr>cr_history_size := ch_history_lines st, cr_persist := True\<rparr>) st else st);
          st = room_leave (cs_room se) (cs_call se) st;
          (st, q) = room_join k (cs_call se) st
      in (st, put_out ([Labelled ''Joined room:'' (cr_name (room_at k st)), Field ''Users here:'' (users_here k st)]
                @ replay_history k (cs_call se) (cs_sysop se) st)
              (se\<lparr>cs_room := k, cs_inbox := q\<rparr>)))"

definition rooms_lines :: "chat_state \<Rightarrow> chat_out list" where
  "rooms_lines st = map (\<lambda>(_, i). Labelled (ljust 12 (cr_name (room_at i st)))
     (nat_str (member_count i st) @ '' user(s)  '' @ cr_description (room_at i st))) (ch_rooms st)"

definition history_lines :: "nat \<Rightarrow> chat_state \<Rightarrow> chat_out list" where
  "history_lines i st =
     (if ch_db_path st then [Note ''--- history ---'']
        @ map (\<lambda>r. Labelled (''['' @ nat_str (hr_id r) @ '']'') (hr_line r))
            (recent_rows (cr_name (room_at i st)) (ch_history_lines st) (ch_rows st))
        @ [Note ''--- end ---'']
      else [Warn ''No DB path configured.''])"

definition is_digits :: "string \<Rightarrow> bool" where
  "is_digits s \<longleftrightarrow> s \<noteq> [] \<and> list_all is_digit s"

text \<open>
  \<open>_chat_loop\<close> after one line was read: the command, the session and whether the loop goes on.
\<close>

definition chat_command :: "chat_env \<Rightarrow> string \<Rightarrow> chat_session \<Rightarrow> chat_state \<Rightarrow> chat_state \<times> chat_session \<times> bool" where
  "chat_command env line se st =
     (let parts = split_ws 2 line;
          cmd = upper (hd parts);
          i = cs_room se;
          call = cs_call se;
          show = (\<lambda>ls. (st, put_out ls se, True))
      in if cmd = ''/QUIT'' then (st, se, False)
         else if cmd = ''/WHO'' then
           show [Field (''Users in '' @ cr_name (room_at i st) @ '':'') (users_here i st)]
         else if cmd = ''/MSG'' then
           (if length parts < 3 then show [Warn ''Usage: /MSG <callsign> <message>'']
            else (let (st, ls) = deliver_private_msg env i call (upper (parts ! 1)) (parts ! 2) st in (st, put_out ls se, True)))
         else if cmd = ''/R'' then
           (let rest = split_ws 1 line; body = (if 1 < length rest then rest ! 1 else []) in
            case map_of (ch_whisper st) (upper call) of
              None \<Rightarrow> show [Warn ''Nobody has messaged you yet. Use /MSG <callsign> <message>.'']
            | Some reply_to \<Rightarrow>
                if reply_to = [] then show [Warn ''Nobody has messaged you yet. Use /MSG <callsign> <message>.'']
                else if body = [] then show [Warn (''Usage: /R <message>  (replies to '' @ reply_to @ '')'')]
                else (let (st, ls) = deliver_private_msg env i call reply_to body st in (st, put_out ls se, True)))
         else if cmd = ''/JOIN'' then
           (if length parts < 2 then show [Warn ''Usage: /JOIN <room>'']
            else (let (st, se) = join_room (parts ! 1) se st in (st, se, True)))
         else if cmd = ''/ROOMS'' then show (rooms_lines st)
         else if cmd = ''/HIST'' \<and> cs_sysop se then show (history_lines i st)
         else if cmd = ''/DEL'' \<and> cs_sysop se then
           (if length parts < 2 \<or> \<not> is_digits (parts ! 1) then show [Warn ''Usage: /DEL <message-id>'']
            else (case delete_message (cr_name (room_at i st)) (the (int_unsigned (parts ! 1))) st of
                (st, None) \<Rightarrow> (st, put_out [Warn (''Message #'' @ parts ! 1 @ '' not found in this room.'')] se, True)
              | (st, Some _) \<Rightarrow> (st, put_out [Okay (''Message #'' @ parts ! 1 @ '' deleted.'')] se, True)))
         else if cmd = ''/DELROOM'' \<and> cs_sysop se then
           (if length parts < 2 then show [Warn ''Usage: /DELROOM <room-name>'']
            else (let target = lower (parts ! 1) in
              if target = cr_name (room_at i st) then
                show [Warn ''Cannot delete the room you are currently in. Use /JOIN first.'']
              else (case delete_room target st of
                  (st, True) \<Rightarrow> (st, put_out [Okay (''Room '' @ [CHR 0x27] @ target @ [CHR 0x27] @ '' deleted.'')] se, True)
                | (st, False) \<Rightarrow> (st, put_out [Warn (''Room '' @ [CHR 0x27] @ target @ [CHR 0x27] @ '' not found.'')] se, True))))
         else show [Warn ''Unknown command. Try /WHO /MSG /R /JOIN /ROOMS /QUIT''])"

text \<open>
  The top of the loop (a deleted room ends it, otherwise the prompt), and what is done with the line
  that was read, empty at a timeout or an empty input. Other sessions run in between.
\<close>

definition chat_prompt :: "chat_session \<Rightarrow> chat_state \<Rightarrow> chat_session \<times> bool" where
  "chat_prompt se st =
     (if cs_reader_done se then (put_out [Warn ''Room has been deleted. Leaving chat.''] se, False)
      else (put_out [Asked (cr_name (room_at (cs_room se) st) @ ''> '')] se, True))"

definition chat_line :: "chat_env \<Rightarrow> string \<Rightarrow> chat_session \<Rightarrow> chat_state \<Rightarrow> chat_state \<times> chat_session \<times> bool" where
  "chat_line env line se st =
     (if line = [] then (st, se, True)
      else if take 1 line = ''/'' then chat_command env line se st
      else (say env (cs_room se) (cs_call se) line st, se, True))"

definition chat_stats :: "chat_state \<Rightarrow> (string \<times> nat) list" where
  "chat_stats st = map (\<lambda>(n, i). (n, member_count i st)) (ch_rooms st)"

section \<open>The sessions together\<close>

record chat_sys =
  sy_chat :: chat_state
  sy_sessions :: "nat \<Rightarrow> chat_session option"

text \<open>
  Everything the event loop can run: a station enters, a session's loop top, a line it typed, its
  reader, its end (by \<open>/QUIT\<close>, a deleted room, or an exception out of the terminal), a persist task.
\<close>

inductive chat_step :: "chat_sys \<Rightarrow> chat_sys \<Rightarrow> bool" where
  Enter: "sy_sessions s k = None \<Longrightarrow> enter_chat env call sysop (sy_chat s) = (st, se) \<Longrightarrow>
    chat_step s \<lparr>sy_chat = st, sy_sessions = (sy_sessions s)(k \<mapsto> se)\<rparr>"
| Top: "sy_sessions s k = Some se \<Longrightarrow> chat_prompt se (sy_chat s) = (se', True) \<Longrightarrow>
    chat_step s (s\<lparr>sy_sessions := (sy_sessions s)(k \<mapsto> se')\<rparr>)"
| Typed: "sy_sessions s k = Some se \<Longrightarrow> chat_line env line se (sy_chat s) = (st, se', True) \<Longrightarrow>
    chat_step s \<lparr>sy_chat = st, sy_sessions = (sy_sessions s)(k \<mapsto> se')\<rparr>"
| Reader: "sy_sessions s k = Some se \<Longrightarrow> reader_turn se (sy_chat s) = (st, se') \<Longrightarrow>
    chat_step s \<lparr>sy_chat = st, sy_sessions = (sy_sessions s)(k \<mapsto> se')\<rparr>"
| Leave: "sy_sessions s k = Some se \<Longrightarrow>
    chat_step s \<lparr>sy_chat = leave_chat se (sy_chat s), sy_sessions = (sy_sessions s)(k := None)\<rparr>"
| Task: "chat_step s (s\<lparr>sy_chat := run_task env k (sy_chat s)\<rparr>)"

inductive chat_reachable :: "chat_sys \<Rightarrow> bool" where
  Start: "chat_reachable \<lparr>sy_chat = initialize lines area cfg (chat_init\<lparr>ch_rows := rows, ch_next_row := n,
      ch_offline := offs, ch_next_offline := m\<rparr>), sy_sessions = (\<lambda>_. None)\<rparr>"
    if "sorted_wrt (<) (map hr_id rows)" and "\<forall>r\<in>set rows. hr_id r < n"
| Run: "chat_reachable s \<Longrightarrow> chat_step s s' \<Longrightarrow> chat_reachable s'"

end
