(* ===== verification/Chat_Properties.thy ===== *)
theory Chat_Properties
  imports Chat
begin

text \<open>
  Properties of the chat plugin: the invariant of the room and queue stores, who receives what, the
  scrollback, whispers for the absent, and two ways in which the code leaves something behind.
\<close>

section \<open>Stores\<close>

lemma set_room_simps [simp]:
  "length (ch_objs (set_room i f st)) = length (ch_objs st)"
  "ch_queues (set_room i f st) = ch_queues st" "ch_rooms (set_room i f st) = ch_rooms st"
  "ch_rows (set_room i f st) = ch_rows st" "ch_next_row (set_room i f st) = ch_next_row st"
  "ch_tasks (set_room i f st) = ch_tasks st" "ch_offline (set_room i f st) = ch_offline st"
  "ch_whisper (set_room i f st) = ch_whisper st" "ch_history_lines (set_room i f st) = ch_history_lines st"
  "ch_db_path (set_room i f st) = ch_db_path st"
  by (simp_all add: set_room_def)

lemma room_at_set_room:
  "i < length (ch_objs st) \<Longrightarrow> room_at j (set_room i f st) = (if j = i then f (room_at i st) else room_at j st)"
  by (simp add: room_at_def set_room_def)

lemma length_put_nowait [simp]: "length (put_nowait q x qs) = length qs"
  by (simp add: put_nowait_def)

lemma put_nowait_other: "q \<noteq> p \<Longrightarrow> put_nowait q x qs ! p = qs ! p"
  by (simp add: put_nowait_def)

lemma put_nowait_same:
  "q < length qs \<Longrightarrow> put_nowait q x qs ! q = (if length (qs ! q) < QUEUE_SIZE then qs ! q @ [x] else qs ! q)"
  by (auto simp: put_nowait_def queue_full_def)

definition queues_bounded :: "queue list \<Rightarrow> bool" where
  "queues_bounded qs \<longleftrightarrow> (\<forall>p < length qs. length (qs ! p) \<le> QUEUE_SIZE)"

lemma put_nowait_bounded: "queues_bounded qs \<Longrightarrow> queues_bounded (put_nowait q x qs)"
  unfolding queues_bounded_def
  by (cases "q < length qs") (auto simp: put_nowait_def queue_full_def nth_list_update)

lemma length_deliver [simp]: "length (deliver line ex ms qs) = length qs"
  by (induction line ex ms qs rule: deliver.induct) auto

lemma deliver_bounded: "queues_bounded qs \<Longrightarrow> queues_bounded (deliver line ex ms qs)"
  by (induction line ex ms qs rule: deliver.induct) (auto simp: put_nowait_bounded)

lemma length_put_sentinels [simp]: "length (put_sentinels ms qs) = length qs"
  by (induction ms qs rule: put_sentinels.induct) auto

lemma put_sentinels_bounded: "queues_bounded qs \<Longrightarrow> queues_bounded (put_sentinels ms qs)"
  by (induction ms qs rule: put_sentinels.induct) (auto simp: put_nowait_bounded)

text \<open>What a delivery does to one queue, when no two members share one.\<close>

definition listens :: "callsign option \<Rightarrow> (callsign, nat) dict \<Rightarrow> nat \<Rightarrow> bool" where
  "listens ex ms p \<longleftrightarrow> (\<exists>c. (c, p) \<in> set ms \<and> \<not> excluded ex c)"

lemma deliver_nth:
  assumes "distinct (map snd ms)" and "p < length qs"
  shows "deliver line ex ms qs ! p =
    (if listens ex ms p \<and> length (qs ! p) < QUEUE_SIZE then qs ! p @ [Some line] else qs ! p)"
  using assms
proof (induction line ex ms qs rule: deliver.induct)
  case (2 line ex call q ms qs)
  have q: "q \<notin> snd ` set ms" and d: "distinct (map snd ms)" using "2.prems" by simp_all
  show ?case
  proof (cases "p = q")
    case True
    then have "\<not> listens ex ms p" using q by (force simp: listens_def)
    moreover have "listens ex ((call, q) # ms) p = (\<not> excluded ex call)"
      using True q by (force simp: listens_def)
    ultimately show ?thesis
      using 2 d True by (simp add: put_nowait_same)
  next
    case False
    then have "listens ex ((call, q) # ms) p = listens ex ms p" by (auto simp: listens_def)
    then show ?thesis using 2 d False by (simp add: put_nowait_other)
  qed
qed (simp add: listens_def)

section \<open>The invariant\<close>

definition rooms_ok :: "chat_state \<Rightarrow> bool" where
  "rooms_ok st \<longleftrightarrow> distinct (map fst (ch_rooms st)) \<and>
     (\<forall>(k, i) \<in> set (ch_rooms st). i < length (ch_objs st) \<and> cr_name (room_at i st) = k)"

text \<open>The queue of a member of a room.\<close>

definition owner :: "chat_state \<Rightarrow> nat \<Rightarrow> callsign \<Rightarrow> nat \<Rightarrow> bool" where
  "owner st i c q \<longleftrightarrow> i < length (ch_objs st) \<and> (c, q) \<in> set (cr_members (room_at i st))"

definition members_ok :: "chat_state \<Rightarrow> bool" where
  "members_ok st \<longleftrightarrow>
     (\<forall>i < length (ch_objs st). distinct (map fst (cr_members (room_at i st)))) \<and>
     (\<forall>i c q. owner st i c q \<longrightarrow> q < length (ch_queues st)) \<and>
     (\<forall>i c q j d. owner st i c q \<longrightarrow> owner st j d q \<longrightarrow> i = j \<and> c = d)"

definition rows_ok :: "chat_state \<Rightarrow> bool" where
  "rows_ok st \<longleftrightarrow> sorted_wrt (<) (map hr_id (ch_rows st)) \<and> (\<forall>r \<in> set (ch_rows st). hr_id r < ch_next_row st)"

definition chat_ok :: "chat_state \<Rightarrow> bool" where
  "chat_ok st \<longleftrightarrow> rooms_ok st \<and> members_ok st \<and> queues_bounded (ch_queues st) \<and> rows_ok st"

definition session_ok :: "chat_state \<Rightarrow> chat_session \<Rightarrow> bool" where
  "session_ok st se \<longleftrightarrow> cs_room se < length (ch_objs st) \<and> cs_entered se < length (ch_objs st)
     \<and> cs_inbox se < length (ch_queues st)"

text \<open>The stores only grow.\<close>

definition grows :: "chat_state \<Rightarrow> chat_state \<Rightarrow> bool" where
  "grows st st' \<longleftrightarrow> length (ch_objs st) \<le> length (ch_objs st') \<and> length (ch_queues st) \<le> length (ch_queues st')"

lemma grows_refl [simp]: "grows st st" and grows_trans: "grows st u \<Longrightarrow> grows u v \<Longrightarrow> grows st v"
  by (simp_all add: grows_def)

lemma session_ok_grows: "session_ok st se \<Longrightarrow> grows st st' \<Longrightarrow> session_ok st' se"
  by (simp add: session_ok_def grows_def)

text \<open>A change that leaves rooms, members and queues as they are, but for what queues hold.\<close>

definition same_shape :: "chat_state \<Rightarrow> chat_state \<Rightarrow> bool" where
  "same_shape st st' \<longleftrightarrow> ch_rooms st' = ch_rooms st
     \<and> map (\<lambda>r. (cr_name r, cr_members r)) (ch_objs st') = map (\<lambda>r. (cr_name r, cr_members r)) (ch_objs st)
     \<and> length (ch_queues st') = length (ch_queues st)
     \<and> (queues_bounded (ch_queues st) \<longrightarrow> queues_bounded (ch_queues st'))"

lemma same_shape_refl [simp]: "same_shape st st"
  by (simp add: same_shape_def)

lemma same_shape_trans: "same_shape st u \<Longrightarrow> same_shape u v \<Longrightarrow> same_shape st v"
  by (simp add: same_shape_def)

lemma same_shapeD:
  assumes "same_shape st st'"
  shows "length (ch_objs st') = length (ch_objs st)"
    and "i < length (ch_objs st) \<Longrightarrow> cr_name (room_at i st') = cr_name (room_at i st)"
    and "i < length (ch_objs st) \<Longrightarrow> cr_members (room_at i st') = cr_members (room_at i st)"
proof -
  note eq = assms [unfolded same_shape_def, THEN conjunct2, THEN conjunct1]
  show len: "length (ch_objs st') = length (ch_objs st)"
    using arg_cong [OF eq, of length] by (simp only: length_map)
  show "cr_name (room_at i st') = cr_name (room_at i st)" "cr_members (room_at i st') = cr_members (room_at i st)"
    if i: "i < length (ch_objs st)"
  proof -
    have "map (\<lambda>r. (cr_name r, cr_members r)) (ch_objs st') ! i = map (\<lambda>r. (cr_name r, cr_members r)) (ch_objs st) ! i"
      by (simp only: eq)
    then have "(cr_name (ch_objs st' ! i), cr_members (ch_objs st' ! i)) = (cr_name (ch_objs st ! i), cr_members (ch_objs st ! i))"
      using i len by (simp only: nth_map)
    then show "cr_name (room_at i st') = cr_name (room_at i st)" "cr_members (room_at i st') = cr_members (room_at i st)"
      by (simp_all only: room_at_def prod.inject)
  qed
qed

lemma same_shape_ok:
  assumes s: "same_shape st st'"
  shows "rooms_ok st \<Longrightarrow> rooms_ok st'" and "members_ok st \<Longrightarrow> members_ok st'"
    and "queues_bounded (ch_queues st) \<Longrightarrow> queues_bounded (ch_queues st')" and "grows st st'"
proof -
  note len = same_shapeD(1) [OF s] and nm = same_shapeD(2) [OF s] and mm = same_shapeD(3) [OF s]
  have o: "owner st' = owner st"
  proof (intro ext)
    fix i c q show "owner st' i c q = owner st i c q"
      using mm [of i] by (cases "i < length (ch_objs st)") (simp_all add: owner_def len)
  qed
  have q: "length (ch_queues st') = length (ch_queues st)" "ch_rooms st' = ch_rooms st"
    using s unfolding same_shape_def by blast+
  show "rooms_ok st'" if ok: "rooms_ok st"
    unfolding rooms_ok_def q len
  proof (intro conjI ballI)
    show "distinct (map fst (ch_rooms st))" using ok unfolding rooms_ok_def by blast
    fix x assume "x \<in> set (ch_rooms st)"
    then have "case x of (k, i) \<Rightarrow> i < length (ch_objs st) \<and> cr_name (room_at i st) = k"
      using ok unfolding rooms_ok_def by blast
    then show "case x of (k, i) \<Rightarrow> i < length (ch_objs st) \<and> cr_name (room_at i st') = k"
      by (cases x) (simp add: nm)
  qed
  show "members_ok st'" if ok: "members_ok st"
  proof -
    have "distinct (map fst (cr_members (room_at i st')))" if "i < length (ch_objs st)" for i
      using ok mm [OF that] that unfolding members_ok_def by simp
    then show ?thesis
      using ok unfolding members_ok_def o q len by blast
  qed
  show "queues_bounded (ch_queues st) \<Longrightarrow> queues_bounded (ch_queues st')" using s unfolding same_shape_def by blast
  show "grows st st'" by (simp add: grows_def len q)
qed

lemma chat_ok_same_shape:
  "chat_ok st \<Longrightarrow> same_shape st st' \<Longrightarrow> ch_rows st' = ch_rows st \<Longrightarrow> ch_next_row st' = ch_next_row st \<Longrightarrow> chat_ok st'"
  using same_shape_ok by (auto simp: chat_ok_def rows_ok_def)

lemma set_room_same_shape:
  "cr_name (f (room_at i st)) = cr_name (room_at i st) \<Longrightarrow> cr_members (f (room_at i st)) = cr_members (room_at i st) \<Longrightarrow>
     same_shape st (set_room i f st)"
proof -
  assume eq: "cr_name (f (room_at i st)) = cr_name (room_at i st)" "cr_members (f (room_at i st)) = cr_members (room_at i st)"
  have "map (\<lambda>r. (cr_name r, cr_members r)) ((ch_objs st)[i := f (ch_objs st ! i)]) =
      map (\<lambda>r. (cr_name r, cr_members r)) (ch_objs st)"
  proof (cases "i < length (ch_objs st)")
    case True
    then have "(map (\<lambda>r. (cr_name r, cr_members r)) (ch_objs st))[i := (cr_name (ch_objs st ! i), cr_members (ch_objs st ! i))]
        = map (\<lambda>r. (cr_name r, cr_members r)) (ch_objs st)"
      by (metis (mono_tags, lifting) list_update_id nth_map)
    then show ?thesis using eq by (simp add: map_update room_at_def)
  qed (simp add: list_update_beyond)
  then show ?thesis by (simp add: same_shape_def set_room_def)
qed

lemma room_broadcast_frame:
  "same_shape st (room_broadcast i line ex st)"
  "ch_rows (room_broadcast i line ex st) = ch_rows st" "ch_next_row (room_broadcast i line ex st) = ch_next_row st"
proof -
  define hist where "hist = (if cr_history_size (room_at i st) < int (length (cr_history (room_at i st) @ [line]))
    then tl (cr_history (room_at i st) @ [line]) else cr_history (room_at i st) @ [line])"
  have "same_shape st (set_room i (\<lambda>r. r\<lparr>cr_history := hist\<rparr>) st)"
    by (rule set_room_same_shape) simp_all
  then show "same_shape st (room_broadcast i line ex st)"
    by (simp add: room_broadcast_def Let_def hist_def same_shape_def deliver_bounded)
  show "ch_rows (room_broadcast i line ex st) = ch_rows st" "ch_next_row (room_broadcast i line ex st) = ch_next_row st"
    by (simp_all add: room_broadcast_def Let_def)
qed

lemma chat_ok_broadcast: "chat_ok st \<Longrightarrow> chat_ok (room_broadcast i line ex st)"
  using chat_ok_same_shape room_broadcast_frame by blast

lemma private_msg_shape:
  "same_shape st (fst (private_msg env i a b text st))"
  "ch_rows (fst (private_msg env i a b text st)) = ch_rows st"
  "ch_next_row (fst (private_msg env i a b text st)) = ch_next_row st"
  by (simp_all add: private_msg_def same_shape_def put_nowait_bounded Let_def split: option.split)

lemma flush_offline_shape:
  "same_shape st (fst (flush_offline_msgs env call st))"
  "ch_rows (fst (flush_offline_msgs env call st)) = ch_rows st"
  "ch_next_row (fst (flush_offline_msgs env call st)) = ch_next_row st"
  by (simp_all add: flush_offline_msgs_def same_shape_def Let_def)

lemma deliver_cases:
  assumes "deliver_private_msg env i a b msg st = (st', outs)"
  shows "(\<exists>w. outs = [Warn w] \<and> st' = st)
    \<or> (\<exists>n k. outs = [Note n] \<and> private_msg env k a b msg st = (st', True))
    \<or> (\<exists>n. outs = [Okay n] \<and> st' = st \<and> post_offline_bulletin env i a b msg st \<noteq> None)
    \<or> (\<exists>n x. outs = [Okay n] \<and> store_offline_msg env a b x msg st = (st', True) \<and> is_known_user env b)"
proof (cases "b = upper a")
  case True
  then show ?thesis using assms by (auto simp: deliver_private_msg_def)
next
  case False
  define target where "target = (if b \<in> fst ` set (cr_members (room_at i st)) then Some i else find_member_room b st)"
  define m where "m = (case target of None \<Rightarrow> (st, False) | Some k \<Rightarrow> private_msg env k a b msg st)"
  have unsent: "\<not> snd m \<Longrightarrow> fst m = st"
    by (auto simp: m_def private_msg_def Let_def split: option.splits if_splits)
  have sent: "snd m \<Longrightarrow> \<exists>k. private_msg env k a b msg st = (fst m, True)"
    by (auto simp: m_def prod_eq_iff split: option.splits)
  have r: "(st', outs) = (if snd m then (fst m, [Note (''['' @ ce_hhmm env @ ''] *you'' @ arrow @ b
                 @ (if target = Some i then [] else '' (in '' @ cr_name (room_at (the target) (fst m)) @ '')'') @ ''*: '' @ msg)])
            else if \<not> is_known_user env b then
              (fst m, [Warn (b @ '' is not in chat and is not a known user here '' @ [replacement] @ '' nothing sent.'')])
            else (case post_offline_bulletin env i a b msg (fst m) of
                Some (n, area) \<Rightarrow>
                  (fst m, [Okay (b @ '' is not in chat '' @ [replacement] @ '' saved as '' @ area @ '' message #''
                     @ nat_str n @ '' addressed to them.'')])
              | None \<Rightarrow>
                  (case store_offline_msg env a b (cr_name (room_at i (fst m))) msg (fst m) of (st, ok) \<Rightarrow>
                   if ok then (st, [Okay (b @ '' is not in chat '' @ [replacement] @ '' held, and shown when they next join.'')])
                   else (st, [Warn (b @ '' is not in chat and the message could not be stored.'')]))))"
    using assms [symmetric]
    unfolding deliver_private_msg_def if_not_P [OF False] Let_def target_def [symmetric] m_def [symmetric]
    by (cases m) (simp only: prod.case fst_conv snd_conv)
  show ?thesis
  proof (cases "snd m")
    case True
    then show ?thesis using r sent by auto
  next
    case ns: False
    show ?thesis
    proof (cases "is_known_user env b")
      case False
      then show ?thesis using r ns unsent by auto
    next
      case True
      show ?thesis
      proof (cases "post_offline_bulletin env i a b msg st")
        case None
        then show ?thesis
          using r ns True None unsent [OF ns] by (cases "ch_db_path st") (auto simp: store_offline_msg_def)
      next
        case (Some na)
        then show ?thesis using r ns True unsent [OF ns] by (auto split: prod.splits)
      qed
    qed
  qed
qed

lemma deliver_private_msg_shape:
  "same_shape st (fst (deliver_private_msg env i a b text st))"
  "ch_rows (fst (deliver_private_msg env i a b text st)) = ch_rows st"
  "ch_next_row (fst (deliver_private_msg env i a b text st)) = ch_next_row st"
proof -
  obtain st' outs where d: "deliver_private_msg env i a b text st = (st', outs)" by fastforce
  have "same_shape st u \<and> ch_rows u = ch_rows st \<and> ch_next_row u = ch_next_row st"
    if "store_offline_msg env a b x text st = (u, True)" for u x
    using that by (auto simp: store_offline_msg_def same_shape_def split: if_splits)
  moreover have "same_shape st u \<and> ch_rows u = ch_rows st \<and> ch_next_row u = ch_next_row st"
    if "private_msg env k a b text st = (u, True)" for u k
    using private_msg_shape [where st = st and env = env and i = k and a = a and b = b] that by (metis fst_conv)
  ultimately have "same_shape st st' \<and> ch_rows st' = ch_rows st \<and> ch_next_row st' = ch_next_row st"
    using deliver_cases [OF d] same_shape_refl by blast
  then show "same_shape st (fst (deliver_private_msg env i a b text st))"
    "ch_rows (fst (deliver_private_msg env i a b text st)) = ch_rows st"
    "ch_next_row (fst (deliver_private_msg env i a b text st)) = ch_next_row st"
    by (simp_all add: d)
qed

lemma reader_shape:
  assumes "cs_inbox se < length (ch_queues st)"
  shows "same_shape st (fst (reader_turn se st))" and "ch_rows (fst (reader_turn se st)) = ch_rows st"
    and "ch_next_row (fst (reader_turn se st)) = ch_next_row st"
proof -
  have less: "queues_bounded (ch_queues st) \<Longrightarrow> queues_bounded ((ch_queues st)[cs_inbox se := rest])"
    if "ch_queues st ! cs_inbox se = x # rest" for x rest
    using that assms unfolding queues_bounded_def
    by (auto simp: nth_list_update)
  show "same_shape st (fst (reader_turn se st))"
    using less by (auto simp: reader_turn_def same_shape_def put_nowait_bounded split: list.split option.split)
  show "ch_rows (fst (reader_turn se st)) = ch_rows st" "ch_next_row (fst (reader_turn se st)) = ch_next_row st"
    by (auto simp: reader_turn_def split: list.split option.split)
qed

text \<open>Adding and removing a member.\<close>

lemma in_delete: "x \<in> set (AList.delete c ms) \<Longrightarrow> x \<in> set ms"
  by (auto simp: AList.delete_eq)

lemma chat_ok_delete:
  assumes "chat_ok st" and "i < length (ch_objs st)"
  shows "chat_ok (set_room i (\<lambda>r. r\<lparr>cr_members := AList.delete c (cr_members r)\<rparr>) st)"
proof -
  define st' where "st' = set_room i (\<lambda>r. r\<lparr>cr_members := AList.delete c (cr_members r)\<rparr>) st"
  have at: "room_at j st' = (if j = i then (room_at i st)\<lparr>cr_members := AList.delete c (cr_members (room_at i st))\<rparr> else room_at j st)" for j
    using assms(2) by (simp add: st'_def room_at_set_room)
  have o: "owner st' j d q \<Longrightarrow> owner st j d q" for j d q
    by (auto simp: owner_def at st'_def [THEN arg_cong [of _ _ "\<lambda>s. length (ch_objs s)"]] split: if_splits dest: in_delete)
  have "members_ok st'"
    unfolding members_ok_def
  proof (intro conjI allI impI)
    fix j assume "j < length (ch_objs st')"
    then show "distinct (map fst (cr_members (room_at j st')))"
      using assms(1) by (simp add: chat_ok_def members_ok_def at) (simp add: st'_def)
  next
    fix j d q assume "owner st' j d q"
    then have "q < length (ch_queues st)" using o assms(1) unfolding chat_ok_def members_ok_def by blast
    then show "q < length (ch_queues st')" by (simp add: st'_def)
  next
    fix j d q j' d' assume a: "owner st' j d q" "owner st' j' d' q"
    show "j = j'" "d = d'"
      using o [OF a(1)] o [OF a(2)] assms(1) unfolding chat_ok_def members_ok_def by blast+
  qed
  moreover have "rooms_ok st'"
    using assms(1) by (auto simp: chat_ok_def rooms_ok_def at) (auto simp: st'_def)
  ultimately show ?thesis
    using assms(1) by (simp add: chat_ok_def st'_def rows_ok_def)
qed

lemma chat_ok_leave: "chat_ok st \<Longrightarrow> i < length (ch_objs st) \<Longrightarrow> chat_ok (room_leave i c st)"
  by (simp add: room_leave_def Let_def chat_ok_broadcast chat_ok_delete)

lemma in_update: "(d, p) \<in> set (AList.update c q ms) \<Longrightarrow> (d = c \<and> p = q) \<or> (d, p) \<in> set ms"
  by (induction ms) (auto split: if_splits)

lemma chat_ok_join:
  assumes "chat_ok st" and "i < length (ch_objs st)"
  shows "chat_ok (fst (room_join i c st))"
proof -
  define st1 where "st1 = st\<lparr>ch_queues := ch_queues st @ [[]]\<rparr>"
  define st' where "st' = set_room i (\<lambda>r. r\<lparr>cr_members := AList.update (upper c) (length (ch_queues st)) (cr_members r)\<rparr>) st1"
  have at1: "room_at j st1 = room_at j st" for j by (simp add: room_at_def st1_def)
  have at: "room_at j st' = (if j = i then (room_at i st)\<lparr>cr_members := AList.update (upper c) (length (ch_queues st)) (cr_members (room_at i st))\<rparr> else room_at j st)" for j
  proof -
    have "i < length (ch_objs st1)" using assms(2) by (simp add: st1_def)
    then show ?thesis by (simp add: st'_def room_at_set_room at1)
  qed
  have len: "length (ch_objs st') = length (ch_objs st)" "length (ch_queues st') = Suc (length (ch_queues st))"
    by (simp_all add: st'_def st1_def)
  have o: "owner st' j d q \<Longrightarrow> owner st j d q \<or> (j = i \<and> d = upper c \<and> q = length (ch_queues st))" for j d q
    by (auto simp: owner_def at len split: if_splits dest: in_update)
  have mem: "members_ok st" using assms(1) by (simp add: chat_ok_def)
  then have old: "owner st j d q \<Longrightarrow> q < length (ch_queues st)" for j d q
    unfolding members_ok_def by blast
  have "members_ok st'"
    unfolding members_ok_def
  proof (intro conjI allI impI)
    fix j assume "j < length (ch_objs st')"
    then show "distinct (map fst (cr_members (room_at j st')))"
      using mem by (simp add: members_ok_def at len)
  next
    fix j d q assume "owner st' j d q"
    then show "q < length (ch_queues st')" using o old len by fastforce
  next
    fix j d q j' d' assume a: "owner st' j d q" "owner st' j' d' q"
    then show "j = j'"
      using o [OF a(1)] o [OF a(2)] old [of j d q] old [of j' d' q] mem unfolding members_ok_def by blast
    show "d = d'"
      using o [OF a(1)] o [OF a(2)] old [of j d q] old [of j' d' q] mem a unfolding members_ok_def by blast
  qed
  moreover have "rooms_ok st'"
    using assms(1) by (auto simp: chat_ok_def rooms_ok_def at len) (auto simp: st'_def st1_def)
  moreover have "queues_bounded (ch_queues st')"
    using assms(1) by (auto simp: chat_ok_def queues_bounded_def st'_def st1_def nth_append QUEUE_SIZE_def)
  moreover have "rows_ok st'"
    using assms(1) by (simp add: chat_ok_def rows_ok_def st'_def st1_def)
  ultimately have "chat_ok st'" by (simp add: chat_ok_def)
  then show ?thesis
    by (simp add: room_join_def Let_def st1_def [symmetric] st'_def [symmetric] chat_ok_broadcast)
qed

lemma chat_ok_create:
  assumes "chat_ok st"
  shows "chat_ok (fst (get_or_create_room name d st))"
    and "snd (get_or_create_room name d st) < length (ch_objs (fst (get_or_create_room name d st)))"
    and "cr_name (room_at (snd (get_or_create_room name d st)) (fst (get_or_create_room name d st))) = lower name"
    and "grows st (fst (get_or_create_room name d st))"
proof -
  let ?r = "get_or_create_room name d st"
  show "grows st (fst ?r)" by (simp add: get_or_create_room_def grows_def Let_def split: option.split)
  have rooms: "(k, i) \<in> set (ch_rooms st) \<Longrightarrow> i < length (ch_objs st) \<and> cr_name (room_at i st) = k" for k i
    using assms unfolding chat_ok_def rooms_ok_def by blast
  have *: "chat_ok (fst ?r) \<and> snd ?r < length (ch_objs (fst ?r)) \<and> cr_name (room_at (snd ?r) (fst ?r)) = lower name"
  proof (cases "map_of (ch_rooms st) (lower name)")
    case (Some i)
    then show ?thesis using assms rooms [OF map_of_SomeD [OF Some]] by (simp add: get_or_create_room_def)
  next
    case None
    define st' where "st' = st\<lparr>ch_objs := ch_objs st @ [new_room name d (ch_history_lines st)],
      ch_rooms := AList.update (lower name) (length (ch_objs st)) (ch_rooms st)\<rparr>"
    have r: "?r = (st', length (ch_objs st))" using None by (simp add: get_or_create_room_def st'_def Let_def)
    have at: "i \<le> length (ch_objs st) \<Longrightarrow> room_at i st' = (if i = length (ch_objs st) then new_room name d (ch_history_lines st) else room_at i st)" for i
      by (simp add: room_at_def st'_def nth_append)
    have len: "length (ch_objs st') = Suc (length (ch_objs st))" "ch_queues st' = ch_queues st"
      by (simp_all add: st'_def)
    have o: "owner st' i c q = owner st i c q" for i c q
      by (auto simp: owner_def len at new_room_def less_Suc_eq)
    have "members_ok st'"
      using assms by (auto simp: chat_ok_def members_ok_def o len at new_room_def less_Suc_eq)
    moreover have "rooms_ok st'"
      unfolding rooms_ok_def
    proof (intro conjI ballI)
      show "distinct (map fst (ch_rooms st'))"
        using assms by (simp add: chat_ok_def rooms_ok_def st'_def)
      fix x assume "x \<in> set (ch_rooms st')"
      moreover obtain k i where x: "x = (k, i)" by (cases x)
      ultimately have "(k = lower name \<and> i = length (ch_objs st)) \<or> (k, i) \<in> set (ch_rooms st)"
        by (auto simp: st'_def dest: in_update)
      then have "i < length (ch_objs st') \<and> cr_name (room_at i st') = k"
        using rooms [of k i] at [of i] by (auto simp: len new_room_def)
      then show "case x of (k, i) \<Rightarrow> i < length (ch_objs st') \<and> cr_name (room_at i st') = k" by (simp add: x)
    qed
    moreover have "queues_bounded (ch_queues st')" "rows_ok st'"
      using assms by (simp_all add: chat_ok_def rows_ok_def st'_def)
    moreover have "cr_name (room_at (length (ch_objs st)) st') = lower name"
      using at [of "length (ch_objs st)"] by (simp add: new_room_def)
    ultimately show ?thesis by (simp add: r len chat_ok_def)
  qed
  then show "chat_ok (fst ?r)" "snd ?r < length (ch_objs (fst ?r))" "cr_name (room_at (snd ?r) (fst ?r)) = lower name"
    by blast+
qed

text \<open>The rows of a room: inserting at the end, filtering.\<close>

lemma rows_ok_filter: "rows_ok st \<Longrightarrow> rows_ok (st\<lparr>ch_rows := filter P (ch_rows st)\<rparr>)"
  by (auto simp: rows_ok_def sorted_wrt_map intro: sorted_wrt_filter)

lemma chat_ok_filter_rows: "chat_ok st \<Longrightarrow> chat_ok (st\<lparr>ch_rows := filter P (ch_rows st)\<rparr>)"
  using rows_ok_filter [of st P] same_shape_ok [of st "st\<lparr>ch_rows := filter P (ch_rows st)\<rparr>"]
  by (simp add: chat_ok_def same_shape_def)

lemma chat_ok_persist: "chat_ok st \<Longrightarrow> chat_ok (persist_line env room line st)"
proof -
  assume ok: "chat_ok st"
  define row where "row = \<lparr>hr_id = ch_next_row st, hr_room = room, hr_ts = ce_now env, hr_line = line\<rparr>"
  define st1 where "st1 = st\<lparr>ch_rows := ch_rows st @ [row], ch_next_row := ch_next_row st + 1\<rparr>"
  have "rows_ok st1"
    using ok by (auto simp: chat_ok_def rows_ok_def st1_def row_def sorted_wrt_append less_SucI)
  moreover have "same_shape st st1" by (simp add: same_shape_def st1_def)
  ultimately have "chat_ok st1" using ok same_shape_ok [of st st1] by (simp add: chat_ok_def)
  moreover have "persist_line env room line st = st1\<lparr>ch_rows := filter (\<lambda>r. \<not> (hr_room r = room \<and>
      hr_id r \<notin> set (map hr_id (recent_rows room (ch_history_lines st) (ch_rows st1))))) (ch_rows st1)\<rparr>"
    by (simp add: persist_line_def Let_def st1_def row_def)
  ultimately show ?thesis by (simp only: chat_ok_filter_rows)
qed

lemma chat_ok_delete_message: "chat_ok st \<Longrightarrow> chat_ok (fst (delete_message room n st))"
proof -
  assume ok: "chat_ok st"
  define st1 where "st1 = st\<lparr>ch_rows := filter (\<lambda>r. hr_id r \<noteq> n) (ch_rows st)\<rparr>"
  have ok1: "chat_ok st1" using ok by (simp add: st1_def chat_ok_filter_rows)
  have ok2: "chat_ok (set_room i (\<lambda>r. r\<lparr>cr_history := f r\<rparr>) st1)" for i f
    by (rule chat_ok_same_shape [OF ok1 set_room_same_shape]) simp_all
  show ?thesis
    using ok ok1 ok2 by (auto simp: delete_message_def Let_def st1_def [symmetric] split: option.split)
qed

lemma chat_ok_delete_room: "chat_ok st \<Longrightarrow> chat_ok (fst (delete_room room st))"
proof -
  assume ok: "chat_ok st"
  define st1 where "st1 = st\<lparr>ch_rows := filter (\<lambda>r. hr_room r \<noteq> room) (ch_rows st)\<rparr>"
  have ok1: "chat_ok st1" using ok by (simp add: st1_def chat_ok_filter_rows)
  define st2 where "st2 = st1\<lparr>ch_rooms := AList.delete room (ch_rooms st1)\<rparr>"
  have at: "room_at i st2 = room_at i st1" for i by (simp add: room_at_def st2_def)
  have "rooms_ok st2"
    unfolding rooms_ok_def
  proof (intro conjI ballI)
    show "distinct (map fst (ch_rooms st2))" using ok1 by (simp add: chat_ok_def rooms_ok_def st2_def)
    fix x assume "x \<in> set (ch_rooms st2)"
    then have "x \<in> set (ch_rooms st1)" by (auto simp: st2_def dest: in_delete)
    then have "case x of (k, i) \<Rightarrow> i < length (ch_objs st1) \<and> cr_name (room_at i st1) = k"
      using ok1 unfolding chat_ok_def rooms_ok_def by blast
    then show "case x of (k, i) \<Rightarrow> i < length (ch_objs st2) \<and> cr_name (room_at i st2) = k"
      by (simp add: at) (simp add: st2_def)
  qed
  moreover have "owner st2 = owner st1" "ch_objs st2 = ch_objs st1" "ch_queues st2 = ch_queues st1"
    by (intro ext, simp add: owner_def at) (simp_all add: st2_def)
  then have "members_ok st2" using ok1 by (simp add: chat_ok_def members_ok_def at)
  ultimately have ok2: "chat_ok st2" using ok1 by (simp add: chat_ok_def rows_ok_def st2_def)
  have ok3: "chat_ok (u\<lparr>ch_queues := put_sentinels ms (ch_queues u)\<rparr>)" if "chat_ok u" for u ms
    by (rule chat_ok_same_shape [OF that]) (simp_all add: same_shape_def put_sentinels_bounded)
  show ?thesis
    using ok ok1 ok3 [OF chat_ok_broadcast [OF ok2]]
    by (auto simp: delete_room_def Let_def st1_def [symmetric] st2_def [symmetric] split: option.split)
qed

section \<open>Every step\<close>

lemma grows_set_room [simp]: "grows st (set_room i f st)"
  by (simp add: grows_def)

lemma grows_same_shape: "same_shape st st' \<Longrightarrow> grows st st'"
  by (rule same_shape_ok)

lemma grows_broadcast: "grows st (room_broadcast i line ex st)"
  by (rule grows_same_shape) (rule room_broadcast_frame)

lemma grows_leave: "grows st (room_leave i c st)"
  unfolding room_leave_def Let_def by (rule grows_trans [OF grows_set_room grows_broadcast])

lemma room_join_result:
  "length (ch_objs (fst (room_join i c st))) = length (ch_objs st)"
  "snd (room_join i c st) = length (ch_queues st)"
  "length (ch_queues (fst (room_join i c st))) = Suc (length (ch_queues st))"
  using same_shapeD(1) [OF room_broadcast_frame(1)]
  by (simp_all add: room_join_def Let_def same_shapeD(1) [OF room_broadcast_frame(1)])
    (simp add: room_broadcast_def Let_def)

lemma grows_join: "grows st (fst (room_join i c st))"
  by (simp add: grows_def room_join_result)

lemma chat_ok_enter:
  assumes "chat_ok st" and "enter_chat env call sysop st = (st', se)"
  shows "chat_ok st' \<and> session_ok st' se \<and> grows st st'"
proof -
  define start where "start = (case ch_rooms st of [] \<Rightarrow> get_or_create_room ''main'' [] st | (_, i) # _ \<Rightarrow> (st, i))"
  have start: "chat_ok (fst start)" "snd start < length (ch_objs (fst start))" "grows st (fst start)"
    using chat_ok_create [OF assms(1), of "''main''" "[]"] assms(1)
    by (auto simp: start_def chat_ok_def rooms_ok_def split: list.split)
  define j where "j = room_join (snd start) call (fst start)"
  define fl where "fl = flush_offline_msgs env call (fst j)"
  have st': "st' = fst fl" and se: "cs_room se = snd start" "cs_entered se = snd start" "cs_inbox se = snd j"
    using assms(2) by (auto simp: enter_chat_def start_def [symmetric] j_def [symmetric] fl_def [symmetric] Let_def case_prod_beta)
  have j: "chat_ok (fst j)" "grows (fst start) (fst j)"
    using chat_ok_join [OF start(1,2)] grows_join by (simp_all add: j_def)
  have fl: "chat_ok (fst fl)" "same_shape (fst j) (fst fl)"
    using chat_ok_same_shape [OF j(1)] flush_offline_shape by (auto simp: fl_def)
  have "snd j < length (ch_queues (fst j))" by (simp add: j_def room_join_result)
  then have "session_ok st' se"
    using start(2) j(2) same_shapeD(1) [OF fl(2)] fl(2) by (simp add: session_ok_def st' se grows_def same_shape_def)
  then show ?thesis
    using fl(1) grows_trans [OF start(3) grows_trans [OF j(2) grows_same_shape [OF fl(2)]]] st' by simp
qed

lemma chat_ok_join_room:
  assumes "chat_ok st" and "session_ok st se" and "join_room name se st = (st', se')"
  shows "chat_ok st' \<and> session_ok st' se' \<and> grows st st'"
proof -
  define cr where "cr = get_or_create_room (lower name) [] st"
  note cr = chat_ok_create [OF assms(1), of "lower name" "[]", folded cr_def]
  define st1 where "st1 = (if \<not> cr_persist (room_at (snd cr) (fst cr)) \<and> ch_db_path (fst cr)
    then set_room (snd cr) (\<lambda>r. r\<lparr>cr_history_size := ch_history_lines (fst cr), cr_persist := True\<rparr>) (fst cr) else fst cr)"
  have shape: "same_shape (fst cr) (set_room (snd cr) (\<lambda>r. r\<lparr>cr_history_size := ch_history_lines (fst cr), cr_persist := True\<rparr>) (fst cr))"
    by (rule set_room_same_shape) simp_all
  have st1: "chat_ok st1" "length (ch_objs st1) = length (ch_objs (fst cr))" "grows (fst cr) st1"
    using chat_ok_same_shape [OF cr(1) shape] cr(1) by (simp_all add: st1_def)
  define st2 where "st2 = room_leave (cs_room se) (cs_call se) st1"
  have g1: "grows st st1" using grows_trans [OF cr(4) st1(3)] .
  have "cs_room se < length (ch_objs st1)" using assms(2) g1 by (simp add: session_ok_def grows_def)
  then have st2: "chat_ok st2" using chat_ok_leave [OF st1(1)] by (simp add: st2_def)
  have g2: "grows st1 st2" by (simp add: st2_def grows_leave)
  have k: "snd cr < length (ch_objs st2)" using cr(2) st1(2) g2 by (simp add: grows_def)
  define j where "j = room_join (snd cr) (cs_call se) st2"
  have j: "chat_ok (fst j)" "grows st2 (fst j)" "snd j < length (ch_queues (fst j))"
    using chat_ok_join [OF st2 k] grows_join by (simp_all add: j_def room_join_result)
  have res: "st' = fst j" "cs_room se' = snd cr" "cs_entered se' = cs_entered se" "cs_inbox se' = snd j"
    using assms(3) by (auto simp: join_room_def cr_def [symmetric] st1_def [symmetric] st2_def [symmetric] j_def [symmetric]
        put_out_def Let_def case_prod_beta)
  have "grows st (fst j)" using grows_trans [OF g1 grows_trans [OF g2 j(2)]] .
  then show ?thesis
    using j k assms(2) by (simp add: res session_ok_def grows_def)
qed

lemma put_out_simps [simp]:
  "cs_room (put_out ls se) = cs_room se" "cs_entered (put_out ls se) = cs_entered se"
  "cs_inbox (put_out ls se) = cs_inbox se" "cs_call (put_out ls se) = cs_call se"
  by (simp_all add: put_out_def)

lemma session_ok_put_out [simp]: "session_ok st (put_out ls se) = session_ok st se"
  by (simp add: session_ok_def)

definition keeps :: "chat_state \<Rightarrow> chat_session \<Rightarrow> chat_state \<times> chat_session \<times> bool \<Rightarrow> bool" where
  "keeps st se r \<longleftrightarrow> chat_ok (fst r) \<and> session_ok (fst r) (fst (snd r)) \<and> grows st (fst r)"

lemma grows_delete_message: "grows st (fst (delete_message room n st))"
  by (simp add: delete_message_def Let_def grows_def split: option.split)

lemma grows_delete_room: "grows st (fst (delete_room room st))"
proof (cases "ch_db_path st")
  case True
  define st1 where "st1 = st\<lparr>ch_rows := filter (\<lambda>r. hr_room r \<noteq> room) (ch_rows st)\<rparr>"
  have "grows st (st1\<lparr>ch_rooms := x\<rparr>)" for x by (simp add: grows_def st1_def)
  from grows_trans [OF this grows_broadcast] show ?thesis
    using True by (auto simp: delete_room_def Let_def st1_def [symmetric] grows_def split: option.split) (simp_all add: st1_def)
qed (simp add: delete_room_def)

lemma keeps_delivery:
  "chat_ok st \<Longrightarrow> session_ok st se \<Longrightarrow>
     keeps st se (let (st', ls) = deliver_private_msg env i a b text st in (st', put_out ls se, True))"
proof -
  assume ok: "chat_ok st" "session_ok st se"
  note sh = deliver_private_msg_shape
  have "chat_ok (fst (deliver_private_msg env i a b text st))"
    using chat_ok_same_shape [OF ok(1) sh] .
  then show ?thesis
    using session_ok_grows [OF ok(2) grows_same_shape [OF sh(1)]] grows_same_shape [OF sh(1)]
    by (simp add: keeps_def case_prod_beta)
qed

lemma keeps_show: "chat_ok st \<Longrightarrow> session_ok st se \<Longrightarrow> keeps st se (st, put_out ls se, b)"
  by (simp add: keeps_def)

lemma keeps_join:
  "chat_ok st \<Longrightarrow> session_ok st se \<Longrightarrow> keeps st se (let (st', se') = join_room name se st in (st', se', True))"
  using chat_ok_join_room [of st se name] by (cases "join_room name se st") (simp add: keeps_def)

lemma keeps_delete_message:
  "chat_ok st \<Longrightarrow> session_ok st se \<Longrightarrow>
     keeps st se (case delete_message room n st of (st', None) \<Rightarrow> (st', put_out xs se, True) | (st', Some _) \<Rightarrow> (st', put_out ys se, True))"
  using chat_ok_delete_message [of st room n] grows_delete_message [of st room n]
  by (auto simp: keeps_def session_ok_grows split: prod.split option.split)

lemma keeps_delete_room:
  "chat_ok st \<Longrightarrow> session_ok st se \<Longrightarrow>
     keeps st se (case delete_room room st of (st', True) \<Rightarrow> (st', put_out xs se, True) | (st', False) \<Rightarrow> (st', put_out ys se, True))"
  using chat_ok_delete_room [of st room] grows_delete_room [of st room]
  by (auto simp: keeps_def session_ok_grows split: prod.split bool.split)

lemma keeps_command:
  assumes "chat_ok st" and "session_ok st se"
  shows "keeps st se (chat_command env line se st)"
  using keeps_show [OF assms] keeps_delivery [OF assms] keeps_join [OF assms] keeps_delete_message [OF assms]
    keeps_delete_room [OF assms] assms
  unfolding chat_command_def Let_def
  by (auto simp: keeps_def [of st se "(st, se, False)"] split: option.split)

lemma keeps_line:
  assumes "chat_ok st" and "session_ok st se"
  shows "keeps st se (chat_line env line se st)"
  using keeps_command [OF assms] assms chat_ok_broadcast grows_broadcast session_ok_grows
  by (auto simp: chat_line_def keeps_def say_def)

definition sys_ok :: "chat_sys \<Rightarrow> bool" where
  "sys_ok s \<longleftrightarrow> chat_ok (sy_chat s) \<and> (\<forall>k se. sy_sessions s k = Some se \<longrightarrow> session_ok (sy_chat s) se)"

lemma sys_ok_update:
  assumes "sys_ok s" and "chat_ok st" and "grows (sy_chat s) st" and "session_ok st se"
  shows "sys_ok \<lparr>sy_chat = st, sy_sessions = (sy_sessions s)(k \<mapsto> se)\<rparr>"
  using assms unfolding sys_ok_def by (auto intro: session_ok_grows)

lemma sys_ok_step: "chat_step s s' \<Longrightarrow> sys_ok s \<Longrightarrow> sys_ok s'"
proof (induction rule: chat_step.induct)
  case (Enter s k env call sysop st se)
  then show ?case using chat_ok_enter [OF _ Enter(2)] by (intro sys_ok_update) (auto simp: sys_ok_def)
next
  case (Top s k se se')
  then show ?case by (auto simp: sys_ok_def chat_prompt_def split: if_splits)
next
  case (Typed s k se env line st se')
  then have "keeps (sy_chat s) se (st, se', True)"
    using keeps_line [of "sy_chat s" se env line] by (auto simp: sys_ok_def)
  with Typed.prems show ?case by (intro sys_ok_update) (auto simp: keeps_def)
next
  case (Reader s k se st se')
  have ok: "chat_ok (sy_chat s)" "session_ok (sy_chat s) se" using Reader by (auto simp: sys_ok_def)
  then have inbox: "cs_inbox se < length (ch_queues (sy_chat s))" by (simp add: session_ok_def)
  note sh = reader_shape [OF inbox]
  have st: "chat_ok st" "grows (sy_chat s) st"
    using chat_ok_same_shape [OF ok(1) sh] grows_same_shape [OF sh(1)] Reader(2) by simp_all
  have "cs_room se' = cs_room se" "cs_entered se' = cs_entered se" "cs_inbox se' = cs_inbox se"
    using Reader(2) by (auto simp: reader_turn_def put_out_def split: if_splits list.splits option.splits)
  then have "session_ok st se'"
    using session_ok_grows [OF ok(2) st(2)] by (simp add: session_ok_def)
  with Reader.prems st show ?case by (intro sys_ok_update)
next
  case (Leave s k se)
  then have "chat_ok (leave_chat se (sy_chat s))" "grows (sy_chat s) (leave_chat se (sy_chat s))"
    by (auto simp: sys_ok_def leave_chat_def session_ok_def intro: chat_ok_leave grows_leave)
  with Leave.prems show ?case by (auto simp: sys_ok_def dest: session_ok_grows)
next
  case (Task s env k)
  have "chat_ok (run_task env k (sy_chat s)) \<and> grows (sy_chat s) (run_task env k (sy_chat s))"
  proof (cases "k < length (ch_tasks (sy_chat s))")
    case True
    obtain room line where rl: "ch_tasks (sy_chat s) ! k = (room, line)" by fastforce
    define st1 where "st1 = (sy_chat s)\<lparr>ch_tasks := take k (ch_tasks (sy_chat s)) @ drop (Suc k) (ch_tasks (sy_chat s))\<rparr>"
    have "chat_ok st1"
      using Task chat_ok_same_shape [of "sy_chat s" st1] by (simp add: sys_ok_def same_shape_def st1_def)
    then have "chat_ok (persist_line env room line st1)" by (rule chat_ok_persist)
    moreover have "grows (sy_chat s) (persist_line env room line st1)"
      by (simp add: persist_line_def Let_def grows_def st1_def)
    ultimately show ?thesis using True rl by (simp add: run_task_def st1_def)
  next
    case False
    then show ?thesis using Task by (simp add: run_task_def sys_ok_def)
  qed
  with Task show ?case by (auto simp: sys_ok_def dest: session_ok_grows)
qed

text \<open>The start: rooms from the configuration and the table, nobody in them.\<close>

lemma create_rooms_ok:
  "chat_ok st \<Longrightarrow> chat_ok (create_rooms cfg st) \<and> ch_rows (create_rooms cfg st) = ch_rows st"
proof (induction cfg st rule: create_rooms.induct)
  case (2 name d cfg st)
  then have "chat_ok (fst (get_or_create_room name d st))" by (simp add: chat_ok_create)
  moreover have "ch_rows (fst (get_or_create_room name d st)) = ch_rows st"
    by (simp add: get_or_create_room_def Let_def split: option.split)
  ultimately show ?case using "2.IH" by simp
qed simp

lemma restore_rooms_ok: "chat_ok st \<Longrightarrow> chat_ok (restore_rooms rooms st)"
proof (induction rooms st rule: restore_rooms.induct)
  case (2 key i rooms st)
  have "chat_ok (set_room i (\<lambda>r. r\<lparr>cr_history_size := ch_history_lines st,
       cr_history := map hr_line (recent_rows (cr_name r) (ch_history_lines st) (ch_rows st)),
       cr_persist := True\<rparr>) st)"
    by (rule chat_ok_same_shape [OF "2.prems" set_room_same_shape]) simp_all
  from "2.IH" [OF this] show ?case by simp
qed simp

lemma initialize_ok: "chat_ok st \<Longrightarrow> chat_ok (initialize lines area cfg st)"
proof -
  assume ok: "chat_ok st"
  have "chat_ok (st\<lparr>ch_history_lines := lines, ch_db_path := True, ch_msg_area := strip area\<rparr>)"
    by (rule chat_ok_same_shape [OF ok]) (simp_all add: same_shape_def)
  then show ?thesis
    unfolding initialize_def Let_def by (intro restore_rooms_ok) (simp add: create_rooms_ok)
qed

lemma reachable_ok: "chat_reachable s \<Longrightarrow> sys_ok s"
proof (induction rule: chat_reachable.induct)
  case (Start rows n lines area cfg m offs)
  have "chat_ok (chat_init\<lparr>ch_rows := rows, ch_next_row := n, ch_offline := offs, ch_next_offline := m\<rparr>)"
    using Start by (simp add: chat_ok_def rooms_ok_def members_ok_def owner_def queues_bounded_def rows_ok_def chat_init_def)
  then show ?case by (simp add: sys_ok_def initialize_ok)
qed (rule sys_ok_step)

section \<open>Properties\<close>

text \<open>
  C34. In every state the chat sessions can reach, by any interleaving of their steps, the stores are
  sound: the room table names existing rooms under their own names, each once; every member of a room
  has a queue of its own that nobody else has, in this or another room; no queue holds more than its
  100 lines; the history rows have increasing ids; and what a session refers to exists.
\<close>

theorem chat_stores_sound:
  assumes "chat_reachable s"
  shows "chat_ok (sy_chat s) \<and> (\<forall>k se. sy_sessions s k = Some se \<longrightarrow> session_ok (sy_chat s) se)"
  using reachable_ok [OF assms] by (simp add: sys_ok_def)

definition env0 :: chat_env where
  "env0 = \<lparr>ce_hhmm = ''12:00'', ce_now = 0, ce_utc = ''2024-01-01 12:00'', ce_local = (\<lambda>_. []),
     ce_users = \<lparr>db_users = [], db_next_id = 1\<rparr>, ce_post = (\<lambda>_ _ _ _ _. None)\<rparr>"

definition sys0 :: chat_sys where
  "sys0 = \<lparr>sy_chat = initialize 20 [] [(''main'', [])] (chat_init\<lparr>ch_rows := [], ch_next_row := 1,
     ch_offline := [], ch_next_offline := 1\<rparr>), sy_sessions = (\<lambda>_. None)\<rparr>"

definition with_session :: "nat \<Rightarrow> callsign \<Rightarrow> chat_sys \<Rightarrow> chat_sys" where
  "with_session k call s = (case enter_chat env0 call False (sy_chat s) of
     (st, se) \<Rightarrow> \<lparr>sy_chat = st, sy_sessions = (sy_sessions s)(k \<mapsto> se)\<rparr>)"

definition sys2 :: chat_sys where
  "sys2 = with_session 1 ''N2BB'' (with_session 0 ''N1AA'' sys0)"

lemma reachable_with_session:
  "chat_reachable s \<Longrightarrow> sy_sessions s k = None \<Longrightarrow> chat_reachable (with_session k call s)"
  by (cases "enter_chat env0 call False (sy_chat s)") (auto simp: with_session_def intro: Run Enter)

lemma sys_reachable: "chat_reachable sys0" "chat_reachable sys2"
proof -
  show s0: "chat_reachable sys0" unfolding sys0_def by (rule Start) simp_all
  have n: "sy_sessions sys0 0 = None" "sy_sessions (with_session 0 ''N1AA'' sys0) 1 = None"
    by (simp_all add: sys0_def with_session_def split: prod.split)
  show "chat_reachable sys2"
    unfolding sys2_def by (intro reachable_with_session s0 n)
qed

lemma chat_stores_sound_witness: "chat_ok (sy_chat sys2)"
  using chat_stores_sound [OF sys_reachable(2)] by simp

lemma owner_unique: "chat_ok st \<Longrightarrow> owner st i c q \<Longrightarrow> owner st j d q \<Longrightarrow> i = j \<and> c = d"
  unfolding chat_ok_def members_ok_def by blast

lemma owner_queue_unique:
  assumes "chat_ok st" and "i < length (ch_objs st)"
  shows "distinct (map snd (cr_members (room_at i st)))"
proof -
  have d: "distinct (map fst (cr_members (room_at i st)))"
    using assms unfolding chat_ok_def members_ok_def by blast
  have "(c, q) \<in> set (cr_members (room_at i st)) \<Longrightarrow> (d, q) \<in> set (cr_members (room_at i st)) \<Longrightarrow> c = d" for c d q
    using assms unfolding chat_ok_def members_ok_def owner_def by blast
  then have "inj_on snd (set (cr_members (room_at i st)))" by (auto simp: inj_on_def)
  then show ?thesis using d by (simp add: distinct_map)
qed

lemma broadcast_queues:
  "ch_queues (room_broadcast i line ex st) = deliver line ex (cr_members (room_at i st)) (ch_queues st)"
  by (simp add: room_broadcast_def Let_def)

lemma broadcast_history:
  assumes "i < length (ch_objs st)"
  shows "get_history j (room_broadcast i line ex st) =
    (if j = i then (let h = get_history i st @ [line] in if cr_history_size (room_at i st) < int (length h) then tl h else h)
     else get_history j st)"
proof -
  have e: "room_at k (u\<lparr>ch_queues := x\<rparr>) = room_at k u" "room_at k (u\<lparr>ch_tasks := y\<rparr>) = room_at k u" for u :: chat_state and x y k
    by (simp_all add: room_at_def)
  show ?thesis
    using assms by (simp add: room_broadcast_def get_history_def Let_def e room_at_set_room)
qed


lemma sys2_chat:
  "cr_members (room_at 0 (sy_chat sys2)) = [(''N1AA'', 0), (''N2BB'', 1)]"
  "length (ch_objs (sy_chat sys2)) = 1" "length (ch_queues (sy_chat sys2)) = 2"
  "length (ch_queues (sy_chat sys2) ! 0) = 1" "length (ch_queues (sy_chat sys2) ! 1) = 0"
  "cr_name (room_at 0 (sy_chat sys2)) = ''main''"
proof -
  have st: "(case enter_chat env0 ''N1AA'' False (sy_chat sys0) of (st, se) \<Rightarrow>
      case enter_chat env0 ''N2BB'' False st of (st, se) \<Rightarrow>
        (map cr_members (ch_objs st), map length (ch_queues st), map cr_name (ch_objs st)))
      = ([[(''N1AA'', 0), (''N2BB'', 1)]], [1, 0], [''main''])"
    by code_simp
  have "sy_chat sys2 = (case enter_chat env0 ''N1AA'' False (sy_chat sys0) of (st, se) \<Rightarrow>
      fst (enter_chat env0 ''N2BB'' False st))"
    by (simp add: sys2_def with_session_def case_prod_beta)
  then have m: "map cr_members (ch_objs (sy_chat sys2)) = [[(''N1AA'', 0), (''N2BB'', 1)]]"
      "map length (ch_queues (sy_chat sys2)) = [1, 0]" "map cr_name (ch_objs (sy_chat sys2)) = [''main'']"
    using st by (simp_all add: case_prod_beta)
  show "length (ch_objs (sy_chat sys2)) = 1" "length (ch_queues (sy_chat sys2)) = 2"
    using arg_cong [OF m(1), of length] arg_cong [OF m(2), of length] by simp_all
  then show "cr_members (room_at 0 (sy_chat sys2)) = [(''N1AA'', 0), (''N2BB'', 1)]"
    "length (ch_queues (sy_chat sys2) ! 0) = 1" "length (ch_queues (sy_chat sys2) ! 1) = 0"
    "cr_name (room_at 0 (sy_chat sys2)) = ''main''"
    using arg_cong [OF m(3), of "\<lambda>xs. xs ! 0"] arg_cong [OF m(1), of "\<lambda>xs. xs ! 0"] arg_cong [OF m(2), of "\<lambda>xs. xs ! 0"] arg_cong [OF m(2), of "\<lambda>xs. xs ! 1"]
    by (simp_all add: room_at_def)
qed


text \<open>
  C36. A whisper is private: when it is delivered, exactly one queue changes, that of the recipient,
  which no other station in any room listens to; nothing enters a scrollback and nothing is persisted;
  \<open>/R\<close> of the recipient answers the sender from then on. When it is not delivered, nothing changes.
\<close>

theorem whisper_is_private:
  assumes "chat_reachable s" and "i < length (ch_objs (sy_chat s))"
    and "private_msg env i a b msg (sy_chat s) = (st', sent)"
  shows "if sent then (\<exists>q line. ch_queues st' = (ch_queues (sy_chat s))[q := ch_queues (sy_chat s) ! q @ [Some line]]
        \<and> owner (sy_chat s) i (upper b) q \<and> (\<forall>j c. owner (sy_chat s) j c q \<longrightarrow> c = upper b)
        \<and> ch_objs st' = ch_objs (sy_chat s) \<and> ch_tasks st' = ch_tasks (sy_chat s)
        \<and> map_of (ch_whisper st') (upper b) = Some (upper a))
    else st' = sy_chat s"
proof -
  have ok: "chat_ok (sy_chat s)" using reachable_ok [OF assms(1)] by (simp add: sys_ok_def)
  show ?thesis
  proof (cases "map_of (cr_members (room_at i (sy_chat s))) (upper b)")
    case None
    then show ?thesis using assms(3) by (auto simp: private_msg_def)
  next
    case (Some q)
    show ?thesis
    proof (cases "queue_full q (ch_queues (sy_chat s))")
      case True
      then show ?thesis using Some assms(3) by (auto simp: private_msg_def)
    next
      case False
      have o: "owner (sy_chat s) i (upper b) q" using assms(2) map_of_SomeD [OF Some] by (simp add: owner_def)
      have priv: "\<forall>j c. owner (sy_chat s) j c q \<longrightarrow> c = upper b"
        using owner_unique [OF ok o] by simp
      define line where "line = ''['' @ ce_hhmm env @ ''] *'' @ a @ arrow @ b @ ''*: '' @ msg"
      have "st' = (sy_chat s)\<lparr>ch_queues := (ch_queues (sy_chat s))[q := ch_queues (sy_chat s) ! q @ [Some line]],
          ch_whisper := AList.update (upper b) (upper a) (ch_whisper (sy_chat s))\<rparr>" "sent"
        using Some False assms(3) unfolding private_msg_def put_nowait_def Let_def line_def [symmetric] by simp_all
      note st' = this
      show ?thesis
        unfolding if_P [OF st'(2)]
      proof (intro exI conjI)
        show "ch_queues st' = (ch_queues (sy_chat s))[q := ch_queues (sy_chat s) ! q @ [Some line]]"
          "ch_objs st' = ch_objs (sy_chat s)" "ch_tasks st' = ch_tasks (sy_chat s)"
          "map_of (ch_whisper st') (upper b) = Some (upper a)"
          by (simp_all add: st'(1))
      qed (use o priv in blast)+
    qed
  qed
qed

lemma whisper_is_private_witness:
  "\<exists>st' q. private_msg env0 0 ''N1AA'' ''N2BB'' ''psst'' (sy_chat sys2) = (st', True) \<and> owner (sy_chat sys2) 0 (upper ''N2BB'') q
     \<and> map_of (ch_whisper st') (upper ''N2BB'') = Some (upper ''N1AA'')"
proof -
  obtain st' sent where r: "private_msg env0 0 ''N1AA'' ''N2BB'' ''psst'' (sy_chat sys2) = (st', sent)" by fastforce
  have u: "upper ''N2BB'' = ''N2BB''" by code_simp
  have "sent"
    using r by (simp add: private_msg_def u sys2_chat sys2_chat(5) [unfolded One_nat_def] queue_full_def QUEUE_SIZE_def Let_def del: upper_Cons)
  then show ?thesis
    using whisper_is_private [OF sys_reachable(2) _ r] r by (auto simp: sys2_chat simp del: upper_Cons)
qed

definition is_notice :: "nat \<times> string \<Rightarrow> bool" where
  "is_notice row \<longleftrightarrow> join_leave_call (snd row) \<noteq> None"

definition summary_of :: "callsign option \<Rightarrow> (nat \<times> string) list \<Rightarrow> string \<Rightarrow> bool" where
  "summary_of skip rows line \<longleftrightarrow> (\<exists>vs. line = visited_line vs \<and> vs \<noteq> [] \<and> distinct vs
     \<and> (\<forall>v \<in> set vs. Some (upper v) \<noteq> skip \<and> (\<exists>row \<in> set rows. join_leave_call (snd row) = Some v)))"

lemma compact_loop_spec:
  assumes "distinct vs" and "\<forall>v \<in> set vs. Some (upper v) \<noteq> skip \<and> (\<exists>row \<in> set all. join_leave_call (snd row) = Some v)"
    and "set rows \<subseteq> set all"
  shows "filter (\<lambda>r. fst r \<noteq> None) (compact_loop skip vs rows) = map (\<lambda>(i, l). (Some i, l)) (filter (\<lambda>r. \<not> is_notice r) rows)
    \<and> (\<forall>line. (None, line) \<in> set (compact_loop skip vs rows) \<longrightarrow> summary_of skip all line)"
  using assms
proof (induction skip vs rows rule: compact_loop.induct)
  case (1 skip vs)
  then show ?case by (auto simp: flush_visitors_def summary_of_def)
next
  case (2 skip vs i line rows)
  show ?case
  proof (cases "join_leave_call line")
    case None
    have "summary_of skip all l" if "(None, l) \<in> set (flush_visitors vs)" for l
      using that "2.prems" by (auto simp: flush_visitors_def summary_of_def split: if_splits)
    then show ?thesis
      using "2.IH"(1) [OF None] "2.prems"(3) None by (auto simp: is_notice_def flush_visitors_def)
  next
    case (Some call)
    define vs' where "vs' = (if Some (upper call) \<noteq> skip \<and> call \<notin> set vs then vs @ [call] else vs)"
    have step: "compact_loop skip vs ((i, line) # rows) = compact_loop skip vs' rows"
      using Some by (simp add: vs'_def)
    have "(i, line) \<in> set all" using "2.prems"(3) by simp
    then have "distinct vs'" "\<forall>v \<in> set vs'. Some (upper v) \<noteq> skip \<and> (\<exists>row \<in> set all. join_leave_call (snd row) = Some v)"
      using "2.prems" Some by (auto simp: vs'_def intro!: bexI [of _ "(i, line)"])
    then show ?thesis
      using "2.IH"(2) [OF Some, folded vs'_def] "2.prems"(3) step Some by (simp add: is_notice_def)
  qed
qed

text \<open>
  Scrollback compaction loses no message: the lines that are not join or leave notices come out
  as they were, with their ids and in order; every other line of the result is a summary that names
  stations of such notices, each once, and never the reader.
\<close>

theorem compaction_keeps_messages:
  shows "filter (\<lambda>r. fst r \<noteq> None) (compact_history rows exclude)
      = map (\<lambda>(i, l). (Some i, l)) (filter (\<lambda>r. \<not> is_notice r) rows)
    \<and> (\<forall>line. (None, line) \<in> set (compact_history rows exclude) \<longrightarrow>
        summary_of (case exclude of None \<Rightarrow> None | Some e \<Rightarrow> if e = [] then None else Some (upper e)) rows line)"
  unfolding compact_history_def by (rule compact_loop_spec) simp_all

lemma compaction_keeps_messages_witness:
  "summary_of (Some (upper ''N2BB'')) [(1, ''*** N1AA joined main ***''), (2, ''hi''), (3, ''*** N2BB joined main ***'')]
     ''*** visited: N1AA ***''"
proof -
  have "compact_history [(1, ''*** N1AA joined main ***''), (2, ''hi''), (3, ''*** N2BB joined main ***'')] (Some ''N2BB'')
      = [(None, ''*** visited: N1AA ***''), (Some 2, ''hi'')]"
    by code_simp
  then show ?thesis
    using compaction_keeps_messages [of "[(1, ''*** N1AA joined main ***''), (2, ''hi''), (3, ''*** N2BB joined main ***'')]" "Some ''N2BB''"]
    by simp
qed

lemma broadcast_room_at:
  assumes "i < length (ch_objs st)" and "j < length (ch_objs st)"
  shows "cr_members (room_at j (room_broadcast i line ex st)) = cr_members (room_at j st)"
    and "cr_name (room_at j (room_broadcast i line ex st)) = cr_name (room_at j st)"
  using same_shapeD(2,3) [OF room_broadcast_frame(1) assms(2)] by simp_all

lemma leave_members:
  assumes "i < length (ch_objs st)" and "j < length (ch_objs st)"
  shows "cr_members (room_at j (room_leave i c st)) =
    (if j = i then AList.delete (upper c) (cr_members (room_at j st)) else cr_members (room_at j st))"
    and "cr_name (room_at j (room_leave i c st)) = cr_name (room_at j st)"
  using assms by (simp_all add: room_leave_def Let_def broadcast_room_at room_at_set_room)

lemma join_members:
  assumes "i < length (ch_objs st)"
  shows "cr_members (room_at i (fst (room_join i c st))) = AList.update (upper c) (length (ch_queues st)) (cr_members (room_at i st))"
    and "j < length (ch_objs st) \<Longrightarrow> cr_name (room_at j (fst (room_join i c st))) = cr_name (room_at j st)"
proof -
  define st1 where "st1 = st\<lparr>ch_queues := ch_queues st @ [[]]\<rparr>"
  have i: "i < length (ch_objs st1)" and at: "room_at k st1 = room_at k st" and len: "length (ch_objs st1) = length (ch_objs st)" for k
    using assms by (simp_all add: st1_def room_at_def)
  show "cr_members (room_at i (fst (room_join i c st))) = AList.update (upper c) (length (ch_queues st)) (cr_members (room_at i st))"
    using i by (simp add: room_join_def Let_def st1_def [symmetric] broadcast_room_at room_at_set_room at)
  show "cr_name (room_at j (fst (room_join i c st))) = cr_name (room_at j st)" if "j < length (ch_objs st)"
    using i that by (simp add: room_join_def Let_def st1_def [symmetric] broadcast_room_at room_at_set_room at len)
qed

lemma in_update_new: "(k, v) \<in> set (AList.update k v d)"
  by (induction d) auto

lemma join_room_result:
  assumes "chat_ok st" and "session_ok st se"
  shows "case join_room name se st of (st', se') \<Rightarrow>
    owner st' (cs_room se') (upper (cs_call se)) (cs_inbox se') \<and> cr_name (room_at (cs_room se') st') = lower name
    \<and> cs_entered se' = cs_entered se \<and> cs_call se' = cs_call se
    \<and> cr_name (room_at (cs_entered se) st') = cr_name (room_at (cs_entered se) st)"
proof -
  define cr where "cr = get_or_create_room (lower name) [] st"
  note cr = chat_ok_create [OF assms(1), of "lower name" "[]", folded cr_def]
  define st1 where "st1 = (if \<not> cr_persist (room_at (snd cr) (fst cr)) \<and> ch_db_path (fst cr)
    then set_room (snd cr) (\<lambda>r. r\<lparr>cr_history_size := ch_history_lines (fst cr), cr_persist := True\<rparr>) (fst cr) else fst cr)"
  have st1: "length (ch_objs st1) = length (ch_objs (fst cr))"
    "cr_name (room_at (snd cr) st1) = lower (lower name)"
    using cr(2,3) by (simp_all add: st1_def room_at_set_room)
  define st2 where "st2 = room_leave (cs_room se) (cs_call se) st1"
  have r: "cs_room se < length (ch_objs st1)" using assms(2) cr(4) st1(1) by (simp add: session_ok_def grows_def)
  have k: "snd cr < length (ch_objs st2)" using cr(2) st1(1) grows_leave [of st1] by (simp add: st2_def grows_def) (metis le_trans less_le_trans)
  have n2: "cr_name (room_at (snd cr) st2) = lower (lower name)"
    using leave_members(2) [OF r] cr(2) st1 by (simp add: st2_def)
  define j where "j = room_join (snd cr) (cs_call se) st2"
  have j: "length (ch_objs (fst j)) = length (ch_objs st2)" "snd j = length (ch_queues st2)"
    by (simp_all add: j_def room_join_result)
  have e: "cs_entered se < length (ch_objs st)" using assms(2) by (simp add: session_ok_def)
  have "room_at (cs_entered se) (fst cr) = room_at (cs_entered se) st"
    using e by (simp add: cr_def get_or_create_room_def Let_def room_at_def nth_append split: option.split)
  then have "cr_name (room_at (cs_entered se) st1) = cr_name (room_at (cs_entered se) st)"
    using cr(2) by (cases "cs_entered se = snd cr") (auto simp: st1_def room_at_set_room)
  moreover have e1: "cs_entered se < length (ch_objs st1)" using e cr(4) st1(1) by (simp add: grows_def)
  ultimately have "cr_name (room_at (cs_entered se) st2) = cr_name (room_at (cs_entered se) st)"
    using leave_members(2) [OF r] by (simp add: st2_def)
  moreover have "cs_entered se < length (ch_objs st2)"
    using e1 grows_leave [of st1] by (simp add: st2_def grows_def) (metis less_le_trans)
  ultimately have "cr_name (room_at (cs_entered se) (fst j)) = cr_name (room_at (cs_entered se) st)"
    using join_members(2) [OF k] by (simp add: j_def)
  moreover have low: "lower (lower s) = lower s" for s
    by (induction s) (auto simp: lower_def low_def is_upper_def)
  moreover have "owner (fst j) (snd cr) (upper (cs_call se)) (snd j)"
    using join_members(1) [OF k, of "cs_call se", folded j_def] k in_update_new by (simp add: owner_def j)
  moreover have "cr_name (room_at (snd cr) (fst j)) = lower name"
    using join_members(2) [OF k k] n2 by (simp add: j_def low)
  moreover have "fst (join_room name se st) = fst j" "cs_room (snd (join_room name se st)) = snd cr"
    "cs_inbox (snd (join_room name se st)) = snd j" "cs_entered (snd (join_room name se st)) = cs_entered se"
    "cs_call (snd (join_room name se st)) = cs_call se"
    by (simp_all add: join_room_def cr_def [symmetric] st1_def [symmetric] st2_def [symmetric] j_def [symmetric]
        put_out_def Let_def case_prod_beta)
  ultimately show ?thesis by (simp add: case_prod_beta)
qed



lemma create_rooms_keeps:
  "map_of (ch_rooms st) key \<noteq> None \<Longrightarrow> map_of (ch_rooms (create_rooms cfg st)) key \<noteq> None"
proof (induction cfg st rule: create_rooms.induct)
  case (2 name d cfg st)
  have "map_of (ch_rooms (fst (get_or_create_room name d st))) key \<noteq> None"
    using "2.prems" by (auto simp: get_or_create_room_def Let_def split: option.split)
  from "2.IH" [OF this] show ?case by simp
qed simp

lemma create_rooms_makes:
  "name \<in> fst ` set cfg \<Longrightarrow> map_of (ch_rooms (create_rooms cfg st)) (lower name) \<noteq> None"
proof (induction cfg st rule: create_rooms.induct)
  case (2 n d cfg st)
  show ?case
  proof (cases "name = n")
    case True
    have "map_of (ch_rooms (fst (get_or_create_room n d st))) (lower n) \<noteq> None"
      by (auto simp: get_or_create_room_def Let_def split: option.split)
    from create_rooms_keeps [OF this] show ?thesis using True by simp
  next
    case False
    then show ?thesis using 2 by simp
  qed
qed simp

lemma restore_rooms_rooms [simp]: "ch_rooms (restore_rooms rooms st) = ch_rooms st"
  by (induction rooms st rule: restore_rooms.induct) auto

lemma initialize_makes:
  assumes "name \<in> hr_room ` set (ch_rows st)"
  shows "map_of (ch_rooms (initialize lines area cfg st)) (lower name) \<noteq> None"
proof -
  define st1 where "st1 = create_rooms cfg (st\<lparr>ch_history_lines := lines, ch_db_path := True, ch_msg_area := strip area\<rparr>)"
  have "ch_rows (create_rooms c u) = ch_rows u" for c u
  proof (induction c u rule: create_rooms.induct)
    case (2 n d cfg st)
    have "ch_rows (fst (get_or_create_room n d st)) = ch_rows st"
      by (simp add: get_or_create_room_def Let_def split: option.split)
    with 2 show ?case by simp
  qed simp
  then have "ch_rows st1 = ch_rows st" by (simp add: st1_def)
  then have "name \<in> fst ` set (map (\<lambda>room. (room, [] :: string)) (rev (remdups (rev (map hr_room (ch_rows st1))))))"
    using assms by (simp add: image_image)
  from create_rooms_makes [OF this, of st1] show ?thesis
    by (simp add: initialize_def Let_def st1_def)
qed

lemma persist_line_row:
  assumes "0 < ch_history_lines st"
  shows "\<exists>r \<in> set (ch_rows (persist_line env room line st)). hr_room r = room \<and> hr_line r = line"
proof -
  define row where "row = \<lparr>hr_id = ch_next_row st, hr_room = room, hr_ts = ce_now env, hr_line = line\<rparr>"
  have "row \<in> set (recent_rows room (ch_history_lines st) (ch_rows st @ [row]))"
    using assms by (simp add: recent_rows_def last_n_def row_def Suc_diff_le nat_le_eq_zle)
  then have "row \<in> set (ch_rows (persist_line env room line st))"
    by (auto simp: persist_line_def Let_def row_def [symmetric])
  then show ?thesis by (rule bexI [rotated]) (simp add: row_def)
qed

text \<open>
  A deleted room comes back: deleting a room takes its rows and its table entry away, but the
  notice it broadcasts is persisted afterwards, so when that task has run the history table has a row of
  the room again, and the next start, which rebuilds rooms from the table, creates the room anew.
\<close>

theorem deleted_room_returns:
  assumes "chat_ok st" and "map_of (ch_rooms st) name = Some i" and "cr_persist (room_at i st)"
    and "ch_db_path st" and "0 < ch_history_lines st"
  shows "case delete_room name st of (st1, ok) \<Rightarrow>
    ok \<and> map_of (ch_rooms st1) name = None \<and> (\<forall>r \<in> set (ch_rows st1). hr_room r \<noteq> name)
    \<and> (let rows = ch_rows (run_task env (length (ch_tasks st)) st1) in
        (\<exists>r \<in> set rows. hr_room r = name)
        \<and> map_of (ch_rooms (initialize lines area cfg (chat_init\<lparr>ch_rows := rows\<rparr>))) (lower name) \<noteq> None)"
proof -
  have i: "i < length (ch_objs st)" "cr_name (room_at i st) = name"
    using assms(1) map_of_SomeD [OF assms(2)] unfolding chat_ok_def rooms_ok_def by blast+
  define gone where "gone = ''*** Room '' @ name @ '' has been deleted by the sysop. Use /JOIN to switch rooms. ***''"
  define u where "u = st\<lparr>ch_rows := filter (\<lambda>r. hr_room r \<noteq> name) (ch_rows st), ch_rooms := AList.delete name (ch_rooms st)\<rparr>"
  define v where "v = room_broadcast i gone None u"
  define st1 where "st1 = v\<lparr>ch_queues := put_sentinels (cr_members (room_at i v)) (ch_queues v)\<rparr>"
  have del: "delete_room name st = (st1, True)"
    using assms(2,4) by (simp add: delete_room_def Let_def u_def gone_def v_def st1_def)
  have at: "room_at i u = room_at i st" by (simp add: room_at_def u_def)
  have v: "ch_rooms v = ch_rooms u" "ch_rows v = ch_rows u" "ch_history_lines v = ch_history_lines st"
    "ch_tasks v = ch_tasks st @ [(name, gone)]"
    using assms(3) i(2) by (simp_all add: v_def room_broadcast_def Let_def at) (simp_all add: u_def)
  have st1: "ch_rooms st1 = ch_rooms u" "ch_rows st1 = ch_rows u" "ch_history_lines st1 = ch_history_lines st"
    "ch_tasks st1 = ch_tasks st @ [(name, gone)]"
    by (simp_all add: st1_def v)
  have "run_task env (length (ch_tasks st)) st1 = persist_line env name gone (st1\<lparr>ch_tasks := ch_tasks st\<rparr>)"
    by (simp add: run_task_def st1)
  then have row: "\<exists>r \<in> set (ch_rows (run_task env (length (ch_tasks st)) st1)). hr_room r = name"
    using persist_line_row [of "st1\<lparr>ch_tasks := ch_tasks st\<rparr>" env name gone] assms(5) by (auto simp: st1)
  then have "map_of (ch_rooms (initialize lines area cfg (chat_init\<lparr>ch_rows := ch_rows (run_task env (length (ch_tasks st)) st1)\<rparr>))) (lower name) \<noteq> None"
    by (intro initialize_makes) force
  moreover have "map_of (ch_rooms st1) name = None" by (simp add: st1 u_def)
  moreover have "\<forall>r \<in> set (ch_rows st1). hr_room r \<noteq> name" by (simp add: st1 u_def)
  ultimately show ?thesis using row by (simp add: del Let_def)
qed

lemma deleted_room_returns_witness:
  "map_of (ch_rooms (initialize 20 [] [] (chat_init\<lparr>ch_rows := ch_rows (run_task env0 0
     (fst (delete_room ''main'' (sy_chat sys0))))\<rparr>))) ''main'' \<noteq> None"
proof -
  have ok: "chat_ok (sy_chat sys0)" using reachable_ok [OF sys_reachable(1)] by (simp add: sys_ok_def)
  have f: "map_of (ch_rooms (sy_chat sys0)) ''main'' = Some 0" "cr_persist (room_at 0 (sy_chat sys0))"
    "ch_db_path (sy_chat sys0)" "ch_history_lines (sy_chat sys0) = 20" "ch_tasks (sy_chat sys0) = []" "lower ''main'' = ''main''"
    by code_simp+
  show ?thesis
    using deleted_room_returns [OF ok f(1,2,3), of env0 20 "[]" "[]"] f by (simp add: case_prod_beta Let_def)
qed



end
