(* ===== verification/Registry.thy ===== *)
theory Registry
  imports Auth
begin

text \<open>
  The plugin registry, \<open>core/plugin_registry.py\<close>. A plugin is the record of the attributes the registry
  and the session read, with what its methods do (\<open>'h\<close>); the registry is the dictionary of plugins by
  name, in the order they were loaded. Finding the classes (a walk over a package, entry points of
  installed packages) is the list given to \<open>load_plugins\<close>; of a class the registry uses its identity,
  its constructor and its \<open>initialize\<close>, either of which may raise.
\<close>

datatype cfg_val = CBool bool | CStr string | CInt int

type_synonym cfg_section = "(string, cfg_val) dict"

fun truthy :: "cfg_val \<Rightarrow> bool" where
  "truthy (CBool b) \<longleftrightarrow> b"
| "truthy (CStr s) \<longleftrightarrow> s \<noteq> []"
| "truthy (CInt n) \<longleftrightarrow> n \<noteq> 0"

record 'h plugin =
  p_name :: string
  p_display :: string
  p_key :: string
  p_help :: string
  p_level :: string
  p_enabled :: bool
  p_methods :: 'h

record 'h plugin_class =
  pc_id :: nat
  pc_new :: "'h plugin option"
  pc_initialize :: "cfg_section \<Rightarrow> 'h plugin \<Rightarrow> 'h plugin option"

type_synonym 'h plugin_table = "(string, 'h plugin) dict"

section \<open>Loading\<close>

text \<open>\<open>seen\<close>: the first occurrence of every class.\<close>

fun unique_classes :: "nat list \<Rightarrow> 'h plugin_class list \<Rightarrow> 'h plugin_class list" where
  "unique_classes seen [] = []"
| "unique_classes seen (c # cs) =
     (if pc_id c \<in> set seen then unique_classes seen cs else c # unique_classes (pc_id c # seen) cs)"

definition load_class ::
  "(string, cfg_section) dict \<Rightarrow> string \<Rightarrow> 'h plugin_class \<Rightarrow> 'h plugin_table \<Rightarrow> 'h plugin_table" where
  "load_class plugin_cfg sysop c reg =
     (case pc_new c of
        None \<Rightarrow> reg
      | Some plugin \<Rightarrow>
          if p_name plugin = [] then reg
          else
            (let section = AList.update ''_bbs_sysop'' (CStr sysop)
               (case map_of plugin_cfg (p_name plugin) of None \<Rightarrow> [] | Some s \<Rightarrow> s);
                 enabled = (case map_of section ''enabled'' of None \<Rightarrow> True | Some v \<Rightarrow> truthy v);
                 plugin = (if \<not> enabled then plugin\<lparr>p_enabled := False\<rparr> else plugin)
             in case pc_initialize c section plugin of
                  None \<Rightarrow> reg
                | Some plugin \<Rightarrow> AList.update (p_name plugin) plugin reg))"

fun load_classes ::
  "(string, cfg_section) dict \<Rightarrow> string \<Rightarrow> 'h plugin_class list \<Rightarrow> 'h plugin_table \<Rightarrow> 'h plugin_table" where
  "load_classes plugin_cfg sysop [] reg = reg"
| "load_classes plugin_cfg sysop (c # cs) reg =
     load_classes plugin_cfg sysop cs (load_class plugin_cfg sysop c reg)"

definition load_plugins ::
  "(string, cfg_section) dict \<Rightarrow> string \<Rightarrow> 'h plugin_class list \<Rightarrow> 'h plugin_class list \<Rightarrow> 'h plugin_table \<Rightarrow> 'h plugin_table" where
  "load_plugins plugin_cfg sysop builtin entry_points reg =
     load_classes plugin_cfg sysop (unique_classes [] (builtin @ entry_points)) reg"

section \<open>Run-time access\<close>

definition get_by_key :: "string \<Rightarrow> 'h plugin_table \<Rightarrow> 'h plugin option" where
  "get_by_key key reg = find (\<lambda>p. p_enabled p \<and> upper (p_key p) = upper key) (map snd reg)"

text \<open>\<open>AuthLevel[name]\<close>; KeyError is \<open>None\<close>.\<close>

definition level_named :: "string \<Rightarrow> auth_level option" where
  "level_named n = map_of [(''ANONYMOUS'', ANONYMOUS), (''IDENTIFIED'', IDENTIFIED),
     (''AUTHENTICATED'', AUTHENTICATED), (''SYSOP'', SYSOP)] n"

fun collect_items :: "auth_level \<Rightarrow> 'h plugin list \<Rightarrow> (string \<times> string) list option" where
  "collect_items lvl [] = Some []"
| "collect_items lvl (p # ps) =
     (if \<not> p_enabled p \<or> p_key p = [] then collect_items lvl ps
      else do {
        required \<leftarrow> level_named (p_level p);
        items \<leftarrow> collect_items lvl ps;
        Some (if level_value required \<le> level_value lvl then (p_key p, p_display p) # items else items) })"

definition menu_items :: "auth_level \<Rightarrow> 'h plugin_table \<Rightarrow> (string \<times> string) list option" where
  "menu_items current_level reg = collect_items current_level (sort_key p_key (map snd reg))"

definition get_plugin :: "string \<Rightarrow> 'h plugin_table \<Rightarrow> 'h plugin option" where
  "get_plugin name reg = map_of reg name"

definition toggle :: "string \<Rightarrow> bool \<Rightarrow> 'h plugin_table \<Rightarrow> 'h plugin_table \<times> bool" where
  "toggle plugin_name enabled reg =
     (case map_of reg plugin_name of
        None \<Rightarrow> (reg, False)
      | Some p \<Rightarrow> (AList.update plugin_name (p\<lparr>p_enabled := enabled\<rparr>) reg, True))"

definition plugin_stats :: "'h plugin \<Rightarrow> bool \<times> string" where
  "plugin_stats p = (p_enabled p, p_name p)"

definition all_stats :: "'h plugin_table \<Rightarrow> (bool \<times> string) list" where
  "all_stats reg = map (\<lambda>(_, p). plugin_stats p) reg"

end
