(* ===== verification/Connections.thy ===== *)
theory Connections
  imports Users
begin

text \<open>
  \<open>db/connections.py\<close>: the connection journal, one row per callsign (unique up to case). A query is a
  scan of the rows in insertion order; where the query's ORDER BY leaves rows tied, that order is kept.
\<close>

record conn_row =
  cn_callsign :: callsign
  cn_transport :: string
  cn_first_seen :: int
  cn_last_seen :: int
  cn_auth_level :: int
  cn_connected :: int

text \<open>\<open>INSERT \<dots> ON CONFLICT(callsign) DO UPDATE\<close>.\<close>

fun upsert_row :: "conn_row \<Rightarrow> conn_row list \<Rightarrow> conn_row list" where
  "upsert_row n [] = [n]"
| "upsert_row n (r # rs) =
     (if upper (cn_callsign r) = upper (cn_callsign n) then
        r\<lparr>cn_transport := cn_transport n, cn_last_seen := cn_last_seen n,
          cn_auth_level := max (cn_auth_level r) (cn_auth_level n), cn_connected := cn_connected n\<rparr> # rs
      else r # upsert_row n rs)"

definition upsert_connection ::
  "timestamp \<Rightarrow> callsign \<Rightarrow> string \<Rightarrow> timestamp \<Rightarrow> int \<Rightarrow> int \<Rightarrow> conn_row list \<Rightarrow> conn_row list" where
  "upsert_connection now callsign transport connected_at auth_level live rows =
     upsert_row \<lparr>cn_callsign = upper callsign, cn_transport = transport, cn_first_seen = trunc connected_at,
       cn_last_seen = trunc now, cn_auth_level = auth_level, cn_connected = live\<rparr> rows"

text \<open>\<open>LIMIT n\<close>; a negative limit is none.\<close>

definition sql_limit :: "int \<Rightarrow> 'a list \<Rightarrow> 'a list" where
  "sql_limit n xs = (if n < 0 then xs else take (nat n) xs)"

definition get_recent_connections :: "timestamp \<Rightarrow> int \<Rightarrow> int \<Rightarrow> conn_row list \<Rightarrow> conn_row list" where
  "get_recent_connections now days limit rows =
     (let cutoff = trunc now - days * 86400 in
      sql_limit limit (sort_key (\<lambda>r. (- cn_connected r, - cn_last_seen r))
        (filter (\<lambda>r. cutoff \<le> cn_last_seen r \<or> cn_connected r = 1) rows)))"

definition prune_old_connections :: "timestamp \<Rightarrow> int \<Rightarrow> conn_row list \<Rightarrow> conn_row list" where
  "prune_old_connections now days rows =
     (let cutoff = trunc now - days * 86400 in filter (\<lambda>r. \<not> cn_last_seen r < cutoff) rows)"

text \<open>\<open>init_db\<close>: flags left by a crash.\<close>

definition clear_connected :: "conn_row list \<Rightarrow> conn_row list" where
  "clear_connected rows = map (\<lambda>r. if cn_connected r = 1 then r\<lparr>cn_connected := 0\<rparr> else r) rows"

section \<open>Lemmas\<close>

definition journal_ok :: "conn_row list \<Rightarrow> bool" where
  "journal_ok rows \<longleftrightarrow> distinct (map (\<lambda>r. upper (cn_callsign r)) rows)"

lemma upsert_row_calls:
  "(\<lambda>r. upper (cn_callsign r)) ` set (upsert_row n rows)
     = insert (upper (cn_callsign n)) ((\<lambda>r. upper (cn_callsign r)) ` set rows)"
  by (induction rows) auto

lemma journal_ok_upsert_row: "journal_ok rows \<Longrightarrow> journal_ok (upsert_row n rows)"
proof (induction rows)
  case (Cons r rows)
  then show ?case using upsert_row_calls [of n rows] by (auto simp: journal_ok_def)
qed (simp add: journal_ok_def)

lemma journal_ok_upsert: "journal_ok rows \<Longrightarrow> journal_ok (upsert_connection now c t t0 l k rows)"
  by (simp add: upsert_connection_def journal_ok_upsert_row)

definition row_of :: "callsign \<Rightarrow> conn_row list \<Rightarrow> conn_row option" where
  "row_of c rows = find (\<lambda>r. upper (cn_callsign r) = upper c) rows"

lemma row_of_upsert:
  "row_of c (upsert_row n rows) = (if upper c = upper (cn_callsign n)
     then Some (case row_of c rows of None \<Rightarrow> n
       | Some r \<Rightarrow> r\<lparr>cn_transport := cn_transport n, cn_last_seen := cn_last_seen n,
           cn_auth_level := max (cn_auth_level r) (cn_auth_level n), cn_connected := cn_connected n\<rparr>)
     else row_of c rows)"
  by (induction rows) (auto simp: row_of_def)

end
