(* ===== verification/Session.thy ===== *)
theory Session
  imports Registry Connections Terminal Address
begin

text \<open>
  One user's session, \<open>core/session.py\<close>: greeting, identification, the main menu and its commands.

  A session is the record of its attributes with the shared state its database handle and the
  event bus reach (\<open>world\<close>). An action is a function from the session to its result, \<open>None\<close> where the
  code raises, and the session after it; what an operation that raises had already handed to the
  transport is not kept. Time is the session's clock, which runs while it waits for input: \<open>time.time()\<close>
  is the time of connection plus the terminal's clock in milliseconds.

  What a plugin does in a session is a parameter (plugins come from other packages too): a function
  that may not return (the outer \<open>None\<close>), raise, or hand the session back. A notice is read off the session.
\<close>

datatype session_state = CONNECTED | ACTIVE | DISCONNECTED

datatype path_length = SHORT | MEDIUM | LONG

record bbs_cfg =
  bc_callsign :: callsign
  bc_ssid :: nat
  bc_name :: string
  bc_sysop :: string
  bc_location :: string
  bc_idle_timeout :: nat
  bc_medium_hops :: int
  bc_long_hops :: int
  bc_log_days :: int
  bc_max_attempts :: int
  bc_lockout_secs :: int
  bc_time_step :: int
  bc_enforce_active :: bool

definition full_callsign :: "bbs_cfg \<Rightarrow> string" where
  "full_callsign cfg = (if bc_ssid cfg \<noteq> 0 then bc_callsign cfg @ ''-'' @ nat_str (bc_ssid cfg) else bc_callsign cfg)"

definition auth_of :: "bbs_cfg \<Rightarrow> auth_cfg" where
  "auth_of cfg = \<lparr>ac_callsign = bc_callsign cfg, ac_max_attempts = bc_max_attempts cfg,
     ac_lockout_secs = bc_lockout_secs cfg, ac_time_step = bc_time_step cfg,
     ac_enforce_active = bc_enforce_active cfg\<rparr>"

record event =
  ev_topic :: string
  ev_callsign :: callsign
  ev_addr :: string
  ev_transport :: string
  ev_level :: auth_level

record world =
  w_users :: users_db
  w_log :: "conn_row list"
  w_info :: "string option"
  w_events :: "event list"

record session =
  s_transport :: string
  s_addr :: string
  s_hops :: int
  s_term :: terminal
  s_auth :: auth_state
  s_state :: session_state
  s_path :: path_length
  s_connected_at :: timestamp
  s_touched :: nat
  s_closed :: bool
  s_world :: world

type_synonym 'a act = "session \<Rightarrow> 'a option \<times> session"

record methods =
  m_handle :: "session \<Rightarrow> (unit option \<times> session) option"
  m_notice :: "session \<Rightarrow> string option option"

type_synonym plugins = "methods plugin_table"

section \<open>Actions\<close>

definition ret :: "'a \<Rightarrow> 'a act" where
  "ret x s = (Some x, s)"

definition and_then :: "'a act \<Rightarrow> ('a \<Rightarrow> 'b act) \<Rightarrow> 'b act" where
  "and_then m f s = (case m s of (None, s') \<Rightarrow> (None, s') | (Some x, s') \<Rightarrow> f x s')"

definition out :: "'a io \<Rightarrow> 'a act" where
  "out m s = (case m (s_term s) of None \<Rightarrow> (None, s) | Some (x, t) \<Rightarrow> (Some x, s\<lparr>s_term := t\<rparr>))"

definition now :: "session \<Rightarrow> timestamp" where
  "now s = s_connected_at s + of_nat (t_clock (s_term s)) / 1000"

text \<open>\<open>idle_seconds\<close>, in milliseconds.\<close>

definition idle_ms :: "session \<Rightarrow> nat" where
  "idle_ms s = t_clock (s_term s) - s_touched s"

definition touch :: "session \<Rightarrow> session" where
  "touch s = s\<lparr>s_touched := t_clock (s_term s)\<rparr>"

text \<open>\<open>float(cfg.idle_timeout) or None\<close>.\<close>

definition timeout_of :: "bbs_cfg \<Rightarrow> nat option" where
  "timeout_of cfg = (if bc_idle_timeout cfg = 0 then None else Some (1000 * bc_idle_timeout cfg))"

section \<open>Connection\<close>

definition is_ax25 :: "string \<Rightarrow> bool" where
  "is_ax25 transport \<longleftrightarrow> transport \<in> {''kernel_ax25'', ''kiss_tcp'', ''kiss_serial'', ''agwpe'', ''netrom''}"

definition choose_path :: "bbs_cfg \<Rightarrow> string \<Rightarrow> int \<Rightarrow> path_length" where
  "choose_path cfg transport hops =
     (if is_ax25 transport then
        (if bc_long_hops cfg \<le> hops then LONG else if bc_medium_hops cfg \<le> hops then MEDIUM else SHORT)
      else SHORT)"

definition anonymous :: auth_state where
  "anonymous = \<lparr>as_callsign = [], as_level = ANONYMOUS, as_user_id = None, as_approved = True\<rparr>"

text \<open>\<open>__init__\<close> and the set-up at the top of \<open>run\<close>.\<close>

definition open_session ::
  "bbs_cfg \<Rightarrow> string \<Rightarrow> string \<Rightarrow> int \<Rightarrow> arrival list \<Rightarrow> (bytes list \<Rightarrow> bool) \<Rightarrow> timestamp \<Rightarrow> world \<Rightarrow> session" where
  "open_session cfg transport addr hops input drain t0 w =
     \<lparr>s_transport = transport, s_addr = addr, s_hops = hops,
      s_term = terminal_init input drain (Name (if transport = ''web'' then ''truecolor'' else ''off'')) 80 24
        (\<not> is_ax25 transport) (transport = ''web'') (if is_ax25 transport then [CR] else [CR, LF]),
      s_auth = anonymous, s_state = CONNECTED, s_path = choose_path cfg transport hops,
      s_connected_at = t0, s_touched = 0, s_closed = False, s_world = w\<rparr>"

definition greet :: "bbs_cfg \<Rightarrow> unit act" where
  "greet cfg s = out (\<lambda>t. case s_path s of
       LONG \<Rightarrow> sendln (full_callsign cfg @ '' BBS (compact mode)'') t
     | MEDIUM \<Rightarrow> sendln (label t (full_callsign cfg) ''accent'' @ ''  '' @ label t ''BBS - Sysop:'' ''meta''
           @ '' '' @ bc_sysop cfg) t
     | SHORT \<Rightarrow> do {
         (_, t) \<leftarrow> sendln [] t;
         (_, t) \<leftarrow> send_header ('' '' @ bc_name cfg @ '' '') t;
         (_, t) \<leftarrow> sendln (label t ''Sysop:'' ''accent'' @ '' '' @ bc_sysop cfg @ ''  ''
           @ label t ''QTH:'' ''accent'' @ '' '' @ bc_location cfg) t;
         (_, t) \<leftarrow> sendln (field t ''BBS:'' (full_callsign cfg) ''meta'') t;
         sendln [] t }) s"

section \<open>Identification\<close>

definition apply_user_preferences :: "session \<Rightarrow> session" where
  "apply_user_preferences s =
     (case as_user_id (s_auth s) of
        None \<Rightarrow> s
      | Some i \<Rightarrow> (case get_by_id i (w_users (s_world s)) of
            None \<Rightarrow> s
          | Some u \<Rightarrow> s\<lparr>s_term := term_set_color_mode (Name (u_color_mode u)) (s_term s)\<rparr>))"

text \<open>The base callsign an account is keyed on; an address that does not parse is taken as it is.\<close>

definition base_call :: "string \<Rightarrow> callsign" where
  "base_call call = (case callsign_only call of None \<Rightarrow> call | Some c \<Rightarrow> c)"

text \<open>\<open>auth_service.identify\<close> and the preferences; the result is whether the account is new.\<close>

definition log_in :: "bbs_cfg \<Rightarrow> callsign \<Rightarrow> session \<Rightarrow> session \<times> bool" where
  "log_in cfg call s =
     (let (db, st, created) = identify (auth_of cfg) (now s) call (w_users (s_world s)) in
      (apply_user_preferences (s\<lparr>s_auth := st, s_world := (s_world s)\<lparr>w_users := db\<rparr>\<rparr>), created))"

definition with_log_in :: "bbs_cfg \<Rightarrow> callsign \<Rightarrow> (bool \<Rightarrow> 'a act) \<Rightarrow> 'a act" where
  "with_log_in cfg call m s = (let (s1, created) = log_in cfg call s in m created s1)"

definition emdash :: string where "emdash = [replacement]"

definition created_notice :: "bbs_cfg \<Rightarrow> terminal \<Rightarrow> string" where
  "created_notice cfg t = note_text t (if bc_enforce_active cfg
     then ''(New account created '' @ emdash @ '' sysop approval required before posting to bulletins.)''
     else ''(New account created.)'')"

definition send_welcome :: "bbs_cfg \<Rightarrow> bool \<Rightarrow> callsign \<Rightarrow> unit io" where
  "send_welcome cfg created call t = do {
     (_, t) \<leftarrow> sendln (label t ''Welcome,'' ''success'' @ '' '' @ style t call ''accent'' True @ ''!'') t;
     if created then sendln (created_notice cfg t) t else Some ((), t) }"

definition welcome_ax25 :: "bbs_cfg \<Rightarrow> string \<Rightarrow> bool \<Rightarrow> unit act" where
  "welcome_ax25 cfg display_call created s = out (case s_path s of
       LONG \<Rightarrow> sendln (''Welcome '' @ display_call @ ''!'')
     | MEDIUM \<Rightarrow> (\<lambda>t. sendln (style t display_call ''accent'' True @ '' ''
         @ note_text t (''['' @ level_label (as_level (s_auth s)) @ '']'')) t)
     | SHORT \<Rightarrow> send_welcome cfg created display_call) s"

definition identify_ax25 :: "bbs_cfg \<Rightarrow> unit act" where
  "identify_ax25 cfg s =
     (let display_call = strip (upper (s_addr s))
      in with_log_in cfg (base_call display_call) (welcome_ax25 cfg display_call) s)"

definition identify_web :: "bbs_cfg \<Rightarrow> unit act" where
  "identify_web cfg =
     (let base = strip (upper (bc_callsign cfg))
      in with_log_in cfg base (\<lambda>_. out (\<lambda>t. sendln (label t (''Sysop web terminal '' @ emdash) ''meta'' @ '' ''
           @ style t base ''accent'' True) t)))"

text \<open>The result is whether to go on; without a callsign \<open>_identify\<close> returns early.\<close>

definition identify_as :: "bbs_cfg \<Rightarrow> string \<Rightarrow> bool act" where
  "identify_as cfg raw_call =
     (if raw_call = [] then
        and_then (out (sendln ''No callsign entered. Goodbye.''))
          (\<lambda>_ s. ret False (s\<lparr>s_state := DISCONNECTED\<rparr>))
      else with_log_in cfg (base_call raw_call)
        (\<lambda>created. and_then (out (send_welcome cfg created (base_call raw_call))) (\<lambda>_. ret True)))"

definition identify_tcp :: "bbs_cfg \<Rightarrow> bool act" where
  "identify_tcp cfg =
     and_then (out (send ''Callsign: '')) (\<lambda>_.
     and_then (out (readline 10 None (timeout_of cfg))) (\<lambda>typed. identify_as cfg (strip (upper typed))))"

definition show_level :: "unit act" where
  "show_level s = (if s_path s = SHORT then
       out (\<lambda>t. do {
         (_, t) \<leftarrow> sendln (field t ''Access level:'' (level_label (as_level (s_auth s))) ''meta'') t;
         sendln [] t }) s
     else ret () s)"

definition session_identify :: "bbs_cfg \<Rightarrow> unit act" where
  "session_identify cfg s =
     (if is_ax25 (s_transport s) then and_then (identify_ax25 cfg) (\<lambda>_. show_level) s
      else if s_transport s = ''web'' then and_then (identify_web cfg) (\<lambda>_. show_level) s
      else and_then (identify_tcp cfg) (\<lambda>go. if go then show_level else ret ()) s)"

text \<open>The journal entry and the event, once the callsign is known.\<close>

definition record_connect :: "bbs_cfg \<Rightarrow> session \<Rightarrow> session" where
  "record_connect cfg s =
     (if as_callsign (s_auth s) \<noteq> [] \<and> bc_log_days cfg \<noteq> 0 then
        s\<lparr>s_world := (s_world s)\<lparr>
          w_log := upsert_connection (now s) (as_callsign (s_auth s)) (s_transport s) (s_connected_at s)
            (level_value (as_level (s_auth s))) 1 (w_log (s_world s)),
          w_events := w_events (s_world s) @ [\<lparr>ev_topic = ''session.authenticated'',
            ev_callsign = as_callsign (s_auth s), ev_addr = s_addr s, ev_transport = s_transport s,
            ev_level = as_level (s_auth s)\<rparr>]\<rparr>\<rparr>
      else s)"

fun notices :: "methods plugin list \<Rightarrow> unit act" where
  "notices [] s = ret () s"
| "notices (p # ps) s =
     (if \<not> p_enabled p then notices ps s
      else (case m_notice (p_methods p) s of
          Some (Some text) \<Rightarrow>
            if text = [] then notices ps s
            else and_then (out (\<lambda>t. sendln (style t text ''warning'' True) t)) (\<lambda>_. notices ps) s
        | _ \<Rightarrow> notices ps s))"

definition show_pending_notices :: "plugins \<Rightarrow> unit act" where
  "show_pending_notices reg s =
     (if as_callsign (s_auth s) = [] then ret () s else notices (map snd reg) s)"


section \<open>The main menu\<close>

definition system_items :: "(string \<times> string) list" where
  "system_items = [(''CO'', ''Color''), (''A'', ''Auth''), (''B'', ''Bye (disconnect)''), (''?'', ''Help'')]"

definition show_main_menu :: "bbs_cfg \<Rightarrow> (string \<times> string) list \<Rightarrow> unit act" where
  "show_main_menu cfg items s = out (case s_path s of
       LONG \<Rightarrow> send (join '' '' (filter (\<lambda>k. k \<noteq> []) (map fst items)) @ '' >'')
     | MEDIUM \<Rightarrow> (\<lambda>t. do {
         (_, t) \<leftarrow> sendln [] t;
         (_, t) \<leftarrow> sendln (join ''  '' (map (\<lambda>(key, desc). key @ '':'' @ desc) (filter (\<lambda>(key, _). key \<noteq> []) items))) t;
         send ''> '' t })
     | SHORT \<Rightarrow> send_menu (bc_name cfg) items ''> '' True) s"

text \<open>The idle time that remains, at least a second.\<close>

definition remaining_of :: "bbs_cfg \<Rightarrow> session \<Rightarrow> nat option" where
  "remaining_of cfg s = map_option (\<lambda>limit. max 1000 (limit - idle_ms s)) (timeout_of cfg)"

definition read_choice :: "bbs_cfg \<Rightarrow> plugins \<Rightarrow> string act" where
  "read_choice cfg reg s =
     (case menu_items (as_level (s_auth s)) reg of
        None \<Rightarrow> (None, s)
      | Some items \<Rightarrow>
          and_then (show_main_menu cfg (items @ system_items))
            (\<lambda>_ s. out (readline 8 None (remaining_of cfg s)) s) s)"

section \<open>Commands\<close>

text \<open>The texts of \<open>AuthService\<close>.\<close>

definition int_str :: "int \<Rightarrow> string" where
  "int_str n = (if n < 0 then ''-'' @ nat_str (nat (- n)) else nat_str (nat n))"

fun prompt_text :: "otp_prompt \<Rightarrow> string" where
  "prompt_text (EnterHotp n) = ''Enter HOTP code (counter '' @ int_str n @ ''): ''"
| "prompt_text EnterTotp = ''Enter TOTP code: ''"

fun message_text :: "otp_message \<Rightarrow> string" where
  "message_text Failed = ''FAILED''"
| "message_text (Locked mins) = ''LOCKED ('' @ int_str mins @ '' min remaining)''"
| "message_text FailedNoSecret = ''FAILED (no OTP secret configured '' @ emdash @ '' contact sysop)''"
| "message_text (FailedLockedFor mins) = ''FAILED (account locked for '' @ int_str mins @ '' min)''"
| "message_text (FailedRemaining n) = ''FAILED ('' @ int_str n @ '' attempt(s) remaining)''"
| "message_text Auth.Ok = ''OK''"

text \<open>\<open>verify_otp\<close> on the session; an exception leaves the session as it was.\<close>

definition session_verify :: "bbs_cfg \<Rightarrow> string \<Rightarrow> (bool \<times> otp_message) act" where
  "session_verify cfg given s =
     (case verify_otp (auth_of cfg) (now s) given (s_auth s) (w_users (s_world s)) of
        None \<Rightarrow> (None, s)
      | Some (success, msg, st, db) \<Rightarrow>
          (Some (success, msg), s\<lparr>s_auth := st, s_world := (s_world s)\<lparr>w_users := db\<rparr>\<rparr>))"

definition auth_outcome :: "bool \<times> otp_message \<Rightarrow> unit act" where
  "auth_outcome r = and_then (out (sendln (message_text (snd r)))) (\<lambda>_ s.
     if fst r then
       out (\<lambda>t. sendln (ok_text t ''Access upgraded to:'' @ '' '' @ level_label (as_level (s_auth s))) t) s
     else ret () s)"

definition auth_code :: "bbs_cfg \<Rightarrow> string \<Rightarrow> unit act" where
  "auth_code cfg given =
     (if strip given = [] then out (\<lambda>t. sendln (note_text t ''Auth cancelled.'') t)
      else and_then (session_verify cfg given) auth_outcome)"

definition handle_auth :: "bbs_cfg \<Rightarrow> unit act" where
  "handle_auth cfg s =
     (if is_authenticated (s_auth s) then
        out (\<lambda>t. sendln (note_text t (''Already authenticated as '' @ as_callsign (s_auth s) @ ''.'')) t) s
      else
        and_then (out (send (prompt_text (otp_prompt (s_auth s) (w_users (s_world s))))))
          (\<lambda>_. and_then (out (readline 8 (Some False) (timeout_of cfg))) (auth_code cfg)) s)"

definition describe_color_mode :: "string \<Rightarrow> string" where
  "describe_color_mode m = (case map_of [(''off'', ''Off''), (''ansi16'', ''ANSI 16-color''),
       (''truecolor'', ''24-bit truecolor'')] m of None \<Rightarrow> ''Off'' | Some d \<Rightarrow> d)"

fun mode_value :: "color_mode \<Rightarrow> string" where
  "mode_value OFF = ''off''"
| "mode_value ANSI16 = ''ansi16''"
| "mode_value TRUECOLOR = ''truecolor''"

definition selected_mode :: "string \<Rightarrow> string option" where
  "selected_mode choice = map_of [(''O'', ''off''), (''A'', ''ansi16''), (''T'', ''truecolor'')] choice"

definition color_menu :: "unit io" where
  "color_menu t = do {
     (_, t) \<leftarrow> sendln [] t;
     (_, t) \<leftarrow> sendln (label t ''Color output'' ''meta'') t;
     (_, t) \<leftarrow> sendln (note_text t ''------------'') t;
     (_, t) \<leftarrow> sendln (field t ''Current mode:'' (describe_color_mode (mode_value (t_mode t))) ''meta'') t;
     (_, t) \<leftarrow> sendln (label t ''O'' ''accent'' @ '' - Off'') t;
     (_, t) \<leftarrow> sendln (label t ''A'' ''accent'' @ '' - ANSI 16-color'') t;
     (_, t) \<leftarrow> sendln (label t ''T'' ''accent'' @ '' - 24-bit truecolor'') t;
     send (prompt t ''Selection (ENTER cancels): '') t }"

text \<open>The user's choice takes effect on the terminal and, for a known user, in the users table.\<close>

definition save_color_mode :: "string \<Rightarrow> session \<Rightarrow> session" where
  "save_color_mode m s =
     (let s = s\<lparr>s_term := term_set_color_mode (Name m) (s_term s)\<rparr> in
      case as_user_id (s_auth s) of
        None \<Rightarrow> s
      | Some i \<Rightarrow> s\<lparr>s_world := (s_world s)\<lparr>w_users := set_color_mode i m (w_users (s_world s))\<rparr>\<rparr>)"

definition handle_color :: "bbs_cfg \<Rightarrow> unit act" where
  "handle_color cfg =
     and_then (out color_menu) (\<lambda>_.
     and_then (out (readline 1 None (timeout_of cfg))) (\<lambda>typed.
       let choice = upper (strip typed) in
       if choice = [] then out (\<lambda>t. sendln (note_text t ''Color mode unchanged.'') t)
       else (case selected_mode choice of
           None \<Rightarrow> out (\<lambda>t. sendln (warn t ''Unknown color selection.'') t)
         | Some m \<Rightarrow> (\<lambda>s. out (\<lambda>t. sendln (ok_text t ''Color mode saved:'' @ '' '' @ describe_color_mode m @ ''.'') t)
             (save_color_mode m s)))))"

definition help_row :: "nat \<Rightarrow> string \<Rightarrow> string \<Rightarrow> string \<Rightarrow> string" where
  "help_row key_w key name desc = ''  '' @ ljust key_w key @ ''  '' @ ljust 16 name @ '' '' @ desc"

definition help_lines :: "plugins \<Rightarrow> (string \<times> string) list \<Rightarrow> string list" where
  "help_lines reg items =
     (let key_w = max (if items = [] then 2 else Max (set (map (\<lambda>(k, _). length k) items))) 2;
          indent = replicate (4 + key_w) CHR 0x20 in
      [''BBS HELP'', ''--------'', []]
      @ (if items = [] then []
         else [''Plugin commands:'']
           @ map (\<lambda>(key, display_name). help_row key_w key display_name
               (case get_by_key key reg of
                  Some p \<Rightarrow> if p_help p \<noteq> [] then p_help p else display_name
                | None \<Rightarrow> display_name)) items
           @ [[]])
      @ [''System commands:'',
         help_row key_w ''A'' ''Auth'' ''Prove your callsign with a one-time code (TOTP).'',
         indent @ ''Contact the sysop out-of-band to obtain your secret key.'',
         indent @ ''Required for sysop access and authenticated bulletin posts.'',
         help_row key_w ''CO'' ''Color'' ''Set terminal color: Off / ANSI 16-color / 24-bit truecolor.'',
         indent @ ''Preference is saved per-callsign after login.'',
         help_row key_w ''B'' ''Bye'' ''Disconnect from the BBS.'',
         help_row key_w ''?'' ''Help'' ''This screen.''])"

definition show_help :: "bbs_cfg \<Rightarrow> plugins \<Rightarrow> unit act" where
  "show_help cfg reg s =
     (case menu_items (as_level (s_auth s)) reg of
        None \<Rightarrow> (None, s)
      | Some items \<Rightarrow> and_then (out (paginate (help_lines reg items) None (timeout_of cfg))) (\<lambda>_. ret ()) s)"

text \<open>\<open>with term.menu_scope(): await plugin.handle_session(self)\<close>; the menus are restored in any case.\<close>

definition set_menus :: "string set \<Rightarrow> session \<Rightarrow> session" where
  "set_menus ms s = s\<lparr>s_term := (s_term s)\<lparr>t_menus := ms\<rparr>\<rparr>"

definition enter_plugin :: "methods plugin \<Rightarrow> session \<Rightarrow> (unit option \<times> session) option" where
  "enter_plugin p s = do {
     (r, s') \<leftarrow> m_handle (p_methods p) (set_menus {} s);
     Some (r, set_menus (t_menus (s_term s)) s') }"

text \<open>One command: the result is whether the session leaves the menu.\<close>

definition dispatch_choice :: "bbs_cfg \<Rightarrow> plugins \<Rightarrow> string \<Rightarrow> session \<Rightarrow> (bool option \<times> session) option" where
  "dispatch_choice cfg reg choice s =
     (if choice \<in> {''B'', ''BYE''} then Some (Some True, s)
      else if choice \<in> {''CO'', ''COLOR''} then Some (and_then (handle_color cfg) (\<lambda>_. ret False) s)
      else if choice = ''A'' then Some (and_then (handle_auth cfg) (\<lambda>_. ret False) s)
      else if choice = ''?'' then Some (and_then (show_help cfg reg) (\<lambda>_. ret False) s)
      else (case get_by_key choice reg of
          Some p \<Rightarrow> map_option (\<lambda>(r, s'). (map_option (\<lambda>_. False) r, s')) (enter_plugin p s)
        | None \<Rightarrow> Some (and_then (out (\<lambda>t. sendln (warn t ''Unknown command.'') t)) (\<lambda>_. ret False) s)))"

definition idle_too_long :: "bbs_cfg \<Rightarrow> session \<Rightarrow> bool" where
  "idle_too_long cfg s \<longleftrightarrow> bc_idle_timeout cfg \<noteq> 0 \<and> 1000 * bc_idle_timeout cfg < idle_ms s"

definition redraw :: "bbs_cfg \<Rightarrow> session \<Rightarrow> session" where
  "redraw cfg s = (if s_path s = SHORT then s\<lparr>s_term := reset_menu_state (Some (bc_name cfg)) (s_term s)\<rparr> else s)"

partial_function (option) main_loop :: "bbs_cfg \<Rightarrow> plugins \<Rightarrow> session \<Rightarrow> (unit option \<times> session) option" where
  "main_loop cfg reg s =
     (if s_state s \<noteq> ACTIVE then Some (Some (), s)
      else if idle_too_long cfg s then
        Some (out (\<lambda>t. sendln (warn t (''Idle timeout '' @ emdash @ '' disconnecting.'')) t) s)
      else (case read_choice cfg reg s of
          (None, s1) \<Rightarrow> Some (None, s1)
        | (Some choice_raw, s1) \<Rightarrow>
            if choice_raw = [] then
              (if at_eof (s_term s1) then Some (Some (), s1) else main_loop cfg reg (redraw cfg s1))
            else (case dispatch_choice cfg reg (upper (strip choice_raw)) (touch s1) of
                None \<Rightarrow> None
              | Some (None, s2) \<Rightarrow> Some (None, s2)
              | Some (Some leave, s2) \<Rightarrow> if leave then Some (Some (), s2) else main_loop cfg reg s2)))"

section \<open>The session\<close>

definition farewell :: "bbs_cfg \<Rightarrow> session \<Rightarrow> session" where
  "farewell cfg s =
     (let (_, s') = out (\<lambda>t. do {
          (_, t) \<leftarrow> sendln [] t;
          (_, t) \<leftarrow> sendln (label t ''73 de'' ''meta'' @ '' '' @ bc_callsign cfg @ ''  ''
            @ note_text t ''-- disconnecting --'') t;
          term_flush t }) s
      in s'\<lparr>s_closed := True\<rparr>)"

text \<open>From the greeting to the end of the main menu.\<close>

definition log_on :: "bbs_cfg \<Rightarrow> plugins \<Rightarrow> bool act" where
  "log_on cfg reg =
     and_then (greet cfg) (\<lambda>_.
     and_then (session_identify cfg) (\<lambda>_ s.
       let s = record_connect cfg s in
       if s_state s = DISCONNECTED then ret False s
       else and_then (show_pending_notices reg) (\<lambda>_. ret True) (s\<lparr>s_state := ACTIVE\<rparr>)))"

definition session_body :: "bbs_cfg \<Rightarrow> plugins \<Rightarrow> session \<Rightarrow> (unit option \<times> session) option" where
  "session_body cfg reg s = (case log_on cfg reg s of
       (None, s1) \<Rightarrow> Some (None, s1)
     | (Some active, s1) \<Rightarrow> if active then main_loop cfg reg s1 else Some (Some (), s1))"

text \<open>\<open>run\<close>; \<open>None\<close> only where a plugin or the main menu does not come back.\<close>

definition run_session :: "bbs_cfg \<Rightarrow> plugins \<Rightarrow> session \<Rightarrow> session option" where
  "run_session cfg reg s =
     map_option (\<lambda>(_, s1). (farewell cfg s1)\<lparr>s_state := DISCONNECTED\<rparr>) (session_body cfg reg s)"

section \<open>The idle watchdog\<close>

text \<open>
  \<open>_idle_watchdog\<close> looks every \<open>min(10, timeout / 3)\<close> seconds. Given the idle time it finds at each
  look, in milliseconds, the number of the look at which it cancels the session.
\<close>

definition watchdog_interval :: "nat \<Rightarrow> rat" where
  "watchdog_interval timeout = min 10 (of_nat timeout / 3)"

fun watchdog :: "nat \<Rightarrow> nat list \<Rightarrow> nat option" where
  "watchdog timeout [] = None"
| "watchdog timeout (idle # looks) =
     (if 1000 * timeout < idle then Some 0 else map_option Suc (watchdog timeout looks))"

end
