(* ===== verification/Node.thy ===== *)
theory Node
  imports Session Router Gateway
begin

text \<open>
  The NET/ROM node shell, \<open>netrom/node.py\<close>, and the plugin around it, \<open>plugins/node/node.py\<close>.

  A shell is the record of its attributes with the terminal of its connection and the router and guard
  it shares with other sessions. A command is a function from the shell to its outcome and the shell
  after it: it returned, raised, or was cancelled (by the idle watchdog, while it waits for the network);
  the outer \<open>None\<close> is a command that does not come back. A \<open>finally\<close> is \<open>ensuring\<close>.

  What happens outside is the environment (\<open>env\<close>), a parameter: what others made of the router and the
  guard while the shell waited for a line, what a local application does with the connection, the
  stations heard, and the course of an outbound call (\<open>far_call\<close>): how the crosslink and the circuit
  come up and after what time, and then the turns of the two pumps of the bridge, in any order.
  \<open>nd_dialled\<close>, \<open>nd_open\<close> and \<open>nd_far\<close> log what the shell asks of the circuit manager: circuits
  originated, circuits it has not closed, and what it writes to the far end.
\<close>

section \<open>The shell\<close>

record crosslink_transport =
  xt_id :: string
  xt_capable :: bool

record node =
  nd_term :: terminal
  nd_epoch :: timestamp
  nd_user_eol :: bytes
  nd_user_call :: callsign
  nd_node_call :: callsign
  nd_node_alias :: string
  nd_router :: router
  nd_transports :: "crosslink_transport list"
  nd_apps :: "string list"
  nd_may_connect :: bool
  nd_min_quality :: int
  nd_guard :: guard
  nd_level :: "auth_level option"
  nd_arrival_via :: string
  nd_entry :: string
  nd_reconnect :: bool
  nd_idle_timeout :: "nat option"
  nd_activity :: bool
  nd_echo_local :: bool
  nd_connected_at :: nat
  nd_last_activity :: nat
  nd_notified :: "nat option"
  nd_target :: "string option"
  nd_running :: bool
  nd_active_gateways :: int
  nd_dialled :: "(callsign \<times> callsign \<times> callsign) list"
  nd_open :: "callsign list"
  nd_far :: "bytes list"

datatype 'a outcome = Returned 'a | Raised | Cancelled

type_synonym 'a cmd = "node \<Rightarrow> ('a outcome \<times> node) option"

datatype bridge_event = Passes nat | User_turn bool bool | Far_turn bytes bool | Bridge_cancelled

datatype link_outcome = Link_up | Link_none | Link_failed | Link_raises | Link_cancelled

datatype answer = Answered | Answer_timeout | Answer_refused | Answer_failed | Answer_cancelled

record far_call =
  fc_link :: link_outcome
  fc_link_ms :: nat
  fc_answer :: answer
  fc_answer_ms :: nat
  fc_turns :: "bridge_event list"
  fc_others :: "guard \<Rightarrow> guard"

record env =
  ev_shared :: "node \<Rightarrow> router \<times> guard"
  ev_app :: "string \<Rightarrow> terminal \<Rightarrow> (unit outcome \<times> terminal) option"
  ev_heard :: "(node \<Rightarrow> (callsign \<times> timestamp) list option) option"
  ev_far :: "node \<Rightarrow> far_call"

definition result :: "'a \<Rightarrow> 'a cmd" where
  "result x n = Some (Returned x, n)"

definition then_do :: "'a cmd \<Rightarrow> ('a \<Rightarrow> 'b cmd) \<Rightarrow> 'b cmd" where
  "then_do m f n = (case m n of
       None \<Rightarrow> None
     | Some (r, n') \<Rightarrow> (case r of
           Returned x \<Rightarrow> f x n' | Raised \<Rightarrow> Some (Raised, n') | Cancelled \<Rightarrow> Some (Cancelled, n')))"

definition ensuring :: "'a cmd \<Rightarrow> (node \<Rightarrow> node) \<Rightarrow> 'a cmd" where
  "ensuring m fin n = map_option (\<lambda>(r, n'). (r, fin n')) (m n)"

definition term_do :: "'a io \<Rightarrow> 'a cmd" where
  "term_do m n = Some (case m (nd_term n) of
       None \<Rightarrow> (Raised, n) | Some (x, t) \<Rightarrow> (Returned x, n\<lparr>nd_term := t\<rparr>))"

definition tell :: "string \<Rightarrow> unit cmd" where
  "tell s = term_do (sendln s)"

fun tell_all :: "string list \<Rightarrow> unit cmd" where
  "tell_all [] = result ()"
| "tell_all (l # ls) = then_do (tell l) (\<lambda>_. tell_all ls)"

definition node_now :: "node \<Rightarrow> timestamp" where
  "node_now n = nd_epoch n + of_nat (t_clock (nd_term n)) / 1000"

text \<open>\<open>_touch\<close>; \<open>nd_notified\<close> is the last call of \<open>on_activity\<close>, where one was given.\<close>

definition node_touch :: "node \<Rightarrow> node" where
  "node_touch n = n\<lparr>nd_last_activity := t_clock (nd_term n),
     nd_notified := (if nd_activity n then Some (t_clock (nd_term n)) else nd_notified n)\<rparr>"

section \<open>Construction\<close>

record node_setup =
  ns_term :: terminal
  ns_epoch :: timestamp
  ns_user_call :: string
  ns_node_call :: string
  ns_node_alias :: string
  ns_router :: router
  ns_transports :: "crosslink_transport list"
  ns_apps :: "string list"
  ns_may_connect :: bool
  ns_min_quality :: int
  ns_max_gateway_circuits :: int
  ns_guard :: "guard option"
  ns_level :: "auth_level option"
  ns_arrival_via :: string
  ns_entry :: string
  ns_reconnect :: bool
  ns_idle_timeout :: "nat option"
  ns_activity :: bool
  ns_user_eol :: string
  ns_echo_local :: bool

definition node_init :: "node_setup \<Rightarrow> node" where
  "node_init a =
     \<lparr>nd_term = ns_term a, nd_epoch = ns_epoch a,
      nd_user_eol = encode_ascii (if ns_user_eol a = [] then [CR] else ns_user_eol a),
      nd_user_call = upper (ns_user_call a), nd_node_call = upper (ns_node_call a),
      nd_node_alias = upper (if ns_node_alias a = [] then ns_node_call a else ns_node_alias a),
      nd_router = ns_router a, nd_transports = ns_transports a, nd_apps = remdups (map upper (ns_apps a)),
      nd_may_connect = ns_may_connect a, nd_min_quality = max 1 (ns_min_quality a),
      nd_guard = (case ns_guard a of
          Some g \<Rightarrow> g | None \<Rightarrow> guard_init (permissive (max 1 (ns_max_gateway_circuits a)))),
      nd_level = ns_level a, nd_arrival_via = upper (ns_arrival_via a), nd_entry = ns_entry a,
      nd_reconnect = ns_reconnect a, nd_idle_timeout = ns_idle_timeout a, nd_activity = ns_activity a,
      nd_echo_local = ns_echo_local a, nd_connected_at = t_clock (ns_term a),
      nd_last_activity = t_clock (ns_term a), nd_notified = None, nd_target = None, nd_running = False,
      nd_active_gateways = 0, nd_dialled = [], nd_open = [], nd_far = []\<rparr>"

definition node_prompt :: "node \<Rightarrow> string" where
  "node_prompt n = nd_node_alias n @ '':'' @ nd_node_call n @ ''} ''"

text \<open>\<open>describe\<close>, with the times in whole seconds.\<close>

record node_summary =
  nm_user :: callsign
  nm_entry :: string
  nm_via :: string
  nm_target :: "string option"
  nm_connected_s :: nat
  nm_idle_s :: nat

definition describe :: "node \<Rightarrow> node_summary" where
  "describe n = (let now = t_clock (nd_term n) in
     \<lparr>nm_user = nd_user_call n, nm_entry = nd_entry n, nm_via = nd_arrival_via n, nm_target = nd_target n,
      nm_connected_s = (now - nd_connected_at n) div 1000, nm_idle_s = (now - nd_last_activity n) div 1000\<rparr>)"

section \<open>The command table\<close>

datatype node_command = CONNECT | BBS | NODES | ROUTES | USERS | INFO | MHEARD | PORTS | BYE | HELP

text \<open>The name, the handler, and whether it takes an argument.\<close>

definition COMMANDS :: "(string \<times> node_command \<times> bool) list" where
  "COMMANDS = [(''CONNECT'', CONNECT, True), (''BBS'', BBS, False), (''NODES'', NODES, True),
     (''ROUTES'', ROUTES, True), (''USERS'', USERS, False), (''INFO'', INFO, False),
     (''MHEARD'', MHEARD, False), (''PORTS'', PORTS, False), (''BYE'', BYE, False), (''HELP'', HELP, False)]"

definition ALIASES :: "(string, string) dict" where
  "ALIASES = [(''MH'', ''MHEARD''), (''?'', ''HELP''), (''H'', ''HELP''), (''Q'', ''BYE''),
     (''QUIT'', ''BYE''), (''B'', ''BYE'')]"

definition starts_with :: "string \<Rightarrow> string \<Rightarrow> bool" where
  "starts_with s pre \<longleftrightarrow> take (length pre) s = pre"

definition resolve_verb :: "string \<Rightarrow> node_command option" where
  "resolve_verb typed =
     (let verb = upper typed in
      case map_of ALIASES verb of
        Some full \<Rightarrow> map_option (\<lambda>c. fst (snd c)) (find (\<lambda>c. fst c = full) COMMANDS)
      | None \<Rightarrow> (case filter (\<lambda>c. starts_with (fst c) verb) COMMANDS of
            [c] \<Rightarrow> Some (fst (snd c)) | _ \<Rightarrow> None))"

section \<open>Listings\<close>

definition send_banner :: "unit cmd" where
  "send_banner n = tell_all ([[], nd_node_alias n @ '':'' @ nd_node_call n @ '' NET/ROM node'',
       ''Commands: '' @ join ''  '' (map fst (filter (\<lambda>c. fst c \<noteq> ''HELP'') COMMANDS)) @ ''   (? for help)'']
     @ (if nd_apps n \<noteq> [] then
          [''Applications: '' @ join ''  '' (sort (nd_apps n)) @ ''   (CONNECT <name>)''] else [])) n"

definition cmd_help :: "unit cmd" where
  "cmd_help n = tell_all ([
       ''CONNECT <node|call>  Connect onward to a node/BBS (or a local app)'',
       ''NODES [pattern]      List known nodes'',
       ''ROUTES [node]        Routes table (neighbours); or routes to a node'',
       ''USERS                Users / active gateway circuits'',
       ''INFO                 Node info'',
       ''MHEARD               Stations heard directly'',
       ''PORTS                Ports (transports)'',
       ''BYE                  Disconnect'',
       ''HELP                 This help'',
       ''Verbs may be abbreviated (C, N, R, U, I, MH, P, B; ? = HELP).'']
     @ (if nd_apps n \<noteq> [] then
          [''Applications (CONNECT <name>): '' @ join ''  '' (sort (nd_apps n))] else [])) n"

definition cmd_info :: "unit cmd" where
  "cmd_info n = tell_all [nd_node_alias n @ '':'' @ nd_node_call n @ ''  NET/ROM node (bbs2)'',
     ''Nodes known: '' @ nat_str (node_count (nd_router n)) @ ''   ''
       @ ''Neighbors: '' @ nat_str (card (adjacent_neighbors (node_now n) (nd_router n)))] n"

text \<open>\<open>pat in s\<close>.\<close>

fun occurs :: "string \<Rightarrow> string \<Rightarrow> bool" where
  "occurs pat [] \<longleftrightarrow> pat = []"
| "occurs pat (c # cs) \<longleftrightarrow> starts_with (c # cs) pat \<or> occurs pat cs"

definition or_dash :: "string \<Rightarrow> string" where
  "or_dash s = (if s = [] then ''-'' else s)"

fun nodes_tokens :: "string \<Rightarrow> callsign list \<Rightarrow> route_entry list \<Rightarrow> string list" where
  "nodes_tokens pat seen [] = []"
| "nodes_tokens pat seen (r # rs) =
     (let k = upper (re_dest_call r) in
      if k \<in> set seen then nodes_tokens pat seen rs
      else if pat \<noteq> [] \<and> \<not> occurs pat (upper (re_alias r)) \<and> \<not> occurs pat k
        then nodes_tokens pat (k # seen) rs
      else (or_dash (re_alias r) @ '':'' @ re_dest_call r) # nodes_tokens pat (k # seen) rs)"

definition column_rows :: "int \<Rightarrow> string list \<Rightarrow> string list" where
  "column_rows term_width tokens =
     (let width = (if term_width = 0 then 80 else term_width);
          colw = (if tokens = [] then 1 else Max (set (map length tokens))) + 2;
          per_line = nat (max 1 (width div int colw)) in
      map (\<lambda>row. rstrip (concat (map (ljust colw) row))) (fragments per_line tokens))"

definition send_columns :: "string list \<Rightarrow> unit cmd" where
  "send_columns tokens n = tell_all (column_rows (t_width (nd_term n)) tokens) n"

definition cmd_nodes :: "string \<Rightarrow> unit cmd" where
  "cmd_nodes arg n =
     (let pat = upper (strip arg); tokens = nodes_tokens pat [] (routing_table (nd_router n)) in
      if tokens = [] then tell (if pat = [] then ''No nodes.'' else ''No nodes match '' @ pat @ ''.'') n
      else send_columns tokens n)"

definition neighbour_line :: "neighbour_entry \<Rightarrow> string" where
  "neighbour_line e = '' '' @ (if nb_crosslink e then ''>'' else '' '') @ '' ''
     @ (if nb_port e = [] then ''0'' else nb_port e) @ '' '' @ nb_call e @ '' '' @ int_str (nb_path_quality e)
     @ '' '' @ int_str (nb_use_count e) @ (if nb_locked e then '' !'' else [])"

definition route_line :: "bool \<Rightarrow> route_entry \<Rightarrow> string" where
  "route_line cur r = '' '' @ (if cur then ''>'' else '' '') @ '' '' @ int_str (re_quality r) @ '' ''
     @ int_str (re_obs_count r) @ '' 0 '' @ re_via_call r"

definition cmd_routes :: "string \<Rightarrow> unit cmd" where
  "cmd_routes arg n =
     (let target = strip arg in
      if target = [] then
        (case neighbour_list (nd_router n) of
           [] \<Rightarrow> tell ''No routes.'' n
         | es \<Rightarrow> tell_all (''Routes:'' # map neighbour_line es) n)
      else
        (case get_routes (nd_router n) target of
           [] \<Rightarrow> tell (''No route to '' @ upper target @ ''.'') n
         | best # rest \<Rightarrow>
             tell_all ((''Routes to '' @ or_dash (re_alias best) @ '':'' @ re_dest_call best @ '':'')
               # route_line True best # map (route_line False) rest) n))"

definition heard_token :: "timestamp \<Rightarrow> callsign \<times> timestamp \<Rightarrow> string" where
  "heard_token at_time h = fst h @ ''('' @ int_str (floor (max 0 (at_time - snd h) / 60)) @ ''m)''"

definition cmd_mheard :: "env \<Rightarrow> unit cmd" where
  "cmd_mheard env n =
     (let heard = (case ev_heard env of None \<Rightarrow> [] | Some source \<Rightarrow> (case source n of None \<Rightarrow> [] | Some hs \<Rightarrow> hs));
          calls = map nb_call (neighbour_list (nd_router n)) in
      if heard \<noteq> [] then send_columns (map (heard_token (node_now n)) heard) n
      else if calls = [] then tell ''Nothing heard.'' n
      else send_columns calls n)"

definition cmd_users :: "unit cmd" where
  "cmd_users n = tell_all [nd_node_alias n @ '':'' @ nd_node_call n, ''  '' @ nd_user_call n @ '' (you)'',
     ''Gateway circuits: '' @ int_str (active_for (nd_user_call n) (nd_guard n))
       @ '' (node total '' @ int_str (gg_active_total (nd_guard n)) @ '')''] n"

definition cmd_ports :: "unit cmd" where
  "cmd_ports n = tell_all (map (\<lambda>(i, x). nat_str i @ '' '' @ xt_id x @ (if xt_capable x then '' (crosslink)'' else []))
     (enumerate 0 (nd_transports n))) n"

definition cmd_bye :: "unit cmd" where
  "cmd_bye n = then_do (tell (''73 from '' @ nd_node_alias n)) (\<lambda>_ n. Some (Returned (), n\<lparr>nd_running := False\<rparr>)) n"

section \<open>The bridge\<close>

text \<open>\<open>bs.replace(b"\r\n", x)\<close> and \<open>bs.replace(bytes([b]), x)\<close>.\<close>

fun crlf_to :: "bytes \<Rightarrow> bytes \<Rightarrow> bytes" where
  "crlf_to x [] = []"
| "crlf_to x [b] = [b]"
| "crlf_to x (b # c # bs) =
     (if b = 0x0D \<and> c = 0x0A then x @ crlf_to x bs else b # crlf_to x (c # bs))"

definition replace_byte :: "byte \<Rightarrow> bytes \<Rightarrow> bytes \<Rightarrow> bytes" where
  "replace_byte b x bs = concat (map (\<lambda>c. if c = b then x else [c]) bs)"

definition to_far :: "bytes \<Rightarrow> bytes" where
  "to_far data = replace_byte 0x0A [0x0D] (crlf_to [0x0D] data)"

definition to_user :: "bytes \<Rightarrow> bytes \<Rightarrow> bytes" where
  "to_user eol data = replace_byte 0x0A eol (replace_byte 0x0D [0x0A] (crlf_to [0x0A] data))"

definition BRIDGE_CHUNK :: nat where "BRIDGE_CHUNK = 4096"
definition BRIDGE_LINE_MAX :: nat where "BRIDGE_LINE_MAX = 256"

text \<open>Milliseconds that pass: the silences they cover are over, bytes that have come stay.\<close>

fun pass :: "nat \<Rightarrow> arrival list \<Rightarrow> arrival list" where
  "pass d [] = []"
| "pass d (Byte b # i) = Byte b # pass d i"
| "pass d (Silence w # i) = (if w \<le> d then pass (d - w) i else Silence (w - d) # i)"

definition elapse :: "nat \<Rightarrow> node \<Rightarrow> node" where
  "elapse d n = n\<lparr>nd_term := (nd_term n)\<lparr>t_clock := t_clock (nd_term n) + d, t_in := pass d (t_in (nd_term n))\<rparr>\<rparr>"

definition user_write :: "bytes \<Rightarrow> node \<Rightarrow> node" where
  "user_write data n = n\<lparr>nd_term := (nd_term n)\<lparr>t_sent := t_sent (nd_term n) @ [data]\<rparr>\<rparr>"

definition far_write :: "bytes \<Rightarrow> node \<Rightarrow> node" where
  "far_write data n = n\<lparr>nd_far := nd_far n @ [data]\<rparr>"

definition is_eol :: "byte \<Rightarrow> bool" where
  "is_eol b \<longleftrightarrow> b = 0x0D \<or> b = 0x0A"

text \<open>\<open>pending[:nl + 1]\<close> and \<open>pending[nl + 1:]\<close>, \<open>nl\<close> the last CR or LF.\<close>

definition whole_lines :: "bytes \<Rightarrow> bytes" where
  "whole_lines p = rev (dropWhile (\<lambda>b. \<not> is_eol b) (rev p))"

definition open_line :: "bytes \<Rightarrow> bytes" where
  "open_line p = rev (takeWhile (\<lambda>b. \<not> is_eol b) (rev p))"

text \<open>
  A turn of a pump is one read with what follows it. The flags tell whether the waits for the writes to
  drain (the echo's and the far end's, or the user's) return; where one raises the pump is over. The
  result is whether the bridge is over, and which pump ended: the user's (\<open>near_closed\<close>) or the far one.
\<close>

datatype bridge_end = Near_done | Far_done | Cut

fun byte_of :: "arrival \<Rightarrow> byte" where
  "byte_of (Byte b) = b"
| "byte_of (Silence w) = 0"

definition forward_lines :: "bool \<Rightarrow> bytes \<Rightarrow> node \<Rightarrow> bridge_end option \<times> bytes \<times> node" where
  "forward_lines drained pending n =
     (if whole_lines pending \<noteq> [] then
        (if drained then None else Some Near_done, open_line pending, far_write (to_far (whole_lines pending)) n)
      else if BRIDGE_LINE_MAX \<le> length pending then
        (if drained then None else Some Near_done, [], far_write (to_far pending) n)
      else (None, pending, n))"

text \<open>The read of what has come, and the echo of it.\<close>

definition user_read :: "node \<Rightarrow> bytes \<times> node" where
  "user_read n = (let data = map byte_of (take BRIDGE_CHUNK (takeWhile is_byte (t_in (nd_term n)))) in
     (data, node_touch (n\<lparr>nd_term := (nd_term n)\<lparr>t_in := drop (length data) (t_in (nd_term n))\<rparr>\<rparr>)))"

definition echo :: "bytes \<Rightarrow> node \<Rightarrow> node" where
  "echo data n = (if nd_echo_local n then user_write (to_user (nd_user_eol n) data) n else n)"

definition user_turn :: "bool \<Rightarrow> bool \<Rightarrow> bytes \<Rightarrow> node \<Rightarrow> bridge_end option \<times> bytes \<times> node" where
  "user_turn echoed drained pending n =
     (case t_in (nd_term n) of
        [] \<Rightarrow> (Some Near_done, [], if pending = [] then n else far_write (to_far pending) n)
      | Silence w # i \<Rightarrow> (None, pending, n)
      | Byte b # i \<Rightarrow>
          (let (data, n1) = user_read n in
           if nd_echo_local n1 \<and> \<not> echoed then (Some Near_done, pending, echo data n1)
           else forward_lines drained (pending @ data) (echo data n1)))"

definition far_turn :: "bytes \<Rightarrow> bool \<Rightarrow> bytes \<Rightarrow> node \<Rightarrow> bridge_end option \<times> bytes \<times> node" where
  "far_turn data drained pending n =
     (if data = [] then (Some Far_done, pending, n)
      else (if drained then None else Some Far_done, pending,
            user_write (to_user (nd_user_eol n) data) (node_touch n)))"

fun bridge_turn :: "bridge_event \<Rightarrow> bytes \<Rightarrow> node \<Rightarrow> bridge_end option \<times> bytes \<times> node" where
  "bridge_turn (Passes d) pending n = (None, pending, elapse d n)"
| "bridge_turn (User_turn echoed drained) pending n = user_turn echoed drained pending n"
| "bridge_turn (Far_turn data drained) pending n = far_turn data drained pending n"
| "bridge_turn Bridge_cancelled pending n = (Some Cut, pending, n)"

text \<open>The pumps until one is over; \<open>None\<close> while both still run after the turns given.\<close>

fun pumps :: "bridge_event list \<Rightarrow> bytes \<Rightarrow> node \<Rightarrow> (bridge_end \<times> node) option" where
  "pumps [] pending n = None"
| "pumps (e # es) pending n = (case bridge_turn e pending n of
       (Some over, _, n') \<Rightarrow> Some (over, n')
     | (None, pending', n') \<Rightarrow> pumps es pending' n')"

definition close_circuit :: "callsign \<Rightarrow> node \<Rightarrow> node" where
  "close_circuit dest n = n\<lparr>nd_open := remove1 dest (nd_open n)\<rparr>"

definition bridge :: "bridge_event list \<Rightarrow> callsign \<Rightarrow> bool cmd" where
  "bridge turns dest = ensuring
     (\<lambda>n. map_option (\<lambda>(over, n'). (case over of
          Near_done \<Rightarrow> Returned True | Far_done \<Rightarrow> Returned False | Cut \<Rightarrow> Cancelled, n')) (pumps turns [] n))
     (close_circuit dest)"

section \<open>CONNECT\<close>

definition first_word :: "string \<Rightarrow> string" where
  "first_word s = takeWhile (\<lambda>c. \<not> is_space c) (lstrip s)"

text \<open>The tick of the keepalive task every 30 seconds while the application runs.\<close>

definition APP_KEEPALIVE_MS :: nat where "APP_KEEPALIVE_MS = 30000"

definition keepalive :: "nat \<Rightarrow> node \<Rightarrow> node" where
  "keepalive start n =
     (let ticks = (t_clock (nd_term n) - start) div APP_KEEPALIVE_MS; last = start + ticks * APP_KEEPALIVE_MS in
      if nd_activity n \<and> ticks \<noteq> 0 then n\<lparr>nd_last_activity := last, nd_notified := Some last\<rparr> else n)"

definition resume :: "unit cmd" where
  "resume n = (if nd_reconnect n then tell (''*** Reconnected to '' @ nd_node_alias n) n else Some (Returned (), n))"

definition run_local_app :: "env \<Rightarrow> string \<Rightarrow> unit cmd" where
  "run_local_app env name n =
     (case ev_app env name (nd_term n) of
        None \<Rightarrow> None
      | Some (r, t) \<Rightarrow>
          (let n' = keepalive (t_clock (nd_term n)) (n\<lparr>nd_term :=
               (nd_term n)\<lparr>t_in := t_in t, t_clock := t_clock t, t_sent := t_sent t\<rparr>\<rparr>) in
           case r of
             Cancelled \<Rightarrow> Some (Cancelled, n')
           | Raised \<Rightarrow> tell (name @ '' not available.'') n'
           | Returned _ \<Rightarrow>
               (let n' = node_touch n' in
                if at_eof (nd_term n') then Some (Returned (), n'\<lparr>nd_running := False\<rparr>) else resume n')))"

text \<open>
  The body of the \<open>try\<close>: its result is \<open>None\<close> where the code returns early, else whether the user's side
  closed. What others do to the guard during the call (\<open>fc_others\<close>) is applied once, as the call itself
  does not look at it.
\<close>

definition hang_on :: "far_call \<Rightarrow> string \<Rightarrow> callsign \<Rightarrow> bool option cmd" where
  "hang_on c alias dest = then_do (tell (''*** Connected to '' @ alias)) (\<lambda>_.
     then_do (bridge (fc_turns c) dest) (\<lambda>near. result (Some near)))"

definition originate :: "far_call \<Rightarrow> string \<Rightarrow> callsign \<Rightarrow> callsign \<Rightarrow> bool option cmd" where
  "originate c alias dest neighbor n =
     (let n = elapse (fc_answer_ms c) (n\<lparr>nd_dialled := nd_dialled n @ [(dest, neighbor, nd_user_call n)]\<rparr>);
          failed = (\<lambda>s. then_do (tell s) (\<lambda>_. result None) n) in
      case fc_answer c of
        Answer_timeout \<Rightarrow> failed (alias @ '' did not answer.'')
      | Answer_refused \<Rightarrow> failed (alias @ '' refused the connection.'')
      | Answer_failed \<Rightarrow> failed (''Could not connect to '' @ alias @ ''.'')
      | Answer_cancelled \<Rightarrow> Some (Cancelled, n)
      | Answered \<Rightarrow> hang_on c alias dest (n\<lparr>nd_open := nd_open n @ [dest]\<rparr>))"

definition dial :: "env \<Rightarrow> string \<Rightarrow> callsign \<Rightarrow> callsign \<Rightarrow> bool option cmd" where
  "dial env alias dest neighbor =
     then_do (tell (''Connecting to '' @ alias @ '' ('' @ dest @ '') via '' @ neighbor @ '' ...'')) (\<lambda>_ n.
       let c = ev_far env n;
           n = elapse (fc_link_ms c) (n\<lparr>nd_guard := fc_others c (nd_guard n)\<rparr>);
           failed = (\<lambda>s. then_do (tell s) (\<lambda>_. result None) n) in
       case fc_link c of
         Link_failed \<Rightarrow> failed (''Link to '' @ neighbor @ '' failed.'')
       | Link_none \<Rightarrow> failed ''No crosslink transport available.''
       | Link_raises \<Rightarrow> Some (Raised, n)
       | Link_cancelled \<Rightarrow> Some (Cancelled, n)
       | Link_up \<Rightarrow> originate c alias dest neighbor n)"

definition take_slot :: "string \<Rightarrow> guard \<Rightarrow> node \<Rightarrow> node" where
  "take_slot alias g n = n\<lparr>nd_guard := g, nd_active_gateways := nd_active_gateways n + 1, nd_target := Some alias\<rparr>"

definition free_slot :: "node \<Rightarrow> node" where
  "free_slot n = n\<lparr>nd_guard := release (nd_user_call n) (nd_guard n),
     nd_active_gateways := nd_active_gateways n - 1, nd_target := None\<rparr>"

definition after_call :: "bool option \<Rightarrow> unit cmd" where
  "after_call r n = (case r of
       None \<Rightarrow> Some (Returned (), n)
     | Some near \<Rightarrow> if near then Some (Returned (), n\<lparr>nd_running := False\<rparr>) else resume n)"

definition busy_text :: string where
  "busy_text = ''Node busy '' @ emdash @ '' too many circuits. Try later.''"

text \<open>The safety gates, the slot, and the call between them and the release.\<close>

definition gated_call :: "env \<Rightarrow> string \<Rightarrow> callsign \<Rightarrow> callsign \<Rightarrow> unit cmd" where
  "gated_call env alias dest neighbor n =
     (let user = nd_user_call n; ts = node_now n;
          refuse = (\<lambda>why g n. n\<lparr>nd_guard := note_refusal ts user why dest g\<rparr>) in
      case check ts user (nd_level n) neighbor (nd_arrival_via n) (nd_guard n) of
        (g, Some gate) \<Rightarrow> tell (gate_text gate) (refuse (gate_text gate) g n)
      | (g, None) \<Rightarrow>
          (case acquire ts user g of
             (g, False) \<Rightarrow> tell busy_text (refuse (''Node busy '' @ emdash @ '' circuit cap'') g n)
           | (g, True) \<Rightarrow>
               then_do (ensuring (dial env alias dest neighbor) free_slot) after_call (take_slot alias g n)))"

definition cmd_connect :: "env \<Rightarrow> string \<Rightarrow> unit cmd" where
  "cmd_connect env arg n =
     (let target = first_word arg in
      if target = [] then tell ''Usage: C <node|call>'' n
      else if upper target \<in> set (nd_apps n) then run_local_app env (upper target) n
      else if \<not> nd_may_connect n then tell ''Not authorized to connect out.'' n
      else (case get_route (nd_router n) target of
          None \<Rightarrow> tell (''Unknown node: '' @ upper target) n
        | Some route \<Rightarrow>
            (let dest = upper (re_dest_call route);
                 alias = upper (if re_alias route = [] then dest else re_alias route) in
             if dest = nd_node_call n then tell (''That'' @ [CHR 0x27] @ ''s this node.'') n
             else (case best_neighbor_for (node_now n) (nd_router n) target (nd_min_quality n) of
                 None \<Rightarrow> tell (''No route to '' @ dest @ ''.'') n
               | Some neighbor \<Rightarrow>
                   if \<not> list_ex xt_capable (nd_transports n) then tell ''No crosslink transport available.'' n
                   else gated_call env alias dest neighbor n))))"

section \<open>The command loop\<close>

fun run_command :: "env \<Rightarrow> node_command \<Rightarrow> string \<Rightarrow> unit cmd" where
  "run_command env CONNECT arg = cmd_connect env arg"
| "run_command env BBS arg = cmd_connect env ''BBS''"
| "run_command env NODES arg = cmd_nodes arg"
| "run_command env ROUTES arg = cmd_routes arg"
| "run_command env USERS arg = cmd_users"
| "run_command env INFO arg = cmd_info"
| "run_command env MHEARD arg = cmd_mheard env"
| "run_command env PORTS arg = cmd_ports"
| "run_command env BYE arg = cmd_bye"
| "run_command env HELP arg = cmd_help"

text \<open>A command that raises is reported and the loop goes on; a cancellation is not caught.\<close>

definition reported :: "unit cmd \<Rightarrow> unit cmd" where
  "reported m n = (case m n of Some (Raised, n') \<Rightarrow> tell ''Command failed.'' n' | r \<Rightarrow> r)"

definition run_line :: "env \<Rightarrow> string \<Rightarrow> unit cmd" where
  "run_line env line =
     (let (verb, arg) = split1 CHR 0x20 (strip line) in
      if verb = [] then result ()
      else (case resolve_verb verb of
          None \<Rightarrow> tell (''Invalid command: '' @ verb @ ''   (? for help)'')
        | Some c \<Rightarrow> reported (run_command env c (strip (dflt [] arg)))))"

definition ask_line :: "string cmd" where
  "ask_line n = then_do (term_do (send (node_prompt n))) (\<lambda>_.
     term_do (readline 128 None (nd_idle_timeout n))) n"

definition share :: "env \<Rightarrow> node \<Rightarrow> node" where
  "share env n = (let (rt, g) = ev_shared env n in n\<lparr>nd_router := rt, nd_guard := g\<rparr>)"

partial_function (option) node_loop :: "env \<Rightarrow> node \<Rightarrow> (unit outcome \<times> node) option" where
  "node_loop env n =
     (if \<not> nd_running n then Some (Returned (), n)
      else (case ask_line n of
          None \<Rightarrow> None
        | Some (r, n1) \<Rightarrow> (case r of
              Raised \<Rightarrow> Some (Raised, n1)
            | Cancelled \<Rightarrow> Some (Cancelled, n1)
            | Returned line \<Rightarrow>
                if line = [] then (if at_eof (nd_term n1) then Some (Returned (), n1) else node_loop env n1)
                else (case run_line env line (node_touch (share env n1)) of
                    None \<Rightarrow> None
                  | Some (r2, n2) \<Rightarrow> (case r2 of
                        Raised \<Rightarrow> Some (Raised, n2)
                      | Cancelled \<Rightarrow> Some (Cancelled, n2)
                      | Returned _ \<Rightarrow> node_loop env n2)))))"

definition command_loop :: "env \<Rightarrow> unit cmd" where
  "command_loop env n = then_do send_banner (\<lambda>_. node_loop env) (n\<lparr>nd_running := True\<rparr>)"

section \<open>The plugin\<close>

text \<open>
  \<open>NetromNodePlugin\<close>. Its router and guard are the ones every shell shares: a shell that runs takes them
  along and hands them back. \<open>_live\<close> lists the shells that run, here by number.
\<close>

record node_plugin =
  np_enabled :: bool
  np_router :: "router option"
  np_transports :: "crosslink_transport list"
  np_node_call :: string
  np_node_alias :: string
  np_apps :: "string list"
  np_connect_timeout :: rat
  np_min_quality :: int
  np_max_gateways :: int
  np_guard :: guard
  np_live :: "nat list"

definition node_plugin_init :: node_plugin where
  "node_plugin_init = \<lparr>np_enabled = False, np_router = None, np_transports = [], np_node_call = [],
     np_node_alias = [], np_apps = [], np_connect_timeout = 60, np_min_quality = 1, np_max_gateways = 4,
     np_guard = guard_init default_policy, np_live = []\<rparr>"

definition bind_node :: "router \<Rightarrow> crosslink_transport list \<Rightarrow> string \<Rightarrow> string \<Rightarrow> string list
    \<Rightarrow> policy option \<Rightarrow> rat \<Rightarrow> int \<Rightarrow> int \<Rightarrow> node_plugin \<Rightarrow> node_plugin" where
  "bind_node rt transports node_call node_alias apps gateway_policy connect_timeout min_quality max_gateways p =
     p\<lparr>np_router := Some rt, np_transports := transports, np_node_call := node_call,
       np_node_alias := node_alias, np_apps := apps,
       np_guard := guard_init (case gateway_policy of None \<Rightarrow> default_policy | Some q \<Rightarrow> q),
       np_connect_timeout := connect_timeout, np_min_quality := min_quality,
       np_max_gateways := max_gateways, np_enabled := True\<rparr>"

text \<open>\<open>_make_node\<close>; the assertion that the router is bound is the \<open>option\<close>.\<close>

definition make_node :: "terminal \<Rightarrow> timestamp \<Rightarrow> string \<Rightarrow> string \<Rightarrow> bool \<Rightarrow> nat option \<Rightarrow> bool
    \<Rightarrow> auth_level option \<Rightarrow> string \<Rightarrow> node_plugin \<Rightarrow> node option" where
  "make_node t epoch via user_call may_connect idle_timeout activity lvl entry p =
     map_option (\<lambda>rt. node_init \<lparr>ns_term = t, ns_epoch = epoch, ns_user_call = user_call,
       ns_node_call = np_node_call p, ns_node_alias = np_node_alias p, ns_router = rt,
       ns_transports = np_transports p, ns_apps = np_apps p, ns_may_connect = may_connect,
       ns_min_quality = np_min_quality p, ns_max_gateway_circuits = np_max_gateways p,
       ns_guard = Some (np_guard p), ns_level = lvl, ns_arrival_via = via, ns_entry = entry,
       ns_reconnect = True, ns_idle_timeout = idle_timeout, ns_activity = activity,
       ns_user_eol = t_eol t, ns_echo_local = t_must_echo t\<rparr>) (np_router p)"

definition run_tracked :: "env \<Rightarrow> nat \<Rightarrow> node \<Rightarrow> node_plugin \<Rightarrow> (unit outcome \<times> node \<times> node_plugin) option" where
  "run_tracked env me n p = map_option (\<lambda>(r, n').
     (r, n', p\<lparr>np_router := Some (nd_router n'), np_guard := nd_guard n', np_live := remove1 me (np_live p @ [me])\<rparr>))
     (command_loop env n)"

definition not_available :: "terminal \<Rightarrow> terminal \<times> unit outcome" where
  "not_available t = (case sendln ''NET/ROM node not available.'' t of
       None \<Rightarrow> (t, Raised) | Some (_, t') \<Rightarrow> (t', Returned ()))"

text \<open>\<open>run_native\<close>: the landing on the node's own callsign.\<close>

definition run_native :: "env \<Rightarrow> nat \<Rightarrow> terminal \<Rightarrow> timestamp \<Rightarrow> string \<Rightarrow> string \<Rightarrow> bool \<Rightarrow> nat option
    \<Rightarrow> bool \<Rightarrow> auth_level option \<Rightarrow> node_plugin \<Rightarrow> (unit outcome \<times> terminal \<times> node_plugin) option" where
  "run_native env me t epoch via user_call may_connect idle_timeout activity lvl p =
     (case make_node t epoch via user_call may_connect idle_timeout activity lvl ''native'' p of
        None \<Rightarrow> (case not_available t of (t', r) \<Rightarrow> Some (r, t', p))
      | Some n \<Rightarrow> map_option (\<lambda>(r, n', p'). (r, nd_term n', p')) (run_tracked env me n p))"

text \<open>\<open>handle_session\<close>: the menu entry.\<close>

definition node_session :: "env \<Rightarrow> nat \<Rightarrow> string \<Rightarrow> bbs_cfg \<Rightarrow> session \<Rightarrow> node_plugin
    \<Rightarrow> (unit outcome \<times> session \<times> node_plugin) option" where
  "node_session env me via cfg s p =
     (let refused = (\<lambda>text. case out (sendln text) s of
          (None, s') \<Rightarrow> Some (Raised, s', p) | (Some _, s') \<Rightarrow> Some (Returned (), s', p)) in
      if \<not> is_identified (s_auth s) then refused ''You must identify (A) to use the node.''
      else (case make_node (s_term s) (s_connected_at s) via
            (if as_callsign (s_auth s) = [] then s_addr s else as_callsign (s_auth s))
            (is_identified (s_auth s)) (timeout_of cfg) True (Some (as_level (s_auth s))) ''menu'' p of
          None \<Rightarrow> refused ''NET/ROM node not available.''
        | Some n \<Rightarrow> map_option (\<lambda>(r, n', p'). (r, s\<lparr>s_term := nd_term n',
              s_touched := (case nd_notified n' of None \<Rightarrow> s_touched s | Some c \<Rightarrow> c)\<rparr>, p')) (run_tracked env me n p)))"

record node_snapshot =
  nsn_enabled :: bool
  nsn_call :: string
  nsn_alias :: string
  nsn_sessions :: "node_summary list"
  nsn_gateway :: guard_summary

definition activity_snapshot :: "(nat \<Rightarrow> node) \<Rightarrow> node_plugin \<Rightarrow> node_snapshot" where
  "activity_snapshot nodes p = \<lparr>nsn_enabled = np_enabled p, nsn_call = np_node_call p,
     nsn_alias = np_node_alias p, nsn_sessions = map (\<lambda>i. describe (nodes i)) (np_live p),
     nsn_gateway = guard_stats (np_guard p)\<rparr>"

end
