(* ===== verification/Plugins.thy ===== *)
theory Plugins
  imports Session
begin

text \<open>
  Three small plugins as the session runs them: the BBS info text (\<open>plugins/info/info.py\<close>), the list of
  last connections (\<open>plugins/lastconn/lastconn.py\<close>) and the handler of the headless display plugin
  (\<open>plugins/display/display.py\<close>). The info table is \<open>w_info\<close>, its row's message; the journal is \<open>w_log\<close>.
  \<open>time.strftime(format, time.localtime(t))\<close> is a parameter.
\<close>

section \<open>Info\<close>

text \<open>\<open>str.splitlines\<close>: the line ends among the 8-bit characters, CR LF being one.\<close>

definition is_line_end :: "char \<Rightarrow> bool" where
  "is_line_end c \<longleftrightarrow> code c \<in> {10, 11, 12, 13, 28, 29, 30, 133}"

function splitlines :: "string \<Rightarrow> string list" where
  "splitlines s =
     (if s = [] then []
      else (case dropWhile (\<lambda>c. \<not> is_line_end c) s of
          [] \<Rightarrow> [s]
        | c # rest \<Rightarrow> takeWhile (\<lambda>c. \<not> is_line_end c) s
            # splitlines (if c = CR \<and> rest \<noteq> [] \<and> hd rest = LF then tl rest else rest)))"
  by pat_completeness auto
termination
proof (relation "measure length", goal_cases)
  case (2 s c rest)
  have "length (dropWhile (\<lambda>c. \<not> is_line_end c) s) \<le> length s" by (rule length_dropWhile_le)
  with 2 show ?case by (cases rest) auto
qed simp

declare splitlines.simps [simp del]

text \<open>\<open>initialize\<close>: the row exists afterwards, with the configured text if it was empty.\<close>

definition info_initialize :: "string \<Rightarrow> world \<Rightarrow> world" where
  "info_initialize message w =
     (let row = (case w_info w of None \<Rightarrow> [] | Some m \<Rightarrow> m); default_msg = strip message in
      w\<lparr>w_info := Some (if default_msg \<noteq> [] \<and> row = [] then default_msg else row)\<rparr>)"

definition line_prompt :: "nat \<Rightarrow> string" where
  "line_prompt n = (let s = nat_str n in replicate (2 - length s) CHR 0x20 @ s @ '': '')"

text \<open>The line editor's loop; the result is \<open>None\<close> inside when the sysop aborts.\<close>

partial_function (option) edit_lines :: "string list \<Rightarrow> session \<Rightarrow> (string list option option \<times> session) option" where
  "edit_lines ls s =
     (case and_then (out (send (line_prompt (length ls + 1)))) (\<lambda>_. out (readline 200 None (Some 120000))) s of
        (None, s1) \<Rightarrow> Some (None, s1)
      | (Some line, s1) \<Rightarrow>
          if ls = [] \<and> strip (upper line) = ''/ABORT'' then Some (Some None, s1)
          else if strip (upper line) = ''/EX'' then Some (Some (Some ls), s1)
          else edit_lines (ls @ [line]) s1)"

definition edit_intro :: "unit io" where
  "edit_intro t = do {
     (_, t) \<leftarrow> sendln (label t ''Enter new info message.'' ''meta'') t;
     (_, t) \<leftarrow> sendln (note_text t (''Type each line and press ENTER.  Type '' @ [CHR 0x27] @ ''/EX''
       @ [CHR 0x27] @ '' to finish,'')) t;
     (_, t) \<leftarrow> sendln (note_text t (''or '' @ [CHR 0x27] @ ''/ABORT'' @ [CHR 0x27]
       @ '' on the first line to cancel.'')) t;
     sendln [] t }"

text \<open>\<open>UPDATE bbs_info SET message = ? WHERE id = 1\<close>.\<close>

definition set_info :: "string \<Rightarrow> session \<Rightarrow> session" where
  "set_info m s = s\<lparr>s_world := (s_world s)\<lparr>w_info := map_option (\<lambda>_. m) (w_info (s_world s))\<rparr>\<rparr>"

definition edit_message :: "session \<Rightarrow> (unit option \<times> session) option" where
  "edit_message s =
     (case out edit_intro s of
        (None, s1) \<Rightarrow> Some (None, s1)
      | (Some _, s1) \<Rightarrow> Option.bind (edit_lines [] s1) (\<lambda>res. Some (case fst res of
            None \<Rightarrow> (None, snd res)
          | Some None \<Rightarrow> out (\<lambda>t. sendln (note_text t (''Aborted '' @ emdash @ '' no changes made.'')) t) (snd res)
          | Some (Some ls) \<Rightarrow> out (\<lambda>t. sendln (ok_text t ''Info message updated.'') t)
              (set_info (join [LF] ls) (snd res)))))"

definition show_info :: "bbs_cfg \<Rightarrow> unit act" where
  "show_info cfg s =
     (let message = (case w_info (s_world s) of None \<Rightarrow> [] | Some m \<Rightarrow> m) in
      out (\<lambda>t. if message = [] then sendln (note_text t ''No BBS info message has been configured yet.'') t
        else do {
          (_, t) \<leftarrow> sendln (label t ''BBS INFO'' ''meta'') t;
          (_, t) \<leftarrow> sendln (note_text t ''--------'') t;
          (_, t) \<leftarrow> paginate (splitlines message) None (timeout_of cfg) t;
          Some ((), t) }) s)"

definition ask_edit :: "string io" where
  "ask_edit t = do {
     (_, t) \<leftarrow> sendln [] t;
     (_, t) \<leftarrow> send (prompt t ''Edit info message? [Y/N]: '') t;
     readline 2 None (Some 60000) t }"

definition info_handle :: "bbs_cfg \<Rightarrow> session \<Rightarrow> (unit option \<times> session) option" where
  "info_handle cfg s =
     (case show_info cfg s of
        (None, s1) \<Rightarrow> Some (None, s1)
      | (Some _, s1) \<Rightarrow>
          if \<not> is_sysop (s_auth s1) then Some (Some (), s1)
          else (case out ask_edit s1 of
              (None, s2) \<Rightarrow> Some (None, s2)
            | (Some choice, s2) \<Rightarrow>
                if strip (upper choice) \<noteq> ''Y'' then Some (Some (), s2) else edit_message s2))"

definition no_notice :: "session \<Rightarrow> string option option" where
  "no_notice s = Some None"

definition info_plugin :: "bbs_cfg \<Rightarrow> methods plugin" where
  "info_plugin cfg = \<lparr>p_name = ''info'', p_display = ''BBS Info'', p_key = ''I'',
     p_help = ''Station information, contact details, and static reference pages.'',
     p_level = ''IDENTIFIED'', p_enabled = True,
     p_methods = \<lparr>m_handle = info_handle cfg, m_notice = no_notice\<rparr>\<rparr>"

section \<open>Last connections\<close>

definition clip :: "nat \<Rightarrow> string \<Rightarrow> string" where
  "clip n s = take n (ljust n s)"

definition auth_label :: "int \<Rightarrow> string" where
  "auth_label n = (case map_of [(0, ''anon''), (1, ''ident''), (2, ''auth''), (3, ''sysop'')] n of
       None \<Rightarrow> ''?'' | Some l \<Rightarrow> l)"

text \<open>\<open>first_fmt\<close>, \<open>last_fmt\<close> and the column widths by path length.\<close>

definition day_only :: string where "day_only = ''%Y-%m-%d''"
definition day_minute :: string where "day_minute = ''%Y-%m-%d %H:%M''"

definition conn_line :: "(string \<Rightarrow> int \<Rightarrow> string) \<Rightarrow> path_length \<Rightarrow> terminal \<Rightarrow> conn_row \<Rightarrow> string" where
  "conn_line strftime pl t row =
     (let call = clip 9 (upper (cn_callsign row));
          col_first = (if pl \<noteq> SHORT then 10 else 16);
          col_last = (if pl = LONG then 10 else 16);
          first = clip col_first (strftime (if pl \<noteq> SHORT then day_only else day_minute) (cn_first_seen row));
          live = cn_connected row \<noteq> 0;
          last = clip col_last (if live then (if pl = LONG then ''* Active *'' else ''** Active **'')
            else strftime (if pl = LONG then day_only else day_minute) (cn_last_seen row))
      in join '' '' ([if live then style t call ''accent'' True else call, note_text t first,
            if live then ok_text t last else note_text t last]
          @ (if pl \<noteq> LONG then [clip 12 (cn_transport row)] else [])
          @ (if pl = SHORT then [auth_label (cn_auth_level row)] else [])))"

definition conn_columns :: "path_length \<Rightarrow> string" where
  "conn_columns pl =
     join '' '' ([ljust 9 ''CALLSIGN'', ljust (if pl \<noteq> SHORT then 10 else 16) ''FIRST SEEN'',
         ljust (if pl = LONG then 10 else 16) ''LAST SEEN'']
       @ (if pl \<noteq> LONG then [ljust 12 ''TRANSPORT''] else []) @ (if pl = SHORT then [''AUTH''] else []))"

definition compact_limit :: "path_length \<Rightarrow> nat option" where
  "compact_limit pl = (case pl of LONG \<Rightarrow> Some 10 | MEDIUM \<Rightarrow> Some 20 | SHORT \<Rightarrow> None)"

definition conn_title :: "int \<Rightarrow> nat \<Rightarrow> bool \<Rightarrow> string" where
  "conn_title days n truncated = (if truncated then ''LAST CONNECTIONS  (last '' @ nat_str n @ '' stations)''
     else ''LAST CONNECTIONS  (past '' @ int_str days @ '' days, '' @ nat_str n @ '' stations)'')"

definition rule_of :: "terminal \<Rightarrow> string \<Rightarrow> string" where
  "rule_of t head = replicate (nat (min (int (length head)) (t_width t))) CHR 0x2D"

definition lastconn_handle :: "(string \<Rightarrow> int \<Rightarrow> string) \<Rightarrow> int \<Rightarrow> bbs_cfg \<Rightarrow> unit act" where
  "lastconn_handle strftime limit cfg s =
     (let days = (if bc_log_days cfg = 0 then 30 else bc_log_days cfg);
          all = get_recent_connections (now s) days limit (w_log (s_world s));
          pl = s_path s
      in if all = [] then
           out (\<lambda>t. do { (_, t) \<leftarrow> sendln (note_text t ''No connections recorded yet.'') t; sendln [] t }) s
         else
           (let truncated = (case compact_limit pl of None \<Rightarrow> False | Some n \<Rightarrow> n < length all);
                rows = (case compact_limit pl of None \<Rightarrow> all | Some n \<Rightarrow> take n all);
                header = conn_title days (length rows) truncated
            in out (\<lambda>t. do {
                 (_, t) \<leftarrow> sendln (label t header ''meta'') t;
                 (_, t) \<leftarrow> sendln (note_text t (rule_of t header)) t;
                 let ls = map (conn_line strftime pl t) rows;
                 (_, t) \<leftarrow> sendln (label t (conn_columns pl) ''meta'') t;
                 (_, t) \<leftarrow> sendln (note_text t (rule_of t (conn_columns pl))) t;
                 (_, t) \<leftarrow> term_flush t;
                 (_, t) \<leftarrow> paginate ls None (timeout_of cfg) t;
                 sendln [] t }) s))"

definition lastconn_plugin :: "(string \<Rightarrow> int \<Rightarrow> string) \<Rightarrow> int \<Rightarrow> bbs_cfg \<Rightarrow> methods plugin" where
  "lastconn_plugin strftime limit cfg = \<lparr>p_name = ''lastconn'', p_display = ''Last Connections'', p_key = ''LC'',
     p_help = ''Recent connection log showing callsign, transport, and time.'',
     p_level = ''IDENTIFIED'', p_enabled = True,
     p_methods = \<lparr>m_handle = (\<lambda>s. Some (lastconn_handle strftime limit cfg s)), m_notice = no_notice\<rparr>\<rparr>"

section \<open>Display\<close>

text \<open>Headless: no menu key, and a handler that returns at once.\<close>

definition display_plugin :: "methods plugin" where
  "display_plugin = \<lparr>p_name = ''display'', p_display = ''Framebuffer Display'', p_key = [], p_help = [],
     p_level = ''SYSOP'', p_enabled = True,
     p_methods = \<lparr>m_handle = (\<lambda>s. Some (Some (), s)), m_notice = no_notice\<rparr>\<rparr>"

end
