(* ===== verification/Session_Properties.thy ===== *)
theory Session_Properties
  imports Plugins Terminal_Properties
begin

text \<open>
  Properties of the session and the plugin registry, with their witnesses.
\<close>

section \<open>Actions\<close>

lemma out_cases:
  assumes "out m s = (r, s')"
  obtains (raised) "m (s_term s) = None" and "r = None" and "s' = s"
  | (returned) x t where "m (s_term s) = Some (x, t)" and "r = Some x" and "s' = s\<lparr>s_term := t\<rparr>"
  using assms by (cases "m (s_term s)") (auto simp: out_def)

lemma and_then_cases:
  assumes "and_then m f s = (r, s')"
  obtains (raised) "m s = (None, s')" and "r = None"
  | (step) x s1 where "m s = (Some x, s1)" and "f x s1 = (r, s')"
  using assms by (cases "m s"; cases "fst (m s)") (auto simp: and_then_def split: option.splits)

text \<open>An action that keeps a reflexive and transitive relation between the sessions before and after.\<close>

definition keeps :: "(session \<Rightarrow> session \<Rightarrow> bool) \<Rightarrow> 'a act \<Rightarrow> bool" where
  "keeps R m \<longleftrightarrow> (\<forall>s. R s (snd (m s)))"

locale action_relation =
  fixes R :: "session \<Rightarrow> session \<Rightarrow> bool"
  assumes refl: "R s s" and trans: "R s t \<Longrightarrow> R t u \<Longrightarrow> R s u"
begin

lemma keeps_ret: "keeps R (ret x)"
  by (simp add: keeps_def ret_def refl)

lemma keeps_and_then:
  assumes "keeps R m" and "\<And>x. keeps R (f x)" shows "keeps R (and_then m f)"
  unfolding keeps_def
proof
  fix s
  obtain r s1 where m: "m s = (r, s1)" by fastforce
  have 1: "R s s1" using assms(1) m by (simp add: keeps_def) (metis snd_conv)
  show "R s (snd (and_then m f s))"
  proof (cases r)
    case (Some x)
    then show ?thesis using 1 assms(2) [of x] m by (auto simp: and_then_def keeps_def intro: trans)
  qed (use 1 m in \<open>simp add: and_then_def\<close>)
qed

lemma keeps_out:
  assumes "\<And>s x t. m (s_term s) = Some (x, t) \<Longrightarrow> R s (s\<lparr>s_term := t\<rparr>)"
  shows "keeps R (out m)"
  using assms by (auto simp: keeps_def out_def refl split: option.split)

end

text \<open>What the commands of the session itself leave alone: the input only shrinks.\<close>

definition input_shrinks :: "session \<Rightarrow> session \<Rightarrow> bool" where
  "input_shrinks s s' \<longleftrightarrow> weight (t_in (s_term s')) \<le> weight (t_in (s_term s))"

interpretation shrinking: action_relation input_shrinks
  by unfold_locales (auto simp: input_shrinks_def)

lemma shrinks_out:
  assumes "\<And>t x t'. m t = Some (x, t') \<Longrightarrow> weight (t_in t') \<le> weight (t_in t)"
  shows "keeps input_shrinks (out m)"
  by (rule shrinking.keeps_out) (use assms in \<open>auto simp: input_shrinks_def\<close>)

section \<open>Terminal operations never add input\<close>

lemma term_flush_in: "term_flush t = Some (u, t') \<Longrightarrow> t_in t' = t_in t"
  by (drule term_flush_frame, cases t, cases t') simp

lemma readline_weight: "readline n e d t = Some (s, t') \<Longrightarrow> weight (t_in t') \<le> weight (t_in t)"
  unfolding readline_def by (rule readline_loop_weight_le)

lemma swallow_eol_weight: "swallow_eol n t = Some (u, t') \<Longrightarrow> weight (t_in t') \<le> weight (t_in t)"
proof (induction n arbitrary: t)
  case (Suc n)
  obtain g t1 where p: "term_read (Some 50) t = (g, t1)" by (cases "term_read (Some 50) t")
  have le: "weight (t_in t1) \<le> weight (t_in t)" using term_read_weight_le [of "Some 50" t] p by simp
  show ?case
  proof (cases g)
    case (Got b)
    have less: "weight (t_in t1) < weight (t_in t)"
      using term_read_weight [of "Some 50" t] term_read_bytes(1) [of "Some 50" t b t1] p Got by auto
    show ?thesis
    proof (cases "b = 0x0D \<or> b = 0x0A")
      case True
      then have "swallow_eol n t1 = Some (u, t')" using Suc.prems p Got by simp
      from Suc.IH [OF this] le show ?thesis by simp
    next
      case False
      then have "feed_back b t1 = Some (u, t')" using Suc.prems p Got by simp
      from feed_back_weight [OF this] less show ?thesis by simp
    qed
  qed (use Suc.prems p le in auto)
qed simp

lemma paginate_loop_weight:
  "paginate_loop ph d cnt ls t = Some (b, t') \<Longrightarrow> weight (t_in t') \<le> weight (t_in t)"
proof (induction ls arbitrary: cnt t)
  case Nil
  then show ?case by (auto split: bind_splits dest: term_flush_in)
next
  case (Cons l ls)
  define t1 where "t1 = term_writeln l t"
  have t1: "t_in t1 = t_in t" by (simp add: t1_def term_writeln_def term_write_def)
  show ?case
  proof (cases "ph \<le> cnt + 1")
    case False
    then have "paginate_loop ph d (cnt + 1) ls t1 = Some (b, t')" using Cons.prems by (simp add: t1_def Let_def)
    from Cons.IH [OF this] t1 show ?thesis by simp
  next
    case True
    from Cons.prems True obtain t2 t3 where f: "term_flush t1 = Some ((), t2)" "send (more_style t2) t2 = Some ((), t3)"
      and rest: "(case readchar d t3 of
           (None, t4) \<Rightarrow> do { (_, t5) \<leftarrow> sendln [] t4; Some (False, t5) }
         | (Some c, t4) \<Rightarrow> do {
             (_, t5) \<leftarrow> (if c = CR then peek_complement 0x0A t4
                        else if c = LF then peek_complement 0x0D t4
                        else swallow_trailing_eol t4);
             (_, t6) \<leftarrow> sendln [] t5;
             if up c = CHR 0x51 then Some (False, t6) else paginate_loop ph d 0 ls t6 }) = Some (b, t')"
      by (auto simp: t1_def [symmetric] Let_def split: bind_splits)
    have t3: "t_in t3 = t_in t" using term_flush_in [OF f(1)] send_in [OF f(2)] t1 by simp
    obtain r t4 where rc: "readchar d t3 = (r, t4)" by (cases "readchar d t3")
    have t4: "weight (t_in t4) \<le> weight (t_in t)" using readchar_weight [OF rc] t3 by auto
    show ?thesis
    proof (cases r)
      case None
      with rest rc t4 show ?thesis by (auto split: bind_splits dest: sendln_in)
    next
      case (Some c)
      from rest rc Some obtain t5 t6 where
        a: "(if c = CR then peek_complement 0x0A t4 else if c = LF then peek_complement 0x0D t4
            else swallow_trailing_eol t4) = Some ((), t5)"
        and b': "sendln [] t5 = Some ((), t6)"
        and c': "(if up c = CHR 0x51 then Some (False, t6) else paginate_loop ph d 0 ls t6) = Some (b, t')"
        by (auto split: bind_splits)
      have "weight (t_in t5) \<le> weight (t_in t4)"
        using a peek_complement_weight [of _ t4 "()" t5] swallow_eol_weight [of 2 t4 "()" t5]
        by (auto simp: swallow_trailing_eol_def split: if_splits)
      moreover have "t_in t6 = t_in t5" by (rule sendln_in [OF b'])
      moreover have "weight (t_in t') \<le> weight (t_in t6)"
        using c' Cons.IH [of 0 t6] by (auto split: if_splits)
      ultimately show ?thesis using t4 by simp
    qed
  qed
qed

lemma paginate_weight: "paginate ls h d t = Some (b, t') \<Longrightarrow> weight (t_in t') \<le> weight (t_in t)"
  unfolding paginate_def by (rule paginate_loop_weight)


section \<open>The menu and its commands only use up input\<close>

lemma shrinks_sends:
  "keeps input_shrinks (out (send s))" "keeps input_shrinks (out (sendln s))"
  "keeps input_shrinks (out (\<lambda>t. sendln (f t) t))"
  by (rule shrinks_out; drule send_in sendln_in; simp)+

lemma shrinks_readline: "keeps input_shrinks (out (readline n e d))"
  by (rule shrinks_out) (rule readline_weight)

lemma color_menu_in: "color_menu t = Some (u, t') \<Longrightarrow> t_in t' = t_in t"
  by (auto simp: color_menu_def split: bind_splits dest!: sendln_in dest: send_in)

lemma keeps_seq:
  assumes "keeps R m" shows "R s (snd (m s))"
  using assms by (simp add: keeps_def)

lemmas shrinks = shrinking.keeps_and_then shrinking.keeps_ret shrinks_sends shrinks_readline

lemma keeps_ext: "(\<And>s. R s (snd (m s))) \<Longrightarrow> keeps R m"
  by (simp add: keeps_def)

lemma shrinks_session_verify: "keeps input_shrinks (session_verify cfg given)"
  by (rule keeps_ext) (auto simp: session_verify_def input_shrinks_def split: option.split prod.split)

lemma shrinks_auth_outcome: "keeps input_shrinks (auth_outcome r)"
  unfolding auth_outcome_def
  by (intro shrinks, rule keeps_ext) (simp add: ret_def shrinking.refl keeps_seq [OF shrinks_sends(3)])

lemma shrinks_auth_code: "keeps input_shrinks (auth_code cfg given)"
  by (simp add: auth_code_def shrinks shrinks_session_verify shrinks_auth_outcome)

lemma shrinks_handle_auth: "keeps input_shrinks (handle_auth cfg)"
proof (rule keeps_ext)
  fix s
  have "keeps input_shrinks (and_then (out (send p)) (\<lambda>_. and_then (out (readline 8 (Some False) (timeout_of cfg))) (auth_code cfg)))" for p
    by (intro shrinks shrinks_auth_code)
  from keeps_seq [OF this] show "input_shrinks s (snd (handle_auth cfg s))"
    by (simp add: handle_auth_def keeps_seq [OF shrinks_sends(3)])
qed

lemma shrinks_handle_color: "keeps input_shrinks (handle_color cfg)"
proof -
  have s: "keeps input_shrinks (\<lambda>s. out (\<lambda>t. sendln (f t) t) (save_color_mode m s))" for f m
    using keeps_seq [OF shrinks_sends(3), of _ f]
    by (auto simp: keeps_def input_shrinks_def save_color_mode_def term_set_color_mode_def Let_def
        out_def split: option.split dest!: sendln_in)
  have "keeps input_shrinks (out color_menu)" by (rule shrinks_out) (simp add: color_menu_in)
  then show ?thesis
    unfolding handle_color_def Let_def by (intro shrinks) (auto intro!: shrinks s split: option.split)
qed

lemma shrinks_show_help: "keeps input_shrinks (show_help cfg reg)"
proof -
  have "keeps input_shrinks (and_then (out (paginate (help_lines reg items) None (timeout_of cfg))) (\<lambda>_. ret ()))" for items
    by (intro shrinks shrinks_out) (rule paginate_weight)
  then show ?thesis
    by (auto simp: keeps_def show_help_def input_shrinks_def split: option.split)
qed

text \<open>Reading a choice makes progress, or the stream has ended.\<close>

lemma read_choice_progress:
  assumes "read_choice cfg reg s = (Some line, s1)"
  shows "at_eof (s_term s1) \<or> weight (t_in (s_term s1)) < weight (t_in (s_term s))"
    and "s1 = s\<lparr>s_term := s_term s1\<rparr>"
proof -
  obtain items where rc: "and_then (show_main_menu cfg (items @ system_items))
      (\<lambda>_ s. out (readline 8 None (remaining_of cfg s)) s) s = (Some line, s1)"
    using assms by (auto simp: read_choice_def split: option.splits)
  from rc obtain s0 where m: "show_main_menu cfg (items @ system_items) s = (Some (), s0)"
    and r: "out (readline 8 None (remaining_of cfg s0)) s0 = (Some line, s1)"
    by (auto elim!: and_then_cases)
  from m obtain t0 where s0: "s0 = s\<lparr>s_term := t0\<rparr>" and t0: "t_in t0 = t_in (s_term s)"
    unfolding show_main_menu_def
    by (auto elim!: out_cases split: path_length.splits bind_splits dest!: send_menu_in sendln_in send_in)
  from r obtain t1 where s1: "s1 = s0\<lparr>s_term := t1\<rparr>" and rl: "readline 8 None (remaining_of cfg s0) t0 = Some (line, t1)"
    by (auto elim!: out_cases simp: s0)
  from readline_progress [OF rl] t0 show "at_eof (s_term s1) \<or> weight (t_in (s_term s1)) < weight (t_in (s_term s))"
    by (simp add: s1)
  show "s1 = s\<lparr>s_term := s_term s1\<rparr>" by (simp add: s1 s0)
qed

text \<open>At the end of the stream nothing is read.\<close>

lemma readchar_eof: "t_in t = [] \<Longrightarrow> readchar d t = (None, t)"
  by (subst readchar.simps) (cases t, simp add: term_read_def)

lemma readline_eof: "t_in t = [] \<Longrightarrow> readline n e d t = Some ([], t)"
  by (simp add: readline_def readline_loop.simps readchar_eof split: option.split)

lemma read_choice_eof:
  assumes "read_choice cfg reg s = (Some line, s1)" and "at_eof (s_term s)"
  shows "line = []"
proof -
  obtain items where rc: "and_then (show_main_menu cfg (items @ system_items))
      (\<lambda>_ s. out (readline 8 None (remaining_of cfg s)) s) s = (Some line, s1)"
    using assms by (auto simp: read_choice_def split: option.splits)
  from rc obtain s0 where m: "show_main_menu cfg (items @ system_items) s = (Some (), s0)"
    and r: "out (readline 8 None (remaining_of cfg s0)) s0 = (Some line, s1)"
    by (auto elim!: and_then_cases)
  from m have "t_in (s_term s0) = t_in (s_term s)"
    unfolding show_main_menu_def
    by (auto elim!: out_cases split: path_length.splits bind_splits dest!: send_menu_in sendln_in send_in)
  with assms(2) have "t_in (s_term s0) = []" by (simp add: at_eof_def)
  from r readline_eof [OF this] show ?thesis by (auto elim!: out_cases)
qed


section \<open>Every session ends\<close>

definition plugin_returns :: "methods plugin \<Rightarrow> bool" where
  "plugin_returns p \<longleftrightarrow> (\<forall>s. \<exists>r s'. m_handle (p_methods p) s = Some (r, s') \<and> input_shrinks s s')"

lemma get_by_key_in: "get_by_key k reg = Some p \<Longrightarrow> p \<in> snd ` set reg \<and> p_enabled p \<and> upper (p_key p) = upper k"
  unfolding get_by_key_def by (drule find_Some_in) auto

lemma dispatch_cases:
  assumes "dispatch_choice cfg reg choice s = Some (r, s')"
  obtains (leave) "r = Some True" and "s' = s"
  | (command) m where "m \<in> {handle_color cfg, handle_auth cfg, show_help cfg reg,
        out (\<lambda>t. sendln (warn t ''Unknown command.'') t)}" and "(r, s') = and_then m (\<lambda>_. ret False) s"
  | (plugin) p x where "get_by_key choice reg = Some p" and "enter_plugin p s = Some (x, s')"
      and "r = map_option (\<lambda>_. False) x"
proof -
  note d = assms [symmetric]
  consider "choice \<in> {''B'', ''BYE''}" | "choice \<notin> {''B'', ''BYE''}" "choice \<in> {''CO'', ''COLOR''}"
    | "choice = ''A''" | "choice = ''?''"
    | "choice \<notin> {''B'', ''BYE''}" "choice \<notin> {''CO'', ''COLOR''}" "choice \<noteq> ''A''" "choice \<noteq> ''?''" by blast
  then show ?thesis
  proof cases
    case 1
    then show ?thesis using d leave unfolding dispatch_choice_def by simp
  next
    case 2
    have "(r, s') = and_then (handle_color cfg) (\<lambda>_. ret False) s"
      using d unfolding dispatch_choice_def if_not_P [OF 2(1)] if_P [OF 2(2)] by simp
    then show ?thesis by (rule command [rotated]) simp
  next
    case 3
    then have "(r, s') = and_then (handle_auth cfg) (\<lambda>_. ret False) s"
      using d unfolding dispatch_choice_def by simp
    then show ?thesis by (rule command [rotated]) simp
  next
    case 4
    then have "(r, s') = and_then (show_help cfg reg) (\<lambda>_. ret False) s"
      using d unfolding dispatch_choice_def by simp
    then show ?thesis by (rule command [rotated]) simp
  next
    case 5
    show ?thesis
    proof (cases "get_by_key choice reg")
      case None
      then have "(r, s') = and_then (out (\<lambda>t. sendln (warn t ''Unknown command.'') t)) (\<lambda>_. ret False) s"
        using d unfolding dispatch_choice_def if_not_P [OF 5(1)] if_not_P [OF 5(2)] by (simp add: 5)
      then show ?thesis by (rule command [rotated]) simp
    next
      case (Some p)
      then have "Some (r, s') = map_option (\<lambda>(r, s'). (map_option (\<lambda>_. False) r, s')) (enter_plugin p s)"
        using d unfolding dispatch_choice_def if_not_P [OF 5(1)] if_not_P [OF 5(2)] by (simp add: 5)
      then show ?thesis using plugin [OF Some] by (cases "enter_plugin p s") auto
    qed
  qed
qed

lemma dispatch_total:
  assumes "dispatch_choice cfg reg choice s = None"
  obtains p where "get_by_key choice reg = Some p" and "enter_plugin p s = None"
  using assms unfolding dispatch_choice_def by (auto split: if_splits option.splits)

lemma enter_plugin_returns:
  assumes "plugin_returns p"
  shows "\<exists>r s'. enter_plugin p s = Some (r, s') \<and> input_shrinks s s'"
proof -
  obtain r s' where "m_handle (p_methods p) (set_menus {} s) = Some (r, s')" "input_shrinks (set_menus {} s) s'"
    using assms unfolding plugin_returns_def by blast
  then show ?thesis by (simp add: enter_plugin_def input_shrinks_def set_menus_def)
qed

lemma dispatch_returns:
  assumes "\<forall>p \<in> snd ` set reg. plugin_returns p"
  shows "\<exists>r s'. dispatch_choice cfg reg choice s = Some (r, s') \<and> input_shrinks s s'"
proof -
  have plug: "\<exists>r s'. enter_plugin p s = Some (r, s') \<and> input_shrinks s s'" if "get_by_key choice reg = Some p" for p
    by (rule enter_plugin_returns) (use get_by_key_in [OF that] assms in blast)
  obtain r s' where d: "dispatch_choice cfg reg choice s = Some (r, s')"
  proof (cases "dispatch_choice cfg reg choice s")
    case None
    then obtain p where "get_by_key choice reg = Some p" "enter_plugin p s = None" by (rule dispatch_total)
    with plug show ?thesis by fastforce
  next
    case (Some y)
    then show ?thesis using that by (cases y) auto
  qed
  then have "input_shrinks s s'"
  proof (cases rule: dispatch_cases)
    case leave
    then show ?thesis by (simp add: shrinking.refl)
  next
    case (command m)
    have "keeps input_shrinks m"
      using command(1) shrinks_handle_color shrinks_handle_auth shrinks_show_help shrinks_sends(3) by auto
    then have "keeps input_shrinks (and_then m (\<lambda>_. ret False))" by (intro shrinks)
    from keeps_seq [OF this, of s] show ?thesis by (simp flip: command(2))
  next
    case (plugin p x)
    with plug [OF plugin(1)] show ?thesis by simp
  qed
  with d show ?thesis by blast
qed

lemma main_loop_returns:
  assumes "\<forall>p \<in> snd ` set reg. plugin_returns p"
  shows "\<exists>r. main_loop cfg reg s = Some r"
proof (induction "weight (t_in (s_term s))" arbitrary: s rule: less_induct)
  case less
  show ?case
  proof (cases "s_state s \<noteq> ACTIVE \<or> idle_too_long cfg s")
    case True
    then show ?thesis by (subst main_loop.simps) auto
  next
    case False
    then have loop: "main_loop cfg reg s = (case read_choice cfg reg s of
          (None, s1) \<Rightarrow> Some (None, s1)
        | (Some choice_raw, s1) \<Rightarrow>
            if choice_raw = [] then
              (if at_eof (s_term s1) then Some (Some (), s1) else main_loop cfg reg (redraw cfg s1))
            else (case dispatch_choice cfg reg (upper (strip choice_raw)) (touch s1) of
                None \<Rightarrow> None
              | Some (None, s2) \<Rightarrow> Some (None, s2)
              | Some (Some leave, s2) \<Rightarrow> if leave then Some (Some (), s2) else main_loop cfg reg s2))"
      by (subst main_loop.simps) simp
    show ?thesis
    proof (cases "read_choice cfg reg s")
      case (Pair r s1)
      show ?thesis
      proof (cases r)
        case None
        then show ?thesis using loop Pair by simp
      next
        case (Some line)
        note rc = Pair [unfolded Some]
        note pr = read_choice_progress(1) [OF rc]
        show ?thesis
        proof (cases "line = []")
          case True
          have "\<not> at_eof (s_term s1) \<Longrightarrow> weight (t_in (s_term (redraw cfg s1))) < weight (t_in (s_term s))"
            using pr by (simp add: redraw_def reset_menu_state_def)
          with less show ?thesis using loop rc True by auto
        next
          case False
          obtain x s2 where d: "dispatch_choice cfg reg (upper (strip line)) (touch s1) = Some (x, s2)"
            and sh: "input_shrinks (touch s1) s2"
            using dispatch_returns [OF assms, of cfg "upper (strip line)" "touch s1"] by blast
          have "\<not> at_eof (s_term s)" using read_choice_eof [OF rc] False by blast
          then have "weight (t_in (s_term s)) \<noteq> 0" by (simp add: at_eof_def)
          then have "weight (t_in (s_term s2)) < weight (t_in (s_term s))"
            using sh pr by (auto simp: input_shrinks_def touch_def at_eof_def simp del: weight_eq_0)
          with less show ?thesis using loop rc False d by (auto split: option.split)
        qed
      qed
    qed
  qed
qed

lemma session_body_returns:
  assumes "\<forall>p \<in> snd ` set reg. plugin_returns p"
  shows "\<exists>r s1. session_body cfg reg s = Some (r, s1)"
proof (cases "log_on cfg reg s")
  case (Pair x s0)
  then show ?thesis
    using main_loop_returns [OF assms, of cfg s0]
    by (cases x; cases "x = Some True") (auto simp: session_body_def)
qed

text \<open>
  C6. Every session ends: whatever arrives (any bytes, pauses, the end of the stream), however sends
  fail, and whatever plugins raise, \<open>run\<close> returns, with the session DISCONNECTED and its connection
  closed, provided that each plugin's handler returns and takes input only from the stream.
\<close>

theorem session_ends:
  assumes "\<forall>p \<in> snd ` set reg. plugin_returns p"
  shows "\<exists>s'. run_session cfg reg s = Some s' \<and> s_state s' = DISCONNECTED \<and> s_closed s'"
proof -
  obtain r s1 where "session_body cfg reg s = Some (r, s1)" using session_body_returns [OF assms] by blast
  then have "run_session cfg reg s = Some ((farewell cfg s1)\<lparr>s_state := DISCONNECTED\<rparr>)"
    by (simp add: run_session_def)
  moreover have "s_closed (farewell cfg s1)" by (simp add: farewell_def case_prod_beta Let_def)
  ultimately show ?thesis by simp
qed


section \<open>A level is earned\<close>

text \<open>A one-time code, typed at the prompt by a user not yet authenticated, that \<open>verify_otp\<close> accepted.\<close>

definition earned :: "bbs_cfg \<Rightarrow> auth_state \<Rightarrow> bool" where
  "earned cfg st' \<longleftrightarrow> (\<exists>t0 given t t' st db msg db'.
     readline 8 (Some False) (timeout_of cfg) t = Some (given, t') \<and> \<not> is_authenticated st
     \<and> verify_otp (auth_of cfg) t0 given st db = Some (True, msg, st', db'))"

definition level_earned :: "bbs_cfg \<Rightarrow> session \<Rightarrow> session \<Rightarrow> bool" where
  "level_earned cfg s s' \<longleftrightarrow>
     (is_authenticated (s_auth s') \<longrightarrow> s_auth s' = s_auth s \<or> earned cfg (s_auth s'))"

lemma verify_otp_fails: "verify_otp cfg t0 given st db = Some (False, msg, st', db') \<Longrightarrow> st' = st"
  by (auto simp: verify_otp_def Let_def case_prod_beta split: option.splits if_splits)

interpretation earning: action_relation "level_earned cfg" for cfg
  by unfold_locales (auto simp: level_earned_def)

lemma earned_out: "keeps (level_earned cfg) (out m)"
  by (rule earning.keeps_out) (simp add: level_earned_def)

lemmas earns = earning.keeps_and_then earning.keeps_ret earned_out

lemma same_auth_earned: "s_auth s' = s_auth s \<Longrightarrow> level_earned cfg s s'"
  by (simp add: level_earned_def)

lemma log_in_level:
  assumes "log_in cfg call s = (s', created)"
  shows "as_level (s_auth s') = IDENTIFIED" and "as_callsign (s_auth s') = strip (upper call)"
  using assms by (auto simp: log_in_def identify_def apply_user_preferences_def Let_def
      split: prod.splits option.splits)

lemma log_in_earned: "log_in cfg call s = (s', created) \<Longrightarrow> level_earned cfg s s'"
  using log_in_level [of cfg call s s' created]
  by (simp add: level_earned_def is_authenticated_def auth_level_order)

lemma earned_with_log_in:
  assumes "\<And>c. keeps (level_earned cfg) (m c)"
  shows "keeps (level_earned cfg) (with_log_in cfg call m)"
proof (rule keeps_ext)
  fix s
  obtain s1 c where l: "log_in cfg call s = (s1, c)" by fastforce
  show "level_earned cfg s (snd (with_log_in cfg call m s))"
    using earning.trans [OF log_in_earned [OF l] keeps_seq [OF assms [of c], of s1]] l
    by (simp add: with_log_in_def)
qed

lemma earned_greet: "keeps (level_earned cfg) (greet c)"
  by (rule keeps_ext) (simp add: greet_def keeps_seq [OF earned_out])

lemma earned_show_level: "keeps (level_earned cfg) show_level"
  by (rule keeps_ext) (simp add: show_level_def ret_def keeps_seq [OF earned_out] earning.refl)

lemma earned_identify_ax25: "keeps (level_earned cfg) (identify_ax25 cfg)"
proof -
  have "keeps (level_earned cfg) (welcome_ax25 cfg call created)" for call created
    by (rule keeps_ext) (simp add: welcome_ax25_def keeps_seq [OF earned_out])
  from keeps_seq [OF earned_with_log_in [OF this]] show ?thesis
    by (intro keeps_ext) (simp add: identify_ax25_def Let_def)
qed

lemma earned_identify_web: "keeps (level_earned cfg) (identify_web cfg)"
  unfolding identify_web_def Let_def by (intro earned_with_log_in earned_out)

lemma earned_identify_tcp: "keeps (level_earned cfg) (identify_tcp cfg)"
proof -
  have "keeps (level_earned cfg) (and_then (out (sendln ''No callsign entered. Goodbye.''))
      (\<lambda>_ s. ret False (s\<lparr>s_state := DISCONNECTED\<rparr>)))"
    by (intro earns) (rule keeps_ext, simp add: ret_def same_auth_earned)
  moreover have "keeps (level_earned cfg) (with_log_in cfg call
      (\<lambda>created. and_then (out (send_welcome cfg created call)) (\<lambda>_. ret True)))" for call
    by (intro earned_with_log_in earns)
  ultimately have "keeps (level_earned cfg) (identify_as cfg call)" for call
    by (simp add: identify_as_def)
  then show ?thesis unfolding identify_tcp_def by (intro earns)
qed

lemma earned_identify: "keeps (level_earned cfg) (session_identify cfg)"
proof (rule keeps_ext)
  fix s
  have "keeps (level_earned cfg) (and_then (identify_ax25 cfg) (\<lambda>_. show_level))"
    "keeps (level_earned cfg) (and_then (identify_web cfg) (\<lambda>_. show_level))"
    "keeps (level_earned cfg) (and_then (identify_tcp cfg) (\<lambda>go. if go then show_level else ret ()))"
    by (intro earns earned_identify_ax25 earned_identify_web earned_identify_tcp earned_show_level;
        simp add: earned_show_level earns)+
  from this [THEN keeps_seq, of s] show "level_earned cfg s (snd (session_identify cfg s))"
    by (simp add: session_identify_def)
qed

lemma earned_notices: "keeps (level_earned cfg) (notices ps)"
proof (induction ps)
  case Nil
  then show ?case by (simp add: keeps_def ret_def earning.refl)
next
  case (Cons p ps)
  have a: "keeps (level_earned cfg) (and_then (out m) (\<lambda>_. notices ps))" for m :: "unit io"
    by (intro earns Cons.IH)
  show ?case
    by (rule keeps_ext) (simp add: keeps_seq [OF Cons.IH] keeps_seq [OF a] split: option.split)
qed

lemma earned_log_on: "keeps (level_earned cfg) (log_on cfg reg)"
proof -
  have n: "keeps (level_earned cfg) (and_then (show_pending_notices reg) (\<lambda>_. ret True))"
  proof (intro earns, rule keeps_ext)
    show "level_earned cfg s (snd (show_pending_notices reg s))" for s
      by (simp add: show_pending_notices_def ret_def earning.refl keeps_seq [OF earned_notices])
  qed
  have rec: "s_auth (record_connect cfg s) = s_auth s" for s by (simp add: record_connect_def)
  show ?thesis
    unfolding log_on_def Let_def
  proof (intro earns earned_greet earned_identify, rule keeps_ext)
    fix s
    have "level_earned cfg s ((record_connect cfg s)\<lparr>s_state := ACTIVE\<rparr>)"
      by (rule same_auth_earned) (simp add: rec)
    from earning.trans [OF this keeps_seq [OF n]] show "level_earned cfg s
         (snd (if s_state (record_connect cfg s) = DISCONNECTED then ret False (record_connect cfg s)
               else and_then (show_pending_notices reg) (\<lambda>_. ret True)
                     ((record_connect cfg s)\<lparr>s_state := ACTIVE\<rparr>)))"
      by (simp add: ret_def same_auth_earned rec)
  qed
qed

lemma earned_auth_outcome: "keeps (level_earned cfg) (auth_outcome r)"
  unfolding auth_outcome_def
  by (intro earns, rule keeps_ext) (simp add: ret_def earning.refl keeps_seq [OF earned_out])

lemma earned_auth_code:
  assumes "readline 8 (Some False) (timeout_of cfg) t = Some (given, t')" and "\<not> is_authenticated (s_auth s)"
  shows "level_earned cfg s (snd (auth_code cfg given s))"
proof (cases "strip given = []")
  case True
  then show ?thesis by (simp add: auth_code_def keeps_seq [OF earned_out])
next
  case False
  have code: "auth_code cfg given s = and_then (session_verify cfg given) auth_outcome s"
    using False by (simp add: auth_code_def)
  show ?thesis
  proof (cases "verify_otp (auth_of cfg) (now s) given (s_auth s) (w_users (s_world s))")
    case None
    then show ?thesis by (simp add: code and_then_def session_verify_def earning.refl)
  next
    case (Some res)
    obtain success msg st db where res: "res = (success, msg, st, db)" by (cases res) auto
    define s3 where "s3 = s\<lparr>s_auth := st, s_world := (s_world s)\<lparr>w_users := db\<rparr>\<rparr>"
    have v: "session_verify cfg given s = (Some (success, msg), s3)"
      using Some res by (simp add: session_verify_def s3_def)
    have "level_earned cfg s s3"
    proof (cases success)
      case True
      then have "verify_otp (auth_of cfg) (now s) given (s_auth s) (w_users (s_world s)) = Some (True, msg, st, db)"
        using Some res by simp
      with assms have "earned cfg st" unfolding earned_def by (intro exI conjI)
      then show ?thesis by (simp add: level_earned_def s3_def)
    next
      case False
      then have "st = s_auth s" using Some res by (auto dest: verify_otp_fails)
      then show ?thesis by (simp add: same_auth_earned s3_def)
    qed
    from earning.trans [OF this keeps_seq [OF earned_auth_outcome]] v show ?thesis
      by (simp add: code and_then_def)
  qed
qed

lemma earned_handle_auth: "keeps (level_earned cfg) (handle_auth cfg)"
proof (rule keeps_ext)
  fix s
  show "level_earned cfg s (snd (handle_auth cfg s))"
  proof (cases "is_authenticated (s_auth s)")
    case True
    then show ?thesis by (simp add: handle_auth_def keeps_seq [OF earned_out])
  next
    case False
    define p where "p = prompt_text (otp_prompt (s_auth s) (w_users (s_world s)))"
    obtain r s2 where h: "and_then (out (send p)) (\<lambda>_. out (readline 8 (Some False) (timeout_of cfg))) s = (r, s2)"
      by fastforce
    have s2: "s_auth s2 = s_auth s" using h by (auto elim!: and_then_cases out_cases)
    have eq: "handle_auth cfg s = (case r of None \<Rightarrow> (None, s2) | Some given \<Rightarrow> auth_code cfg given s2)"
      using False h by (auto simp: handle_auth_def p_def and_then_def split: prod.splits option.splits)
    show ?thesis
    proof (cases r)
      case None
      then show ?thesis by (simp add: eq same_auth_earned s2)
    next
      case (Some given)
      then obtain t t' where "readline 8 (Some False) (timeout_of cfg) t = Some (given, t')"
        using h by (auto elim!: and_then_cases out_cases)
      from earning.trans [OF same_auth_earned earned_auth_code [OF this]] False s2 Some
      show ?thesis by (simp add: eq)
    qed
  qed
qed

lemma earned_handle_color: "keeps (level_earned cfg) (handle_color c)"
proof -
  have s: "keeps (level_earned cfg) (\<lambda>s. out (f :: unit io) (save_color_mode m s))" for f m
  proof (rule keeps_ext)
    fix s
    have "s_auth (save_color_mode m s) = s_auth s" by (simp add: save_color_mode_def Let_def split: option.split)
    from earning.trans [OF same_auth_earned [OF this] keeps_seq [OF earned_out]]
    show "level_earned cfg s (snd (out f (save_color_mode m s)))" .
  qed
  show ?thesis unfolding handle_color_def Let_def by (intro earns) (auto intro!: earns s split: option.split)
qed

lemma earned_show_help: "keeps (level_earned cfg) (show_help c reg)"
proof (rule keeps_ext)
  fix s
  have "keeps (level_earned cfg) (and_then (out (paginate (help_lines reg items) None (timeout_of c))) (\<lambda>_. ret ()))" for items
    by (intro earns)
  then show "level_earned cfg s (snd (show_help c reg s))"
    by (simp add: show_help_def earning.refl keeps_seq split: option.split)
qed

lemma earned_read_choice: "keeps (level_earned cfg) (read_choice c reg)"
proof (rule keeps_ext)
  fix s
  have "keeps (level_earned cfg) (and_then (show_main_menu c items) (\<lambda>_ s. out (readline 8 None (remaining_of c s)) s))" for items
    by (intro earns; rule keeps_ext; simp add: show_main_menu_def keeps_seq [OF earned_out])
  then show "level_earned cfg s (snd (read_choice c reg s))"
    by (simp add: read_choice_def earning.refl keeps_seq split: option.split)
qed

definition plugin_leaves_auth :: "methods plugin \<Rightarrow> bool" where
  "plugin_leaves_auth p \<longleftrightarrow> (\<forall>s r s'. m_handle (p_methods p) s = Some (r, s') \<longrightarrow> s_auth s' = s_auth s)"

lemma earned_dispatch:
  assumes "\<forall>p \<in> snd ` set reg. plugin_leaves_auth p" and "dispatch_choice cfg reg choice s = Some (r, s')"
  shows "level_earned cfg s s'"
proof -
  from assms(2) show ?thesis
  proof (cases rule: dispatch_cases)
    case leave
    then show ?thesis by (simp add: earning.refl)
  next
    case (command m)
    have "keeps (level_earned cfg) m"
      using command(1) earned_handle_color earned_handle_auth earned_show_help earned_out by auto
    then have "keeps (level_earned cfg) (and_then m (\<lambda>_. ret False))" by (intro earns)
    from keeps_seq [OF this, of s] show ?thesis by (simp flip: command(2))
  next
    case (plugin p x)
    have "plugin_leaves_auth p" using get_by_key_in [OF plugin(1)] assms(1) by blast
    then have "s_auth s' = s_auth s"
      using plugin(2) by (auto simp: enter_plugin_def plugin_leaves_auth_def set_menus_def split: bind_splits)
    then show ?thesis by (rule same_auth_earned)
  qed
qed

lemma earned_main_loop:
  assumes plugs: "\<forall>p \<in> snd ` set reg. plugin_leaves_auth p" and "main_loop cfg reg s = Some (r, s')"
  shows "level_earned cfg s s'"
proof -
  have "cfg = cfg \<longrightarrow> reg = reg \<longrightarrow> level_earned cfg s (snd (r, s'))"
  proof (rule main_loop.raw_induct [where P = "\<lambda>c g s res. c = cfg \<longrightarrow> g = reg \<longrightarrow> level_earned cfg s (snd res)", OF _ assms(2)])
    fix loop :: "bbs_cfg \<Rightarrow> plugins \<Rightarrow> session \<Rightarrow> (unit option \<times> session) option" and c g s res
    assume IH: "\<And>c g s res. loop c g s = Some res \<Longrightarrow> c = cfg \<longrightarrow> g = reg \<longrightarrow> level_earned cfg s (snd res)"
      and eq: "(if s_state s \<noteq> ACTIVE then Some (Some (), s)
      else if idle_too_long c s then
        Some (out (\<lambda>t. sendln (warn t (''Idle timeout '' @ emdash @ '' disconnecting.'')) t) s)
      else (case read_choice c g s of
          (None, s1) \<Rightarrow> Some (None, s1)
        | (Some choice_raw, s1) \<Rightarrow>
            if choice_raw = [] then
              (if at_eof (s_term s1) then Some (Some (), s1) else loop c g (redraw c s1))
            else (case dispatch_choice c g (upper (strip choice_raw)) (touch s1) of
                None \<Rightarrow> None
              | Some (None, s2) \<Rightarrow> Some (None, s2)
              | Some (Some leave, s2) \<Rightarrow> if leave then Some (Some (), s2) else loop c g s2))) = Some res"
    show "c = cfg \<longrightarrow> g = reg \<longrightarrow> level_earned cfg s (snd res)"
    proof (intro impI)
      assume cg: "c = cfg" "g = reg"
      show "level_earned cfg s (snd res)"
      proof (cases "s_state s \<noteq> ACTIVE \<or> idle_too_long c s")
        case True
        with eq show ?thesis
          by (auto simp: earning.refl keeps_seq [OF earned_out] split: if_splits)
      next
        case False
        obtain x s1 where rc: "read_choice cfg reg s = (x, s1)" by fastforce
        have 1: "level_earned cfg s s1" using keeps_seq [OF earned_read_choice [of cfg cfg reg], of s] rc by simp
        have touched: "level_earned cfg s (touch s1)" "level_earned cfg s (redraw cfg s1)"
          using earning.trans [OF 1 same_auth_earned] by (simp_all add: touch_def redraw_def)
        show ?thesis
        proof (cases x)
          case None
          with eq False rc cg 1 show ?thesis by auto
        next
          case (Some line)
          show ?thesis
          proof (cases "line = []")
            case True
            with eq False rc cg Some 1 IH [of c g "redraw cfg s1" res] touched show ?thesis
              by (auto split: if_splits intro: earning.trans)
          next
            case nonempty: False
            then obtain y s2 where d: "dispatch_choice cfg reg (upper (strip line)) (touch s1) = Some (y, s2)"
              and rest: "(case y of None \<Rightarrow> Some (None, s2)
                | Some leave \<Rightarrow> if leave then Some (Some (), s2) else loop c g s2) = Some res"
              using eq False rc cg Some by (auto split: option.splits)
            have "level_earned cfg s s2" by (rule earning.trans [OF touched(1) earned_dispatch [OF plugs d]])
            with rest IH [of c g s2 res] cg show ?thesis by (auto split: if_splits option.splits intro: earning.trans)
          qed
        qed
      qed
    qed
  qed
  then show ?thesis by simp
qed



section \<open>Identification\<close>

lemma upper_strip: "upper (strip s) = strip (upper s)"
proof -
  have "upper (dropWhile is_space s) = dropWhile is_space (upper s)" for s
    by (induction s) auto
  then show ?thesis
    by (simp add: strip_def rstrip_def lstrip_def) (simp add: upper_def rev_map [symmetric])
qed

lemma find_snoc: "find P xs = None \<Longrightarrow> P x \<Longrightarrow> find P (xs @ [x]) = Some x"
  by (induction xs) (auto split: if_splits)

lemma select_update: "(\<And>u. u_callsign (f u) = u_callsign u) \<Longrightarrow>
    select_callsign c (update_user i f db) = map_option (\<lambda>u. if u_id u = i then f u else u) (select_callsign c db)"
proof -
  assume f: "\<And>u. u_callsign (f u) = u_callsign u"
  have "find (\<lambda>u. upper (u_callsign u) = upper c) (map (\<lambda>u. if u_id u = i then f u else u) us)
      = map_option (\<lambda>u. if u_id u = i then f u else u) (find (\<lambda>u. upper (u_callsign u) = upper c) us)" for us
    by (induction us) (auto simp: f)
  then show ?thesis by (simp add: select_callsign_def update_user_def)
qed

text \<open>\<open>identify\<close> finds or makes the account of the callsign, and the table then has it.\<close>

lemma identify_account:
  assumes "identify cfg t0 call db = (db', st, created)"
  shows "\<exists>u. select_callsign (strip (upper call)) db' = Some u \<and> as_user_id st = Some (u_id u)
      \<and> as_callsign st = strip (upper call) \<and> as_level st = IDENTIFIED"
    and "\<And>u. select_callsign (strip (upper call)) db = Some u \<Longrightarrow>
      as_user_id st = Some (u_id u) \<and> map u_id (db_users db') = map u_id (db_users db) \<and> \<not> created"
proof -
  define c where "c = strip (upper call)"
  have c: "strip (upper c) = c" by (simp add: c_def upper_strip)
  obtain db1 u cr where g: "get_or_create t0 c (\<not> ac_enforce_active cfg) db = (db1, u, cr)"
    by (metis prod_cases3)
  have db': "db' = update_last_seen t0 (u_id u) db1" and st: "as_user_id st = Some (u_id u)" "as_callsign st = c"
      "as_level st = IDENTIFIED" and cr: "created = cr"
    using assms g by (auto simp: identify_def Let_def c_def [symmetric])
  have "select_callsign c db1 = Some u"
    using g c by (cases "select_callsign c db")
      (auto simp: get_or_create_def select_callsign_def new_user_def find_snoc Let_def)
  then have "select_callsign c db' = Some (u\<lparr>u_last_seen := Some (trunc t0)\<rparr>)"
    by (simp add: db' update_last_seen_def select_update)
  with st show "\<exists>u. select_callsign (strip (upper call)) db' = Some u \<and> as_user_id st = Some (u_id u)
      \<and> as_callsign st = strip (upper call) \<and> as_level st = IDENTIFIED"
    unfolding c_def [symmetric] by (intro exI [of _ "u\<lparr>u_last_seen := Some (trunc t0)\<rparr>"]) simp
  show "as_user_id st = Some (u_id v) \<and> map u_id (db_users db') = map u_id (db_users db) \<and> \<not> created"
    if "select_callsign (strip (upper call)) db = Some v" for v
    using that g c st cr unfolding c_def [symmetric]
    by (auto simp: get_or_create_def db' update_last_seen_def update_user_def)
qed


text \<open>A radio session after \<open>session_identify\<close>: the account of the address's callsign.\<close>

definition account :: "callsign \<Rightarrow> session \<Rightarrow> user option" where
  "account c s = select_callsign c (w_users (s_world s))"

lemma log_in_account:
  assumes "log_in cfg call s = (s', created)"
  shows "\<exists>u. account (strip (upper call)) s' = Some u \<and> as_user_id (s_auth s') = Some (u_id u)
      \<and> as_callsign (s_auth s') = strip (upper call) \<and> as_level (s_auth s') = IDENTIFIED"
    and "\<And>u. account (strip (upper call)) s = Some u \<Longrightarrow> as_user_id (s_auth s') = Some (u_id u)
      \<and> map u_id (db_users (w_users (s_world s'))) = map u_id (db_users (w_users (s_world s)))"
proof -
  obtain db st cr where i: "identify (auth_of cfg) (now s) call (w_users (s_world s)) = (db, st, cr)"
    by (metis prod_cases3)
  have s': "s_auth s' = st" "w_users (s_world s') = db"
    using assms i by (auto simp: log_in_def apply_user_preferences_def split: option.splits)
  show "\<exists>u. account (strip (upper call)) s' = Some u \<and> as_user_id (s_auth s') = Some (u_id u)
      \<and> as_callsign (s_auth s') = strip (upper call) \<and> as_level (s_auth s') = IDENTIFIED"
    using identify_account(1) [OF i] by (simp add: account_def s')
  show "as_user_id (s_auth s') = Some (u_id u)
      \<and> map u_id (db_users (w_users (s_world s'))) = map u_id (db_users (w_users (s_world s)))"
    if "account (strip (upper call)) s = Some u" for u
    using identify_account(2) [OF i] that by (simp add: account_def s')
qed

lemma keepsD: "keeps R m \<Longrightarrow> m s = (r, s') \<Longrightarrow> R s s'"
  using keeps_seq [of R m s] by simp

text \<open>What output and input of the terminal leave alone: everything else.\<close>

definition term_only :: "session \<Rightarrow> session \<Rightarrow> bool" where
  "term_only s s' \<longleftrightarrow> s\<lparr>s_term := s_term s'\<rparr> = s'"

interpretation talking: action_relation term_only
proof
  show "term_only s s" for s by (simp add: term_only_def)
  show "term_only s u" if "term_only s t" "term_only t u" for s t u
    using that by (cases s; cases t; cases u) (simp add: term_only_def)
qed

lemma talks_out: "keeps term_only (out m)"
  by (rule talking.keeps_out) (simp add: term_only_def)

lemmas talks = talking.keeps_and_then talking.keeps_ret talks_out

lemma term_only_fields:
  assumes "term_only s s'"
  shows "s_auth s' = s_auth s" and "s_world s' = s_world s" and "s_state s' = s_state s"
    and "s_transport s' = s_transport s" and "s_addr s' = s_addr s" and "s_path s' = s_path s"
    and "s_connected_at s' = s_connected_at s" and "s_closed s' = s_closed s"
  by (subst assms [unfolded term_only_def, symmetric], simp)+

lemma talks_show_level: "keeps term_only show_level"
  by (rule keeps_ext) (simp add: show_level_def ret_def talking.refl keeps_seq [OF talks_out])

lemma talks_welcome: "keeps term_only (welcome_ax25 cfg call created)"
  by (rule keeps_ext) (simp add: welcome_ax25_def keeps_seq [OF talks_out])

lemma talks_greet: "keeps term_only (greet cfg)"
  by (rule keeps_ext) (simp add: greet_def keeps_seq [OF talks_out])

lemma talks_notices: "keeps term_only (notices ps)"
proof (induction ps)
  case Nil
  then show ?case by (simp add: keeps_def ret_def talking.refl)
next
  case (Cons p ps)
  have a: "keeps term_only (and_then (out m) (\<lambda>_. notices ps))" for m :: "unit io"
    by (intro talks Cons.IH)
  show ?case by (rule keeps_ext) (simp add: keeps_seq [OF Cons.IH] keeps_seq [OF a] split: option.split)
qed

lemma talks_pending: "keeps term_only (show_pending_notices reg)"
  by (rule keeps_ext) (simp add: show_pending_notices_def ret_def talking.refl keeps_seq [OF talks_notices])

lemma identify_radio:
  assumes "is_ax25 (s_transport s)" and "session_identify cfg s = (r, s')"
    and "callsign_only (strip (upper (s_addr s))) = Some c"
  obtains s1 created where "log_in cfg c s = (s1, created)" and "term_only s1 s'"
proof -
  obtain s1 created where l: "log_in cfg c s = (s1, created)" by fastforce
  have "identify_ax25 cfg s = welcome_ax25 cfg (strip (upper (s_addr s))) created s1"
    using assms(3) l by (simp add: identify_ax25_def base_call_def with_log_in_def)
  then have "and_then (welcome_ax25 cfg (strip (upper (s_addr s))) created) (\<lambda>_. show_level) s1 = (r, s')"
    using assms(1,2) by (simp add: session_identify_def and_then_def)
  moreover have "keeps term_only (and_then (welcome_ax25 cfg (strip (upper (s_addr s))) created) (\<lambda>_. show_level))"
    by (intro talks talks_welcome talks_show_level)
  ultimately have "term_only s1 s'" by (rule keepsD [rotated])
  with l show ?thesis by (rule that)
qed

lemma callsign_only_valid: "callsign_only a = Some c \<Longrightarrow> strip (upper c) = c"
  by (auto simp: callsign_only_def dest!: parse_Some(1) valid_call_facts(4))

text \<open>
  One account per operator: two radio sessions whose addresses have the same callsign, whatever
  the SSIDs and the radio transports, are the same user: both are IDENTIFIED under the bare callsign
  with the same user id, and the second one adds no account.
\<close>

theorem ssids_share_account:
  assumes "is_ax25 (s_transport s1)" and "callsign_only (strip (upper (s_addr s1))) = Some c"
    and "session_identify cfg s1 = (r1, s1')"
    and "is_ax25 (s_transport s2)" and "callsign_only (strip (upper (s_addr s2))) = Some c"
    and "w_users (s_world s2) = w_users (s_world s1')"
    and "session_identify cfg s2 = (r2, s2')"
  shows "as_callsign (s_auth s1') = c \<and> as_level (s_auth s1') = IDENTIFIED
    \<and> as_callsign (s_auth s2') = c \<and> as_level (s_auth s2') = IDENTIFIED
    \<and> as_user_id (s_auth s1') \<noteq> None \<and> as_user_id (s_auth s2') = as_user_id (s_auth s1')
    \<and> map u_id (db_users (w_users (s_world s2'))) = map u_id (db_users (w_users (s_world s1')))"
proof -
  note c = callsign_only_valid [OF assms(2)]
  obtain t1 k1 where l1: "log_in cfg c s1 = (t1, k1)" and e1: "term_only t1 s1'"
    by (rule identify_radio [OF assms(1,3,2)])
  obtain t2 k2 where l2: "log_in cfg c s2 = (t2, k2)" and e2: "term_only t2 s2'"
    by (rule identify_radio [OF assms(4,7,5)])
  obtain u where u: "account c t1 = Some u" "as_user_id (s_auth t1) = Some (u_id u)"
    "as_callsign (s_auth t1) = c" "as_level (s_auth t1) = IDENTIFIED"
    using log_in_account(1) [OF l1] c by auto
  have u2: "account c s2 = Some u" using u(1) term_only_fields(2) [OF e1] assms(6) by (simp add: account_def)
  show ?thesis
    using u u2 log_in_account(1) [OF l2] log_in_account(2) [OF l2, of u] c assms(6)
      term_only_fields(1,2) [OF e1] term_only_fields(1,2) [OF e2]
    by auto
qed

text \<open>
  C40. Banning has no effect: a radio user whose account is banned is IDENTIFIED like any other, and
  the session goes on to the main menu; nothing on the way reads the flag.
\<close>

theorem banned_user_gets_in:
  assumes "is_ax25 (s_transport s)" and "callsign_only (strip (upper (s_addr s))) = Some c"
    and "s_state s = CONNECTED" and "account c s = Some u" and "u_banned u"
    and "log_on cfg reg s = (Some go, s')"
  shows "go \<and> s_state s' = ACTIVE \<and> as_level (s_auth s') = IDENTIFIED \<and> as_user_id (s_auth s') = Some (u_id u)"
proof -
  obtain s0 s1 where g: "greet cfg s = (Some (), s0)" and i: "session_identify cfg s0 = (Some (), s1)"
    and k: "(if s_state (record_connect cfg s1) = DISCONNECTED then ret False (record_connect cfg s1)
       else and_then (show_pending_notices reg) (\<lambda>_. ret True) ((record_connect cfg s1)\<lparr>s_state := ACTIVE\<rparr>)) = (Some go, s')"
    using assms(6) unfolding log_on_def Let_def by (auto elim!: and_then_cases)
  have s0: "term_only s s0" using g keeps_seq [OF talks_greet, of s cfg] by simp
  note f0 = term_only_fields [OF s0]
  obtain t k' where l: "log_in cfg c s0 = (t, k')" and e: "term_only t s1"
    by (rule identify_radio [OF _ i]) (use assms(1,2) f0 in auto)
  note f1 = term_only_fields [OF e]
  have "account c s0 = Some u" using assms(4) f0 by (simp add: account_def)
  then have id: "as_user_id (s_auth s1) = Some (u_id u)" "as_level (s_auth s1) = IDENTIFIED"
    using log_in_account(2) [OF l] log_in_level(1) [OF l] callsign_only_valid [OF assms(2)] f1 by auto
  have "s_state t = s_state s0"
    using l by (auto simp: log_in_def apply_user_preferences_def split: prod.splits option.splits)
  then have rc: "s_state (record_connect cfg s1) = CONNECTED" "s_auth (record_connect cfg s1) = s_auth s1"
    using f0 f1 assms(3) by (simp_all add: record_connect_def)
  define q where "q = (record_connect cfg s1)\<lparr>s_state := ACTIVE\<rparr>"
  have k': "and_then (show_pending_notices reg) (\<lambda>_. ret True) q = (Some go, s')"
    using k rc by (simp add: q_def)
  then have "go" by (auto simp: ret_def elim!: and_then_cases)
  have "keeps term_only (and_then (show_pending_notices reg) (\<lambda>_. ret True))"
    by (intro talks talks_pending)
  from keepsD [OF this k'] have "term_only q s'" .
  from term_only_fields [OF this] rc(2) id \<open>go\<close> show ?thesis by (simp add: q_def)
qed


section \<open>Keys and plugins\<close>

lemma collect_items_in:
  "collect_items lvl ps = Some items \<Longrightarrow> (k, d) \<in> set items \<Longrightarrow>
     \<exists>p \<in> set ps. p_enabled p \<and> p_key p = k \<and> k \<noteq> [] \<and> p_display p = d
       \<and> (\<exists>l. level_named (p_level p) = Some l \<and> l \<le> lvl)"
proof (induction ps arbitrary: items)
  case (Cons p ps)
  show ?case
  proof (cases "\<not> p_enabled p \<or> p_key p = []")
    case True
    then show ?thesis using Cons by auto
  next
    case False
    then obtain l rest where "level_named (p_level p) = Some l" "collect_items lvl ps = Some rest"
      "items = (if level_value l \<le> level_value lvl then (p_key p, p_display p) # rest else rest)"
      using Cons.prems(1) by (auto split: bind_splits)
    then show ?thesis using False Cons.IH [of rest] Cons.prems(2)
      by (auto simp: auth_level_order split: if_splits)
  qed
qed simp

lemma menu_items_in:
  assumes "menu_items lvl reg = Some items" and "(k, d) \<in> set items"
  obtains p where "p \<in> snd ` set reg" and "p_enabled p" and "p_key p = k" and "k \<noteq> []" and "p_display p = d"
    and "\<exists>l. level_named (p_level p) = Some l \<and> l \<le> lvl"
  using collect_items_in [OF assms(1) [unfolded menu_items_def] assms(2)] that by auto

text \<open>The keys of the enabled plugins, as they are compared.\<close>

definition live_keys :: "plugins \<Rightarrow> string list" where
  "live_keys reg = map (upper \<circ> p_key) (filter p_enabled (map snd reg))"

lemma find_unique:
  "distinct (map f (filter P xs)) \<Longrightarrow> x \<in> set xs \<Longrightarrow> P x \<Longrightarrow> find (\<lambda>y. P y \<and> f y = f x) xs = Some x"
  by (induction xs) (auto simp: image_iff split: if_splits)

lemma get_by_key_unique:
  assumes "distinct (live_keys reg)" and "p \<in> snd ` set reg" and "p_enabled p" and "upper (p_key p) = upper k"
  shows "get_by_key k reg = Some p"
proof -
  have "find (\<lambda>q. p_enabled q \<and> (upper \<circ> p_key) q = (upper \<circ> p_key) p) (map snd reg) = Some p"
    by (rule find_unique) (use assms(1-3) in \<open>auto simp: live_keys_def comp_def\<close>)
  then show ?thesis using assms(4) by (simp add: get_by_key_def comp_def)
qed

definition system_commands :: "string set" where
  "system_commands = {''B'', ''BYE'', ''CO'', ''COLOR'', ''A'', ''?''}"

lemma dispatch_to_plugin:
  assumes "choice \<notin> system_commands" and "get_by_key choice reg = Some p"
  shows "dispatch_choice cfg reg choice s
    = map_option (\<lambda>(r, s'). (map_option (\<lambda>_. False) r, s')) (enter_plugin p s)"
  using assms by (simp add: dispatch_choice_def system_commands_def)

text \<open>
  What the menu offers is what a key does: when the enabled plugins have different keys (up to case)
  and none is a system command, every key shown in the menu, typed in any case, runs the plugin shown
  beside it, one whose level the user has.
\<close>

theorem menu_key_reaches_plugin:
  assumes "menu_items lvl reg = Some items" and "(k, d) \<in> set items" and "distinct (live_keys reg)"
    and "upper k \<notin> system_commands" and "upper given = upper k"
  shows "\<exists>p. p \<in> snd ` set reg \<and> p_enabled p \<and> p_display p = d
    \<and> (\<exists>l. level_named (p_level p) = Some l \<and> l \<le> lvl)
    \<and> (\<forall>cfg s. dispatch_choice cfg reg (upper given) s
        = map_option (\<lambda>(r, s'). (map_option (\<lambda>_. False) r, s')) (enter_plugin p s))"
proof -
  obtain p where p: "p \<in> snd ` set reg" "p_enabled p" "p_key p = k" "p_display p = d"
    and l: "\<exists>l. level_named (p_level p) = Some l \<and> l \<le> lvl"
    by (rule menu_items_in [OF assms(1,2)])
  have "get_by_key (upper given) reg = Some p"
    by (rule get_by_key_unique [OF assms(3) p(1,2)]) (simp add: p(3) assms(5))
  with assms(4,5) p l show ?thesis by (intro exI [of _ p]) (simp add: dispatch_to_plugin)
qed

lemma strip_blanks: "strip (replicate n CHR 0x20) = []"
proof -
  have "lstrip (replicate n CHR 0x20) = []" by (induction n) (simp_all add: lstrip_def)
  then show ?thesis by (simp add: strip_def rstrip_def)
qed

text \<open>
  A line of blanks enters the headless plugin: a plugin without a menu key is in no menu, but blanks
  are not an empty line, strip to the empty choice, and the empty choice finds it, whatever level it
  asks for.
\<close>

theorem blank_line_enters_headless_plugin:
  assumes "0 < n" and "get_by_key [] reg = Some p"
  shows "replicate n CHR 0x20 \<noteq> []
    \<and> dispatch_choice cfg reg (upper (strip (replicate n CHR 0x20))) s
        = map_option (\<lambda>(r, s'). (map_option (\<lambda>_. False) r, s')) (enter_plugin p s)
    \<and> (menu_items lvl reg = Some items \<longrightarrow> [] \<notin> fst ` set items)"
proof -
  have "[] \<notin> fst ` set items" if "menu_items lvl reg = Some items"
  proof
    assume "[] \<in> fst ` set items"
    then obtain d where "([], d) \<in> set items" by auto
    from menu_items_in [OF that this] show False by metis
  qed
  then show ?thesis
    using assms by (simp add: strip_blanks dispatch_to_plugin system_commands_def)
qed

section \<open>The info editor at the end of the stream\<close>

lemma edit_lines_eof:
  assumes "edit_lines ls s = Some res" and "at_eof (s_term s)" and "always_drains (s_term s)"
  shows False
proof -
  have "at_eof (s_term s) \<and> always_drains (s_term s) \<longrightarrow> False"
  proof (rule edit_lines.raw_induct [where P = "\<lambda>ls s res. at_eof (s_term s) \<and> always_drains (s_term s) \<longrightarrow> False",
        OF _ assms(1)])
    fix loop :: "string list \<Rightarrow> session \<Rightarrow> (string list option option \<times> session) option" and ls s res
    assume IH: "\<And>ls s res. loop ls s = Some res \<Longrightarrow> at_eof (s_term s) \<and> always_drains (s_term s) \<longrightarrow> False"
      and eq: "(case and_then (out (send (line_prompt (length ls + 1)))) (\<lambda>_. out (readline 200 None (Some 120000))) s of
        (None, s1) \<Rightarrow> Some (None, s1)
      | (Some line, s1) \<Rightarrow>
          if ls = [] \<and> strip (upper line) = ''/ABORT'' then Some (Some None, s1)
          else if strip (upper line) = ''/EX'' then Some (Some (Some ls), s1)
          else loop (ls @ [line]) s1) = Some res"
    show "at_eof (s_term s) \<and> always_drains (s_term s) \<longrightarrow> False"
    proof
      assume t: "at_eof (s_term s) \<and> always_drains (s_term s)"
      obtain t1 where t1: "send (line_prompt (length ls + 1)) (s_term s) = Some ((), t1)" "sends (s_term s) t1"
        using send_ok t by blast
      have "t_in t1 = []" using t t1(2) by (simp add: sends_def at_eof_def)
      then have "and_then (out (send (line_prompt (length ls + 1)))) (\<lambda>_. out (readline 200 None (Some 120000))) s
          = (Some [], s\<lparr>s_term := t1\<rparr>)"
        using t1(1) by (simp add: and_then_def out_def readline_eof)
      then have "loop (ls @ [[]]) (s\<lparr>s_term := t1\<rparr>) = Some res"
        using eq by (simp add: strip_def lstrip_def rstrip_def)
      from IH [OF this] t \<open>t_in t1 = []\<close> sends_drains [OF t1(2)] show False by (simp add: at_eof_def)
    qed
  qed
  with assms show False by blast
qed

text \<open>
  The info editor does not notice the end of the stream: when the connection has ended and sends
  still succeed, a sysop's edit of the info message reads empty lines for ever, so neither the plugin
  nor the session that runs it ever returns.
\<close>

theorem info_editor_spins_at_eof:
  assumes "at_eof (s_term s)" and "always_drains (s_term s)"
  shows "edit_message s = None"
proof -
  obtain t1 where t1: "edit_intro (s_term s) = Some ((), t1)" "sends (s_term s) t1"
  proof -
    note ok = send_ok [unfolded sendln_send [symmetric]]
    define l1 where "l1 = label (s_term s) ''Enter new info message.'' ''meta''"
    have sl: "always_drains t \<Longrightarrow> \<exists>t'. sendln x t = Some ((), t') \<and> sends t t' \<and> always_drains t'" for x t
      using send_ok [of t "x @ t_eol t"] sends_drains by (auto simp: sendln_send)
    obtain a where a: "sendln l1 (s_term s) = Some ((), a)" "sends (s_term s) a" "always_drains a"
      using sl assms(2) by blast
    obtain b where b: "sendln (note_text a (''Type each line and press ENTER.  Type '' @ [CHR 0x27] @ ''/EX''
       @ [CHR 0x27] @ '' to finish,'')) a = Some ((), b)" "sends a b" "always_drains b"
      using sl a(3) by blast
    obtain c where c: "sendln (note_text b (''or '' @ [CHR 0x27] @ ''/ABORT'' @ [CHR 0x27]
       @ '' on the first line to cancel.'')) b = Some ((), c)" "sends b c" "always_drains c"
      using sl b(3) by blast
    obtain d where d: "sendln [] c = Some ((), d)" "sends c d" using sl c(3) by blast
    have "edit_intro (s_term s) = Some ((), d)"
      unfolding edit_intro_def l1_def [symmetric] by (simp only: a b c d Option.bind.simps prod.case)
    then show ?thesis using that sends_trans [OF a(2) sends_trans [OF b(2) sends_trans [OF c(2) d(2)]]] by blast
  qed
  have "edit_lines [] (s\<lparr>s_term := t1\<rparr>) = None"
  proof (cases "edit_lines [] (s\<lparr>s_term := t1\<rparr>)")
    case (Some res)
    from edit_lines_eof [OF this] t1(2) sends_drains [OF t1(2)] assms show ?thesis
      by (simp add: sends_def at_eof_def)
  qed
  then show ?thesis using t1(1) by (simp add: edit_message_def out_def)
qed


section \<open>Witnesses\<close>

definition bbs_example :: bbs_cfg where
  "bbs_example = \<lparr>bc_callsign = ''W6ELA'', bc_ssid = 1, bc_name = ''BBS'', bc_sysop = ''W6ELA'',
     bc_location = ''CM87'', bc_idle_timeout = 300, bc_medium_hops = 1, bc_long_hops = 3, bc_log_days = 30,
     bc_max_attempts = 3, bc_lockout_secs = 900, bc_time_step = 30, bc_enforce_active = False\<rparr>"

definition user_example :: user where
  "user_example = (new_user 1 ''W1AW'' True 0)\<lparr>u_otp_type := ''hotp'',
     u_totp_secret := Some [0x31,0x32,0x33,0x34,0x35,0x36,0x37,0x38,0x39,0x30,0x31,0x32,0x33,0x34,0x35,0x36,0x37,0x38,0x39,0x30]\<rparr>"

definition world_example :: world where
  "world_example = \<lparr>w_users = \<lparr>db_users = [user_example], db_next_id = 2\<rparr>, w_log = [], w_info = Some [],
     w_events = []\<rparr>"

definition radio_example :: "string \<Rightarrow> arrival list \<Rightarrow> session" where
  "radio_example addr input = open_session bbs_example ''agwpe'' addr 3 input (\<lambda>_. True) 1000 world_example"

definition plugins_example :: plugins where
  "plugins_example = [(''lastconn'', lastconn_plugin (\<lambda>_ _. []) 200 bbs_example), (''display'', display_plugin)]"

lemma lastconn_shrinks: "keeps input_shrinks (lastconn_handle f n cfg)"
proof (rule keeps_ext)
  fix s
  have e: "keeps input_shrinks (out (\<lambda>t. do { (_, t) \<leftarrow> sendln (note_text t x) t; sendln [] t }))" for x
    by (rule shrinks_out) (auto split: bind_splits dest!: sendln_in)
  have f: "keeps input_shrinks (out (\<lambda>t. do {
                 (_, t) \<leftarrow> sendln (label t header ''meta'') t;
                 (_, t) \<leftarrow> sendln (note_text t (rule_of t header)) t;
                 let ls = map (conn_line f pl t) rows;
                 (_, t) \<leftarrow> sendln (label t (conn_columns pl) ''meta'') t;
                 (_, t) \<leftarrow> sendln (note_text t (rule_of t (conn_columns pl))) t;
                 (_, t) \<leftarrow> term_flush t;
                 (_, t) \<leftarrow> paginate ls None (timeout_of cfg) t;
                 sendln [] t }))" for header pl rows
    by (rule shrinks_out) (auto simp: Let_def split: bind_splits dest!: sendln_in term_flush_in paginate_weight)
  show "input_shrinks s (snd (lastconn_handle f n cfg s))"
    unfolding lastconn_handle_def Let_def using keeps_seq [OF e] keeps_seq [OF f [unfolded Let_def]] by simp
qed

lemma lastconn_talks: "keeps term_only (lastconn_handle f n cfg)"
  by (rule keeps_ext) (simp add: lastconn_handle_def Let_def keeps_seq [OF talks_out])

lemma lastconn_plugin_ok: "plugin_returns (lastconn_plugin f n cfg) \<and> plugin_leaves_auth (lastconn_plugin f n cfg)"
proof
  have "\<exists>r s'. lastconn_handle f n cfg s = (r, s') \<and> input_shrinks s s'" for s
    using keeps_seq [OF lastconn_shrinks, of s f n cfg] by (cases "lastconn_handle f n cfg s") auto
  then show "plugin_returns (lastconn_plugin f n cfg)" by (simp add: plugin_returns_def lastconn_plugin_def)
  show "plugin_leaves_auth (lastconn_plugin f n cfg)"
    by (auto simp: plugin_leaves_auth_def lastconn_plugin_def dest: keepsD [OF lastconn_talks] term_only_fields(1))
qed

lemma plugins_example_ok: "\<forall>p \<in> snd ` set plugins_example. plugin_returns p \<and> plugin_leaves_auth p"
  by (auto simp: plugins_example_def lastconn_plugin_ok)
    (auto simp: plugin_returns_def plugin_leaves_auth_def display_plugin_def input_shrinks_def)



section \<open>Lines that are already there\<close>

text \<open>A terminal with this input, nothing buffered and sends that always succeed.\<close>

definition at_input :: "arrival list \<Rightarrow> nat \<Rightarrow> terminal \<Rightarrow> bool" where
  "at_input i n t \<longleftrightarrow> t_in t = i \<and> t_clock t = n \<and> always_drains t \<and> t_buf t = []"

lemma always_drains_frame [simp]:
  "always_drains (t\<lparr>t_in := i\<rparr>) = always_drains t" "always_drains (t\<lparr>t_sent := cs\<rparr>) = always_drains t"
  by (simp_all add: always_drains_def)

lemma at_input_sends: "at_input i n t \<Longrightarrow> sends t t' \<Longrightarrow> at_input i n t'"
  using sends_drains [of t t'] by (simp add: at_input_def sends_def)

lemma at_input_send: "at_input i n t \<Longrightarrow> \<exists>t'. send x t = Some ((), t') \<and> at_input i n t'"
proof -
  assume a: "at_input i n t"
  then obtain t' where "send x t = Some ((), t')" "sends t t'" using send_ok unfolding at_input_def by blast
  with at_input_sends [OF a] show ?thesis by blast
qed

lemma at_input_sendln: "at_input i n t \<Longrightarrow> \<exists>t'. sendln x t = Some ((), t') \<and> at_input i n t'"
  by (simp add: sendln_send at_input_send)

lemma readchar_byte:
  assumes "at_input (Byte b # i) n t" and "b \<noteq> 0xFF"
  shows "\<exists>t'. readchar d t = (Some (key_char b), t') \<and> at_input i n t' \<and> t_sent t' = t_sent t \<and> t' = t\<lparr>t_in := i\<rparr>"
  using assms by (subst readchar.simps)
    (cases t, simp add: at_input_def term_read_def key_char_def always_drains_def)

lemma readline_loop_bytes:
  assumes "at_input (map Byte bs @ Byte 0x0A # r) n t" and "list_all plain_key bs"
    and "case dl of None \<Rightarrow> True | Some x \<Rightarrow> n < x"
  shows "\<exists>t'. readline_loop m e dl buf t = Some (typed m buf (decode_ascii bs), t') \<and> at_input r n t'"
  using assms
proof (induction bs arbitrary: buf t)
  case Nil
  then have in1: "at_input (Byte 0x0A # r) n t" by simp
  obtain t1 where rc: "readchar (map_option (\<lambda>d. d - t_clock t) dl) t = (Some (key_char 0x0A), t1)"
    and t1: "at_input r n t1"
    using readchar_byte [OF in1, of "map_option (\<lambda>d. d - t_clock t) dl"] by auto
  have kc: "key_char 0x0A = LF" by code_simp
  obtain t2 where t2: "when_io e (send [CR, LF]) t1 = Some ((), t2)" "at_input r n t2"
    using at_input_send [OF t1, of "[CR, LF]"] t1 by (cases e) (auto simp: when_io_def)
  have ed: "edit_char m e LF buf t1 = Some ((buf, True), t2)"
    using t2(1) by (simp add: edit_char_def when_io_def)
  have late: "\<not> (case dl of None \<Rightarrow> False | Some d \<Rightarrow> d \<le> t_clock t)"
    using Nil.prems(3) in1 by (auto simp: at_input_def split: option.splits)
  have "readline_loop m e dl buf t = Some (buf, t2)"
    unfolding readline_loop.simps [of m e dl buf t] if_not_P [OF late] rc kc by (simp add: ed)
  with t2(2) show ?case by (simp add: typed_def decode_ascii_def)
next
  case (Cons b bs)
  then have in1: "at_input (Byte b # map Byte bs @ Byte 0x0A # r) n t" and b: "plain_key b" by simp_all
  then have "b \<noteq> 0xFF" by (simp add: plain_key_def)
  from readchar_byte [OF in1 this, of "map_option (\<lambda>d. d - t_clock t) dl"] obtain t1
    where rc: "readchar (map_option (\<lambda>d. d - t_clock t) dl) t = (Some (key_char b), t1)"
      and t1: "at_input (map Byte bs @ Byte 0x0A # r) n t1" by auto
  have kc: "key_char b \<noteq> CR" "key_char b \<noteq> LF" "key_char b \<noteq> ETX"
    using plain_key_char [OF b] by auto
  have d1: "always_drains t1" "t_buf t1 = []" using t1 by (auto simp: at_input_def)
  obtain chunks where ed: "edit_char m e (key_char b) buf t1
      = Some ((key m buf (key_char b), False), t1\<lparr>t_sent := t_sent t1 @ chunks\<rparr>)"
    by (rule edit_char_key [OF d1 kc, of m e buf])
  have late: "\<not> (case dl of None \<Rightarrow> False | Some d \<Rightarrow> d \<le> t_clock t)"
    using Cons.prems(3) in1 by (auto simp: at_input_def split: option.splits)
  have step: "readline_loop m e dl buf t = readline_loop m e dl (key m buf (key_char b)) (t1\<lparr>t_sent := t_sent t1 @ chunks\<rparr>)"
    unfolding readline_loop.simps [of m e dl buf t] if_not_P [OF late] rc by (simp add: ed)
  have "at_input (map Byte bs @ Byte 0x0A # r) n (t1\<lparr>t_sent := t_sent t1 @ chunks\<rparr>)"
    using t1 by (simp add: at_input_def)
  from Cons.IH [OF this] Cons.prems(2,3) show ?case
    unfolding step by (simp add: typed_def decode_ascii_key)
qed

lemma readline_bytes:
  assumes "at_input (map Byte bs @ Byte 0x0A # r) n t" and "list_all plain_key bs"
  shows "\<exists>t'. readline m e d t = Some (typed m [] (decode_ascii bs), t') \<and> at_input r n t'"
proof -
  have "t_clock t = n" using assms(1) by (simp add: at_input_def)
  then show ?thesis unfolding readline_def
    by (intro readline_loop_bytes assms) (auto simp: wait_opt_def split: option.split)
qed

text \<open>A printable line is read back as it was typed.\<close>

lemma typed_printable:
  assumes "list_all is_printable cs" and "list_all is_ascii cs" and "length buf + length cs \<le> m"
  shows "typed m buf cs = buf @ cs"
  using assms
proof (induction cs arbitrary: buf)
  case (Cons c cs)
  have "c \<noteq> BS" "c \<noteq> DEL" using Cons.prems(1) by (auto simp: is_printable_def code_def)
  then have "key m buf c = buf @ [c]" using Cons.prems by (simp add: key_def)
  then have "typed m buf (c # cs) = typed m (buf @ [c]) cs" by (simp add: typed_def)
  with Cons.IH [of "buf @ [c]"] Cons.prems show ?case by simp
qed (simp add: typed_def)

lemma encode_ascii_plain: "list_all is_printable cs \<Longrightarrow> list_all is_ascii cs \<Longrightarrow> list_all plain_key (encode_ascii cs)"
proof (induction cs)
  case (Cons c cs)
  have "code c < 127" "32 \<le> code c" using Cons.prems by (auto simp: is_printable_def is_ascii_def)
  then have "plain_key (ord_of c)"
    by (auto simp: plain_key_def ord_of_def dest!: arg_cong [where f = unat] simp: unat_of_nat)
  with Cons show ?case by (simp add: encode_ascii_def)
qed (simp add: encode_ascii_def)

text \<open>A text line as the user's terminal sends it.\<close>

definition line_bytes :: "string \<Rightarrow> arrival list" where
  "line_bytes s = map Byte (encode_ascii s @ [0x0A])"

definition text_line :: "string \<Rightarrow> bool" where
  "text_line s \<longleftrightarrow> list_all is_printable s \<and> list_all is_ascii s"

lemma readline_text:
  assumes "at_input (line_bytes x @ r) n t" and "text_line x" and "length x \<le> m"
  shows "\<exists>t'. readline m e d t = Some (x, t') \<and> at_input r n t'"
proof -
  have "at_input (map Byte (encode_ascii x) @ Byte 0x0A # r) n t" using assms(1) by (simp add: line_bytes_def)
  moreover have "list_all plain_key (encode_ascii x)" using assms(2) by (simp add: text_line_def encode_ascii_plain)
  moreover have "typed m [] (decode_ascii (encode_ascii x)) = x"
    using assms(2,3) by (simp add: text_line_def decode_encode_ascii typed_printable)
  ultimately show ?thesis using readline_bytes by metis
qed


lemma out_send_at:
  assumes "at_input i n (s_term s)"
  shows "\<exists>t'. out (send x) s = (Some (), s\<lparr>s_term := t'\<rparr>) \<and> at_input i n t'"
    and "\<exists>t'. out (sendln x) s = (Some (), s\<lparr>s_term := t'\<rparr>) \<and> at_input i n t'"
    and "\<exists>t'. out (\<lambda>t. sendln (f t) t) s = (Some (), s\<lparr>s_term := t'\<rparr>) \<and> at_input i n t'"
  using at_input_send [OF assms, of x] at_input_sendln [OF assms, of x] at_input_sendln [OF assms, of "f (s_term s)"]
  by (auto simp: out_def)

lemma out_readline_at:
  assumes "at_input (line_bytes x @ r) n (s_term s)" and "text_line x" and "length x \<le> m"
  shows "\<exists>t'. out (readline m e d) s = (Some x, s\<lparr>s_term := t'\<rparr>) \<and> at_input r n t'"
  using readline_text [OF assms, of e d] by (auto simp: out_def)

section \<open>The info text\<close>

lemma text_line_no_end: "text_line l \<Longrightarrow> list_all (\<lambda>c. \<not> is_line_end c) l"
  by (induction l) (auto simp: text_line_def is_printable_def is_ascii_def is_line_end_def)

lemma splitlines_line:
  assumes "text_line l"
  shows "splitlines l = (if l = [] then [] else [l])" and "splitlines (l @ LF # m) = l # splitlines m"
proof -
  have tw: "takeWhile (\<lambda>c. \<not> is_line_end c) (l @ m) = l @ takeWhile (\<lambda>c. \<not> is_line_end c) m"
    "dropWhile (\<lambda>c. \<not> is_line_end c) (l @ m) = dropWhile (\<lambda>c. \<not> is_line_end c) m" for m
    using text_line_no_end [OF assms] by (simp_all add: takeWhile_all dropWhile_all)
  have lf: "is_line_end LF" "LF \<noteq> CR" by (simp_all add: is_line_end_def code_def)
  show "splitlines l = (if l = [] then [] else [l])"
  proof -
    have "dropWhile (\<lambda>c. \<not> is_line_end c) l = []" using text_line_no_end [OF assms] by (simp add: list_all_iff)
    then show ?thesis by (subst splitlines.simps) (simp del: dropWhile_eq_Nil_conv)
  qed
  show "splitlines (l @ LF # m) = l # splitlines m"
    by (subst splitlines.simps) (simp add: tw lf)
qed

lemma splitlines_join:
  assumes "list_all text_line ls" and "ls \<noteq> []" and "last ls \<noteq> []"
  shows "splitlines (join [LF] ls) = ls"
  using assms
proof (induction "[LF]" ls rule: join.induct)
  case (3 x y zs)
  then show ?case by (simp add: splitlines_line)
qed (simp_all add: splitlines_line)

lemma edit_lines_typed:
  assumes "at_input (concat (map line_bytes ls) @ line_bytes ''/EX'' @ r) n (s_term s)"
    and "list_all text_line ls" and "list_all (\<lambda>l. length l \<le> 200 \<and> strip (upper l) \<noteq> ''/EX'') ls"
    and "done = [] \<longrightarrow> ls \<noteq> [] \<and> strip (upper (hd ls)) \<noteq> ''/ABORT''"
  shows "\<exists>t'. edit_lines done s = Some (Some (Some (done @ ls)), s\<lparr>s_term := t'\<rparr>) \<and> at_input r n t'"
  using assms
proof (induction ls arbitrary: "done" s)
  case Nil
  obtain t1 where t1: "out (send (line_prompt (Suc (length done)))) s = (Some (), s\<lparr>s_term := t1\<rparr>)"
    "at_input (line_bytes ''/EX'' @ r) n t1" using out_send_at(1) [OF Nil.prems(1)] by auto
  have ex: "text_line ''/EX''" "strip (upper ''/EX'') = ''/EX''" by code_simp+
  obtain t2 where t2: "out (readline 200 None (Some 120000)) (s\<lparr>s_term := t1\<rparr>) = (Some ''/EX'', s\<lparr>s_term := t2\<rparr>)"
    "at_input r n t2"
    using out_readline_at [of "''/EX''" r n "s\<lparr>s_term := t1\<rparr>" 200 None "Some 120000"] t1(2) ex(1) by auto
  have "edit_lines done s = Some (Some (Some done), s\<lparr>s_term := t2\<rparr>)"
    using Nil.prems(4) ex(2) by (subst edit_lines.simps) (simp add: and_then_def t1(1) t2(1) del: upper_Cons)
  with t2(2) show ?case by auto
next
  case (Cons l ls)
  obtain t1 where t1: "out (send (line_prompt (Suc (length done)))) s = (Some (), s\<lparr>s_term := t1\<rparr>)"
    "at_input (line_bytes l @ (concat (map line_bytes ls) @ line_bytes ''/EX'' @ r)) n t1"
    using out_send_at(1) [OF Cons.prems(1)] by auto
  obtain t2 where t2: "out (readline 200 None (Some 120000)) (s\<lparr>s_term := t1\<rparr>) = (Some l, s\<lparr>s_term := t2\<rparr>)"
    "at_input (concat (map line_bytes ls) @ line_bytes ''/EX'' @ r) n t2"
    using out_readline_at [of l _ n "s\<lparr>s_term := t1\<rparr>" 200 None "Some 120000"] t1(2) Cons.prems(2,3) by auto
  have no: "\<not> (done = [] \<and> strip (upper l) = ''/ABORT'')" "strip (upper l) \<noteq> ''/EX''"
    using Cons.prems(3,4) by auto
  have "edit_lines done s = edit_lines (done @ [l]) (s\<lparr>s_term := t2\<rparr>)"
    by (subst edit_lines.simps) (simp only: Suc_eq_plus1 [symmetric] and_then_def t1(1) t2(1) prod.case option.case
        if_not_P [OF no(1)] if_not_P [OF no(2)])
  with Cons.IH [of "s\<lparr>s_term := t2\<rparr>" "done @ [l]"] t2(2) Cons.prems(2,3) show ?case by simp
qed

lemma edit_intro_at:
  assumes "at_input i n t" shows "\<exists>t'. edit_intro t = Some ((), t') \<and> at_input i n t'"
proof -
  note sl = at_input_sendln
  obtain a where a: "sendln (label t ''Enter new info message.'' ''meta'') t = Some ((), a)" "at_input i n a"
    using sl [OF assms] by blast
  obtain b where b: "sendln (note_text a (''Type each line and press ENTER.  Type '' @ [CHR 0x27] @ ''/EX''
       @ [CHR 0x27] @ '' to finish,'')) a = Some ((), b)" "at_input i n b" using sl [OF a(2)] by blast
  obtain c where c: "sendln (note_text b (''or '' @ [CHR 0x27] @ ''/ABORT'' @ [CHR 0x27]
       @ '' on the first line to cancel.'')) b = Some ((), c)" "at_input i n c" using sl [OF b(2)] by blast
  obtain d where d: "sendln [] c = Some ((), d)" "at_input i n d" using sl [OF c(2)] by blast
  have "edit_intro t = Some ((), d)"
    unfolding edit_intro_def by (simp only: a b c d Option.bind.simps prod.case)
  with d(2) show ?thesis by blast
qed



section \<open>A login by code\<close>

lemma session_ends_witness:
  "\<exists>s'. run_session bbs_example plugins_example (radio_example ''W1AW-7'' (line_bytes ''LC'' @ [Silence 9000, Byte 0x42])) = Some s'
    \<and> s_state s' = DISCONNECTED \<and> s_closed s'"
  by (rule session_ends) (use plugins_example_ok in blast)

text \<open>A radio user who types A, the code of his account, and B.\<close>

definition code_example :: string where
  "code_example = the (hotp_code (the (u_totp_secret user_example)) 0 6)"

definition code_input :: "arrival list" where
  "code_input = line_bytes ''A'' @ line_bytes code_example @ line_bytes ''B''"

lemma code_example_facts:
  "hotp_code (the (u_totp_secret user_example)) 0 6 = Some code_example"
  "length code_example = 6" "list_all is_digit code_example" "text_line code_example"
  "strip code_example = code_example"
proof -
  show h: "hotp_code (the (u_totp_secret user_example)) 0 6 = Some code_example"
    using hotp_code_total [of 0 "the (u_totp_secret user_example)" 6] by (auto simp: code_example_def)
  show "length code_example = 6" and d: "list_all is_digit code_example" using hotp_code_six [OF h] .
  show "text_line code_example" using d
    by (auto simp: text_line_def list_all_iff is_digit_def is_printable_def is_ascii_def)
  show "strip code_example = code_example" by (rule strip_no_space) (use d in \<open>auto simp: list_all_iff\<close>)
qed

lemma radio_logs_on:
  "\<exists>s1. log_on bbs_example plugins_example (radio_example ''W1AW-7'' code_input) = (Some True, s1)
    \<and> at_input code_input 0 (s_term s1) \<and> s_state s1 = ACTIVE \<and> s_path s1 = LONG \<and> s_connected_at s1 = 1000
    \<and> s_touched s1 = 0 \<and> as_callsign (s_auth s1) = ''W1AW'' \<and> as_level (s_auth s1) = IDENTIFIED
    \<and> w_users (s_world s1) = \<lparr>db_users = [user_example\<lparr>u_last_seen := Some 1000\<rparr>], db_next_id = 2\<rparr>"
proof -
  define s where "s = radio_example ''W1AW-7'' code_input"
  have f: "s_transport s = ''agwpe''" "s_addr s = ''W1AW-7''" "s_path s = LONG" "s_state s = CONNECTED"
    "s_connected_at s = 1000" "s_touched s = 0" "s_world s = world_example"
    by (simp_all add: s_def radio_example_def open_session_def choose_path_def is_ax25_def bbs_example_def)
  have a0: "at_input code_input 0 (s_term s)"
    by (simp add: s_def radio_example_def open_session_def terminal_init_def at_input_def always_drains_def)
  obtain t1 where g: "greet bbs_example s = (Some (), s\<lparr>s_term := t1\<rparr>)" and a1: "at_input code_input 0 t1"
    using out_send_at(2) [OF a0, of "full_callsign bbs_example @ '' BBS (compact mode)''"] f(3)
    by (auto simp: greet_def)
  define s1 where "s1 = s\<lparr>s_term := t1\<rparr>"
  define st where "st = \<lparr>as_callsign = ''W1AW'', as_level = IDENTIFIED, as_user_id = Some 1, as_approved = True\<rparr>"
  define db where "db = \<lparr>db_users = [user_example\<lparr>u_last_seen := Some 1000\<rparr>], db_next_id = 2\<rparr>"
  have n1: "now s1 = 1000" using a1 f by (simp add: now_def s1_def at_input_def)
  have i: "identify (auth_of bbs_example) 1000 ''W1AW'' (w_users world_example) = (db, st, False)"
    unfolding db_def st_def by code_simp
  have u: "get_by_id 1 db = Some (user_example\<lparr>u_last_seen := Some 1000\<rparr>)" unfolding db_def by code_simp
  define s2 where "s2 = s1\<lparr>s_auth := st, s_world := world_example\<lparr>w_users := db\<rparr>,
    s_term := term_set_color_mode (Name (u_color_mode (user_example\<lparr>u_last_seen := Some 1000\<rparr>))) t1\<rparr>"
  have l: "log_in bbs_example ''W1AW'' s1 = (s2, False)"
    using i u f n1 by (simp add: log_in_def apply_user_preferences_def s1_def s2_def st_def)
  have a2: "at_input code_input 0 (s_term s2)"
    using a1 by (simp add: s2_def term_set_color_mode_def at_input_def always_drains_def)
  obtain t3 where w: "welcome_ax25 bbs_example ''W1AW-7'' False s2 = (Some (), s2\<lparr>s_term := t3\<rparr>)"
    and a3: "at_input code_input 0 t3"
    using out_send_at(2) [OF a2, of "''Welcome '' @ ''W1AW-7'' @ ''!''"] f(3)
    by (auto simp: welcome_ax25_def s2_def s1_def)
  have call: "strip (upper ''W1AW-7'') = ''W1AW-7''" "base_call ''W1AW-7'' = ''W1AW''" by code_simp+
  define s3 where "s3 = s2\<lparr>s_term := t3\<rparr>"
  have "session_identify bbs_example s1 = (Some (), s3)"
    using f l w call by (simp add: session_identify_def is_ax25_def identify_ax25_def with_log_in_def and_then_def
        s1_def s3_def show_level_def ret_def s2_def)
  moreover define s4 where "s4 = (record_connect bbs_example s3)\<lparr>s_state := ACTIVE\<rparr>"
  moreover have "s_state (record_connect bbs_example s3) = CONNECTED"
    using f by (simp add: record_connect_def s3_def s2_def s1_def)
  moreover have "show_pending_notices plugins_example s4 = (Some (), s4)"
    by (simp add: show_pending_notices_def plugins_example_def lastconn_plugin_def display_plugin_def no_notice_def ret_def)
  ultimately have "log_on bbs_example plugins_example s = (Some True, s4)"
    using g by (simp add: log_on_def and_then_def s1_def [symmetric] ret_def)
  moreover have "s_term s4 = t3" "s_path s4 = LONG" "s_connected_at s4 = 1000" "s_touched s4 = 0" "s_auth s4 = st"
    "w_users (s_world s4) = db" "s_state s4 = ACTIVE"
    using f by (simp_all add: s4_def record_connect_def s3_def s2_def s1_def)
  ultimately show ?thesis using a3 by (simp add: s_def db_def st_def)
qed

lemma read_choice_at:
  assumes "at_input (line_bytes x @ r) n (s_term s)" and "text_line x" and "length x \<le> 8" and "s_path s = LONG"
    and "menu_items (as_level (s_auth s)) reg = Some items"
  shows "\<exists>t'. read_choice cfg reg s = (Some x, s\<lparr>s_term := t'\<rparr>) \<and> at_input r n t'"
proof -
  obtain t1 where m: "show_main_menu cfg (items @ system_items) s = (Some (), s\<lparr>s_term := t1\<rparr>)"
    and a: "at_input (line_bytes x @ r) n t1"
    using out_send_at(1) [OF assms(1)] assms(4) by (auto simp: show_main_menu_def)
  obtain t2 where "out (readline 8 None (remaining_of cfg (s\<lparr>s_term := t1\<rparr>))) (s\<lparr>s_term := t1\<rparr>) = (Some x, s\<lparr>s_term := t2\<rparr>)"
    and "at_input r n t2"
    using out_readline_at [of x r n "s\<lparr>s_term := t1\<rparr>" 8 None "remaining_of cfg (s\<lparr>s_term := t1\<rparr>)"] a assms(2,3) by auto
  moreover from this m assms(5) have "read_choice cfg reg s = (Some x, s\<lparr>s_term := t2\<rparr>)"
    by (simp add: read_choice_def and_then_def)
  ultimately show ?thesis by blast
qed

lemma verify_accepts:
  assumes "get_by_callsign (as_callsign st) db = Some u" and "\<not> is_locked t0 u" and "has_secret u"
    and "u_totp_secret u = Some secret" and "strip given = given" and "list_all is_digit given"
    and "length given = 6" and "match_code cfg t0 u secret given = Some (True, nc)"
    and "upper (as_callsign st) \<noteq> upper (ac_callsign cfg)"
  shows "\<exists>st' db'. verify_otp cfg t0 given st db = Some (True, Ok, st', db') \<and> as_level st' = AUTHENTICATED"
proof -
  have "given \<noteq> []" using assms(7) by auto
  with assms show ?thesis by (auto simp: verify_otp_def Let_def)
qed

lemma code_logs_in:
  "\<exists>s'. run_session bbs_example plugins_example (radio_example ''W1AW-7'' code_input) = Some s'
    \<and> is_authenticated (s_auth s')"
proof -
  obtain s1 where lo: "log_on bbs_example plugins_example (radio_example ''W1AW-7'' code_input) = (Some True, s1)"
    and s1: "at_input code_input 0 (s_term s1)" "s_state s1 = ACTIVE" "s_path s1 = LONG" "s_connected_at s1 = 1000"
      "s_touched s1 = 0" "as_callsign (s_auth s1) = ''W1AW''" "as_level (s_auth s1) = IDENTIFIED"
      "w_users (s_world s1) = \<lparr>db_users = [user_example\<lparr>u_last_seen := Some 1000\<rparr>], db_next_id = 2\<rparr>"
    using radio_logs_on by blast
  have menus: "menu_items IDENTIFIED plugins_example = Some [(''LC'', ''Last Connections'')]"
    "menu_items AUTHENTICATED plugins_example = Some [(''LC'', ''Last Connections'')]"
    by (simp_all add: menu_items_def plugins_example_def lastconn_plugin_def display_plugin_def level_named_def)
  have tl: "text_line ''A''" "text_line ''B''" by code_simp+
  note tl = tl(1) code_example_facts(4) tl(2)
  have up: "upper (strip ''A'') = ''A''" "upper (strip ''B'') = ''B''" by code_simp+
  note up = up code_example_facts(5)
  have ne: "code_example \<noteq> []" using code_example_facts(2) by auto
  obtain t2 where rc: "read_choice bbs_example plugins_example s1 = (Some ''A'', s1\<lparr>s_term := t2\<rparr>)"
    and a2: "at_input (line_bytes code_example @ line_bytes ''B'') 0 t2"
  proof -
    have m: "menu_items (as_level (s_auth s1)) plugins_example = Some [(''LC'', ''Last Connections'')]"
      using s1(7) menus(1) by simp
    show ?thesis using read_choice_at [OF s1(1) [unfolded code_input_def] tl(1) _ s1(3) m, of bbs_example] that by auto
  qed
  define s2 where "s2 = touch (s1\<lparr>s_term := t2\<rparr>)"
  have a2': "at_input (line_bytes code_example @ line_bytes ''B'') 0 (s_term s2)" using a2 by (simp add: s2_def touch_def)
  obtain t3 where sp: "out (send (prompt_text (otp_prompt (s_auth s2) (w_users (s_world s2))))) s2 = (Some (), s2\<lparr>s_term := t3\<rparr>)"
    and a3: "at_input (line_bytes code_example @ line_bytes ''B'') 0 t3" using out_send_at(1) [OF a2'] by blast
  obtain t4 where rl: "out (readline 8 (Some False) (timeout_of bbs_example)) (s2\<lparr>s_term := t3\<rparr>) = (Some code_example, s2\<lparr>s_term := t4\<rparr>)"
    and a4: "at_input (line_bytes ''B'') 0 t4"
    using out_readline_at [of code_example "line_bytes ''B''" 0 "s2\<lparr>s_term := t3\<rparr>" 8] a3 tl code_example_facts(2) by auto
  define s4 where "s4 = s2\<lparr>s_term := t4\<rparr>"
  have s4: "s_auth s4 = s_auth s1" "w_users (s_world s4) = w_users (s_world s1)" "s_path s4 = LONG" "s_state s4 = ACTIVE"
    "now s4 = 1000" using s1 a4 by (simp_all add: s4_def s2_def touch_def now_def at_input_def)
  have ni: "\<not> is_authenticated (s_auth s2)"
    using s1 by (simp add: s2_def touch_def is_authenticated_def auth_level_order)
  obtain st5 db5 where v: "verify_otp (auth_of bbs_example) (now s4) code_example (s_auth s4) (w_users (s_world s4))
      = Some (True, Ok, st5, db5)" and st5: "as_level st5 = AUTHENTICATED"
  proof -
    have u: "get_by_callsign ''W1AW'' \<lparr>db_users = [user_example\<lparr>u_last_seen := Some 1000\<rparr>], db_next_id = 2\<rparr>
      = Some (user_example\<lparr>u_last_seen := Some 1000\<rparr>)" by code_simp
    have "hotp_search (the (u_totp_secret user_example)) code_example 0 [0, 1, 2] = Some (Some 0)"
      using code_example_facts(1) by simp
    moreover have "u_otp_type (user_example\<lparr>u_last_seen := Some 1000\<rparr>) = ''hotp''"
      "u_hotp_counter (user_example\<lparr>u_last_seen := Some 1000\<rparr>) = 0"
      by (simp_all add: user_example_def new_user_def)
    ultimately have m: "match_code (auth_of bbs_example) 1000 (user_example\<lparr>u_last_seen := Some 1000\<rparr>)
      (the (u_totp_secret user_example)) code_example = Some (True, Some 1)"
      unfolding match_code_def by (simp only: if_True refl option.map option.case add_0)
    have su: "u_totp_secret (user_example\<lparr>u_last_seen := Some 1000\<rparr>) = Some (the (u_totp_secret user_example))"
      "has_secret (user_example\<lparr>u_last_seen := Some 1000\<rparr>)" "\<not> is_locked 1000 (user_example\<lparr>u_last_seen := Some 1000\<rparr>)"
      by (simp_all add: user_example_def new_user_def has_secret_def is_locked_def)
    have "upper ''W1AW'' \<noteq> upper (ac_callsign (auth_of bbs_example))" by code_simp
    then have "upper (as_callsign (s_auth s4)) \<noteq> upper (ac_callsign (auth_of bbs_example))" using s1 s4 by simp
    moreover have "get_by_callsign (as_callsign (s_auth s4)) (w_users (s_world s4)) = Some (user_example\<lparr>u_last_seen := Some 1000\<rparr>)"
      using u s1 s4 by simp
    ultimately show ?thesis
      using verify_accepts [of "s_auth s4" "w_users (s_world s4)" _ 1000 _ code_example "auth_of bbs_example"]
        su m code_example_facts(2,3,5) s4(5) that by fastforce
  qed
  define s5 where "s5 = s4\<lparr>s_auth := st5, s_world := (s_world s4)\<lparr>w_users := db5\<rparr>\<rparr>"
  have sv: "session_verify bbs_example code_example s4 = (Some (True, Ok), s5)" using v by (simp add: session_verify_def s5_def)
  have a5: "at_input (line_bytes ''B'') 0 (s_term s5)" using a4 by (simp add: s5_def s4_def)
  obtain t6 where o6: "out (sendln (message_text Ok)) s5 = (Some (), s5\<lparr>s_term := t6\<rparr>)" and a6: "at_input (line_bytes ''B'') 0 t6"
    using out_send_at(2) [OF a5] by blast
  have a6': "at_input (line_bytes ''B'') 0 (s_term (s5\<lparr>s_term := t6\<rparr>))" using a6 by simp
  obtain t7 where o7: "out (\<lambda>t. sendln (ok_text t ''Access upgraded to:'' @ '' '' @ level_label (as_level st5)) t) (s5\<lparr>s_term := t6\<rparr>)
      = (Some (), s5\<lparr>s_term := t7\<rparr>)" and a7: "at_input (line_bytes ''B'') 0 t7"
    using out_send_at(3) [OF a6', of "\<lambda>t. ok_text t ''Access upgraded to:'' @ '' '' @ level_label (as_level st5)"] by auto
  define s7 where "s7 = s5\<lparr>s_term := t7\<rparr>"
  have s7: "s_auth s7 = st5" "s_path s7 = LONG" "s_state s7 = ACTIVE" "at_input (line_bytes ''B'') 0 (s_term s7)"
    "s_touched s7 = 0" using s4 a7 s1 a2 by (simp_all add: s7_def s5_def s4_def s2_def touch_def at_input_def)
  have oc: "auth_outcome (True, Ok) s5 = (Some (), s7)"
    using o6 o7 by (simp add: auth_outcome_def and_then_def s7_def) (simp add: s5_def)
  have "handle_auth bbs_example s2 = (Some (), s7)"
    using ni sp rl sv oc up(3) ne by (simp add: handle_auth_def and_then_def auth_code_def s4_def [symmetric])
  then have d: "dispatch_choice bbs_example plugins_example ''A'' s2 = Some (Some False, s7)"
    by (simp add: dispatch_choice_def and_then_def ret_def)
  obtain t8 where rc8: "read_choice bbs_example plugins_example s7 = (Some ''B'', s7\<lparr>s_term := t8\<rparr>)"
  proof -
    have m: "menu_items (as_level (s_auth s7)) plugins_example = Some [(''LC'', ''Last Connections'')]"
      using s7(1) st5 menus(2) by simp
    have "at_input (line_bytes ''B'' @ []) 0 (s_term s7)" using s7(4) by simp
    from read_choice_at [OF this tl(3) _ s7(2) m, of bbs_example] that show ?thesis by auto
  qed
  have idle: "\<not> idle_too_long bbs_example s1" "\<not> idle_too_long bbs_example s7"
    using s1(1) s7(4) by (simp_all add: idle_too_long_def idle_ms_def at_input_def bbs_example_def)
  define s9 where "s9 = touch (s7\<lparr>s_term := t8\<rparr>)"
  have "main_loop bbs_example plugins_example s7 = Some (Some (), s9)"
    using s7(3) idle(2) rc8 up(2) by (subst main_loop.simps) (simp add: dispatch_choice_def s9_def)
  then have "main_loop bbs_example plugins_example s1 = Some (Some (), s9)"
    using s1(2) idle(1) rc up(1) d by (subst main_loop.simps) (simp add: s2_def)
  then have "run_session bbs_example plugins_example (radio_example ''W1AW-7'' code_input)
      = Some ((farewell bbs_example s9)\<lparr>s_state := DISCONNECTED\<rparr>)"
    using lo by (simp add: run_session_def session_body_def)
  moreover have "s_auth (farewell bbs_example s9) = s_auth s9"
    by (auto simp: farewell_def Let_def out_def split: prod.split option.split)
  ultimately show ?thesis
    using s7(1) st5 by (simp add: s9_def touch_def is_authenticated_def auth_level_order)
qed




lemma example_calls: "callsign_only (strip (upper ''W1AW-7'')) = Some ''W1AW''" "callsign_only (strip (upper ''w1aw-3'')) = Some ''W1AW''"
  by code_simp+

lemma ssids_share_account_witness:
  "\<exists>s1' s2'. (let s1 = radio_example ''W1AW-7'' []; s2 = (radio_example ''w1aw-3'' [])\<lparr>s_world := s_world s1'\<rparr> in
     session_identify bbs_example s1 = (Some (), s1') \<and> session_identify bbs_example s2 = (Some (), s2')
     \<and> as_callsign (s_auth s1') = ''W1AW'' \<and> as_callsign (s_auth s2') = ''W1AW''
     \<and> as_user_id (s_auth s1') \<noteq> None \<and> as_user_id (s_auth s2') = as_user_id (s_auth s1')
     \<and> map u_id (db_users (w_users (s_world s2'))) = map u_id (db_users (w_users (s_world s1'))))"
proof -
  define s1 where "s1 = radio_example ''W1AW-7'' []"
  define s1' where "s1' = snd (session_identify bbs_example s1)"
  define s2 where "s2 = (radio_example ''w1aw-3'' [])\<lparr>s_world := s_world s1'\<rparr>"
  define s2' where "s2' = snd (session_identify bbs_example s2)"
  have 1: "session_identify bbs_example s1 = (Some (), s1')"
  proof -
    have "fst (session_identify bbs_example s1) = Some ()" unfolding s1_def by code_simp
    then show ?thesis by (simp add: s1'_def prod_eq_iff)
  qed
  have 2: "session_identify bbs_example s2 = (Some (), s2')"
  proof -
    have "fst (session_identify bbs_example s2) = Some ()" unfolding s2_def s1'_def s1_def by code_simp
    then show ?thesis by (simp add: s2'_def prod_eq_iff)
  qed
  have f: "is_ax25 (s_transport s1)" "is_ax25 (s_transport s2)"
    "callsign_only (strip (upper (s_addr s1))) = Some ''W1AW''" "callsign_only (strip (upper (s_addr s2))) = Some ''W1AW''"
    "w_users (s_world s2) = w_users (s_world s1')"
    using example_calls by (simp_all add: s1_def s2_def radio_example_def open_session_def is_ax25_def)
  show ?thesis
    using ssids_share_account [OF f(1,3) 1 f(2,4,5) 2] 1 2
    by (intro exI [of _ s1'] exI [of _ s2']) (simp add: Let_def s1_def [symmetric] s2_def [symmetric])
qed

definition banned_example :: session where
  "banned_example = (radio_example ''W1AW-7'' [])\<lparr>s_world := world_example\<lparr>w_users :=
     \<lparr>db_users = [user_example\<lparr>u_banned := True\<rparr>], db_next_id = 2\<rparr>\<rparr>\<rparr>"

lemma banned_user_gets_in_witness:
  "\<exists>s'. log_on bbs_example plugins_example banned_example = (Some True, s') \<and> s_state s' = ACTIVE
    \<and> as_level (s_auth s') = IDENTIFIED \<and> as_user_id (s_auth s') = Some 1"
proof -
  define s' where "s' = snd (log_on bbs_example plugins_example banned_example)"
  have "fst (log_on bbs_example plugins_example banned_example) = Some True" by code_simp
  then have l: "log_on bbs_example plugins_example banned_example = (Some True, s')"
    by (simp add: s'_def prod_eq_iff)
  have f: "is_ax25 (s_transport banned_example)" "callsign_only (strip (upper (s_addr banned_example))) = Some ''W1AW''"
    "s_state banned_example = CONNECTED"
    using example_calls by (simp_all add: banned_example_def radio_example_def open_session_def is_ax25_def)
  have a: "account ''W1AW'' banned_example = Some (user_example\<lparr>u_banned := True\<rparr>)"
    by (simp add: account_def select_callsign_def banned_example_def user_example_def new_user_def)
  have "u_id (user_example\<lparr>u_banned := True\<rparr>) = 1" by (simp add: user_example_def new_user_def)
  then show ?thesis using banned_user_gets_in [OF f a _ l] l by simp
qed

lemma menu_key_reaches_plugin_witness:
  "\<exists>p. p \<in> snd ` set plugins_example \<and> p_enabled p \<and> p_display p = ''Last Connections''
    \<and> (\<exists>l. level_named (p_level p) = Some l \<and> l \<le> IDENTIFIED)
    \<and> (\<forall>cfg s. dispatch_choice cfg plugins_example (upper ''lc'') s
        = map_option (\<lambda>(r, s'). (map_option (\<lambda>_. False) r, s')) (enter_plugin p s))"
proof (rule menu_key_reaches_plugin)
  show "menu_items IDENTIFIED plugins_example = Some [(''LC'', ''Last Connections'')]"
    by (simp add: menu_items_def plugins_example_def lastconn_plugin_def display_plugin_def level_named_def)
  show "distinct (live_keys plugins_example)"
    by (simp add: live_keys_def plugins_example_def lastconn_plugin_def display_plugin_def)
  show "upper ''LC'' \<notin> system_commands" by code_simp
  show "upper ''lc'' = upper ''LC''" by code_simp
qed simp

lemma blank_line_enters_headless_plugin_witness:
  "replicate 3 CHR 0x20 \<noteq> []
    \<and> dispatch_choice bbs_example plugins_example (upper (strip (replicate 3 CHR 0x20))) banned_example
        = map_option (\<lambda>(r, s'). (map_option (\<lambda>_. False) r, s')) (enter_plugin display_plugin banned_example)
    \<and> (menu_items SYSOP plugins_example = Some [] \<longrightarrow> [] \<notin> fst ` set ([] :: (string \<times> string) list))"
  by (rule blank_line_enters_headless_plugin)
    (simp_all add: get_by_key_def plugins_example_def lastconn_plugin_def display_plugin_def)

lemma info_editor_spins_at_eof_witness: "edit_message (radio_example ''W1AW-7'' []) = None"
  by (rule info_editor_spins_at_eof)
    (simp_all add: radio_example_def open_session_def terminal_init_def at_eof_def always_drains_def)


end
