(* ===== verification/Node_Properties.thy ===== *)
theory Node_Properties
  imports Node Session_Properties Access_Properties
begin

text \<open>
  Properties of the node shell, with their witnesses: the command table, the bridge, the slot a call
  holds, the gates before a call, and that the shell comes back.
\<close>

section \<open>Commands\<close>

text \<open>A command that keeps a relation between the shells before and after, and one that comes back.\<close>

definition keeps_cmd :: "(node \<Rightarrow> node \<Rightarrow> bool) \<Rightarrow> 'a cmd \<Rightarrow> bool" where
  "keeps_cmd R m \<longleftrightarrow> (\<forall>n r n'. m n = Some (r, n') \<longrightarrow> R n n')"

definition comes_back :: "'a cmd \<Rightarrow> bool" where
  "comes_back m \<longleftrightarrow> (\<forall>n. \<exists>r n'. m n = Some (r, n'))"

lemma keeps_cmdD: "keeps_cmd R m \<Longrightarrow> m n = Some (r, n') \<Longrightarrow> R n n'"
  by (simp add: keeps_cmd_def)

lemma keeps_cmdI: "(\<And>n r n'. m n = Some (r, n') \<Longrightarrow> R n n') \<Longrightarrow> keeps_cmd R m"
  by (simp add: keeps_cmd_def)

lemma then_do_cases:
  assumes "then_do m f n = Some (r, n')"
  obtains (stopped) "m n = Some (Raised, n') \<or> m n = Some (Cancelled, n')" and "r = Raised \<or> r = Cancelled"
  | (went_on) x n1 where "m n = Some (Returned x, n1)" and "f x n1 = Some (r, n')"
  using assms by (auto simp: then_do_def split: option.splits outcome.splits)

lemma term_do_cases:
  assumes "term_do m n = Some (r, n')"
  obtains (raised) "m (nd_term n) = None" and "r = Raised" and "n' = n"
  | (returned) x t where "m (nd_term n) = Some (x, t)" and "r = Returned x" and "n' = n\<lparr>nd_term := t\<rparr>"
  using assms by (auto simp: term_do_def split: option.splits)

locale command_relation =
  fixes R :: "node \<Rightarrow> node \<Rightarrow> bool"
  assumes refl: "R n n" and trans: "R n m \<Longrightarrow> R m k \<Longrightarrow> R n k"
    and on_term: "weight (t_in t) \<le> weight (t_in (nd_term n)) \<Longrightarrow> R n (n\<lparr>nd_term := t\<rparr>)"
begin

lemma keeps_result: "keeps_cmd R (result x)"
  by (simp add: keeps_cmd_def result_def refl)

lemma keeps_then_do:
  assumes "keeps_cmd R m" and "\<And>x. keeps_cmd R (f x)" shows "keeps_cmd R (then_do m f)"
  by (rule keeps_cmdI, erule then_do_cases) (use assms in \<open>auto dest: keeps_cmdD intro: trans\<close>)

lemma keeps_tell: "keeps_cmd R (tell s)"
  unfolding tell_def by (rule keeps_cmdI, erule term_do_cases) (auto simp: refl intro!: on_term dest: sendln_in)

lemma keeps_tell_all: "keeps_cmd R (tell_all ls)"
  by (induction ls) (auto intro: keeps_result keeps_then_do keeps_tell)

lemmas keeps_steps = keeps_result keeps_then_do keeps_tell keeps_tell_all

lemma said: "tell s n = Some (r, n') \<Longrightarrow> R n n'"
  by (rule keeps_cmdD [OF keeps_tell])

lemma said_all: "tell_all ls n = Some (r, n') \<Longrightarrow> R n n'"
  by (rule keeps_cmdD [OF keeps_tell_all])

lemma listed:
  "cmd_nodes arg n = Some (r, n') \<Longrightarrow> R n n'" "cmd_routes arg n = Some (r, n') \<Longrightarrow> R n n'"
  "cmd_users n = Some (r, n') \<Longrightarrow> R n n'" "cmd_info n = Some (r, n') \<Longrightarrow> R n n'"
  "cmd_mheard env n = Some (r, n') \<Longrightarrow> R n n'" "cmd_ports n = Some (r, n') \<Longrightarrow> R n n'"
  "cmd_help n = Some (r, n') \<Longrightarrow> R n n'" "send_banner n = Some (r, n') \<Longrightarrow> R n n'"
  by (auto simp: cmd_nodes_def cmd_routes_def cmd_users_def cmd_info_def cmd_mheard_def cmd_ports_def
      cmd_help_def send_banner_def send_columns_def Let_def simp del: tell_all.simps split: if_splits option.splits list.splits
      dest: said said_all)

lemma resumed: "resume n = Some (r, n') \<Longrightarrow> R n n'"
  by (auto simp: resume_def refl split: if_splits dest: said)

end

lemma comes_backD: "comes_back m \<Longrightarrow> \<exists>r n'. m n = Some (r, n')"
  by (simp add: comes_back_def)

lemma comes_back_result [simp]: "comes_back (result x)"
  by (simp add: comes_back_def result_def)

lemma comes_back_term_do [simp]: "comes_back (term_do io)"
  by (auto simp: comes_back_def term_do_def split: option.split)

lemma comes_back_tell [simp]: "comes_back (tell s)"
  by (simp add: tell_def)

lemma comes_back_then_do [simp]:
  assumes "comes_back m" and "\<And>x. comes_back (f x)" shows "comes_back (then_do m f)"
  unfolding comes_back_def
proof
  fix n
  obtain r n1 where "m n = Some (r, n1)" using comes_backD [OF assms(1)] by blast
  then show "\<exists>r n'. then_do m f n = Some (r, n')"
    using comes_backD [OF assms(2)] by (cases r) (auto simp: then_do_def)
qed

lemma comes_back_ensuring [simp]: "comes_back m \<Longrightarrow> comes_back (ensuring m fin)"
  by (fastforce simp: comes_back_def ensuring_def)

lemma comes_back_tell_all [simp]: "comes_back (tell_all ls)"
  by (induction ls) simp_all

lemma said_back: "\<exists>r n'. tell s n = Some (r, n')" "\<exists>r n'. tell_all ls n = Some (r, n')"
  by (rule comes_backD, simp)+

lemma resume_back [simp]: "comes_back resume"
  using said_back(1) by (auto simp: comes_back_def resume_def)

text \<open>The shell's books: what only a call changes.\<close>

definition same_books :: "node \<Rightarrow> node \<Rightarrow> bool" where
  "same_books n n' \<longleftrightarrow> nd_guard n' = nd_guard n \<and> nd_user_call n' = nd_user_call n
     \<and> nd_active_gateways n' = nd_active_gateways n \<and> nd_target n' = nd_target n
     \<and> nd_dialled n' = nd_dialled n \<and> nd_open n' = nd_open n"

interpretation books: command_relation same_books
  by unfold_locales (auto simp: same_books_def)

text \<open>The input only shrinks.\<close>

definition node_shrinks :: "node \<Rightarrow> node \<Rightarrow> bool" where
  "node_shrinks n n' \<longleftrightarrow> weight (t_in (nd_term n')) \<le> weight (t_in (nd_term n))"

interpretation shrink: command_relation node_shrinks
  by unfold_locales (auto simp: node_shrinks_def)

section \<open>The command table\<close>

text \<open>The verbs each command answers to: its unambiguous prefixes and its aliases.\<close>

fun abbreviations :: "node_command \<Rightarrow> string list" where
  "abbreviations CONNECT = [''C'', ''CO'', ''CON'', ''CONN'', ''CONNE'', ''CONNEC'', ''CONNECT'']"
| "abbreviations BBS = [''BB'', ''BBS'']"
| "abbreviations NODES = [''N'', ''NO'', ''NOD'', ''NODE'', ''NODES'']"
| "abbreviations ROUTES = [''R'', ''RO'', ''ROU'', ''ROUT'', ''ROUTE'', ''ROUTES'']"
| "abbreviations USERS = [''U'', ''US'', ''USE'', ''USER'', ''USERS'']"
| "abbreviations INFO = [''I'', ''IN'', ''INF'', ''INFO'']"
| "abbreviations MHEARD = [''M'', ''MH'', ''MHE'', ''MHEA'', ''MHEAR'', ''MHEARD'']"
| "abbreviations PORTS = [''P'', ''PO'', ''POR'', ''PORT'', ''PORTS'']"
| "abbreviations BYE = [''B'', ''BY'', ''BYE'', ''Q'', ''QUIT'']"
| "abbreviations HELP = [''H'', ''HE'', ''HEL'', ''HELP'', ''?'']"

definition all_commands :: "node_command list" where
  "all_commands = [CONNECT, BBS, NODES, ROUTES, USERS, INFO, MHEARD, PORTS, BYE, HELP]"

lemma all_commands [simp]: "c \<in> set all_commands"
  by (cases c) (simp_all add: all_commands_def)

text \<open>What a verb in capitals means.\<close>

definition resolve_up :: "string \<Rightarrow> node_command option" where
  "resolve_up verb = (case map_of ALIASES verb of
        Some full \<Rightarrow> map_option (\<lambda>c. fst (snd c)) (find (\<lambda>c. fst c = full) COMMANDS)
      | None \<Rightarrow> (case filter (\<lambda>c. starts_with (fst c) verb) COMMANDS of
            [c] \<Rightarrow> Some (fst (snd c)) | _ \<Rightarrow> None))"

lemma resolve_upper: "resolve_verb s = resolve_up (upper s)"
  by (simp add: resolve_verb_def resolve_up_def Let_def)

lemma starts_with_prefixes: "starts_with s v \<Longrightarrow> v \<in> set (map (\<lambda>i. take i s) [0..<Suc (length s)])"
proof -
  assume "starts_with s v"
  then have v: "take (length v) s = v" by (simp add: starts_with_def)
  then have "length v \<le> length s" by (metis length_take min.cobounded1)
  then have "length v \<in> set [0..<Suc (length s)]" by (simp add: less_Suc_eq_le del: upt_Suc)
  with v show ?thesis unfolding set_map by (metis imageI)
qed

definition verbs :: "string list" where
  "verbs = map fst ALIASES @ concat (map (\<lambda>c. map (\<lambda>i. take i (fst c)) [0..<Suc (length (fst c))]) COMMANDS)"

lemma verbs_of_resolve_up: "resolve_up v = Some c \<Longrightarrow> v \<in> set verbs"
proof -
  assume r: "resolve_up v = Some c"
  show "v \<in> set verbs"
  proof (cases "map_of ALIASES v")
    case None
    with r obtain d where "filter (\<lambda>c. starts_with (fst c) v) COMMANDS = [d]"
      by (auto simp: resolve_up_def split: list.splits)
    then have "d \<in> set (filter (\<lambda>c. starts_with (fst c) v) COMMANDS)" by simp
    then have "d \<in> set COMMANDS" "starts_with (fst d) v" by simp_all
    with starts_with_prefixes [of "fst d" v] show ?thesis by (auto simp: verbs_def)
  next
    case (Some f)
    then have "v \<in> fst ` set ALIASES" by (metis domI dom_map_of_conv_image_fst)
    then show ?thesis by (auto simp: verbs_def)
  qed
qed

lemma verbs_resolve:
  "list_all (\<lambda>v. list_all (\<lambda>c. (resolve_up v = Some c) = (v \<in> set (abbreviations c))) all_commands) verbs"
  by code_simp

lemma abbreviations_verbs: "list_all (\<lambda>c. list_all (\<lambda>v. v \<in> set verbs) (abbreviations c)) all_commands"
  by code_simp

text \<open>
  The shell understands exactly these verbs, in either case: every name by all of its unambiguous
  prefixes, and the aliases, of which B is BYE although two names begin with it; no verb names two commands.
\<close>

theorem resolve_abbreviations: "resolve_verb s = Some c \<longleftrightarrow> upper s \<in> set (abbreviations c)"
proof -
  have known: "(resolve_up v = Some c) = (v \<in> set (abbreviations c))" if "v \<in> set verbs" for v
    using verbs_resolve that all_commands [of c] by (simp only: list_all_iff)
  moreover have "v \<in> set verbs" if "v \<in> set (abbreviations c)" for v
    using abbreviations_verbs that all_commands [of c] by (simp only: list_all_iff)
  ultimately show ?thesis unfolding resolve_upper by (metis verbs_of_resolve_up)
qed

section \<open>The bridge and the books\<close>

lemma weight_pass: "weight (pass d i) \<le> weight i"
proof (induction d i rule: pass.induct)
  case (3 d w i)
  show ?case
  proof (cases "w \<le> d")
    case True
    from "3.IH" [OF this] True show ?thesis by simp
  qed simp
qed simp_all

lemma elapse_books: "same_books n (elapse d n)" and elapse_shrinks: "node_shrinks n (elapse d n)"
  by (simp_all add: same_books_def node_shrinks_def elapse_def weight_pass)

lemma weight_drop: "weight (drop k i) \<le> weight i"
proof -
  have "weight i = weight (take k i) + weight (drop k i)" by (metis append_take_drop_id weight_append)
  then show ?thesis by simp
qed

lemma forward_lines_books:
  assumes "forward_lines d p n = (over, p', n')"
  shows "same_books n n'" and "node_shrinks n n'"
  using assms by (auto simp: forward_lines_def same_books_def node_shrinks_def far_write_def split: if_splits)

lemma touch_books: "same_books n (node_touch n)" and touch_shrinks: "node_shrinks n (node_touch n)"
  by (simp_all add: same_books_def node_shrinks_def node_touch_def)

lemma user_write_books: "same_books n (user_write d n)" and user_write_shrinks: "node_shrinks n (user_write d n)"
  by (simp_all add: same_books_def node_shrinks_def user_write_def)

lemma user_turn_cases:
  assumes "user_turn e d p n = (over, p', n')"
  obtains (ended) "t_in (nd_term n) = []" and "over = Some Near_done" and "p' = []"
      and "n' = (if p = [] then n else far_write (to_far p) n)"
  | (silent) w i where "t_in (nd_term n) = Silence w # i" and "over = None" and "p' = p" and "n' = n"
  | (broken) b i data n1 where "t_in (nd_term n) = Byte b # i" and "user_read n = (data, n1)" and "nd_echo_local n1" and "\<not> e"
      and "over = Some Near_done" and "p' = p" and "n' = echo data n1"
  | (read) b i data n1 where "t_in (nd_term n) = Byte b # i" and "user_read n = (data, n1)"
      and "forward_lines d (p @ data) (echo data n1) = (over, p', n')"
proof (cases "t_in (nd_term n)")
  case Nil
  show ?thesis by (rule ended) (use assms Nil in \<open>simp_all add: user_turn_def\<close>)
next
  case (Cons a i)
  show ?thesis
  proof (cases a)
    case (Silence w)
    show ?thesis by (rule silent) (use Cons Silence assms in \<open>simp_all add: user_turn_def\<close>)
  next
    case (Byte b)
    obtain data n1 where r: "user_read n = (data, n1)" by fastforce
    have t: "(if nd_echo_local n1 \<and> \<not> e then (Some Near_done, p, echo data n1)
        else forward_lines d (p @ data) (echo data n1)) = (over, p', n')"
      using assms Cons Byte r by (simp add: user_turn_def)
    have b: "t_in (nd_term n) = Byte b # i" using Cons Byte by simp
    show ?thesis
    proof (cases "nd_echo_local n1 \<and> \<not> e")
      case True
      with t show ?thesis by (intro broken [OF b r]) simp_all
    next
      case False
      with t show ?thesis by (intro read [OF b r]) simp
    qed
  qed
qed

lemma user_read_books: "user_read n = (data, n1) \<Longrightarrow> same_books n n1 \<and> node_shrinks n n1"
  by (auto simp: user_read_def Let_def same_books_def node_shrinks_def node_touch_def weight_drop)

lemma echo_books: "same_books n (echo data n)" and echo_shrinks: "node_shrinks n (echo data n)"
  by (simp_all add: echo_def user_write_books user_write_shrinks books.refl shrink.refl)

lemma user_turn_books:
  assumes "user_turn e d p n = (over, p', n')"
  shows "same_books n n' \<and> node_shrinks n n'"
  using assms
proof (cases rule: user_turn_cases)
  case (read b i data n1)
  with user_read_books [OF read(2)] echo_books [of n1 data] echo_shrinks [of n1 data] forward_lines_books [OF read(3)]
  show ?thesis by (blast intro: books.trans shrink.trans)
next
  case (broken b i data n1)
  with user_read_books [OF broken(2)] echo_books [of n1 data] echo_shrinks [of n1 data]
  show ?thesis by (blast intro: books.trans shrink.trans)
qed (auto simp: same_books_def node_shrinks_def far_write_def)

lemma bridge_turn_books:
  assumes "bridge_turn e p n = (over, p', n')"
  shows "same_books n n'" and "node_shrinks n n'"
proof -
  have "same_books n n' \<and> node_shrinks n n'"
  proof (cases e)
    case (User_turn e d)
    with assms user_turn_books show ?thesis by simp
  next
    case (Far_turn data d)
    with assms show ?thesis
      by (auto simp: far_turn_def node_touch_def user_write_def same_books_def node_shrinks_def split: if_splits)
  qed (use assms elapse_books elapse_shrinks in \<open>auto simp: books.refl shrink.refl\<close>)
  then show "same_books n n'" and "node_shrinks n n'" by simp_all
qed

lemma pumps_books:
  "pumps es p n = Some (over, n') \<Longrightarrow> same_books n n' \<and> node_shrinks n n'"
proof (induction es arbitrary: p n)
  case (Cons e es)
  obtain x p1 n1 where t: "bridge_turn e p n = (x, p1, n1)" by (cases "bridge_turn e p n")
  note k = bridge_turn_books [OF t]
  show ?case
  proof (cases x)
    case None
    with Cons.prems t have "pumps es p1 n1 = Some (over, n')" by simp
    from Cons.IH [OF this] k show ?thesis by (blast intro: books.trans shrink.trans)
  qed (use Cons.prems t k in simp)
qed simp

lemma bridge_books:
  assumes "bridge es dest n = Some (r, n')"
  shows "\<exists>m. same_books n m \<and> node_shrinks n m \<and> n' = close_circuit dest m"
  using assms by (auto simp: bridge_def ensuring_def dest: pumps_books)

text \<open>The books of a call: what the dialling between taking and freeing the slot may change.\<close>

definition call_books :: "env \<Rightarrow> callsign \<Rightarrow> callsign \<Rightarrow> node \<Rightarrow> node \<Rightarrow> bool" where
  "call_books env dest neighbor n n' \<longleftrightarrow>
     nd_user_call n' = nd_user_call n \<and> nd_active_gateways n' = nd_active_gateways n
     \<and> (nd_guard n' = nd_guard n \<or> (\<exists>m. nd_guard n' = fc_others (ev_far env m) (nd_guard n)))
     \<and> (nd_dialled n' = nd_dialled n \<or> nd_dialled n' = nd_dialled n @ [(dest, neighbor, nd_user_call n)])
     \<and> node_shrinks n n'"

lemma tell_result_books:
  assumes "then_do (tell s) (\<lambda>_. result x) n = Some (r, n')"
  shows "same_books n n' \<and> node_shrinks n n'"
  using assms by (auto elim!: then_do_cases simp: result_def dest: books.said shrink.said)

lemma hang_on_books:
  assumes "hang_on c alias dest n = Some (r, n')"
  shows "nd_guard n' = nd_guard n \<and> nd_user_call n' = nd_user_call n \<and> nd_dialled n' = nd_dialled n
    \<and> nd_active_gateways n' = nd_active_gateways n \<and> node_shrinks n n'"
proof -
  have b: ?thesis if "same_books n n1" "node_shrinks n n1" "n' = n1 \<or> (\<exists>m. same_books n1 m \<and> node_shrinks n1 m \<and> n' = close_circuit dest m)" for n1
    using that by (auto simp: same_books_def close_circuit_def node_shrinks_def)
  from assms show ?thesis unfolding hang_on_def
  proof (cases rule: then_do_cases)
    case stopped
    then show ?thesis by (intro b [of n']) (auto dest: books.said shrink.said)
  next
    case (went_on x n1)
    then obtain r2 where "bridge (fc_turns c) dest n1 = Some (r2, n')"
      by (auto elim!: then_do_cases simp: result_def)
    from bridge_books [OF this] show ?thesis
      by (intro b [of n1]) (use went_on(1) in \<open>auto dest: books.said shrink.said\<close>)
  qed
qed

lemma originate_books:
  assumes "originate c alias dest neighbor n = Some (r, n')"
  shows "nd_guard n' = nd_guard n" and "nd_user_call n' = nd_user_call n"
    and "nd_dialled n' = nd_dialled n @ [(dest, neighbor, nd_user_call n)]"
    and "nd_active_gateways n' = nd_active_gateways n" and "node_shrinks n n'"
proof -
  define n1 where "n1 = elapse (fc_answer_ms c) (n\<lparr>nd_dialled := nd_dialled n @ [(dest, neighbor, nd_user_call n)]\<rparr>)"
  have n1: "nd_guard n1 = nd_guard n" "nd_user_call n1 = nd_user_call n"
    "nd_dialled n1 = nd_dialled n @ [(dest, neighbor, nd_user_call n)]"
    "nd_active_gateways n1 = nd_active_gateways n" "node_shrinks n n1"
    by (simp_all add: n1_def elapse_def node_shrinks_def weight_pass)
  note d = assms [unfolded originate_def Let_def, folded n1_def]
  have "nd_guard n' = nd_guard n1 \<and> nd_user_call n' = nd_user_call n1 \<and> nd_dialled n' = nd_dialled n1
      \<and> nd_active_gateways n' = nd_active_gateways n1 \<and> node_shrinks n1 n'"
  proof (cases "fc_answer c")
    case Answered
    with d have "hang_on c alias dest (n1\<lparr>nd_open := nd_open n1 @ [dest]\<rparr>) = Some (r, n')" by simp
    from hang_on_books [OF this] show ?thesis by (simp add: node_shrinks_def)
  qed (use d in \<open>auto simp: same_books_def shrink.refl dest: tell_result_books\<close>)
  with n1 show "nd_guard n' = nd_guard n" and "nd_user_call n' = nd_user_call n"
    and "nd_dialled n' = nd_dialled n @ [(dest, neighbor, nd_user_call n)]"
    and "nd_active_gateways n' = nd_active_gateways n" and "node_shrinks n n'"
    by (simp_all add: shrink.trans [of n n1])
qed

lemma dial_books:
  assumes "dial env alias dest neighbor n = Some (r, n')"
  shows "call_books env dest neighbor n n'"
proof -
  from assms show ?thesis unfolding dial_def
  proof (cases rule: then_do_cases)
    case stopped
    then show ?thesis by (auto simp: call_books_def dest: books.said shrink.said simp: same_books_def)
  next
    case (went_on x n0)
    have s: "same_books n n0" "node_shrinks n n0" using went_on(1) by (auto dest: books.said shrink.said)
    define c where "c = ev_far env n0"
    define n1 where "n1 = elapse (fc_link_ms c) (n0\<lparr>nd_guard := fc_others c (nd_guard n0)\<rparr>)"
    have n1: "nd_guard n1 = fc_others c (nd_guard n)" "nd_user_call n1 = nd_user_call n"
      "nd_dialled n1 = nd_dialled n" "nd_active_gateways n1 = nd_active_gateways n" "node_shrinks n n1"
      using s by (simp_all add: n1_def elapse_def same_books_def node_shrinks_def order_trans [OF weight_pass])
    have c: "call_books env dest neighbor n m" if "nd_guard m = nd_guard n1" "nd_user_call m = nd_user_call n1"
      "nd_dialled m = nd_dialled n1 \<or> nd_dialled m = nd_dialled n1 @ [(dest, neighbor, nd_user_call n1)]"
      "nd_active_gateways m = nd_active_gateways n1" "node_shrinks n1 m" for m
      using that n1 shrink.trans [of n n1 m] by (auto simp: call_books_def c_def)
    note d = went_on(2) [unfolded Let_def, folded c_def, folded n1_def]
    show ?thesis
    proof (cases "fc_link c")
      case Link_up
      with d have "originate c alias dest neighbor n1 = Some (r, n')" by simp
      from originate_books [OF this] show ?thesis by (intro c) simp_all
    qed (rule c; use d in \<open>auto simp: same_books_def shrink.refl dest: tell_result_books\<close>)+
  qed
qed

section \<open>A call and its slot\<close>

lemma resumed_books: "resume n = Some (r, n') \<Longrightarrow> same_books n n' \<and> node_shrinks n n'"
  by (simp add: books.resumed shrink.resumed)

lemma keepalive_books: "same_books n (keepalive start n)" and keepalive_in: "nd_term (keepalive start n) = nd_term n"
  by (simp_all add: keepalive_def same_books_def Let_def)

lemma local_app_books:
  assumes "run_local_app env name n = Some (r, n')"
  shows "same_books n n'"
proof -
  from assms obtain x t where a: "ev_app env name (nd_term n) = Some (x, t)"
    by (auto simp: run_local_app_def split: option.splits)
  define m where "m = keepalive (t_clock (nd_term n)) (n\<lparr>nd_term := (nd_term n)\<lparr>t_in := t_in t, t_clock := t_clock t, t_sent := t_sent t\<rparr>\<rparr>)"
  have m: "same_books n m"
    unfolding m_def by (rule books.trans [OF _ keepalive_books]) (simp add: same_books_def)
  have "same_books m n'"
  proof (cases x)
    case (Returned u)
    have "at_eof (nd_term (node_touch m)) \<and> n' = (node_touch m)\<lparr>nd_running := False\<rparr> \<or> resume (node_touch m) = Some (r, n')"
      using assms a Returned unfolding run_local_app_def by (simp add: m_def [symmetric] Let_def split: if_splits)
    then show ?thesis
      using touch_books [of m] books.trans [OF touch_books [of m] books.resumed, of r n'] by (auto simp: same_books_def)
  next
    case Raised
    then have "tell (name @ '' not available.'') m = Some (r, n')"
      using assms a unfolding run_local_app_def by (simp add: m_def [symmetric] Let_def)
    then show ?thesis by (rule books.said)
  next
    case Cancelled
    then show ?thesis using assms a unfolding run_local_app_def by (simp add: m_def [symmetric] Let_def books.refl)
  qed
  with m show ?thesis by (rule books.trans)
qed

lemma connect_cases:
  assumes "cmd_connect env arg n = Some (r, n')"
  obtains (no_call) "same_books n n'"
  | (call) route name neighbor where "nd_may_connect n" and "get_route (nd_router n) (first_word arg) = Some route"
      and "upper (re_dest_call route) \<noteq> nd_node_call n"
      and "best_neighbor_for (node_now n) (nd_router n) (first_word arg) (nd_min_quality n) = Some neighbor"
      and "gated_call env name (upper (re_dest_call route)) neighbor n = Some (r, n')"
  using assms unfolding cmd_connect_def Let_def
  by (auto split: if_splits option.splits dest: books.said local_app_books)

lemma gated_call_cases:
  assumes "gated_call env alias dest neighbor n = Some (r, n')"
  obtains (refused) g why where
      "check (node_now n) (nd_user_call n) (nd_level n) neighbor (nd_arrival_via n) (nd_guard n) = (g, fst why)"
      and "same_books (n\<lparr>nd_guard := note_refusal (node_now n) (nd_user_call n) (snd why) dest g\<rparr>) n'" and "node_shrinks n n'"
      and "fst why = None \<longrightarrow> \<not> snd (acquire (node_now n) (nd_user_call n) g)"
  | (call) g g' r1 n1 where
      "check (node_now n) (nd_user_call n) (nd_level n) neighbor (nd_arrival_via n) (nd_guard n) = (g, None)"
      and "acquire (node_now n) (nd_user_call n) g = (g', True)"
      and "call_books env dest neighbor (take_slot alias g' n) n1"
      and "dial env alias dest neighbor (take_slot alias g' n) = Some (r1, n1)"
      and "same_books (free_slot n1) n' \<and> node_shrinks (free_slot n1) n'"
proof -
  let ?ck = "check (node_now n) (nd_user_call n) (nd_level n) neighbor (nd_arrival_via n) (nd_guard n)"
  obtain g x where c: "?ck = (g, x)" by fastforce
  show ?thesis
  proof (cases x)
    case (Some gate)
    with assms c have "tell (gate_text gate) (n\<lparr>nd_guard := note_refusal (node_now n) (nd_user_call n) (gate_text gate) dest g\<rparr>) = Some (r, n')"
      by (simp add: gated_call_def Let_def)
    from books.said [OF this] shrink.said [OF this] show ?thesis
      by (intro refused [of g "(x, gate_text gate)"]) (simp_all add: c Some node_shrinks_def)
  next
    case None
    obtain g' ok where a: "acquire (node_now n) (nd_user_call n) g = (g', ok)" by fastforce
    show ?thesis
    proof (cases ok)
      case False
      define why where "why = ''Node busy '' @ emdash @ '' circuit cap''"
      from assms c None a False have "tell busy_text (n\<lparr>nd_guard := note_refusal (node_now n) (nd_user_call n) why dest g'\<rparr>) = Some (r, n')"
        by (simp add: gated_call_def Let_def why_def)
      moreover have "g' = g" using a False acquire_refused by simp
      ultimately show ?thesis using books.said shrink.said
        by (intro refused [of g "(x, why)"]) (fastforce simp: c a False node_shrinks_def)+
    next
      case True
      with assms c None a have t: "then_do (ensuring (dial env alias dest neighbor) free_slot) after_call (take_slot alias g' n) = Some (r, n')"
        by (simp add: gated_call_def Let_def)
      then obtain r1 n1 where d: "dial env alias dest neighbor (take_slot alias g' n) = Some (r1, n1)"
        by (auto simp: then_do_def ensuring_def split: option.splits)
      have "same_books (free_slot n1) n' \<and> node_shrinks (free_slot n1) n'"
        using t d
        by (auto simp: then_do_def ensuring_def after_call_def books.refl shrink.refl resumed_books
            split: option.splits outcome.splits if_splits) (auto simp: same_books_def node_shrinks_def)
      with c None a True d show ?thesis by (intro call [of g g' n1 r1]) (simp_all add: dial_books)
    qed
  qed
qed

lemma gateway_inv_refusal:
  assumes "gateway_inv \<lparr>gw_guard = g, gw_held = held\<rparr>"
  shows "gateway_inv \<lparr>gw_guard = note_refusal ts u why dest g, gw_held = held\<rparr>"
  using gateway_inv_step [OF assms, of "Refused ts u why dest"] by (simp add: gateway_step_def)

lemma gateway_inv_check:
  assumes "gateway_inv \<lparr>gw_guard = g, gw_held = held\<rparr>" and "check ts u lv nb via g = (g', x)"
  shows "gateway_inv \<lparr>gw_guard = g', gw_held = held\<rparr>"
  using assms gateway_inv_guard [OF assms(1), of g'] check_fields [OF assms(2)] by (simp add: gateway_inv_def)

lemma gateway_inv_acquire:
  assumes "gateway_inv \<lparr>gw_guard = g, gw_held = held\<rparr>" and "acquire ts u g = (g', True)"
  shows "gateway_inv \<lparr>gw_guard = g', gw_held = u # held\<rparr>"
  using acquire_held [OF assms(1), of ts u g'] assms(2) by simp

lemma gateway_inv_release:
  assumes "gateway_inv \<lparr>gw_guard = g, gw_held = u # held\<rparr>"
  shows "gateway_inv \<lparr>gw_guard = release u g, gw_held = held\<rparr>"
  using release_held [OF assms, of u] by simp

lemma gateway_inv_total: "gateway_inv \<lparr>gw_guard = g, gw_held = held\<rparr> \<Longrightarrow> gg_active_total g = int (length held)"
  by (simp add: gateway_inv_def)

text \<open>
  C15. A CONNECT frees the slot it took, however it ends: with the far end's or the user's going, with a
  refusal, a link that fails, a timeout, a send that raises or the watchdog's cancellation. With the slots the
  sessions hold as the list \<open>held\<close>, and \<open>during\<close> the slots of the others after what they did during the
  call, the guard's counters count exactly \<open>held\<close> again, or \<open>during\<close>.
\<close>

theorem connect_frees_slot:
  assumes "gateway_inv \<lparr>gw_guard = nd_guard n, gw_held = held\<rparr>"
    and "\<And>m g. gateway_inv \<lparr>gw_guard = g, gw_held = nd_user_call n # held\<rparr>
      \<Longrightarrow> gateway_inv \<lparr>gw_guard = fc_others (ev_far env m) g, gw_held = nd_user_call n # during\<rparr>"
    and "cmd_connect env arg n = Some (r, n')"
  shows "(\<exists>slots \<in> {held, during}. gateway_inv \<lparr>gw_guard = nd_guard n', gw_held = slots\<rparr>
      \<and> gg_active_total (nd_guard n') = int (length slots))
    \<and> nd_active_gateways n' = nd_active_gateways n"
proof -
  have freed: ?thesis if "gateway_inv \<lparr>gw_guard = nd_guard n', gw_held = slots\<rparr>" "slots \<in> {held, during}"
    "nd_active_gateways n' = nd_active_gateways n" for slots
    using that gateway_inv_total by blast
  from assms(3) show ?thesis
  proof (cases rule: connect_cases)
    case no_call
    with assms(1) show ?thesis by (intro freed [of held]) (simp_all add: same_books_def)
  next
    case (call route name neighbor)
    from call(5) show ?thesis
    proof (cases rule: gated_call_cases)
      case (refused g why)
      with gateway_inv_refusal [OF gateway_inv_check [OF assms(1) refused(1)]] show ?thesis
        by (intro freed [of held]) (auto simp: same_books_def)
    next
      case (call g g' r1 n1)
      have slot: "gateway_inv \<lparr>gw_guard = g', gw_held = nd_user_call n # held\<rparr>"
        by (rule gateway_inv_acquire [OF gateway_inv_check [OF assms(1) call(1)] call(2)])
      have n1: "nd_user_call n1 = nd_user_call n" "nd_active_gateways n1 = nd_active_gateways n + 1"
        "nd_guard n1 = g' \<or> (\<exists>m. nd_guard n1 = fc_others (ev_far env m) g')"
        using call(3) by (auto simp: call_books_def take_slot_def)
      have "nd_guard n' = release (nd_user_call n) (nd_guard n1)" "nd_active_gateways n' = nd_active_gateways n"
        using call(5) n1 by (simp_all add: same_books_def free_slot_def)
      with n1(3) gateway_inv_release [OF slot] gateway_inv_release [OF assms(2) [OF slot]] show ?thesis
        using freed [of held] freed [of during] by auto
    qed
  qed
qed

text \<open>
  C16. No circuit is asked for past the gates: when a CONNECT makes a call, the user may connect out, the node
  asked for is known and is not this one, the call goes to the neighbour the router chose for it, the user
  is on no deny list, on the allow list if there is one, at the level required, is not sent back over
  the link he came by, and was under both caps when he called. One CONNECT makes at most one call.
\<close>

theorem calls_pass_the_gates:
  assumes "cmd_connect env arg n = Some (r, n')" and "nd_dialled n' \<noteq> nd_dialled n"
  defines "p \<equiv> gg_policy (nd_guard n)" and "u \<equiv> nd_user_call n"
  shows "\<exists>route neighbor. nd_dialled n' = nd_dialled n @ [(upper (re_dest_call route), neighbor, u)]
    \<and> nd_may_connect n \<and> get_route (nd_router n) (first_word arg) = Some route
    \<and> upper (re_dest_call route) \<noteq> nd_node_call n
    \<and> best_neighbor_for (node_now n) (nd_router n) (first_word arg) (nd_min_quality n) = Some neighbor
    \<and> norm u \<notin> gp_deny p \<and> base u \<notin> gp_deny p
    \<and> (gp_allow p = {} \<or> norm u \<in> gp_allow p \<or> base u \<in> gp_allow p)
    \<and> gp_min_auth p \<le> (case nd_level n of Some l \<Rightarrow> l | None \<Rightarrow> IDENTIFIED)
    \<and> (gp_interlock p \<longrightarrow> nd_arrival_via n = [] \<or> norm neighbor \<noteq> norm (nd_arrival_via n))
    \<and> gg_active_total (nd_guard n) < gp_max_circuits p \<and> active_for u (nd_guard n) < gp_max_circuits_per_user p"
  using assms(1)
proof (cases rule: connect_cases)
  case no_call
  with assms(2) show ?thesis by (simp add: same_books_def)
next
  case (call route name neighbor)
  note via = call(1-4)
  from call(5) show ?thesis
  proof (cases rule: gated_call_cases)
    case (refused g why)
    with assms(2) show ?thesis by (simp add: same_books_def)
  next
    case (call g g' r1 n1)
    have "nd_dialled n' = nd_dialled n1" using call(5) by (simp add: same_books_def free_slot_def)
    with call(3) assms(2) have d: "nd_dialled n' = nd_dialled n @ [(upper (re_dest_call route), neighbor, u)]"
      by (auto simp: call_books_def take_slot_def u_def)
    have "gg_active_total (nd_guard n) < gp_max_circuits p" "active_for u (nd_guard n) < gp_max_circuits_per_user p"
      using call(2) check_fields [OF call(1)]
      by (auto simp: acquire_def Let_def active_for_def p_def u_def split: if_splits)
    with d via check_admits_only_permitted [OF call(1)] show ?thesis by (auto simp: p_def u_def)
  qed
qed

section \<open>The shell ends\<close>

text \<open>
  What the shell waits for: an application returns, with no more input than it was given; the network
  comes to an end of each call, by the far end's going or a cancellation.
\<close>

definition app_returns :: "(terminal \<Rightarrow> (unit outcome \<times> terminal) option) \<Rightarrow> bool" where
  "app_returns run_app \<longleftrightarrow> (\<forall>t. \<exists>r t'. run_app t = Some (r, t') \<and> weight (t_in t') \<le> weight (t_in t))"

definition call_ends :: "far_call \<Rightarrow> bool" where
  "call_ends c \<longleftrightarrow> Bridge_cancelled \<in> set (fc_turns c) \<or> (\<exists>d. Far_turn [] d \<in> set (fc_turns c))"

definition env_returns :: "env \<Rightarrow> bool" where
  "env_returns env \<longleftrightarrow> (\<forall>name. app_returns (ev_app env name)) \<and> (\<forall>n. call_ends (ev_far env n))"

lemma pumps_end:
  assumes "Bridge_cancelled \<in> set es \<or> (\<exists>d. Far_turn [] d \<in> set es)"
  shows "\<exists>over n'. pumps es p n = Some (over, n')"
  using assms
proof (induction es arbitrary: p n)
  case (Cons e es)
  obtain x p1 n1 where t: "bridge_turn e p n = (x, p1, n1)" by (cases "bridge_turn e p n")
  show ?case
  proof (cases x)
    case None
    then have "Bridge_cancelled \<in> set es \<or> (\<exists>d. Far_turn [] d \<in> set es)"
      using Cons.prems t by (auto simp: far_turn_def)
    from Cons.IH [OF this] t None show ?thesis by simp
  qed (simp add: t)
qed simp

lemma bridge_back: "call_ends c \<Longrightarrow> comes_back (bridge (fc_turns c) dest)"
  unfolding bridge_def
  by (rule comes_back_ensuring) (use pumps_end in \<open>fastforce simp: comes_back_def call_ends_def\<close>)

lemma hang_on_back: "call_ends c \<Longrightarrow> comes_back (hang_on c name dest)"
  unfolding hang_on_def by (simp add: bridge_back)

lemma tell_result_back: "\<exists>r n'. then_do (tell s) (\<lambda>_. result x) n = Some (r, n')"
  by (rule comes_backD) simp

lemma originate_back: "call_ends c \<Longrightarrow> comes_back (originate c name dest neighbor)"
  using comes_backD [OF hang_on_back] tell_result_back
  by (auto simp: comes_back_def originate_def Let_def split: answer.split)

lemma dial_back: "env_returns env \<Longrightarrow> comes_back (dial env name dest neighbor)"
  unfolding dial_def
proof (rule comes_back_then_do)
  fix x :: unit
  assume "env_returns env"
  then have "comes_back (originate (ev_far env n) name dest neighbor)" for n
    by (auto simp: env_returns_def intro: originate_back)
  then show "comes_back (\<lambda>n. let c = ev_far env n;
           n = elapse (fc_link_ms c) (n\<lparr>nd_guard := fc_others c (nd_guard n)\<rparr>);
           failed = (\<lambda>s. then_do (tell s) (\<lambda>_. result None) n) in
       case fc_link c of
         Link_failed \<Rightarrow> failed (''Link to '' @ neighbor @ '' failed.'')
       | Link_none \<Rightarrow> failed ''No crosslink transport available.''
       | Link_raises \<Rightarrow> Some (Raised, n)
       | Link_cancelled \<Rightarrow> Some (Cancelled, n)
       | Link_up \<Rightarrow> originate c name dest neighbor n)"
    using tell_result_back by (auto simp: comes_back_def Let_def split: link_outcome.split)
qed simp

lemma after_call_back: "comes_back (after_call r)"
  using comes_backD [OF resume_back] by (auto simp: comes_back_def after_call_def split: option.split)

lemma gated_call_back: "env_returns env \<Longrightarrow> comes_back (gated_call env name dest neighbor)"
proof -
  assume e: "env_returns env"
  have "comes_back (then_do (ensuring (dial env name dest neighbor) free_slot) after_call)"
    by (simp add: dial_back [OF e] after_call_back)
  then show ?thesis
    using said_back(1) by (auto simp: comes_back_def gated_call_def Let_def split: prod.split option.split bool.split)
qed

lemma local_app_back: "app_returns (ev_app env name) \<Longrightarrow> comes_back (run_local_app env name)"
  unfolding comes_back_def
proof
  fix n :: node
  assume "app_returns (ev_app env name)"
  then obtain r t where "ev_app env name (nd_term n) = Some (r, t)" unfolding app_returns_def by blast
  then show "\<exists>r n'. run_local_app env name n = Some (r, n')"
    using comes_backD [OF resume_back] said_back(1)
    by (cases r) (simp_all add: run_local_app_def Let_def)
qed

lemma connect_back: "env_returns env \<Longrightarrow> comes_back (cmd_connect env arg)"
  using comes_backD [OF gated_call_back] comes_backD [OF local_app_back] said_back(1)
  by (auto simp: comes_back_def cmd_connect_def Let_def env_returns_def split: option.split)

lemma local_app_shrinks:
  assumes "app_returns (ev_app env name)" and "run_local_app env name n = Some (r, n')"
  shows "node_shrinks n n'"
proof -
  obtain x t where a: "ev_app env name (nd_term n) = Some (x, t)" and w: "weight (t_in t) \<le> weight (t_in (nd_term n))"
    using assms(1) unfolding app_returns_def by blast
  define m where "m = keepalive (t_clock (nd_term n)) (n\<lparr>nd_term := (nd_term n)\<lparr>t_in := t_in t, t_clock := t_clock t, t_sent := t_sent t\<rparr>\<rparr>)"
  have m: "node_shrinks n m" using w by (simp add: m_def node_shrinks_def keepalive_in)
  have "node_shrinks m n'"
    using assms(2) a shrink.trans [OF touch_shrinks [of m] shrink.resumed, of r n'] touch_shrinks [of m]
    by (cases x) (auto simp: run_local_app_def m_def [symmetric] Let_def shrink.refl node_shrinks_def split: if_splits dest: shrink.said)
  with m show ?thesis by (rule shrink.trans)
qed

lemma gated_call_shrinks:
  assumes "gated_call env name dest neighbor n = Some (r, n')"
  shows "node_shrinks n n'"
  using assms
proof (cases rule: gated_call_cases)
  case (refused g why)
  then show ?thesis by simp
next
  case (call g g' r1 n1)
  then show ?thesis by (simp add: call_books_def node_shrinks_def take_slot_def free_slot_def)
qed

lemma connect_shrinks:
  assumes "env_returns env" and "cmd_connect env arg n = Some (r, n')"
  shows "node_shrinks n n'"
  using assms unfolding cmd_connect_def Let_def env_returns_def
  by (auto split: if_splits option.splits dest: shrink.said local_app_shrinks gated_call_shrinks)

lemma listing_back:
  "comes_back (cmd_nodes arg)" "comes_back (cmd_routes arg)" "comes_back cmd_users" "comes_back cmd_info"
  "comes_back (cmd_mheard env)" "comes_back cmd_ports" "comes_back cmd_help"
  unfolding comes_back_def
proof (safe)
  fix n
  have cols: "\<exists>r n'. send_columns ts n = Some (r, n')" for ts
    unfolding send_columns_def by (rule said_back(2))
  show "\<exists>r n'. cmd_nodes arg n = Some (r, n')"
    unfolding cmd_nodes_def Let_def by (simp only: cols said_back split: if_split) simp
  show "\<exists>r n'. cmd_routes arg n = Some (r, n')"
    unfolding cmd_routes_def Let_def by (simp only: said_back split: if_split list.split) simp
  show "\<exists>r n'. cmd_users n = Some (r, n')"
    unfolding cmd_users_def by (rule said_back(2))
  show "\<exists>r n'. cmd_info n = Some (r, n')"
    unfolding cmd_info_def by (rule said_back(2))
  show "\<exists>r n'. cmd_mheard env n = Some (r, n')"
    unfolding cmd_mheard_def Let_def by (simp only: cols said_back split: if_split) simp
  show "\<exists>r n'. cmd_ports n = Some (r, n')"
    unfolding cmd_ports_def by (rule said_back(2))
  show "\<exists>r n'. cmd_help n = Some (r, n')"
    unfolding cmd_help_def by (rule said_back(2))
qed

lemma comes_back_bye: "comes_back cmd_bye"
proof -
  have "comes_back (then_do (tell s) (\<lambda>_ n. Some (Returned (), n\<lparr>nd_running := False\<rparr>)))" for s
    by (rule comes_back_then_do, rule comes_back_tell, simp add: comes_back_def)
  then show ?thesis by (simp add: comes_back_def cmd_bye_def)
qed

lemma run_command_back: "env_returns env \<Longrightarrow> comes_back (run_command env c arg)"
  by (cases c) (simp_all add: connect_back listing_back comes_back_bye)

lemma run_command_shrinks:
  assumes "env_returns env" and "run_command env c arg n = Some (r, n')"
  shows "node_shrinks n n'"
proof (cases c)
  case BYE
  with assms show ?thesis
    by (auto simp: cmd_bye_def node_shrinks_def elim!: then_do_cases dest: shrink.said)
qed (use assms connect_shrinks shrink.listed in \<open>auto\<close>)

lemma run_line_back:
  assumes "env_returns env"
  shows "comes_back (run_line env line)" and "run_line env line n = Some (r, n') \<Longrightarrow> node_shrinks n n'"
proof -
  have rep: "\<exists>r n'. reported (run_command env c arg) n = Some (r, n') \<and> node_shrinks n n'" for c arg n
  proof -
    obtain r1 n1 where m: "run_command env c arg n = Some (r1, n1)"
      using comes_backD [OF run_command_back [OF assms, of c arg]] by blast
    note sh = run_command_shrinks [OF assms m]
    obtain r2 n2 where "tell ''Command failed.'' n1 = Some (r2, n2)" using said_back(1) by blast
    with sh m shrink.trans [OF sh shrink.said] show ?thesis
      by (cases r1) (simp_all add: reported_def)
  qed
  then have b: "comes_back (reported (run_command env c arg))" for c arg
    unfolding comes_back_def by blast
  show "comes_back (run_line env line)"
    unfolding run_line_def by (simp add: b split: prod.split option.split)
  obtain verb arg where v: "split1 CHR 0x20 (strip line) = (verb, arg)" by fastforce
  show "node_shrinks n n'" if r: "run_line env line n = Some (r, n')"
  proof (cases "verb = []")
    case True
    with r v show ?thesis by (simp add: run_line_def result_def shrink.refl)
  next
    case False
    show ?thesis
    proof (cases "resolve_verb verb")
      case None
      with r v False show ?thesis by (simp add: run_line_def shrink.said)
    next
      case (Some c)
      with r v False have "reported (run_command env c (strip (dflt [] arg))) n = Some (r, n')"
        by (simp add: run_line_def)
      with rep [of c "strip (dflt [] arg)" n] show ?thesis by auto
    qed
  qed
qed

lemma ask_line_progress:
  assumes "ask_line n = Some (Returned line, n1)"
  shows "at_eof (nd_term n1) \<or> weight (t_in (nd_term n1)) < weight (t_in (nd_term n))"
    and "at_eof (nd_term n) \<Longrightarrow> line = []" and "at_eof (nd_term n) \<Longrightarrow> at_eof (nd_term n1)"
proof -
  obtain t0 t1 where s: "send (node_prompt n) (nd_term n) = Some ((), t0)"
    and r: "readline 128 None (nd_idle_timeout n) t0 = Some (line, t1)" and n1: "nd_term n1 = t1"
    using assms unfolding ask_line_def by (auto elim!: then_do_cases term_do_cases)
  have t0: "t_in t0 = t_in (nd_term n)" using s by simp
  from readline_progress [OF r] t0 n1
  show "at_eof (nd_term n1) \<or> weight (t_in (nd_term n1)) < weight (t_in (nd_term n))" by simp
  show "line = []" and "at_eof (nd_term n1)" if "at_eof (nd_term n)"
    using that readline_eof [of t0 128 None "nd_idle_timeout n"] r t0 n1 by (auto simp: at_eof_def)
qed

lemma ask_line_back: "comes_back ask_line"
proof -
  have "comes_back (then_do (term_do (send (node_prompt n))) (\<lambda>_. term_do (readline 128 None (nd_idle_timeout n))))" for n
    by simp
  then show ?thesis by (auto simp: comes_back_def ask_line_def)
qed

lemma node_loop_back:
  assumes "env_returns env"
  shows "\<exists>r n'. node_loop env n = Some (r, n')"
proof (induction "weight (t_in (nd_term n))" arbitrary: n rule: less_induct)
  case less
  show ?case
  proof (cases "nd_running n")
    case False
    then show ?thesis by (subst node_loop.simps) simp
  next
    case True
    obtain x n1 where a: "ask_line n = Some (x, n1)" using comes_backD [OF ask_line_back] by blast
    have loop: "node_loop env n = (case x of
              Raised \<Rightarrow> Some (Raised, n1)
            | Cancelled \<Rightarrow> Some (Cancelled, n1)
            | Returned line \<Rightarrow>
                if line = [] then (if at_eof (nd_term n1) then Some (Returned (), n1) else node_loop env n1)
                else (case run_line env line (node_touch (share env n1)) of
                    None \<Rightarrow> None
                  | Some (r2, n2) \<Rightarrow> (case r2 of
                        Raised \<Rightarrow> Some (Raised, n2)
                      | Cancelled \<Rightarrow> Some (Cancelled, n2)
                      | Returned _ \<Rightarrow> node_loop env n2)))"
      using True a by (subst node_loop.simps) simp
    show ?thesis
    proof (cases x)
      case (Returned line)
      note pr = ask_line_progress [OF a [unfolded Returned]]
      show ?thesis
      proof (cases "line = []")
        case True
        with pr(1) less show ?thesis using loop Returned by auto
      next
        case False
        let ?m = "node_touch (share env n1)"
        obtain r2 n2 where l: "run_line env line ?m = Some (r2, n2)"
          using comes_backD [OF run_line_back(1) [OF assms]] by blast
        have "weight (t_in (nd_term n2)) \<le> weight (t_in (nd_term n1))"
          using run_line_back(2) [OF assms l] by (simp add: node_shrinks_def node_touch_def share_def case_prod_beta)
        moreover have "\<not> at_eof (nd_term n)" using pr(2) False by blast
        then have "weight (t_in (nd_term n)) \<noteq> 0" by (simp add: at_eof_def)
        ultimately have "weight (t_in (nd_term n2)) < weight (t_in (nd_term n))"
          using pr(1) by (auto simp: at_eof_def simp del: weight_eq_0)
        with less obtain r3 n3 where "node_loop env n2 = Some (r3, n3)" by blast
        with False loop Returned l show ?thesis by (cases r2) auto
      qed
    qed (simp_all add: loop)
  qed
qed

text \<open>
  C18. The shell ends: whatever the user types, whatever raises, once the applications return and every call
  comes to an end, the command loop returns to the menu or to the engine, at the latest at the end of the stream.
\<close>

theorem node_shell_ends:
  assumes "env_returns env"
  shows "\<exists>r n'. command_loop env n = Some (r, n')"
proof -
  have "comes_back send_banner"
    using said_back(2) unfolding comes_back_def send_banner_def by (simp del: tell_all.simps)
  moreover have "comes_back (node_loop env)"
    using node_loop_back [OF assms] by (simp add: comes_back_def)
  ultimately have "comes_back (then_do send_banner (\<lambda>_. node_loop env))" by simp
  then show ?thesis by (simp add: comes_back_def command_loop_def)
qed

section \<open>The bridge keeps the text\<close>

definition text_of :: "bytes \<Rightarrow> bytes" where
  "text_of bs = filter (\<lambda>b. \<not> is_eol b) bs"

lemma text_of_append [simp]: "text_of (a @ b) = text_of a @ text_of b" and text_of_Nil [simp]: "text_of [] = []"
  by (simp_all add: text_of_def)

lemma text_of_concat: "text_of (concat xs) = concat (map text_of xs)"
  by (induction xs) simp_all

lemma text_of_crlf_to: "list_all is_eol x \<Longrightarrow> text_of (crlf_to x bs) = text_of bs"
  by (induction x bs rule: crlf_to.induct) (auto simp: text_of_def is_eol_def list_all_iff filter_empty_conv)

lemma text_of_replace_byte: "list_all is_eol x \<Longrightarrow> is_eol b \<Longrightarrow> text_of (replace_byte b x bs) = text_of bs"
  by (induction bs) (auto simp: text_of_def replace_byte_def list_all_iff filter_empty_conv)

lemma crlf_to_same: "0x0A \<notin> set bs \<Longrightarrow> crlf_to x bs = bs"
  by (induction x bs rule: crlf_to.induct) auto

lemma replace_byte_gone: "b \<notin> set x \<Longrightarrow> b \<notin> set (replace_byte b x bs)"
  by (induction bs) (auto simp: replace_byte_def)

lemma replace_byte_same: "b \<notin> set bs \<Longrightarrow> replace_byte b x bs = bs"
  by (induction bs) (auto simp: replace_byte_def)

lemma to_far_facts: "text_of (to_far d) = text_of d" "0x0A \<notin> set (to_far d)" "0x0A \<notin> set d \<Longrightarrow> to_far d = d"
  by (simp_all add: to_far_def text_of_replace_byte text_of_crlf_to is_eol_def replace_byte_gone
      replace_byte_same crlf_to_same)

lemma to_user_facts:
  "list_all is_eol eol \<Longrightarrow> text_of (to_user eol d) = text_of d"
  "0x0A \<notin> set d \<Longrightarrow> to_user eol d = concat (map (\<lambda>b. if b = 0x0D then eol else [b]) d)"
proof -
  show "list_all is_eol eol \<Longrightarrow> text_of (to_user eol d) = text_of d"
    by (simp add: to_user_def text_of_replace_byte text_of_crlf_to is_eol_def)
  show "to_user eol d = concat (map (\<lambda>b. if b = 0x0D then eol else [b]) d)" if "0x0A \<notin> set d"
    using that by (simp add: to_user_def crlf_to_same) (induction d; auto simp: replace_byte_def)
qed

lemma lines_split: "whole_lines p @ open_line p = p"
  by (metis whole_lines_def open_line_def rev_append rev_rev_ident takeWhile_dropWhile_id)

text \<open>What one turn does to the user's stream, to the lines still open and to what is sent.\<close>

definition far_data :: "bridge_event list \<Rightarrow> bytes" where
  "far_data es = concat (map (\<lambda>e. case e of Far_turn data _ \<Rightarrow> data | _ \<Rightarrow> []) es)"

fun drains_well :: "bridge_event \<Rightarrow> bool" where
  "drains_well (User_turn e d) \<longleftrightarrow> e \<and> d"
| "drains_well _ \<longleftrightarrow> True"

definition forwarded :: "bytes \<Rightarrow> bytes \<Rightarrow> bytes list \<Rightarrow> bool" where
  "forwarded got kept ws \<longleftrightarrow> text_of (concat ws) @ text_of kept = text_of got \<and> 0x0A \<notin> set (concat ws)
     \<and> (0x0A \<notin> set got \<longrightarrow> concat ws @ kept = got)"

definition shown :: "bytes \<Rightarrow> bytes \<Rightarrow> bytes list \<Rightarrow> bool" where
  "shown eol got ws \<longleftrightarrow> (list_all is_eol eol \<longrightarrow> text_of (concat ws) = text_of got)
     \<and> (0x0A \<notin> set got \<longrightarrow> concat ws = concat (map (\<lambda>b. if b = 0x0D then eol else [b]) got))"

lemma forwarded_Nil: "forwarded p p []"
  by (simp add: forwarded_def)

lemma forwarded_one: "forwarded (raw @ p) p [to_far raw]"
  using to_far_facts [of raw] by (auto simp: forwarded_def)

lemma forwarded_trans:
  assumes "forwarded (p @ a) kept ws" and "forwarded (kept @ b) kept' ws'"
  shows "forwarded (p @ a @ b) kept' (ws @ ws')"
proof -
  have "text_of (concat (ws @ ws')) @ text_of kept' = text_of (p @ a @ b)"
    using assms unfolding forwarded_def by (metis append.assoc concat_append text_of_append)
  moreover have "concat (ws @ ws') @ kept' = p @ a @ b" if "0x0A \<notin> set (p @ a @ b)"
  proof -
    have 1: "concat ws @ kept = p @ a" using assms(1) that by (simp add: forwarded_def)
    then have "0x0A \<notin> set kept" using that by (metis Un_iff set_append)
    with assms(2) that have "concat ws' @ kept' = kept @ b" by (simp add: forwarded_def)
    with 1 show ?thesis by simp
  qed
  ultimately show ?thesis using assms by (simp add: forwarded_def)
qed

lemma shown_append: "shown eol a ws \<Longrightarrow> shown eol b ws' \<Longrightarrow> shown eol (a @ b) (ws @ ws')"
  by (simp add: shown_def)

lemma bytes_of_pass [simp]: "bytes_of (pass d i) = bytes_of i"
  by (induction d i rule: pass.induct) simp_all

lemma bytes_of_append: "bytes_of (i @ j) = bytes_of i @ bytes_of j"
  by (induction i rule: bytes_of.induct) simp_all

lemma bytes_of_bytes: "list_all is_byte i \<Longrightarrow> bytes_of i = map byte_of i"
  by (induction i rule: bytes_of.induct) (simp_all add: is_byte_def)

lemma user_read_bytes:
  assumes "user_read n = (data, n1)"
  shows "bytes_of (t_in (nd_term n)) = data @ bytes_of (t_in (nd_term n1))"
proof -
  let ?i = "t_in (nd_term n)"
  let ?k = "take BRIDGE_CHUNK (takeWhile is_byte ?i)"
  have d: "data = map byte_of ?k" and n1: "t_in (nd_term n1) = drop (length ?k) ?i"
    using assms by (auto simp: user_read_def Let_def node_touch_def)
  have "?k = take (length ?k) ?i"
    by (metis (no_types, lifting) append_eq_conv_conj append_take_drop_id takeWhile_dropWhile_id append.assoc)
  then have "?i = ?k @ drop (length ?k) ?i" by (metis append_take_drop_id)
  then have "bytes_of ?i = bytes_of ?k @ bytes_of (drop (length ?k) ?i)" by (metis bytes_of_append)
  moreover have "list_all is_byte ?k" by (auto simp: list_all_iff dest!: in_set_takeD set_takeWhileD)
  ultimately show ?thesis using d n1 by (simp add: bytes_of_bytes)
qed

lemma forward_lines_facts:
  assumes "forward_lines d p n = (over, p', n')"
  shows "\<exists>ws. nd_far n' = nd_far n @ ws \<and> forwarded p p' ws" and "nd_term n' = nd_term n"
    and "over = None \<or> \<not> d \<and> over = Some Near_done"
    and "nd_echo_local n' = nd_echo_local n" and "nd_user_eol n' = nd_user_eol n"
proof -
  have 1: "forwarded p (open_line p) [to_far (whole_lines p)]" using forwarded_one [of "whole_lines p" "open_line p"] by (simp add: lines_split)
  have 2: "forwarded p [] [to_far p]" using forwarded_one [of p "[]"] by simp
  show "\<exists>ws. nd_far n' = nd_far n @ ws \<and> forwarded p p' ws"
    using assms 1 2 forwarded_Nil by (auto simp: forward_lines_def far_write_def split: if_splits)
qed (use assms in \<open>auto simp: forward_lines_def far_write_def split: if_splits\<close>)

definition turn_kept :: "bridge_event list \<Rightarrow> bytes \<Rightarrow> node \<Rightarrow> bridge_end option \<Rightarrow> bytes \<Rightarrow> node \<Rightarrow> bool" where
  "turn_kept es p n over kept n' \<longleftrightarrow>
     (\<exists>got ws. bytes_of (t_in (nd_term n)) = got @ bytes_of (t_in (nd_term n')) \<and> nd_far n' = nd_far n @ ws
       \<and> forwarded (p @ got) kept ws)
     \<and> (list_all drains_well es \<and> over = Some Near_done \<longrightarrow> kept = [])
     \<and> nd_echo_local n' = nd_echo_local n \<and> nd_user_eol n' = nd_user_eol n"

lemma echo_facts:
  "t_in (nd_term (echo data n)) = t_in (nd_term n)" "nd_far (echo data n) = nd_far n"
  "nd_echo_local (echo data n) = nd_echo_local n" "nd_user_eol (echo data n) = nd_user_eol n"
  by (simp_all add: echo_def user_write_def)

lemma user_read_facts:
  assumes "user_read n = (data, n1)"
  shows "nd_far n1 = nd_far n" and "nd_echo_local n1 = nd_echo_local n" and "nd_user_eol n1 = nd_user_eol n"
    and "t_sent (nd_term n1) = t_sent (nd_term n)"
  using assms by (auto simp: user_read_def Let_def node_touch_def)

lemma user_turn_kept:
  assumes "user_turn e d p n = (over, p', n')"
  shows "\<exists>kept. turn_kept [User_turn e d] p n over kept n' \<and> (over = None \<longrightarrow> kept = p')"
  using assms
proof (cases rule: user_turn_cases)
  case ended
  have "forwarded p [] (if p = [] then [] else [to_far p])"
    using forwarded_one [of p "[]"] by (simp add: forwarded_Nil)
  with ended show ?thesis by (auto simp: turn_kept_def far_write_def)
next
  case (silent w i)
  then show ?thesis by (auto simp: turn_kept_def forwarded_Nil)
next
  case (broken b i data n1)
  with broken user_read_bytes [OF broken(2)] user_read_facts [OF broken(2)] show ?thesis
    by (intro exI [of _ "p @ data"]) (auto simp: turn_kept_def echo_facts forwarded_Nil)
next
  case (read b i data n1)
  note f = forward_lines_facts [OF read(3)]
  obtain ws where ws: "nd_far n' = nd_far (echo data n1) @ ws" "forwarded (p @ data) p' ws" using f(1) by blast
  with f(2-) user_read_bytes [OF read(2)] user_read_facts [OF read(2)] show ?thesis
    by (intro exI [of _ p']) (auto simp: turn_kept_def echo_facts)
qed

lemma bridge_turn_kept:
  assumes "bridge_turn e p n = (over, p', n')"
  shows "\<exists>kept. turn_kept [e] p n over kept n' \<and> (over = None \<longrightarrow> kept = p')"
proof (cases e)
  case (User_turn a d)
  with assms user_turn_kept show ?thesis by simp
next
  case (Far_turn data d)
  with assms show ?thesis
    by (intro exI [of _ p]) (auto simp: far_turn_def turn_kept_def user_write_def node_touch_def forwarded_Nil split: if_splits)
qed (rule exI [of _ p], use assms in \<open>auto simp: turn_kept_def elapse_def forwarded_Nil\<close>)+

lemma turn_kept_trans:
  assumes "turn_kept es p n None p1 n1" and "turn_kept fs p1 n1 over kept n'"
  shows "turn_kept (es @ fs) p n over kept n'"
proof -
  obtain a ws where a: "bytes_of (t_in (nd_term n)) = a @ bytes_of (t_in (nd_term n1))" "nd_far n1 = nd_far n @ ws"
    "forwarded (p @ a) p1 ws" using assms(1) by (auto simp: turn_kept_def)
  obtain b ws' where b: "bytes_of (t_in (nd_term n1)) = b @ bytes_of (t_in (nd_term n'))" "nd_far n' = nd_far n1 @ ws'"
    "forwarded (p1 @ b) kept ws'" using assms(2) by (auto simp: turn_kept_def)
  have "bytes_of (t_in (nd_term n)) = (a @ b) @ bytes_of (t_in (nd_term n'))" "nd_far n' = nd_far n @ (ws @ ws')"
    using a b by simp_all
  with forwarded_trans [OF a(3) b(3)] assms show ?thesis unfolding turn_kept_def by auto
qed

lemma pumps_kept: "pumps es p n = Some (over, n') \<Longrightarrow> \<exists>kept. turn_kept es p n (Some over) kept n'"
proof (induction es arbitrary: p n)
  case (Cons e es)
  obtain x p1 n1 where t: "bridge_turn e p n = (x, p1, n1)" by (cases "bridge_turn e p n")
  obtain kept where k: "turn_kept [e] p n x kept n1" "x = None \<longrightarrow> kept = p1" using bridge_turn_kept [OF t] by blast
  show ?case
  proof (cases x)
    case None
    with Cons.prems t have "pumps es p1 n1 = Some (over, n')" by simp
    from Cons.IH [OF this] obtain kept' where "turn_kept es p1 n1 (Some over) kept' n'" by blast
    with turn_kept_trans [of "[e]" p n p1 n1 es] k None show ?thesis by auto
  next
    case (Some y)
    with Cons.prems t k(1) show ?thesis by (auto simp: turn_kept_def)
  qed
qed simp

text \<open>The other direction, without the echo.\<close>

lemma bridge_turn_shown:
  assumes "bridge_turn e p n = (over, p', n')" and "\<not> nd_echo_local n"
  shows "\<exists>us. t_sent (nd_term n') = t_sent (nd_term n) @ us \<and> shown (nd_user_eol n) (far_data [e]) us"
proof (cases e)
  case (User_turn a d)
  with assms have u: "user_turn a d p n = (over, p', n')" by simp
  have "t_sent (nd_term n') = t_sent (nd_term n)"
    using u
  proof (cases rule: user_turn_cases)
    case (broken b i data n1)
    with assms(2) user_read_facts [OF broken(2)] show ?thesis by simp
  next
    case (read b i data n1)
    with assms(2) user_read_facts [OF read(2)] forward_lines_facts(2) [OF read(3)] show ?thesis by (simp add: echo_def)
  qed (simp_all add: far_write_def)
  with User_turn show ?thesis by (simp add: far_data_def shown_def)
next
  case (Far_turn data d)
  with assms to_user_facts [of "nd_user_eol n" data] to_user_facts(2) [of data "nd_user_eol n"] show ?thesis
    by (auto simp: far_turn_def user_write_def node_touch_def far_data_def shown_def split: if_splits)
qed (use assms in \<open>auto simp: far_data_def shown_def elapse_def\<close>)

lemma pumps_shown:
  "pumps es p n = Some (over, n') \<Longrightarrow> \<not> nd_echo_local n \<Longrightarrow>
     \<exists>ran rest us. es = ran @ rest \<and> t_sent (nd_term n') = t_sent (nd_term n) @ us \<and> shown (nd_user_eol n) (far_data ran) us"
proof (induction es arbitrary: p n)
  case (Cons e es)
  obtain x p1 n1 where t: "bridge_turn e p n = (x, p1, n1)" by (cases "bridge_turn e p n")
  obtain us where us: "t_sent (nd_term n1) = t_sent (nd_term n) @ us" "shown (nd_user_eol n) (far_data [e]) us"
    using bridge_turn_shown [OF t Cons.prems(2)] by blast
  have same: "nd_echo_local n1 = nd_echo_local n" "nd_user_eol n1 = nd_user_eol n"
    using bridge_turn_kept [OF t] by (auto simp: turn_kept_def)
  show ?case
  proof (cases x)
    case None
    with Cons.prems t have "pumps es p1 n1 = Some (over, n')" by simp
    from Cons.IH [OF this] Cons.prems(2) same obtain ran rest us' where r: "es = ran @ rest"
      "t_sent (nd_term n') = t_sent (nd_term n1) @ us'" "shown (nd_user_eol n) (far_data ran) us'" by auto
    have "far_data (e # ran) = far_data [e] @ far_data ran" by (simp add: far_data_def)
    with shown_append [OF us(2) r(3)] r us(1) show ?thesis
      by (intro exI [of _ "e # ran"] exI [of _ rest] exI [of _ "us @ us'"]) simp
  next
    case (Some y)
    with Cons.prems t us show ?thesis by (intro exI [of _ "[e]"] exI [of _ es] exI [of _ us]) simp
  qed
qed simp

text \<open>
  C17. The bridge keeps the text. However the reads of the two pumps cut the streams and however their turns
  interleave, what the far end is sent is what the user typed up to a rest not yet sent, without a byte
  lost, doubled or out of order but for the line ends: of those it sees no LF, and a user who ends
  his lines with CR reaches it byte for byte. When the user hangs up nothing is left unsent. The user sees the
  far end's text, and each CR as his own line end, if the far end sends no LF.
\<close>

theorem bridge_keeps_text:
  assumes "pumps turns [] n = Some (over, n')"
  shows "(\<exists>typed rest sent. bytes_of (t_in (nd_term n)) = typed @ bytes_of (t_in (nd_term n'))
      \<and> nd_far n' = nd_far n @ sent
      \<and> text_of (concat sent) @ text_of rest = text_of typed
      \<and> 0x0A \<notin> set (concat sent)
      \<and> (0x0A \<notin> set typed \<longrightarrow> concat sent @ rest = typed)
      \<and> (list_all drains_well turns \<and> over = Near_done \<longrightarrow> rest = []))
    \<and> (\<not> nd_echo_local n \<and> list_all is_eol (nd_user_eol n) \<longrightarrow>
      (\<exists>ran later seen. turns = ran @ later \<and> t_sent (nd_term n') = t_sent (nd_term n) @ seen
        \<and> text_of (concat seen) = text_of (far_data ran)
        \<and> (0x0A \<notin> set (far_data ran) \<longrightarrow>
             concat seen = concat (map (\<lambda>b. if b = 0x0D then nd_user_eol n else [b]) (far_data ran)))))"
    (is "?forward \<and> (?quiet \<longrightarrow> ?seen)")
proof (intro conjI impI)
  obtain kept where k: "turn_kept turns [] n (Some over) kept n'" using pumps_kept [OF assms] by blast
  then obtain got ws where g: "bytes_of (t_in (nd_term n)) = got @ bytes_of (t_in (nd_term n'))"
    "nd_far n' = nd_far n @ ws" "forwarded got kept ws" by (auto simp: turn_kept_def)
  show ?forward
    using k g by (intro exI [of _ got] exI [of _ kept] exI [of _ ws]) (simp add: forwarded_def turn_kept_def)
  assume q: ?quiet
  with pumps_shown [OF assms] obtain ran later us where "turns = ran @ later"
    "t_sent (nd_term n') = t_sent (nd_term n) @ us" "shown (nd_user_eol n) (far_data ran) us" by blast
  with q show ?seen
    by (intro exI [of _ ran] exI [of _ later] exI [of _ us]) (simp add: shown_def)
qed

section \<open>Witnesses\<close>

definition example_route :: "string \<Rightarrow> callsign \<Rightarrow> int \<Rightarrow> route_entry" where
  "example_route name via q = \<lparr>re_dest_call = ''N0FAR'', re_alias = name, re_neighbor_call = ''N0FAR'', re_quality = q,
     re_via_call = via, re_via_alias = [], re_last_seen = 0, re_obs_count = 5\<rparr>"

definition example_router :: "router" where
  "example_router = (router_init ''N0ME'' ''HERE'' 3600 False 3600 192 [] 0 100 6 4)\<lparr>
     rt_routes := [(''N0FAR'', [example_route ''ZED'' ''N0NEAR'' 200, example_route ''ABLE'' ''N0SLOW'' 10])],
     rt_crosslinks := {''N0NEAR''}\<rparr>"

definition example_node :: "arrival list \<Rightarrow> (bytes list \<Rightarrow> bool) \<Rightarrow> node" where
  "example_node input drain = node_init
     \<lparr>ns_term = terminal_init input drain No_mode 80 24 False False [CR], ns_epoch = 1000000, ns_user_call = ''k1abc'',
      ns_node_call = ''N0ME'', ns_node_alias = ''HERE'', ns_router = example_router,
      ns_transports = [\<lparr>xt_id = ''agwpe'', xt_capable = True\<rparr>], ns_apps = [''bbs''], ns_may_connect = True,
      ns_min_quality = 1, ns_max_gateway_circuits = 4, ns_guard = Some (guard_init default_policy),
      ns_level = Some IDENTIFIED, ns_arrival_via = [], ns_entry = ''menu'', ns_reconnect = True,
      ns_idle_timeout = None, ns_activity = True, ns_user_eol = [CR, LF], ns_echo_local = False\<rparr>"

definition example_env :: "bridge_event list \<Rightarrow> env" where
  "example_env turns = \<lparr>ev_shared = (\<lambda>n. (nd_router n, nd_guard n)), ev_app = (\<lambda>_ t. Some (Returned (), t)),
     ev_heard = None,
     ev_far = (\<lambda>_. \<lparr>fc_link = Link_up, fc_link_ms = 2000, fc_answer = Answered, fc_answer_ms = 3000,
       fc_turns = turns, fc_others = (\<lambda>g. g)\<rparr>)\<rparr>"

definition example_turns :: "bridge_event list" where
  "example_turns = [Far_turn [0x48, 0x49, 0x0D] True, User_turn True True, Passes 10, User_turn True True, Far_turn [] True]"

definition example_input :: "arrival list" where
  "example_input = [Byte 0x61, Byte 0x0D, Silence 6000, Byte 0x62, Silence 9, Byte 0x0D]"

lemma example_turns_end: "Bridge_cancelled \<in> set example_turns \<or> (\<exists>d. Far_turn [] d \<in> set example_turns)"
proof -
  have "Far_turn [] True \<in> set example_turns" by (simp add: example_turns_def)
  then show ?thesis by blast
qed

lemma example_env_returns: "env_returns (example_env example_turns)"
  using example_turns_end by (simp add: env_returns_def app_returns_def call_ends_def example_env_def)

lemma node_shell_ends_witness:
  "\<exists>r n'. command_loop (example_env example_turns) (example_node example_input (\<lambda>_. True)) = Some (r, n')"
  by (rule node_shell_ends [OF example_env_returns])

lemma example_guard: "gateway_inv \<lparr>gw_guard = nd_guard (example_node input drain), gw_held = []\<rparr>"
  by (simp add: example_node_def node_init_def gateway_inv_init)

lemma connect_frees_slot_witness:
  "\<exists>r n'. cmd_connect (example_env example_turns) ''zed'' (example_node example_input (\<lambda>_. True)) = Some (r, n')
     \<and> gg_active_total (nd_guard n') = 0 \<and> nd_active_gateways n' = 0"
proof -
  let ?n = "example_node example_input (\<lambda>_. True)"
  obtain r n' where c: "cmd_connect (example_env example_turns) ''zed'' ?n = Some (r, n')"
    using comes_backD [OF connect_back [OF example_env_returns]] by blast
  have "(\<exists>slots \<in> {[], []}. gateway_inv \<lparr>gw_guard = nd_guard n', gw_held = slots\<rparr>
      \<and> gg_active_total (nd_guard n') = int (length slots)) \<and> nd_active_gateways n' = nd_active_gateways ?n"
    by (rule connect_frees_slot [OF example_guard _ c]) (simp add: example_env_def)
  with c show ?thesis by (auto simp: example_node_def node_init_def)
qed

lemma dial_calls:
  assumes "dial env name dest neighbor n = Some (r, n')" and "always_drains (nd_term n)"
    and "\<And>m. fc_link (ev_far env m) = Link_up"
  shows "nd_dialled n' = nd_dialled n @ [(dest, neighbor, nd_user_call n)]"
  using assms(1) unfolding dial_def
proof (cases rule: then_do_cases)
  case stopped
  have "sendln s (nd_term n) \<noteq> None" for s using send_always [OF assms(2)] by (simp add: sendln_send)
  moreover have "\<exists>s. sendln s (nd_term n) = None"
    using stopped unfolding tell_def by (auto elim!: term_do_cases)
  ultimately show ?thesis by blast
next
  case (went_on x n0)
  have "same_books n n0" by (rule books.said [OF went_on(1)])
  moreover from went_on(2) assms(3) have "originate (ev_far env n0) name dest neighbor
      (elapse (fc_link_ms (ev_far env n0)) (n0\<lparr>nd_guard := fc_others (ev_far env n0) (nd_guard n0)\<rparr>)) = Some (r, n')"
    by (simp add: Let_def)
  from originate_books(2,3) [OF this] have "nd_dialled n' = nd_dialled n0 @ [(dest, neighbor, nd_user_call n0)]"
    by (simp add: elapse_def)
  ultimately show ?thesis by (simp add: same_books_def)
qed

lemma example_gates:
  fixes input drain
  defines "n \<equiv> example_node input drain"
  shows "nd_may_connect n" and "nd_user_call n = ''K1ABC''" and "nd_dialled n = []" and "nd_apps n = [''BBS'']"
    and "nd_node_call n = ''N0ME''" and "nd_transports n = [\<lparr>xt_id = ''agwpe'', xt_capable = True\<rparr>]"
    and "nd_router n = example_router" and "nd_guard n = guard_init default_policy" and "nd_level n = Some IDENTIFIED"
    and "nd_arrival_via n = []" and "nd_min_quality n = 1" and "node_now n = 1000000"
    and "nd_term n = terminal_init input drain No_mode 80 24 False False [CR]"
proof -
  have "upper ''k1abc'' = ''K1ABC''" "upper ''bbs'' = ''BBS''" "upper ''N0ME'' = ''N0ME''" "upper [] = []" by code_simp+
  then show "nd_may_connect n" and "nd_user_call n = ''K1ABC''" and "nd_dialled n = []" and "nd_apps n = [''BBS'']"
    and "nd_node_call n = ''N0ME''" and "nd_transports n = [\<lparr>xt_id = ''agwpe'', xt_capable = True\<rparr>]"
    and "nd_router n = example_router" and "nd_guard n = guard_init default_policy" and "nd_level n = Some IDENTIFIED"
    and "nd_arrival_via n = []" and "nd_min_quality n = 1" and "node_now n = 1000000"
    and "nd_term n = terminal_init input drain No_mode 80 24 False False [CR]"
    by (simp_all add: n_def example_node_def node_init_def node_now_def terminal_init_def)
qed

lemma example_decisions:
  "map_option (\<lambda>r. (upper (re_dest_call r), upper (re_alias r))) (get_route example_router ''zed'') = Some (''N0FAR'', ''ZED'')"
  "best_neighbor_for 1000000 example_router ''zed'' 1 = Some ''N0NEAR''"
  "first_word ''zed'' = ''zed''" "upper ''zed'' = ''ZED''"
  by code_simp+

lemma example_admitted:
  "check 1000000 ''K1ABC'' (Some IDENTIFIED) ''N0NEAR'' [] (guard_init default_policy) = (guard_init default_policy, None)"
  "snd (acquire 1000000 ''K1ABC'' (guard_init default_policy))"
  by (simp add: check_def default_policy_def guard_init_def Let_def, code_simp) code_simp

lemma calls_pass_the_gates_witness:
  "\<exists>r n'. cmd_connect (example_env example_turns) ''zed'' (example_node example_input (\<lambda>_. True)) = Some (r, n')
     \<and> nd_dialled n' = [(''N0FAR'', ''N0NEAR'', ''K1ABC'')]"
proof -
  let ?n = "example_node example_input (\<lambda>_. True)"
  note n = example_gates [of example_input "\<lambda>_. True"]
  obtain r n' where c: "cmd_connect (example_env example_turns) ''zed'' ?n = Some (r, n')"
    using comes_backD [OF connect_back [OF example_env_returns]] by blast
  from example_decisions(1) obtain route where route: "get_route example_router ''zed'' = Some route"
    "upper (re_dest_call route) = ''N0FAR''" "upper (re_alias route) = ''ZED''" by auto
  then have "re_alias route \<noteq> []" by auto
  with c n route example_decisions have g: "gated_call (example_env example_turns) ''ZED'' ''N0FAR'' ''N0NEAR'' ?n = Some (r, n')"
    by (simp add: cmd_connect_def Let_def)
  have d: "nd_dialled n' = [(''N0FAR'', ''N0NEAR'', ''K1ABC'')]"
    using g
  proof (cases rule: gated_call_cases)
    case (refused g why)
    then show ?thesis using n example_admitted by simp
  next
    case (call g g' r1 n1)
    have "always_drains (nd_term (take_slot ''ZED'' g' ?n))"
      by (simp add: take_slot_def n terminal_init_def always_drains_def)
    from dial_calls [OF call(4) this] have "nd_dialled n1 = [(''N0FAR'', ''N0NEAR'', ''K1ABC'')]"
      by (simp add: example_env_def take_slot_def n)
    with call(5) show ?thesis by (simp add: same_books_def free_slot_def)
  qed
  then have "nd_dialled n' \<noteq> nd_dialled ?n" by (simp add: n)
  from calls_pass_the_gates [OF c this] d c show ?thesis by blast
qed

lemma bridge_keeps_text_witness:
  "\<exists>over n'. pumps example_turns [] (example_node example_input (\<lambda>_. True)) = Some (over, n')
     \<and> (\<exists>sent. nd_far n' = sent \<and> 0x0A \<notin> set (concat sent))"
proof -
  obtain over n' where p: "pumps example_turns [] (example_node example_input (\<lambda>_. True)) = Some (over, n')"
    using pumps_end [OF example_turns_end] by blast
  with bridge_keeps_text [OF p] show ?thesis
    by (intro exI [of _ over] exI [of _ n']) (auto simp: example_node_def node_init_def)
qed

section \<open>What the shell does besides\<close>

text \<open>A CR LF that two reads cut apart reaches the far end as two line ends, the second an empty command.\<close>

lemma split_line_end_doubles:
  "(case pumps [User_turn True True, Passes 1, User_turn True True, Far_turn [] True] []
      (example_node [Byte 0x61, Byte 0x0D, Silence 1, Byte 0x0A] (\<lambda>_. True)) of
      None \<Rightarrow> False | Some (over, n') \<Rightarrow> concat (nd_far n') = [0x61, 0x0D, 0x0D])
   \<and> to_far [0x61, 0x0D, 0x0A] = [0x61, 0x0D]"
  by code_simp

text \<open>Where sending to the far end raises, the shell takes it for the user's leaving and ends.\<close>

lemma far_failure_ends_shell:
  "(case then_do (bridge [User_turn True False] ''N0FAR'') (\<lambda>near. after_call (Some near))
        (example_node [Byte 0x61, Byte 0x0D, Silence 5, Byte 0x62] (\<lambda>_. True)) of
      None \<Rightarrow> False
    | Some (r, n') \<Rightarrow> r = Returned () \<and> \<not> nd_running n' \<and> \<not> at_eof (nd_term n'))"
  by code_simp

text \<open>A circuit that came up is never closed when the notice of it cannot be sent.\<close>

lemma unannounced_circuit_left_open:
  assumes "sendln (''*** Connected to '' @ name) (nd_term n) = None"
  shows "hang_on c name dest (n\<lparr>nd_open := nd_open n @ [dest]\<rparr>) = Some (Raised, n\<lparr>nd_open := nd_open n @ [dest]\<rparr>)"
  using assms by (simp add: hang_on_def then_do_def tell_def term_do_def)

lemma unannounced_circuit_left_open_witness:
  "hang_on (fc) ''ZED'' ''N0FAR'' ((example_node [] (\<lambda>_. False))\<lparr>nd_open := [''N0FAR'']\<rparr>)
     = Some (Raised, (example_node [] (\<lambda>_. False))\<lparr>nd_open := [''N0FAR'']\<rparr>)"
proof -
  have "sendln (''*** Connected to '' @ ''ZED'') (nd_term (example_node [] (\<lambda>_. False))) = None"
    by (simp add: example_gates sendln_def term_writeln_def term_write_def terminal_init_def term_flush.simps
        term_encode_def color_mode_of_def) code_simp
  from unannounced_circuit_left_open [OF this] show ?thesis by (simp add: example_node_def node_init_def)
qed

text \<open>NODES lists a destination under the alias that comes first in the alphabet, not under its best route's.\<close>

lemma nodes_lists_first_alias:
  "nodes_tokens [] [] (routing_table example_router) = [''ABLE:N0FAR'']
   \<and> map_option re_alias (get_route example_router ''N0FAR'') = Some ''ZED''"
  by code_simp

end
