(* ===== verification/Engine.thy ===== *)
theory Engine
  imports Node Services
begin

text \<open>
  The engine, \<open>core/engine.py\<close>: where a new connection goes, the tables of live sessions, the journal, and
  the events and log lines for the web server.

  A handler is split at its waits: the part up to the first (\<open>begin_session\<close> and its like) and the part after
  the session, the service or the node shell has run (\<open>close_session\<close> and its like). \<open>engine_step\<close> lets
  the parts of any number of connections interleave; \<open>en_live\<close> lists the sessions whose coroutine runs, which the
  code does not count itself. \<open>serve_bbs\<close> is a BBS connection from end to end. The database is \<open>en_world\<close>, which
  the sessions share; the text of a time is a parameter.
\<close>

section \<open>The node's identity\<close>

text \<open>\<open>BBSConfig.netrom_node_ssid\<close>; the value configured is the text \<open>int\<close> is given, \<open>None\<close> where absent.\<close>

definition netrom_node_ssid :: "bbs_cfg \<Rightarrow> string option \<Rightarrow> nat option" where
  "netrom_node_ssid cfg raw = (case Option.bind raw py_int of
       None \<Rightarrow> None
     | Some ssid \<Rightarrow> if \<not> (0 \<le> ssid \<and> ssid \<le> 15) \<or> ssid = int (bc_ssid cfg) then None else Some (nat ssid))"

definition netrom_node_call :: "bbs_cfg \<Rightarrow> string option \<Rightarrow> callsign option" where
  "netrom_node_call cfg raw = map_option (\<lambda>ssid.
     if ssid = 0 then bc_callsign cfg else bc_callsign cfg @ ''-'' @ nat_str ssid) (netrom_node_ssid cfg raw)"

definition effective_node_call :: "bbs_cfg \<Rightarrow> string option \<Rightarrow> callsign" where
  "effective_node_call cfg raw = (case netrom_node_call cfg raw of None \<Rightarrow> full_callsign cfg | Some c \<Rightarrow> c)"

section \<open>State\<close>

datatype web_event =
    User_connected string string string timestamp
  | User_disconnected string string string timestamp
  | Log_line string timestamp

datatype bus_event = Bus_connected string string | Bus_disconnected string string string auth_level

record engine =
  en_cfg :: bbs_cfg
  en_max_users :: int
  en_stamp :: "timestamp \<Rightarrow> string"
  en_services :: "dispatcher option"
  en_node_call :: "callsign option"
  en_node_alias :: string
  en_node :: "node_plugin option"
  en_sessions :: "(string, session) dict"
  en_tasks :: "(string, nat) dict"
  en_service_sessions :: "(string, connection \<times> service_route) dict"
  en_web_map :: "(string, string) dict"
  en_queue :: "web_event list"
  en_log :: "string list"
  en_bus :: "bus_event list"
  en_world :: world
  en_live :: "string list"

definition LOG_BUFFER_SIZE :: nat where "LOG_BUFFER_SIZE = 500"
definition EVENT_QUEUE_SIZE :: nat where "EVENT_QUEUE_SIZE = 1000"

definition engine_init :: "bbs_cfg \<Rightarrow> int \<Rightarrow> (timestamp \<Rightarrow> string) \<Rightarrow> world \<Rightarrow> engine" where
  "engine_init cfg max_users stamp w =
     \<lparr>en_cfg = cfg, en_max_users = max_users, en_stamp = stamp, en_services = None, en_node_call = None,
      en_node_alias = [], en_node = None, en_sessions = [], en_tasks = [], en_service_sessions = [],
      en_web_map = [], en_queue = [], en_log = [], en_bus = [], en_world = w, en_live = []\<rparr>"

section \<open>The event bridge\<close>

definition emit_event :: "web_event \<Rightarrow> engine \<Rightarrow> engine" where
  "emit_event e st = (if length (en_queue st) < EVENT_QUEUE_SIZE then st\<lparr>en_queue := en_queue st @ [e]\<rparr> else st)"

definition emit_log :: "timestamp \<Rightarrow> string \<Rightarrow> engine \<Rightarrow> engine" where
  "emit_log ts message st =
     (let line = en_stamp st ts @ '' '' @ message; ls = en_log st @ [line] in
      emit_event (Log_line line ts) (st\<lparr>en_log := drop (length ls - LOG_BUFFER_SIZE) ls\<rparr>))"

definition publish_event :: "bus_event \<Rightarrow> engine \<Rightarrow> engine" where
  "publish_event e st = st\<lparr>en_bus := en_bus st @ [e]\<rparr>"

text \<open>\<open>list(self.log_buffer)[-n:]\<close>: all of it for 0.\<close>

definition recent_log_lines :: "int \<Rightarrow> engine \<Rightarrow> string list" where
  "recent_log_lines n st =
     (if 0 < n then drop (length (en_log st) - nat n) (en_log st) else drop (nat (- n)) (en_log st))"

section \<open>Where a connection goes\<close>

datatype landing = Land_node | Land_refused | Land_service service_route | Land_bbs

definition node_called :: "engine \<Rightarrow> connection \<Rightarrow> bool" where
  "node_called st c \<longleftrightarrow> (case en_node_call st of
       None \<Rightarrow> False
     | Some call \<Rightarrow> call \<noteq> [] \<and> (upper (cn_local_addr c) = upper call
         \<or> en_node_alias st \<noteq> [] \<and> upper (cn_local_addr c) = en_node_alias st))"

definition land :: "engine \<Rightarrow> connection \<Rightarrow> landing" where
  "land st c =
     (if node_called st c then Land_node
      else (case en_services st of
          None \<Rightarrow> Land_bbs
        | Some d \<Rightarrow>
            if \<not> services_enabled d then Land_bbs
            else (let decision = match_service c d in
              if sd_action decision = REFUSE then Land_refused
              else if sd_action decision = EXEC then
                (case sd_route decision of None \<Rightarrow> Land_bbs | Some route \<Rightarrow> Land_service route)
              else Land_bbs)))"

definition full_house :: "engine \<Rightarrow> bool" where
  "full_house st \<longleftrightarrow> 0 < en_max_users st \<and> en_max_users st \<le> int (length (en_sessions st))"

definition full_text :: "engine \<Rightarrow> string" where
  "full_text st = [CR, LF] @ ''Sorry, '' @ bc_name (en_cfg st) @ '' is full ('' @ int_str (en_max_users st)
     @ '' users max). Try again later.'' @ [CR, LF]"

section \<open>BBS sessions\<close>

text \<open>\<open>session_id\<close>, set when the session is built: the transport, the address and the time of connection to the millisecond.\<close>

definition half_even :: "rat \<Rightarrow> int" where
  "half_even x = (let f = floor x; d = x - of_int f in
     if d < 1 / 2 \<or> d = 1 / 2 \<and> even f then f else f + 1)"

definition fixed3 :: "timestamp \<Rightarrow> string" where
  "fixed3 x = (let ms = nat (half_even (x * 1000)); frac = nat_str (ms mod 1000) in
     nat_str (ms div 1000) @ ''.'' @ replicate (3 - length frac) CHR 0x30 @ frac)"

definition session_id :: "session \<Rightarrow> string" where
  "session_id s = s_transport s @ '':'' @ s_addr s @ '':'' @ fixed3 (s_connected_at s)"

text \<open>The registration in \<open>_on_connection\<close> (and \<open>_create_and_run_web_session\<close>).\<close>

definition register :: "nat \<Rightarrow> session \<Rightarrow> engine \<Rightarrow> engine" where
  "register task s st = st\<lparr>en_sessions := AList.update (session_id s) s (en_sessions st),
     en_tasks := AList.update (session_id s) task (en_tasks st), en_live := session_id s # en_live st\<rparr>"

text \<open>\<open>_run_session\<close> before and after \<open>session.run\<close>.\<close>

definition announce :: "session \<Rightarrow> engine \<Rightarrow> engine" where
  "announce s st =
     (let ts = now s;
          st = emit_event (User_connected (session_id s) (s_addr s) (s_transport s) ts) st;
          st = emit_log ts (''CONNECT '' @ s_addr s @ '' via '' @ s_transport s) st in
      publish_event (Bus_connected (s_addr s) (s_transport s)) st)"

definition begin_session :: "nat \<Rightarrow> session \<Rightarrow> engine \<Rightarrow> engine" where
  "begin_session task s st = announce s (register task s st)"

definition online_text :: "timestamp \<Rightarrow> string" where
  "online_text secs = ''(online '' @ int_str (trunc secs) @ ''s)''"

definition journal :: "timestamp \<Rightarrow> callsign \<Rightarrow> string \<Rightarrow> timestamp \<Rightarrow> auth_level \<Rightarrow> engine \<Rightarrow> engine" where
  "journal ts call transport connected_at lvl st =
     (if call \<noteq> [] \<and> bc_log_days (en_cfg st) \<noteq> 0 then
        st\<lparr>en_world := (en_world st)\<lparr>w_log :=
          upsert_connection ts call transport connected_at (level_value lvl) 0 (w_log (en_world st))\<rparr>\<rparr>
      else st)"

definition close_session :: "string \<Rightarrow> session \<Rightarrow> engine \<Rightarrow> engine" where
  "close_session sid s st =
     (let ts = now s; call = as_callsign (s_auth s); lvl = as_level (s_auth s);
          st = journal ts call (s_transport s) (s_connected_at s) lvl st;
          st = st\<lparr>en_sessions := AList.delete sid (en_sessions st), en_tasks := AList.delete sid (en_tasks st),
                  en_live := remove1 sid (en_live st)\<rparr>;
          st = emit_event (User_disconnected sid (s_addr s) (s_transport s) ts) st;
          st = publish_event (Bus_disconnected (if call = [] then s_addr s else call) (s_addr s) (s_transport s) lvl) st in
      emit_log ts (''DISCONNECT '' @ s_addr s @ '' '' @ online_text (ts - s_connected_at s)) st)"

text \<open>A BBS connection from its arrival to its end, with nothing else going on; the full house is turned away.\<close>

definition serve_bbs :: "plugins \<Rightarrow> nat \<Rightarrow> session \<Rightarrow> engine \<Rightarrow> engine option" where
  "serve_bbs reg task s st =
     (if full_house st then Some st
      else (let s0 = s\<lparr>s_world := en_world st\<rparr> in
        map_option (\<lambda>s'. close_session (session_id s) s' ((begin_session task s0 st)\<lparr>en_world := s_world s'\<rparr>))
          (run_session (en_cfg st) reg s0)))"

section \<open>External services\<close>

definition service_cap_reached :: "dispatcher \<Rightarrow> engine \<Rightarrow> bool" where
  "service_cap_reached d st \<longleftrightarrow> sv_max_sessions d \<le> int (length (en_service_sessions st))"

definition begin_service :: "dispatcher \<Rightarrow> string \<Rightarrow> timestamp \<Rightarrow> connection \<Rightarrow> service_route \<Rightarrow> engine \<Rightarrow> engine" where
  "begin_service d sid ts c route st =
     (if service_cap_reached d st then st
      else (let st = st\<lparr>en_service_sessions := AList.update sid (c, route) (en_service_sessions st)\<rparr> in
        if sr_quiet route then st
        else emit_log ts (''SERVICE '' @ cn_remote_addr c @ '' '' @ [replacement] @ '' '' @ sr_called route
          @ '' exec '' @ sr_exec_path route) st))"

definition end_service :: "string \<Rightarrow> timestamp \<Rightarrow> timestamp \<Rightarrow> connection \<Rightarrow> service_route \<Rightarrow> engine \<Rightarrow> engine" where
  "end_service sid connected_at ts c route st =
     (let st = st\<lparr>en_service_sessions := AList.delete sid (en_service_sessions st)\<rparr> in
      if sr_quiet route then st
      else emit_log ts (''SERVICE-END '' @ cn_remote_addr c @ '' '' @ [replacement] @ '' '' @ sr_called route @ '' ''
          @ online_text (ts - connected_at))
        (journal ts (cn_remote_addr c) (''service:'' @ sr_called route) connected_at IDENTIFIED st))"

section \<open>The native node landing\<close>

definition node_ready :: "engine \<Rightarrow> bool" where
  "node_ready st \<longleftrightarrow> (case en_node st of None \<Rightarrow> False | Some p \<Rightarrow> np_enabled p)"

definition node_event_id :: "connection \<Rightarrow> timestamp \<Rightarrow> string" where
  "node_event_id c connected_at = ''node:'' @ cn_remote_addr c @ '':'' @ fixed3 connected_at"

definition node_call_text :: "engine \<Rightarrow> string" where
  "node_call_text st = (case en_node_call st of None \<Rightarrow> ''None'' | Some c \<Rightarrow> c)"

definition begin_node :: "timestamp \<Rightarrow> connection \<Rightarrow> engine \<Rightarrow> engine" where
  "begin_node ts c st =
     (if \<not> node_ready st \<or> full_house st then st
      else emit_log ts (''NODE '' @ cn_remote_addr c @ '' '' @ [replacement] @ '' '' @ node_call_text st)
        (emit_event (User_connected (node_event_id c ts) (cn_remote_addr c) (cn_transport_id c) ts) st))"

definition end_node :: "timestamp \<Rightarrow> timestamp \<Rightarrow> connection \<Rightarrow> engine \<Rightarrow> engine" where
  "end_node connected_at ts c st =
     emit_log ts (''NODE-END '' @ cn_remote_addr c @ '' '' @ online_text (ts - connected_at))
       (emit_event (User_disconnected (node_event_id c connected_at) (cn_remote_addr c) (cn_transport_id c) ts)
         (journal ts (cn_remote_addr c) (''node:'' @ node_call_text st) connected_at IDENTIFIED st))"

text \<open>The shell itself: a terminal of its own on the connection, the callsign as it came.\<close>

definition node_terminal :: "connection \<Rightarrow> arrival list \<Rightarrow> (bytes list \<Rightarrow> bool) \<Rightarrow> terminal" where
  "node_terminal c input drain = terminal_init input drain No_mode 80 24 (\<not> is_ax25 (cn_transport_id c)) False
     (if is_ax25 (cn_transport_id c) then [CR] else [CR, LF])"

definition native_shell :: "env \<Rightarrow> nat \<Rightarrow> timestamp \<Rightarrow> connection \<Rightarrow> terminal \<Rightarrow> engine
    \<Rightarrow> (unit outcome \<times> terminal \<times> node_plugin) option" where
  "native_shell env me ts c t st = Option.bind (en_node st) (\<lambda>p.
     run_native env me t ts (cn_netrom_via c) (strip (upper (cn_remote_addr c))) True (timeout_of (en_cfg st)) True
       (Some IDENTIFIED) p)"

text \<open>\<open>_build_netrom_apps\<close>: the names on offer, the BBS first.\<close>

definition netrom_app_names :: "engine \<Rightarrow> string list" where
  "netrom_app_names st = (case en_services st of
       None \<Rightarrow> [''BBS'']
     | Some d \<Rightarrow> if services_enabled d then rev (remdups (rev (''BBS'' # map (\<lambda>r. upper (sr_called r)) (service_routes d)))) else [''BBS''])"

section \<open>Web terminals\<close>

text \<open>\<open>_create_and_run_web_session\<close>; a full house gets the text instead (the result is whether it runs).\<close>

definition open_web :: "string \<Rightarrow> nat \<Rightarrow> session \<Rightarrow> engine \<Rightarrow> engine \<times> bool" where
  "open_web sock task s st =
     (if full_house st then (st, False)
      else ((register task s st)\<lparr>en_web_map := AList.update sock (session_id s) (en_web_map st)\<rparr>, True))"

definition end_web :: "string \<Rightarrow> string \<Rightarrow> session \<Rightarrow> engine \<Rightarrow> engine" where
  "end_web sock sid s st = (let st = close_session sid s st in st\<lparr>en_web_map := AList.delete sock (en_web_map st)\<rparr>)"

definition resize_web :: "string \<Rightarrow> int \<Rightarrow> int \<Rightarrow> engine \<Rightarrow> engine" where
  "resize_web sock cols rows st =
     (case map_of (en_web_map st) sock of
        None \<Rightarrow> st
      | Some sid \<Rightarrow> if sid = [] then st
          else (case map_of (en_sessions st) sid of
            None \<Rightarrow> st
          | Some s \<Rightarrow> st\<lparr>en_sessions := AList.update sid
              (s\<lparr>s_term := (s_term s)\<lparr>t_width := cols, t_height := rows\<rparr>\<rparr>) (en_sessions st)\<rparr>))"

section \<open>The dashboard\<close>

record user_summary =
  us_id :: string
  us_addr :: string
  us_callsign :: string
  us_transport :: string
  us_level :: string
  us_idle :: int
  us_connected_at :: timestamp

definition level_upper :: "auth_level \<Rightarrow> string" where
  "level_upper l = upper (level_name l)"

definition user_row :: "session \<Rightarrow> user_summary" where
  "user_row s = \<lparr>us_id = session_id s, us_addr = s_addr s,
     us_callsign = (if as_callsign (s_auth s) = [] then s_addr s else as_callsign (s_auth s)),
     us_transport = s_transport s, us_level = level_upper (as_level (s_auth s)),
     us_idle = half_even (of_nat (idle_ms s) / 1000), us_connected_at = s_connected_at s\<rparr>"

definition connected_users :: "engine \<Rightarrow> user_summary list" where
  "connected_users st = map (\<lambda>(_, s). user_row s) (en_sessions st)"

text \<open>\<open>netrom_snapshot\<close>: the plugin's, with the circuits of each transport that can tell (\<open>None\<close> where it raises).\<close>

definition netrom_snapshot :: "(nat \<Rightarrow> node) \<Rightarrow> 'c list option list \<Rightarrow> engine \<Rightarrow> (node_snapshot \<times> 'c list) option" where
  "netrom_snapshot nodes circuits st =
     (if node_ready st then map_option (\<lambda>p. (activity_snapshot nodes p,
          concat (map (\<lambda>c. case c of None \<Rightarrow> [] | Some cs \<Rightarrow> cs) circuits))) (en_node st)
      else None)"

text \<open>\<open>reload_services\<close>: the table is swapped; the transports get the callsigns given as the result.\<close>

definition reload_services :: "services_cfg \<Rightarrow> engine \<Rightarrow> engine \<times> callsign list" where
  "reload_services cfg st =
     (let d = reload cfg in (st\<lparr>en_services := Some d\<rparr>, if services_enabled d then route_callsigns d else []))"

section \<open>All connections together\<close>

text \<open>
  The events: a connection arrives (with the session the code builds for it, the number of its task and of its
  service entry), a session gets on or logs in, a session, service or shell ends, and the web server's calls.
\<close>

datatype engine_event =
    Arrives connection session nat string timestamp
  | Session_moves string session
  | Session_logs_in string session
  | Session_done string session
  | Service_done string timestamp timestamp connection service_route
  | Node_done timestamp timestamp connection
  | Web_opens string nat session
  | Web_starts session
  | Web_done string string session
  | Web_resizes string int int
  | Reloads services_cfg
  | Bridge_takes nat

definition arrive :: "connection \<Rightarrow> session \<Rightarrow> nat \<Rightarrow> string \<Rightarrow> timestamp \<Rightarrow> engine \<Rightarrow> engine" where
  "arrive c s task sid ts st = (case land st c of
       Land_node \<Rightarrow> begin_node ts c st
     | Land_refused \<Rightarrow> st
     | Land_service route \<Rightarrow> (case en_services st of None \<Rightarrow> st | Some d \<Rightarrow> begin_service d sid ts c route st)
     | Land_bbs \<Rightarrow> if full_house st then st else begin_session task s st)"

definition log_in_journal :: "session \<Rightarrow> engine \<Rightarrow> engine" where
  "log_in_journal s st = st\<lparr>en_world := s_world (record_connect (en_cfg st) (s\<lparr>s_world := en_world st\<rparr>))\<rparr>"

definition engine_step :: "engine \<Rightarrow> engine_event \<Rightarrow> engine" where
  "engine_step st e = (case e of
       Arrives c s task sid ts \<Rightarrow> arrive c s task sid ts st
     | Session_moves sid s \<Rightarrow>
         (if sid \<in> fst ` set (en_sessions st) then st\<lparr>en_sessions := AList.update sid s (en_sessions st)\<rparr> else st)
     | Session_logs_in sid s \<Rightarrow> (if sid \<in> set (en_live st) then log_in_journal s st else st)
     | Session_done sid s \<Rightarrow> (if sid \<in> set (en_live st) then close_session sid s st else st)
     | Service_done sid t0 ts c route \<Rightarrow> end_service sid t0 ts c route st
     | Node_done t0 ts c \<Rightarrow> end_node t0 ts c st
     | Web_opens sock task s \<Rightarrow> fst (open_web sock task s st)
     | Web_starts s \<Rightarrow> announce s st
     | Web_done sock sid s \<Rightarrow> (if sid \<in> set (en_live st) then end_web sock sid s st else st)
     | Web_resizes sock cols rows \<Rightarrow> resize_web sock cols rows st
     | Reloads cfg \<Rightarrow> fst (reload_services cfg st)
     | Bridge_takes n \<Rightarrow> st\<lparr>en_queue := drop n (en_queue st)\<rparr>)"

end
