(* ===== verification/Engine_Properties.thy ===== *)
theory Engine_Properties
  imports Engine Session_Properties
begin

text \<open>
  Properties of the engine, with their witnesses: its tables in every reachable state, the cap on sessions,
  and a BBS connection from end to end.
\<close>

section \<open>The invariant\<close>

definition engine_inv :: "engine \<Rightarrow> bool" where
  "engine_inv st \<longleftrightarrow>
     distinct (map fst (en_sessions st)) \<and> distinct (map fst (en_tasks st))
     \<and> fst ` set (en_sessions st) = fst ` set (en_tasks st)
     \<and> (0 < en_max_users st \<longrightarrow> int (length (en_sessions st)) \<le> en_max_users st)
     \<and> length (en_queue st) \<le> EVENT_QUEUE_SIZE \<and> length (en_log st) \<le> LOG_BUFFER_SIZE
     \<and> journal_ok (w_log (en_world st))"

text \<open>What the event bridge leaves alone, and what else only adds to the queue, the log and the bus.\<close>

definition same_tables :: "engine \<Rightarrow> engine \<Rightarrow> bool" where
  "same_tables st st' \<longleftrightarrow> en_sessions st' = en_sessions st \<and> en_tasks st' = en_tasks st \<and> en_live st' = en_live st
     \<and> en_max_users st' = en_max_users st \<and> en_world st' = en_world st \<and> en_cfg st' = en_cfg st
     \<and> en_service_sessions st' = en_service_sessions st \<and> en_services st' = en_services st
     \<and> (length (en_queue st) \<le> EVENT_QUEUE_SIZE \<longrightarrow> length (en_queue st') \<le> EVENT_QUEUE_SIZE)
     \<and> (length (en_log st) \<le> LOG_BUFFER_SIZE \<longrightarrow> length (en_log st') \<le> LOG_BUFFER_SIZE)"

lemma same_tables_refl [simp]: "same_tables st st"
  by (simp add: same_tables_def)

lemma same_tables_trans: "same_tables a b \<Longrightarrow> same_tables b c \<Longrightarrow> same_tables a c"
  by (simp add: same_tables_def)

lemma emit_event_tables [simp]: "same_tables st (emit_event e st)"
  by (simp add: same_tables_def emit_event_def)

lemma emit_log_tables [simp]: "same_tables st (emit_log ts m st)"
  by (simp add: same_tables_def emit_log_def emit_event_def LOG_BUFFER_SIZE_def Let_def) linarith

lemma publish_tables [simp]: "same_tables st (publish_event e st)"
  by (simp add: same_tables_def publish_event_def)

lemma announce_tables: "same_tables st (announce s st)"
  unfolding announce_def Let_def
  by (rule same_tables_trans [OF same_tables_trans [OF emit_event_tables emit_log_tables] publish_tables])

lemma inv_same_tables: "engine_inv st \<Longrightarrow> same_tables st st' \<Longrightarrow> engine_inv st'"
  by (simp add: engine_inv_def same_tables_def)

lemma inv_journal: "engine_inv st \<Longrightarrow> engine_inv (journal ts c t t0 l st)"
  by (simp add: engine_inv_def journal_def journal_ok_upsert)

lemma journal_tables:
  "en_sessions (journal ts c t t0 l st) = en_sessions st" "en_tasks (journal ts c t t0 l st) = en_tasks st"
  "en_live (journal ts c t t0 l st) = en_live st" "en_cfg (journal ts c t t0 l st) = en_cfg st"
  "en_max_users (journal ts c t t0 l st) = en_max_users st" "en_bus (journal ts c t t0 l st) = en_bus st"
  "en_service_sessions (journal ts c t t0 l st) = en_service_sessions st"
  by (simp_all add: journal_def)

lemma inv_register:
  assumes "engine_inv st" and "\<not> full_house st" shows "engine_inv (register task s st)"
proof -
  have "length (AList.update (session_id s) s (en_sessions st)) \<le> Suc (length (en_sessions st))"
    by (simp add: length_update)
  with assms show ?thesis
    by (auto simp: engine_inv_def register_def full_house_def distinct_keys_update fst_set_update)
qed

lemma inv_close_session: "engine_inv st \<Longrightarrow> engine_inv (close_session sid s st)"
proof -
  assume i: "engine_inv st"
  define st1 where "st1 = journal (now s) (as_callsign (s_auth s)) (s_transport s) (s_connected_at s) (as_level (s_auth s)) st"
  define st2 where "st2 = st1\<lparr>en_sessions := AList.delete sid (en_sessions st1), en_tasks := AList.delete sid (en_tasks st1),
      en_live := remove1 sid (en_live st1)\<rparr>"
  have "engine_inv st1" using i by (simp add: st1_def inv_journal)
  moreover have "length (AList.delete sid (en_sessions st1)) \<le> length (en_sessions st1)"
    by (simp add: AList.delete_eq length_filter_le)
  ultimately have "engine_inv st2"
    by (auto simp: engine_inv_def st2_def distinct_keys_delete fst_set_delete)
  then show ?thesis
    unfolding close_session_def Let_def st1_def [symmetric] st2_def [symmetric]
    by (rule inv_same_tables) (intro same_tables_trans [OF same_tables_trans [OF emit_event_tables publish_tables] emit_log_tables])
qed

lemma inv_services: "engine_inv st \<Longrightarrow> engine_inv (st\<lparr>en_service_sessions := x\<rparr>)"
  by (simp add: engine_inv_def)

lemma inv_arrive:
  assumes "engine_inv st" shows "engine_inv (arrive c s task sid ts st)"
proof -
  have a: "engine_inv (announce s (register task s st))" if "\<not> full_house st"
    using inv_same_tables [OF inv_register [OF assms that] announce_tables] .
  have n: "engine_inv (begin_node ts c st)"
    unfolding begin_node_def using assms
    by (auto intro: inv_same_tables [OF _ same_tables_trans [OF emit_event_tables emit_log_tables]])
  have b: "engine_inv (begin_service d sid ts c route st)" for d route
    unfolding begin_service_def Let_def using assms inv_services [OF assms]
    by (auto intro: inv_same_tables [OF _ emit_log_tables])
  from a n b assms show ?thesis
    by (simp add: arrive_def begin_session_def split: landing.split option.split)
qed

lemma inv_end_service: "engine_inv st \<Longrightarrow> engine_inv (end_service sid t0 ts c route st)"
  unfolding end_service_def Let_def
  by (auto intro: inv_services inv_same_tables [OF inv_journal [OF inv_services] emit_log_tables])

lemma inv_end_node: "engine_inv st \<Longrightarrow> engine_inv (end_node t0 ts c st)"
  unfolding end_node_def
  by (rule inv_same_tables [OF inv_journal same_tables_trans [OF emit_event_tables emit_log_tables]])

lemma inv_log_in: "engine_inv st \<Longrightarrow> engine_inv (log_in_journal s st)"
  by (auto simp: engine_inv_def log_in_journal_def record_connect_def journal_ok_upsert)

lemma inv_replace: "engine_inv st \<Longrightarrow> sid \<in> fst ` set (en_sessions st) \<Longrightarrow>
    engine_inv (st\<lparr>en_sessions := AList.update sid s (en_sessions st)\<rparr>)"
  by (simp add: engine_inv_def length_update insert_absorb)

lemma inv_resize: "engine_inv st \<Longrightarrow> engine_inv (resize_web sock cols rows st)"
  unfolding resize_web_def
  by (auto split: option.split dest: map_of_SomeD intro!: inv_replace intro: image_eqI [where x = "(_, _)"])

lemma inv_web: "engine_inv st \<Longrightarrow> engine_inv (st\<lparr>en_web_map := x\<rparr>)"
  by (simp add: engine_inv_def)

lemma engine_inv_step: "engine_inv st \<Longrightarrow> engine_inv (engine_step st e)"
proof (cases e)
  case (Web_opens sock task s)
  assume "engine_inv st"
  then show ?thesis
    using Web_opens inv_register [of st task s] inv_web [of "register task s st"]
    by (simp add: engine_step_def open_web_def)
next
  case (Web_starts s)
  assume "engine_inv st"
  then show ?thesis using Web_starts inv_same_tables [OF _ announce_tables] by (simp add: engine_step_def)
next
  case (Web_done sock sid s)
  assume "engine_inv st"
  then show ?thesis using Web_done inv_web [OF inv_close_session] by (simp add: engine_step_def end_web_def Let_def)
next
  case (Bridge_takes n)
  assume "engine_inv st"
  then show ?thesis using Bridge_takes by (auto simp: engine_step_def engine_inv_def)
next
  case (Reloads cfg)
  assume "engine_inv st"
  then show ?thesis using Reloads by (simp add: engine_step_def reload_services_def engine_inv_def Let_def)
qed (simp_all add: engine_step_def inv_arrive inv_replace inv_log_in inv_close_session inv_end_service inv_end_node inv_resize)

text \<open>What no operation changes.\<close>

lemma bridge_fields [simp]:
  "en_max_users (emit_event e st) = en_max_users st" "en_max_users (emit_log ts m st) = en_max_users st"
  "en_max_users (announce s st) = en_max_users st"
  "en_live (emit_event e st) = en_live st" "en_live (emit_log ts m st) = en_live st" "en_live (announce s st) = en_live st"
  "en_sessions (emit_event e st) = en_sessions st" "en_sessions (emit_log ts m st) = en_sessions st"
  "en_sessions (announce s st) = en_sessions st"
  using emit_event_tables [of st e] emit_log_tables [of st ts m] announce_tables [of st s]
  by (simp_all add: same_tables_def)

lemma max_users_step [simp]: "en_max_users (engine_step st e) = en_max_users st"
  by (cases e) (simp_all add: engine_step_def arrive_def begin_node_def begin_service_def begin_session_def register_def
      close_session_def end_service_def end_node_def journal_tables publish_event_def log_in_journal_def open_web_def
      end_web_def resize_web_def reload_services_def Let_def split: landing.split option.split)

interpretation engine_ts: bounded_transition engine_step engine_inv
  "\<lambda>st. if 0 < en_max_users st then length (en_sessions st) else 0" "\<lambda>st. nat (en_max_users st)"
proof unfold_locales
  show "engine_inv st \<Longrightarrow> engine_inv (engine_step st e)" for st e by (rule engine_inv_step)
  show "(if 0 < en_max_users st then length (en_sessions st) else 0) \<le> nat (en_max_users st)" if "engine_inv st" for st
    using that by (auto simp: engine_inv_def)
  show "nat (en_max_users (engine_step st e)) = nat (en_max_users st)" for st e
    by simp
qed

lemma engine_inv_init: "journal_ok (w_log w) \<Longrightarrow> engine_inv (engine_init cfg m stamp w)"
  by (simp add: engine_inv_def engine_init_def)

text \<open>
  C1. The engine's tables hold in every state that arrivals, logins, ends and web calls of any number of
  connections lead to, in any order: never more sessions in the table than \<open>max_users\<close>, one task for each, a
  queue of at most 1000 events and 500 log lines, and one journal row per callsign.
\<close>

theorem engine_tables_sound:
  fixes cfg max_users stamp es
  assumes "journal_ok (w_log w)"
  defines "st \<equiv> run engine_step (engine_init cfg max_users stamp w) es"
  shows "(0 < max_users \<longrightarrow> int (length (en_sessions st)) \<le> max_users)
    \<and> distinct (map fst (en_sessions st)) \<and> fst ` set (en_tasks st) = fst ` set (en_sessions st)
    \<and> length (en_queue st) \<le> 1000 \<and> length (en_log st) \<le> 500 \<and> journal_ok (w_log (en_world st))"
proof -
  have "engine_inv st" unfolding st_def by (rule engine_ts.inv_run [OF engine_inv_init [OF assms(1)]])
  moreover have "nat (en_max_users st) = nat max_users"
    unfolding st_def engine_ts.limit_run by (simp add: engine_init_def)
  ultimately show ?thesis by (auto simp: engine_inv_def EVENT_QUEUE_SIZE_def LOG_BUFFER_SIZE_def)
qed

section \<open>The sessions that run\<close>

text \<open>
  The identifiers of the sessions that arrive are new: \<open>session_id\<close> is made of the transport, the address and
  the millisecond, so two from one address in one millisecond share it.
\<close>

fun new_id :: "engine \<Rightarrow> engine_event \<Rightarrow> bool" where
  "new_id st (Arrives c s task sid ts) \<longleftrightarrow> session_id s \<notin> set (en_live st)"
| "new_id st (Web_opens sock task s) \<longleftrightarrow> session_id s \<notin> set (en_live st)"
| "new_id st _ \<longleftrightarrow> True"

fun new_ids :: "engine \<Rightarrow> engine_event list \<Rightarrow> bool" where
  "new_ids st [] \<longleftrightarrow> True"
| "new_ids st (e # es) \<longleftrightarrow> new_id st e \<and> new_ids (engine_step st e) es"

definition live_ok :: "engine \<Rightarrow> bool" where
  "live_ok st \<longleftrightarrow> distinct (en_live st) \<and> set (en_live st) = fst ` set (en_sessions st)"

lemma live_ok_register: "live_ok st \<Longrightarrow> session_id s \<notin> set (en_live st) \<Longrightarrow> live_ok (register task s st)"
  by (simp add: live_ok_def register_def)

lemma live_ok_end: "live_ok st \<Longrightarrow> live_ok (close_session sid s st)"
  by (auto simp: live_ok_def close_session_def Let_def journal_tables publish_event_def)

lemma live_ok_step:
  assumes "live_ok st" and "new_id st e" shows "live_ok (engine_step st e)"
proof -
  have same: "live_ok st'" if "en_live st' = en_live st" "fst ` set (en_sessions st') = fst ` set (en_sessions st)" for st'
    using assms(1) that by (simp add: live_ok_def)
  show ?thesis
  proof (cases e)
    case (Arrives c s task sid ts)
    have reg: "live_ok (announce s (register task s st))"
      using live_ok_register [OF assms(1), of s task] assms(2) Arrives by (simp add: live_ok_def)
    have "en_live (begin_node ts c st) = en_live st" "en_sessions (begin_node ts c st) = en_sessions st"
      "en_live (begin_service d sid ts c route st) = en_live st" "en_sessions (begin_service d sid ts c route st) = en_sessions st" for d route
      by (simp_all add: begin_node_def begin_service_def Let_def)
    with reg assms(1) Arrives show ?thesis
      by (simp add: engine_step_def arrive_def begin_session_def same split: landing.split option.split)
  next
    case (Web_opens sock task s)
    then show ?thesis using live_ok_register [OF assms(1), of s task] assms
      by (simp add: engine_step_def open_web_def live_ok_def)
  next
    case (Session_done sid s)
    then show ?thesis using live_ok_end [OF assms(1)] assms(1) by (simp add: engine_step_def)
  next
    case (Web_done sock sid s)
    then show ?thesis using live_ok_end [OF assms(1), of sid s] assms(1)
      by (simp add: engine_step_def end_web_def live_ok_def Let_def)
  next
    case (Session_moves sid s)
    have "live_ok (st\<lparr>en_sessions := AList.update sid s (en_sessions st)\<rparr>)" if "sid \<in> fst ` set (en_sessions st)"
      by (rule same) (simp_all add: insert_absorb that)
    then show ?thesis using Session_moves assms(1) by (simp add: engine_step_def)
  next
    case (Web_resizes sock cols rows)
    have "en_live (resize_web sock cols rows st) = en_live st"
      "fst ` set (en_sessions (resize_web sock cols rows st)) = fst ` set (en_sessions st)"
      by (auto simp: resize_web_def split: option.split dest!: map_of_SomeD) force
    then show ?thesis using Web_resizes by (simp add: engine_step_def same)
  qed (auto simp: engine_step_def end_service_def end_node_def journal_tables log_in_journal_def reload_services_def
      Let_def insert_absorb intro!: same)
qed

text \<open>
  C1. The cap on users is a cap on the sessions that run: as long as no two of them share an identifier, every
  running session is in the table and no other, so never more than \<open>max_users\<close> run at once.
\<close>

theorem running_sessions_capped:
  fixes cfg max_users stamp es
  assumes "journal_ok (w_log w)" and "new_ids (engine_init cfg max_users stamp w) es"
  defines "st \<equiv> run engine_step (engine_init cfg max_users stamp w) es"
  shows "set (en_live st) = fst ` set (en_sessions st)
    \<and> (0 < max_users \<longrightarrow> int (length (en_live st)) \<le> max_users)"
proof -
  have live: "live_ok (run engine_step st0 es)" if "live_ok st0" "new_ids st0 es" for st0
    using that by (induction es arbitrary: st0) (auto intro: live_ok_step)
  have "live_ok st"
    unfolding st_def by (rule live [OF _ assms(2)]) (simp add: live_ok_def engine_init_def)
  moreover have i: "engine_inv st" unfolding st_def by (rule engine_ts.inv_run [OF engine_inv_init [OF assms(1)]])
  ultimately have "length (en_live st) = length (en_sessions st)"
    by (metis distinct_card engine_inv_def length_map list.set_map live_ok_def)
  moreover have "nat (en_max_users st) = nat max_users"
    unfolding st_def engine_ts.limit_run by (simp add: engine_init_def)
  ultimately show ?thesis using i \<open>live_ok st\<close> by (auto simp: engine_inv_def live_ok_def)
qed

section \<open>A BBS connection\<close>

lemma delete_new: "k \<notin> fst ` set d \<Longrightarrow> AList.delete k (AList.update k v d) = d"
  by (induction d) (auto simp: AList.delete_eq intro: filter_True)

lemma announce_bus: "en_bus (announce s st) = en_bus st @ [Bus_connected (s_addr s) (s_transport s)]"
  by (simp add: announce_def publish_event_def emit_log_def emit_event_def Let_def)

lemma close_session_bus: "en_bus (close_session sid s st) = en_bus st @ [Bus_disconnected
    (if as_callsign (s_auth s) = [] then s_addr s else as_callsign (s_auth s)) (s_addr s) (s_transport s) (as_level (s_auth s))]"
  by (simp add: close_session_def publish_event_def emit_log_def emit_event_def journal_def Let_def)

lemma close_session_tables:
  "en_sessions (close_session sid s st) = AList.delete sid (en_sessions st)"
  "en_tasks (close_session sid s st) = AList.delete sid (en_tasks st)"
  "en_live (close_session sid s st) = remove1 sid (en_live st)"
  by (simp_all add: close_session_def publish_event_def emit_log_def emit_event_def journal_def Let_def)

lemma close_session_world: "en_world (close_session sid s st) = en_world
    (journal (now s) (as_callsign (s_auth s)) (s_transport s) (s_connected_at s) (as_level (s_auth s)) st)"
  by (simp add: close_session_def publish_event_def emit_log_def emit_event_def Let_def)

lemma journal_row:
  assumes "c \<noteq> []" and "bc_log_days (en_cfg st) \<noteq> 0"
  shows "\<exists>r. Connections.row_of c (w_log (en_world (journal ts c t t0 l st))) = Some r \<and> cn_connected r = 0"
  using assms by (auto simp: journal_def upsert_connection_def Connections.row_of_upsert split: option.split)

text \<open>
  C1. A BBS connection, from its arrival to its end: it returns, the tables are as it found them, the event
  bus has seen one connect and one disconnect of its address, and the journal has the station that
  identified itself as gone. A full house turns it away with nothing changed.
\<close>

theorem bbs_connection_clears_up:
  assumes "\<forall>p \<in> snd ` set reg. plugin_returns p"
    and "session_id s \<notin> fst ` set (en_sessions st) \<union> fst ` set (en_tasks st)"
  shows "\<exists>st'. serve_bbs reg task s st = Some st' \<and> (full_house st \<longrightarrow> st' = st)
    \<and> en_sessions st' = en_sessions st \<and> en_tasks st' = en_tasks st \<and> en_live st' = en_live st
    \<and> (\<not> full_house st \<longrightarrow> (\<exists>s' call. run_session (en_cfg st) reg (s\<lparr>s_world := en_world st\<rparr>) = Some s'
        \<and> call = as_callsign (s_auth s')
        \<and> en_bus st' = en_bus st @ [Bus_connected (s_addr s) (s_transport s),
            Bus_disconnected (if call = [] then s_addr s' else call) (s_addr s') (s_transport s') (as_level (s_auth s'))]
        \<and> (call \<noteq> [] \<and> bc_log_days (en_cfg st) \<noteq> 0 \<longrightarrow>
            (\<exists>r. Connections.row_of call (w_log (en_world st')) = Some r \<and> cn_connected r = 0))))"
proof (cases "full_house st")
  case True
  then show ?thesis by (simp add: serve_bbs_def)
next
  case False
  let ?s = "s\<lparr>s_world := en_world st\<rparr>"
  obtain s' where r: "run_session (en_cfg st) reg ?s = Some s'"
    using session_body_returns [OF assms(1), of "en_cfg st" ?s] by (auto simp: run_session_def)
  define st1 where "st1 = (begin_session task ?s st)\<lparr>en_world := s_world s'\<rparr>"
  define st' where "st' = close_session (session_id s) s' st1"
  have id: "session_id ?s = session_id s" by (simp add: session_id_def)
  have s: "serve_bbs reg task s st = Some st'"
    using False r by (simp add: serve_bbs_def id st'_def st1_def Let_def)
  have t: "same_tables (register task ?s st) (begin_session task ?s st)"
    by (simp add: begin_session_def announce_tables)
  have "en_sessions st' = en_sessions st" "en_tasks st' = en_tasks st" "en_live st' = en_live st"
    using assms(2) t by (simp_all add: st'_def st1_def close_session_tables same_tables_def register_def id delete_new)
  moreover have "en_bus st' = en_bus st @ [Bus_connected (s_addr s) (s_transport s), Bus_disconnected
      (if as_callsign (s_auth s') = [] then s_addr s' else as_callsign (s_auth s')) (s_addr s') (s_transport s') (as_level (s_auth s'))]"
    by (simp add: st'_def st1_def close_session_bus begin_session_def announce_bus register_def)
  moreover have "en_cfg st1 = en_cfg st" using t by (simp add: st1_def same_tables_def register_def)
  then have "as_callsign (s_auth s') \<noteq> [] \<and> bc_log_days (en_cfg st) \<noteq> 0 \<longrightarrow>
      (\<exists>r. Connections.row_of (as_callsign (s_auth s')) (w_log (en_world st')) = Some r \<and> cn_connected r = 0)"
    using journal_row [of "as_callsign (s_auth s')" st1] by (auto simp: st'_def close_session_world)
  ultimately show ?thesis using s False r by blast
qed

section \<open>Witnesses\<close>

definition engine_example :: engine where
  "engine_example = engine_init bbs_example 2 (\<lambda>_. []) world_example"

definition example_conn :: "string \<Rightarrow> connection" where
  "example_conn addr = \<lparr>cn_remote_addr = addr, cn_transport_id = ''agwpe'', cn_hop_count = 0,
     cn_local_addr = ''W6ELA-1'', cn_netrom_via = []\<rparr>"

definition example_session :: "string \<Rightarrow> timestamp \<Rightarrow> session" where
  "example_session addr ts = (radio_example addr [])\<lparr>s_connected_at := ts, s_auth :=
     \<lparr>as_callsign = ''W1AW'', as_level = IDENTIFIED, as_user_id = Some 1, as_approved = True\<rparr>\<rparr>"

lemma bbs_connection_clears_up_witness:
  "\<exists>st'. serve_bbs plugins_example 7 (radio_example ''W1AW-7'' (line_bytes ''B'')) engine_example = Some st'
     \<and> en_sessions st' = [] \<and> en_tasks st' = [] \<and> length (en_bus st') = 2"
proof -
  have n: "session_id (radio_example ''W1AW-7'' (line_bytes ''B'')) \<notin> fst ` set (en_sessions engine_example) \<union> fst ` set (en_tasks engine_example)"
    by (simp add: engine_example_def engine_init_def)
  have "\<not> full_house engine_example" by (simp add: full_house_def engine_example_def engine_init_def)
  with bbs_connection_clears_up [OF _ n, of plugins_example 7] plugins_example_ok show ?thesis
    by (auto simp: engine_example_def engine_init_def)
qed

definition example_events :: "engine_event list" where
  "example_events = [Arrives (example_conn ''W1AW-1'') (example_session ''W1AW-1'' 10) 1 [] 10,
     Session_done (session_id (example_session ''W1AW-1'' 10)) (example_session ''W1AW-1'' 10)]"

lemma engine_tables_sound_witness:
  "int (length (en_sessions (run engine_step engine_example example_events))) \<le> 2"
proof -
  have "journal_ok (w_log world_example)" by (simp add: world_example_def journal_ok_def)
  from engine_tables_sound [OF this, of 2 bbs_example "\<lambda>_. []" example_events] show ?thesis
    by (simp add: engine_example_def)
qed

lemma running_sessions_capped_witness:
  "int (length (en_live (run engine_step engine_example [Web_opens ''a'' 1 (example_session ''W1AW-1'' 10),
      Web_opens ''b'' 2 (example_session ''W1AW-2'' 11)]))) \<le> 2"
proof -
  have j: "journal_ok (w_log world_example)" by (simp add: world_example_def journal_ok_def)
  have "new_ids (engine_init bbs_example 2 (\<lambda>_. []) world_example) [Web_opens ''a'' 1 (example_session ''W1AW-1'' 10),
      Web_opens ''b'' 2 (example_session ''W1AW-2'' 11)]"
    by (simp add: engine_init_def engine_step_def open_web_def full_house_def register_def session_id_def
        example_session_def radio_example_def open_session_def)
  from running_sessions_capped [OF j this] show ?thesis by (simp add: engine_example_def)
qed

section \<open>What the engine does besides\<close>

text \<open>
  The journal has one row per callsign: when one of two sessions of a callsign ends, the row says that the
  station is gone, while the other session runs.
\<close>

lemma journal_forgets_live_session:
  assumes "sid \<in> set (en_live st)" and "other \<in> set (en_live st)" and "other \<noteq> sid"
    and "as_callsign (s_auth s) \<noteq> []" and "bc_log_days (en_cfg st) \<noteq> 0"
  shows "other \<in> set (en_live (engine_step st (Session_done sid s)))
    \<and> (\<exists>r. Connections.row_of (as_callsign (s_auth s)) (w_log (en_world (engine_step st (Session_done sid s)))) = Some r
        \<and> cn_connected r = 0)"
  using assms journal_row [OF assms(4,5)]
  by (simp add: engine_step_def close_session_tables close_session_world)

lemma journal_forgets_live_session_witness:
  defines "a \<equiv> example_session ''W1AW-1'' 10" and "b \<equiv> example_session ''W1AW-2'' 11"
  shows "session_id b \<in> set (en_live (engine_step (register 2 b (register 1 a engine_example)) (Session_done (session_id a) a)))"
proof -
  have "session_id b \<noteq> session_id a"
    by (simp add: a_def b_def session_id_def example_session_def radio_example_def open_session_def)
  moreover have "as_callsign (s_auth a) \<noteq> []" by (simp add: a_def example_session_def)
  ultimately show ?thesis
    using journal_forgets_live_session [of "session_id a" "register 2 b (register 1 a engine_example)" "session_id b" a]
    by (simp add: register_def engine_example_def engine_init_def bbs_example_def)
qed

text \<open>Users of the node's own callsign take no place in the count that \<open>max_users\<close> is compared with.\<close>

lemma node_users_uncounted:
  assumes "node_called st c"
  shows "en_sessions (engine_step st (Arrives c s task sid ts)) = en_sessions st"
    and "full_house (engine_step st (Arrives c s task sid ts)) = full_house st"
  using assms by (simp_all add: engine_step_def arrive_def land_def begin_node_def full_house_def)

text \<open>Two sessions of one address in one millisecond share an identifier, and the table has one of them.\<close>

lemma same_id_shares_entry:
  assumes "session_id s' = session_id s"
  shows "length (en_sessions (register t' s' (register t s st))) = length (en_sessions (register t s st))
    \<and> length (en_live (register t' s' (register t s st))) = Suc (length (en_live (register t s st)))"
  using assms by (simp add: register_def length_update)

end
