(* ===== verification/Spec2Isabelle.thy ===== *)
theory Spec2Isabelle
  imports Codec_Properties Router_Properties Access_Properties Circuit_Properties Services_Properties
    Agwpe_Properties Terminal_Properties Chat_Properties Node_Properties Engine_Properties
begin

text \<open>
  A verification library for the packet-radio bulletin board (\<open>src/bbs\<close>, Python). All paths below
  are under \<open>src/bbs\<close>.

  \<^bold>\<open>The program.\<close> Transports turn radio traffic into connections. The KISS transport
  (\<open>transport/kiss.py\<close>) speaks AX.25 UI frames over a byte-stuffed serial stream; the AGWPE transport
  (\<open>transport/agwpe.py\<close>) talks to a packet engine over TCP and multiplexes connected sessions. A
  session is given to the engine, to an external program (\<open>services/dispatcher.py\<close>,
  \<open>services/bridge.py\<close>), or, when the peer is a NET/ROM node, becomes a crosslink that carries
  virtual circuits (\<open>netrom/circuit.py\<close>). Routing broadcasts heard on the air feed the NET/ROM router
  (\<open>netrom/router.py\<close>), which answers who is the next hop and builds our own broadcasts; the gateway
  guard (\<open>netrom/gateway.py\<close>) decides who may route circuits through the node. Users identify by
  callsign and raise their level with a one-time code (\<open>core/auth.py\<close> over \<open>db/users.py\<close>). A session
  talks to its user through a terminal (\<open>core/terminal.py\<close>); plugins such as the chat
  (\<open>plugins/chat/chat.py\<close>) run in sessions and exchange events over \<open>core/event_bus.py\<close>.

  \<^bold>\<open>The theories.\<close> \<open>Prelude\<close>: strings, bytes and dictionaries as Python has them, with the lemmas all
  components share. \<open>Interfaces\<close>: the contracts as locales (fixed-width codecs, chunked streams,
  bounded counters, registries), each interpreted on the code's own definitions in the theory that
  provides it. Then, one theory per component:

  \<^item> \<open>Address\<close> for \<open>ax25/address.py\<close>; \<open>Netrom_Frame\<close> for \<open>ax25/netrom_frame.py\<close>; \<open>Kiss_Frame\<close> and
    \<open>Kiss_Transport\<close> for \<open>ax25/kiss_frame.py\<close> and \<open>transport/kiss.py\<close>.
  \<^item> \<open>Router\<close> for \<open>netrom/router.py\<close>: the bucketed table, the neighbour and crosslink sets, the
    advertisements and the persisted rows.
  \<^item> \<open>Circuit\<close> and \<open>Circuit_Manager\<close> for \<open>netrom/circuit.py\<close>: one circuit's windows, fragments and
    states, then the tables of a crosslink, as operations and as the step relation \<open>manager_step\<close> over
    everything the event loop can run.
  \<^item> \<open>Agwpe_Frame\<close> and \<open>Agwpe\<close> for \<open>transport/agwpe.py\<close>: the 36-byte frames and the monitor-text
    parsers, then the session table. A crosslink session holds a \<open>Circuit_Manager\<close> manager, so the
    step relation \<open>agw_step\<close> runs \<open>manager_step\<close> inside it.
  \<^item> \<open>Otp\<close>, \<open>Users\<close>, \<open>Auth\<close> for the codes (SHA-1 and HMAC written out), the users table and
    \<open>AuthService\<close>; \<open>Gateway\<close> for \<open>netrom/gateway.py\<close>.
  \<^item> \<open>Services\<close> for the service dispatcher and the bridge's translation; \<open>Event_Bus\<close> for
    \<open>core/event_bus.py\<close>.
  \<^item> \<open>Terminal\<close> for \<open>core/terminal.py\<close>: the reader is the list of what will arrive, bytes and
    silences, so timeouts and type-ahead are part of the input; an operation is a function to the
    result and the terminal after it.
  \<^item> \<open>Registry\<close> for \<open>core/plugin_registry.py\<close>, \<open>Connections\<close> for \<open>db/connections.py\<close> and \<open>Session\<close> for
    \<open>core/session.py\<close>: an action is a function from the session to its result and the session after
    it, over the terminal's operations; a plugin is a record with its handler, and \<open>main_loop\<close> is a
    partial function, since a handler may not come back.
  \<^item> \<open>Node\<close> for \<open>netrom/node.py\<close> and \<open>plugins/node/node.py\<close>: a command is a function from the shell to
    how it ended (returned, raised, cancelled) and the shell after it; the network, the local
    applications and the other sessions are an environment.
  \<^item> \<open>Engine\<close> for \<open>core/engine.py\<close>: each handler in the parts before and after what it waits for, the
    step relation \<open>engine_step\<close> over all connections, and \<open>serve_bbs\<close>, which runs \<open>Session\<close> between the parts.
  \<^item> \<open>Plugins\<close> for \<open>plugins/info\<close> and \<open>plugins/lastconn\<close>, as handlers of a session.
  \<^item> \<open>Chat\<close> for \<open>plugins/chat/chat.py\<close>: rooms and queues in stores, the commands of a session, and
    \<open>chat_step\<close> for all the sessions and persist tasks together.

  The properties, with their witnesses, are in \<open>Codec_Properties\<close>, \<open>Router_Properties\<close>,
  \<open>Access_Properties\<close>, \<open>Circuit_Properties\<close>, \<open>Services_Properties\<close>, \<open>Agwpe_Properties\<close>,
  \<open>Terminal_Properties\<close>, \<open>Chat_Properties\<close>, \<open>Session_Properties\<close>, \<open>Node_Properties\<close> and
  \<open>Engine_Properties\<close>.

  \<^bold>\<open>How the code is read.\<close> An object's attributes are a record. Objects that outlive the tables that
  name them (circuits, sessions, futures) live in a store under a number, and the tables map to
  numbers, so aliasing is explicit. A dictionary is an association list in insertion order. Bytes are
  8-bit words and wrap; Python's integers are \<open>int\<close> or \<open>nat\<close>; times are rationals. An exception is
  \<open>None\<close>; a function that returns \<open>None\<close> as a value has a second option inside. What an operation
  sends, or the observers it calls, are lists in the state. A coroutine is split at its waits: each
  part is an operation, and the step relations allow every interleaving of the parts. A regular
  expression is the search it performs. Characters are 8-bit: a character outside ASCII stands for
  itself only where the source decodes bytes with \<open>errors="replace"\<close>.

  \<^bold>\<open>Loops.\<close> There is no fuel. Every loop is a total recursion, except the main menu and the node's
  command loop, which end only if the plugins, the applications and the calls do, and the info editor, which does not
  always end: these are partial functions into \<open>option\<close>, and \<open>session_ends\<close> and \<open>node_shell_ends\<close> prove
  that the first two return. \<open>write_loop\<close>, \<open>nodes_loop\<close>,
  \<open>split_kiss_frames\<close> and \<open>read_frames\<close> terminate on a measure of the bytes left; a loop that waits for
  input is its body, run once per input. \<open>readchar\<close> and \<open>readline\<close> terminate on the bytes to come,
  \<open>prompt_menu\<close> on the bytes and silences to come. A frame whose handling raises is dropped by the AGWPE read
  loop; what the circuit manager had changed before the exception is not kept in the model.

  \<^bold>\<open>What the lemmas show.\<close> The codecs decode what they encode and never raise on junk. The stream
  readers do not depend on how reads cut the stream. The router's table keeps its shape under every
  operation, never installs a route through this node at more than quality 0, and two nodes exchange
  their tables. A circuit delivers what was written, within its window. The manager's and the AGWPE
  transport's invariants hold in every reachable state, and losing the link closes what rode on it.
  Levels above \<open>IDENTIFIED\<close> need a matching code, and guessing locks the account. The gateway's
  caps hold. The line editor is a reference editor, paging shows a prefix of the lines, a menu prompt
  is answered or raises. A chat message reaches each member of its room once, a whisper one queue, and
  the room and queue tables are sound in every reachable state. A session ends whatever arrives, and
  leaves with a level above \<open>IDENTIFIED\<close> only if a typed code was accepted. A call through the node passes the
  gates first and frees its slot however it ends, and the bridge loses, doubles and reorders no text. The engine's
  tables hold in every reachable state, no more sessions run than it allows, and a connection leaves them as it
  found them. Other theorems pin down behaviour that looks unintended; the manifest lists them as
  findings.

  \<^bold>\<open>Not modelled.\<close> Opening sockets and serial ports, processes and files; SQL text (the users table
  and the router's rows are modelled as the rows the statements leave); log and display text; the
  kernel AX.25, TCP and web transports; the Flask server; the heard and display plugins. The start-up
  wiring of the engine and the bulletin plugin are not modelled.
\<close>

end
